(* ===== verification/StrataPrelude.thy ===== *)
theory StrataPrelude
  imports
    Main
    "HOL-Library.Word"
    "HOL-Library.Char_ord"
    "HOL-Library.List_Lexorder"
    "HOL-Library.Sublist"
begin

text \<open>
  Shared vocabulary of the development: the machine integers of the C++ sources, ordered
  associative containers (\<open>std::map\<close>, and \<open>std::unordered_map\<close> where only lookups and
  order-independent iterations are made), and the generic facts about them that the
  component theories use.
  The order on \<open>string\<close> that \<open>Char_ord\<close> and \<open>List_Lexorder\<close> install is the bytewise
  lexicographic order of \<open>std::string::operator<\<close> and of \<open>RegionBytewiseLess\<close>.
\<close>

type_synonym u64 = "64 word"
type_synonym u32 = "32 word"

abbreviation UINT64_MAX :: u64 where
  "UINT64_MAX \<equiv> - 1"

named_theorems omap_simps \<open>lookups after updates of ordered maps\<close>

section \<open>Ordered maps\<close>

text \<open>
  A \<open>std::map\<close> is the list of its entries in iteration order. \<open>om_put\<close> is
  \<open>m[k] = v\<close>, \<open>om_del\<close> is \<open>m.erase(k)\<close>, and a lookup is \<open>map_of\<close>.
\<close>

type_synonym ('k, 'v) omap = "('k \<times> 'v) list"

fun om_put :: "'k::linorder \<Rightarrow> 'v \<Rightarrow> ('k, 'v) omap \<Rightarrow> ('k, 'v) omap" where
  "om_put k v [] = [(k, v)]"
| "om_put k v (e # m) =
     (if fst e < k then e # om_put k v m
      else if fst e = k then (k, v) # m
      else (k, v) # e # m)"

definition om_del :: "'k \<Rightarrow> ('k, 'v) omap \<Rightarrow> ('k, 'v) omap" where
  "om_del k m = filter (\<lambda>e. fst e \<noteq> k) m"

definition om_ok :: "('k::linorder, 'v) omap \<Rightarrow> bool" where
  "om_ok m \<longleftrightarrow> sorted_wrt (<) (map fst m)"

lemma map_of_om_put [simp, omap_simps]: "map_of (om_put k v m) = (map_of m)(k \<mapsto> v)"
  by (induction m) (auto simp: fun_eq_iff)

lemma map_of_om_del [simp, omap_simps]: "map_of (om_del k m) = (map_of m)(k := None)"
  by (induction m) (auto simp: fun_eq_iff om_del_def)

lemma fst_set_om_put [simp]: "fst ` set (om_put k v m) = insert k (fst ` set m)"
  by (induction m) (auto simp: image_iff)

lemma set_om_put_subset: "set (om_put k v m) \<subseteq> insert (k, v) (set m)"
  by (induction m) auto

lemma set_om_del: "set (om_del k m) = {e \<in> set m. fst e \<noteq> k}"
  by (auto simp: om_del_def)

lemma om_ok_Nil [simp]: "om_ok []"
  by (simp add: om_ok_def)

lemma om_ok_Cons: "om_ok (e # m) \<longleftrightarrow> (\<forall>x \<in> set m. fst e < fst x) \<and> om_ok m"
  by (auto simp: om_ok_def)

lemma om_ok_put [simp, intro]: "om_ok m \<Longrightarrow> om_ok (om_put k v m)"
proof (induction m)
  case Nil
  then show ?case by (simp add: om_ok_def)
next
  case (Cons e m)
  from Cons.prems have lt: "\<forall>x \<in> set m. fst e < fst x" and ok: "om_ok m"
    by (auto simp: om_ok_Cons)
  consider "fst e < k" | "fst e = k" | "k < fst e" by (rule linorder_cases)
  then show ?case
  proof cases
    case 1
    have "\<forall>x \<in> set (om_put k v m). fst e < fst x"
      using lt 1 set_om_put_subset [of k v m] by fastforce
    with Cons.IH [OF ok] 1 show ?thesis by (simp add: om_ok_Cons)
  next
    case 2
    with lt ok show ?thesis by (simp add: om_ok_Cons)
  next
    case 3
    then have "\<forall>x \<in> set m. k < fst x" using lt by (meson less_trans)
    with 3 lt ok show ?thesis by (auto simp: om_ok_Cons)
  qed
qed

lemma om_ok_filter [simp, intro]: "om_ok m \<Longrightarrow> om_ok (filter P m)"
  by (induction m) (auto simp: om_ok_Cons)

lemma om_ok_del [simp, intro]: "om_ok m \<Longrightarrow> om_ok (om_del k m)"
  by (simp add: om_del_def)

lemma om_ok_distinct: "om_ok m \<Longrightarrow> distinct (map fst m)"
  by (induction m) (auto simp: om_ok_Cons)

lemma om_ok_sorted: "om_ok m \<Longrightarrow> sorted (map fst m)"
  by (induction m) (auto simp: om_ok_Cons less_imp_le)

lemma om_lookup_iff: "om_ok m \<Longrightarrow> map_of m k = Some v \<longleftrightarrow> (k, v) \<in> set m"
  by (simp add: om_ok_distinct)

lemma om_lookup_None: "map_of m k = None \<longleftrightarrow> k \<notin> fst ` set m"
  by (rule map_of_eq_None_iff)

lemma om_ok_eqI:
  assumes "om_ok m" and "om_ok n" and "map_of m = map_of n"
  shows "m = n"
  using assms
proof (induction m arbitrary: n)
  case Nil
  then show ?case by (metis map_of.simps(1) map_of_eq_empty_iff)
next
  case (Cons e m)
  have iff: "x \<in> set (e # m) \<longleftrightarrow> x \<in> set n" for x
    using om_lookup_iff [OF Cons.prems(1), of "fst x" "snd x"]
      om_lookup_iff [OF Cons.prems(2), of "fst x" "snd x"]
    unfolding Cons.prems(3) prod.collapse by blast
  have "n \<noteq> []" using iff [of e] by auto
  then obtain f n' where n: "n = f # n'" by (cases n) auto
  have lt: "\<forall>x \<in> set m. fst e < fst x" "\<forall>x \<in> set n'. fst f < fst x"
    and ok: "om_ok m" "om_ok n'"
    using Cons.prems n by (auto simp: om_ok_Cons)
  have "e = f"
  proof (rule ccontr)
    assume "e \<noteq> f"
    with iff [of e] iff [of f] n have "e \<in> set n'" "f \<in> set m" by auto
    with lt show False by force
  qed
  moreover have "x \<in> set m \<longleftrightarrow> x \<in> set n'" for x
    using iff [of x] lt \<open>e = f\<close> unfolding n by auto
  then have "map_of m k = map_of n' k" for k
    using om_lookup_iff [OF ok(1), of k] om_lookup_iff [OF ok(2), of k]
    by (cases "map_of m k"; cases "map_of n' k") auto
  then have "map_of m = map_of n'" by (rule ext)
  ultimately show ?case using Cons.IH [OF ok] n by simp
qed

lemma map_of_filter_key:
  "map_of (filter (\<lambda>e. P (fst e)) m) k = (if P k then map_of m k else None)"
  by (induction m) auto

text \<open>On an ordered map the entries below a bound are a prefix of the iteration order.\<close>

lemma om_takeWhile_le:
  "om_ok m \<Longrightarrow> takeWhile (\<lambda>e. fst e \<le> b) m = filter (\<lambda>e. fst e \<le> b) m"
proof (induction m)
  case (Cons e m)
  then have "\<not> fst e \<le> b \<Longrightarrow> filter (\<lambda>e. fst e \<le> b) m = []"
    by (fastforce simp: om_ok_Cons intro: filter_False)
  with Cons show ?case by (auto simp: om_ok_Cons)
qed simp

lemma om_takeWhile_less:
  "om_ok m \<Longrightarrow> takeWhile (\<lambda>e. fst e < b) m = filter (\<lambda>e. fst e < b) m"
proof (induction m)
  case (Cons e m)
  then have "\<not> fst e < b \<Longrightarrow> filter (\<lambda>e. fst e < b) m = []"
    by (fastforce simp: om_ok_Cons intro: filter_False)
  with Cons show ?case by (auto simp: om_ok_Cons)
qed simp

lemma om_dropWhile_less:
  "om_ok m \<Longrightarrow> dropWhile (\<lambda>e. fst e < b) m = filter (\<lambda>e. \<not> fst e < b) m"
proof (induction m)
  case (Cons e m)
  then have "\<not> fst e < b \<Longrightarrow> filter (\<lambda>e. \<not> fst e < b) m = m"
    by (fastforce simp: om_ok_Cons intro: filter_True)
  with Cons show ?case by (auto simp: om_ok_Cons)
qed simp

section \<open>Searching\<close>

lemma find_Some_D: "List.find P xs = Some x \<Longrightarrow> x \<in> set xs \<and> P x"
  by (induction xs) (auto split: if_splits)

lemma find_None_D: "List.find P xs = None \<Longrightarrow> x \<in> set xs \<Longrightarrow> \<not> P x"
  by (auto simp: find_None_iff)

lemma find_filter_cong:
  "(\<And>x. x \<in> set xs \<Longrightarrow> P x \<Longrightarrow> Q x) \<Longrightarrow> List.find P (filter Q xs) = List.find P xs"
  by (induction xs) auto

section \<open>Machine words\<close>

lemma bit_less_exp:
  fixes w :: "'a::len word"
  assumes "unat w < 2 ^ k" and "bit w n"
  shows "n < k"
proof -
  have "take_bit k (unat w) = unat w" using assms(1) by (simp add: take_bit_nat_eq_self_iff)
  moreover have "bit (unat w) n" using assms(2) by (simp add: bit_unsigned_iff)
  ultimately show ?thesis by (metis bit_take_bit_iff)
qed

lemma unat_u64_less: "unat (t :: u64) < 18446744073709551616"
  using unsigned_less [of t, where 'a = nat] by simp

lemma unat_UINT64_MAX [simp]: "unat UINT64_MAX = 18446744073709551615"
  by (simp add: unsigned_minus_1_eq_mask mask_eq_exp_minus_1)

lemma u64_add_no_wrap:
  fixes r e :: u64
  assumes "\<not> r > UINT64_MAX - e"
  shows "r \<le> r + e"
proof -
  have "unat (UINT64_MAX - e) = 18446744073709551615 - unat e"
    by (subst unat_sub) simp_all
  with assms have "unat r + unat e < 2 ^ LENGTH(64)"
    using unat_u64_less [of e] by (simp add: word_less_nat_alt)
  then show ?thesis by (simp add: no_olen_add_nat)
qed

lemma u64_less_Suc: "t \<noteq> UINT64_MAX \<Longrightarrow> t < t + 1" for t :: u64
  using unatSuc [of t] by (auto simp: word_less_nat_alt add.commute add_eq_0_iff)

end
