(* ===== verification/MvccCodec.thy ===== *)
theory MvccCodec
  imports StrataPrelude
begin

text \<open>
  The textual encodings of \<open>mvcc_storage.cpp\<close>: decimal timestamps, length-prefixed
  fields, lock and write records, and the engine keys of the four keyspaces
  \<open>data/\<close>, \<open>lock/\<close>, \<open>write/\<close> and \<open>meta/revision/\<close>.
  The lemmas are the round trips that the storage layer relies on, the injectivity and
  disjointness of the keyspaces, and the inputs on which the field decoder does not return.
\<close>

section \<open>Numbers as text\<close>

text \<open>\<open>std::to_string\<close> and \<open>operator<<\<close> on an unsigned value.\<close>

definition digit_char :: "nat \<Rightarrow> char" where
  "digit_char d = char_of (48 + d)"

fun dec :: "nat \<Rightarrow> string" where
  "dec n = (if n < 10 then [digit_char n] else dec (n div 10) @ [digit_char (n mod 10)])"

declare dec.simps [simp del]

definition to_string :: "u64 \<Rightarrow> string" where
  "to_string w = dec (unat w)"

definition EncodeTs :: "u64 \<Rightarrow> string" where
  "EncodeTs ts = replicate (20 - length (dec (unat ts))) CHR ''0'' @ dec (unat ts)"

text \<open>
  \<open>std::strtoull(s.c_str(), nullptr, 10)\<close>: leading white space, an optional sign, the
  longest run of digits; saturation on overflow, negation modulo \<open>2^64\<close> after a minus sign.
\<close>

definition isdigit :: "char \<Rightarrow> bool" where
  "isdigit c \<longleftrightarrow> 48 \<le> (of_char c :: nat) \<and> (of_char c :: nat) \<le> 57"

definition isspace :: "char \<Rightarrow> bool" where
  "isspace c \<longleftrightarrow> (of_char c :: nat) = 32 \<or> 9 \<le> (of_char c :: nat) \<and> (of_char c :: nat) \<le> 13"

definition digits_val :: "string \<Rightarrow> nat" where
  "digits_val ds = foldl (\<lambda>acc c. 10 * acc + (of_char c - 48)) 0 ds"

definition strtoull :: "string \<Rightarrow> u64" where
  "strtoull s =
     (let s1 = dropWhile isspace s;
          neg = (case s1 of c # _ \<Rightarrow> c = CHR ''-'' | [] \<Rightarrow> False);
          s2 = (case s1 of c # r \<Rightarrow> if c = CHR ''-'' \<or> c = CHR ''+'' then r else s1 | [] \<Rightarrow> []);
          n = digits_val (takeWhile isdigit s2)
      in if n \<ge> 2 ^ 64 then UINT64_MAX
         else if neg then - of_nat n else of_nat n)"

definition DecodeTs :: "string \<Rightarrow> u64" where
  "DecodeTs encoded = strtoull encoded"

lemma of_char_digit_char [simp]: "d < 10 \<Longrightarrow> (of_char (digit_char d) :: nat) = 48 + d"
  by (simp add: digit_char_def)

lemma isdigit_digit_char [simp]: "d < 10 \<Longrightarrow> isdigit (digit_char d)"
  by (simp add: isdigit_def)

lemma dec_nonempty [simp]: "dec n \<noteq> []"
  by (subst dec.simps) simp

lemma dec_isdigit: "\<forall>c \<in> set (dec n). isdigit c"
proof (induction n rule: dec.induct)
  case (1 n)
  then show ?case by (subst dec.simps) auto
qed

lemma digits_val_append:
  "digits_val (xs @ [c]) = 10 * digits_val xs + (of_char c - 48)"
  by (simp add: digits_val_def)

lemma digits_val_dec [simp]: "digits_val (dec n) = n"
proof (induction n rule: dec.induct)
  case (1 n)
  show ?case
  proof (cases "n < 10")
    case True
    then show ?thesis by (subst dec.simps) (simp add: digits_val_def)
  next
    case False
    with "1.IH" show ?thesis by (subst dec.simps) (simp add: digits_val_append)
  qed
qed

lemma digits_val_zeros [simp]: "digits_val (replicate k CHR ''0'' @ xs) = digits_val xs"
  by (induction k) (simp_all add: digits_val_def)

lemma isdigit_not_space: "isdigit c \<Longrightarrow> \<not> isspace c"
  by (auto simp: isdigit_def isspace_def)

lemma isdigit_not_sign: "isdigit c \<Longrightarrow> c \<noteq> CHR ''-'' \<and> c \<noteq> CHR ''+''"
  by (auto simp: isdigit_def)

lemma strtoull_digits:
  assumes "\<forall>c \<in> set ds. isdigit c" and "ds \<noteq> []" and "digits_val ds < 2 ^ 64"
    and "rest = [] \<or> \<not> isdigit (hd rest)"
  shows "strtoull (ds @ rest) = of_nat (digits_val ds)"
proof -
  obtain c cs where ds: "ds = c # cs" using assms(2) by (cases ds) auto
  have c: "isdigit c" using assms(1) ds by simp
  have "takeWhile isdigit (ds @ rest) = ds"
    using assms(1,4) by (cases rest) (auto simp: takeWhile_append2)
  with ds c assms(3) show ?thesis
    using isdigit_not_space [OF c] isdigit_not_sign [OF c]
    by (simp add: strtoull_def Let_def)
qed

lemma unat_u64_bound: "unat (w :: u64) < 2 ^ 64"
  by (rule order_less_le_trans [OF unsigned_less]) simp

lemma strtoull_to_string [simp]: "strtoull (to_string w) = w"
  using strtoull_digits [of "dec (unat w)" "[]"] dec_isdigit unat_u64_bound [of w]
  by (simp add: to_string_def)

lemma EncodeTs_isdigit: "\<forall>c \<in> set (EncodeTs ts). isdigit c"
  using dec_isdigit [of "unat ts"] by (auto simp: EncodeTs_def isdigit_def)

lemma EncodeTs_nonempty [simp]: "EncodeTs ts \<noteq> []"
  by (simp add: EncodeTs_def)

lemma digits_val_EncodeTs [simp]: "digits_val (EncodeTs ts) = unat ts"
  by (simp add: EncodeTs_def)

lemma DecodeTs_EncodeTs [simp]: "DecodeTs (EncodeTs ts) = ts"
  using strtoull_digits [of "EncodeTs ts" "[]"] EncodeTs_isdigit unat_u64_bound [of ts]
  by (simp add: DecodeTs_def)

lemma DecodeTs_to_string [simp]: "DecodeTs (to_string ts) = ts"
  by (simp add: DecodeTs_def)

lemma length_dec_le: "n < 10 ^ k \<Longrightarrow> 0 < k \<Longrightarrow> length (dec n) \<le> k"
proof (induction n arbitrary: k rule: dec.induct)
  case (1 n)
  show ?case
  proof (cases "n < 10")
    case True
    with "1.prems" show ?thesis by (subst dec.simps) simp
  next
    case False
    with "1.prems" obtain j where k: "k = Suc j" and "0 < j"
      by (cases k; cases "k = 1") auto
    with "1.prems" False have "length (dec (n div 10)) \<le> j"
      by (intro "1.IH") (auto simp: less_mult_imp_div_less)
    with False k show ?thesis by (subst dec.simps) simp
  qed
qed

lemma length_EncodeTs [simp]: "length (EncodeTs ts) = 20"
proof -
  have "unat ts < 10 ^ 20" using unat_u64_bound [of ts] by simp
  then have "length (dec (unat ts)) \<le> 20" by (rule length_dec_le) simp
  then show ?thesis by (simp add: EncodeTs_def)
qed

lemma EncodeTs_inject [simp]: "EncodeTs a = EncodeTs b \<longleftrightarrow> a = b"
  by (metis DecodeTs_EncodeTs)

lemma isdigit_no_slash: "isdigit c \<Longrightarrow> c \<noteq> CHR ''/''"
  by (auto simp: isdigit_def)

lemma isdigit_no_colon: "isdigit c \<Longrightarrow> c \<noteq> CHR '':''"
  by (auto simp: isdigit_def)

section \<open>Length-prefixed fields\<close>

definition AppendField :: "string \<Rightarrow> string \<Rightarrow> string" where
  "AppendField output value = output @ dec (length value) @ '':'' @ value"

definition EncodeFields :: "string list \<Rightarrow> string" where
  "EncodeFields fields = foldl AppendField [] fields"

text \<open>
  \<open>input.find(':', pos)\<close>, and the decoding loop. Positions are \<open>size_t\<close>, so the end of a
  field is computed modulo \<open>2^64\<close>. The outer option is non-termination, the inner one
  the boolean result together with the decoded fields.
\<close>

definition find_from :: "char \<Rightarrow> string \<Rightarrow> nat \<Rightarrow> nat option" where
  "find_from c input pos =
     (if c \<in> set (drop pos input)
      then Some (pos + length (takeWhile (\<lambda>x. x \<noteq> c) (drop pos input))) else None)"

definition substr :: "string \<Rightarrow> nat \<Rightarrow> nat \<Rightarrow> string" where
  "substr s pos len = take len (drop pos s)"

partial_function (option) DecodeFieldsLoop ::
  "string \<Rightarrow> nat \<Rightarrow> string list \<Rightarrow> string list option option" where
  "DecodeFieldsLoop input pos fields =
     (if pos < length input then
        (case find_from CHR '':'' input pos of
           None \<Rightarrow> Some None
         | Some colon \<Rightarrow>
             (let len = unat (strtoull (substr input pos (colon - pos)));
                  begin = colon + 1;
                  stop = (begin + len) mod 2 ^ 64
              in if stop > length input then Some None
                 else DecodeFieldsLoop input stop (fields @ [substr input begin len])))
      else Some (Some fields))"

definition DecodeFields :: "string \<Rightarrow> string list option option" where
  "DecodeFields input = DecodeFieldsLoop input 0 []"

definition field :: "string \<Rightarrow> string" where
  "field v = dec (length v) @ CHR '':'' # v"

lemma foldl_AppendField: "foldl AppendField acc fs = acc @ concat (map field fs)"
  by (induction fs arbitrary: acc) (simp_all add: AppendField_def field_def)

lemma EncodeFields_concat: "EncodeFields fs = concat (map field fs)"
  by (simp add: EncodeFields_def foldl_AppendField)

lemma find_colon:
  assumes "\<forall>c \<in> set ds. isdigit c"
  shows "find_from CHR '':'' (pre @ ds @ CHR '':'' # rest) (length pre) = Some (length pre + length ds)"
proof -
  have "takeWhile (\<lambda>x. x \<noteq> CHR '':'') (ds @ CHR '':'' # rest) = ds"
    using assms isdigit_no_colon by (subst takeWhile_append2) auto
  then show ?thesis by (simp add: find_from_def)
qed

lemma DecodeFieldsLoop_step:
  assumes "length (pre @ field v @ rest) < 2 ^ 64"
  shows "DecodeFieldsLoop (pre @ field v @ rest) (length pre) acc =
         DecodeFieldsLoop (pre @ field v @ rest) (length (pre @ field v)) (acc @ [v])"
proof -
  let ?ds = "dec (length v)"
  let ?in = "pre @ ?ds @ CHR '':'' # v @ rest"
  have colon: "find_from CHR '':'' ?in (length pre) = Some (length pre + length ?ds)"
    by (rule find_colon) (rule dec_isdigit)
  have sub: "substr ?in (length pre) (length ?ds) = ?ds"
    by (simp add: substr_def)
  have lv: "length v < 2 ^ 64" and tot: "length ?in < 2 ^ 64"
    using assms by (simp_all add: field_def)
  have "strtoull ?ds = of_nat (length v)"
    using strtoull_digits [of ?ds "[]"] dec_isdigit lv by simp
  then have len: "unat (strtoull ?ds) = length v"
    using lv by (simp add: unat_of_nat)
  have stop: "Suc (length pre + length ?ds + length v) mod 18446744073709551616 =
      Suc (length pre + length ?ds + length v)"
    using tot by simp
  have val: "substr ?in (Suc (length pre + length ?ds)) (length v) = v"
    by (simp add: substr_def)
  show ?thesis
    unfolding field_def append_assoc append_Cons
    by (subst DecodeFieldsLoop.simps)
      (simp add: colon sub len stop val Let_def add.assoc [symmetric])
qed

lemma DecodeFieldsLoop_encoded:
  "length (pre @ concat (map field fs)) < 2 ^ 64 \<Longrightarrow>
   DecodeFieldsLoop (pre @ concat (map field fs)) (length pre) acc = Some (Some (acc @ fs))"
proof (induction fs arbitrary: pre acc)
  case Nil
  then show ?case by (subst DecodeFieldsLoop.simps) simp
next
  case (Cons v fs)
  show ?case
    using DecodeFieldsLoop_step [of pre v "concat (map field fs)" acc]
      Cons.IH [of "pre @ field v" "acc @ [v]"] Cons.prems
    by simp
qed

lemma DecodeFields_EncodeFields:
  "length (EncodeFields fs) < 2 ^ 64 \<Longrightarrow> DecodeFields (EncodeFields fs) = Some (Some fs)"
  using DecodeFieldsLoop_encoded [of "[]" fs "[]"]
  by (simp add: DecodeFields_def EncodeFields_concat)

text \<open>
  A length prefix close to \<open>2^64\<close> makes the end of the field wrap around. On the 21-byte
  input below it wraps to position 0, and the loop never returns.
\<close>

definition looping_fields :: string where
  "looping_fields = ''18446744073709551595:''"

lemma looping_fields_prefix:
  "find_from CHR '':'' looping_fields 0 = Some 20"
  "substr looping_fields 0 20 = ''18446744073709551595''"
  "length looping_fields = 21"
  by (simp_all add: find_from_def looping_fields_def substr_def eval_nat_numeral)

lemma looping_fields_len: "unat (strtoull ''18446744073709551595'') = 18446744073709551595"
  by (simp add: strtoull_def isspace_def isdigit_def digits_val_def)

lemma DecodeFieldsLoop_looping: "DecodeFieldsLoop looping_fields 0 acc = Some r \<Longrightarrow> False"
proof -
  assume ret: "DecodeFieldsLoop looping_fields 0 acc = Some r"
  have "looping_fields = looping_fields \<longrightarrow> (0::nat) = 0 \<longrightarrow> False"
  proof (rule DecodeFieldsLoop.raw_induct
      [where P = "\<lambda>i p f r. i = looping_fields \<longrightarrow> p = 0 \<longrightarrow> False", OF _ ret], intro impI)
    fix loop input pos fields r
    assume IH: "\<And>input pos fields r. loop input pos fields = Some r \<Longrightarrow>
        input = looping_fields \<longrightarrow> pos = 0 \<longrightarrow> False"
      and eq: "(if pos < length input then
        (case find_from CHR '':'' input pos of
           None \<Rightarrow> Some None
         | Some colon \<Rightarrow>
             (let len = unat (strtoull (substr input pos (colon - pos)));
                  begin = colon + 1;
                  stop = (begin + len) mod 2 ^ 64
              in if stop > length input then Some None
                 else loop input stop (fields @ [substr input begin len])))
      else Some (Some fields)) = Some r"
      and "input = looping_fields" and "pos = 0"
    then have "loop looping_fields 0 (fields @ [substr looping_fields 21 18446744073709551595]) = Some r"
      by (simp add: looping_fields_prefix looping_fields_len Let_def)
    then show False using IH by blast
  qed
  then show False by blast
qed

section \<open>Lock and write records\<close>

datatype MvccWriteType = WtPut | WtDelete | WtRollback | WtLock

record MvccLock =
  l_primaryKey :: string
  l_value :: string
  l_startTs :: u64
  l_ttlMs :: u64
  l_createTimeMs :: u64
  l_isDelete :: bool
  l_isPessimistic :: bool
  l_isLockOnly :: bool
  l_forUpdateTs :: u64
  l_expireAtPhysicalMs :: u64
  l_legacyExpiry :: bool

record MvccWrite =
  w_startTs :: u64
  w_commitTs :: u64
  w_type :: MvccWriteType

fun WriteTypeName :: "MvccWriteType \<Rightarrow> string" where
  "WriteTypeName WtPut = ''put''"
| "WriteTypeName WtDelete = ''delete''"
| "WriteTypeName WtRollback = ''rollback''"
| "WriteTypeName WtLock = ''lock''"

definition ParseWriteType :: "string \<Rightarrow> MvccWriteType" where
  "ParseWriteType type =
     (if type = ''delete'' then WtDelete
      else if type = ''rollback'' then WtRollback
      else if type = ''lock'' then WtLock
      else WtPut)"

definition bool_flag :: "bool \<Rightarrow> string" where
  "bool_flag b = (if b then ''1'' else ''0'')"

definition EncodeLockValue :: "MvccLock \<Rightarrow> string" where
  "EncodeLockValue lock = EncodeFields
     [l_primaryKey lock, to_string (l_startTs lock), to_string (l_ttlMs lock),
      to_string (l_createTimeMs lock), bool_flag (l_isDelete lock),
      bool_flag (l_isPessimistic lock),
      to_string (if l_forUpdateTs lock = 0 then l_startTs lock else l_forUpdateTs lock),
      to_string (l_expireAtPhysicalMs lock), bool_flag (l_isLockOnly lock)]"

text \<open>\<open>s.rfind(c)\<close>.\<close>

definition rfind :: "char \<Rightarrow> string \<Rightarrow> nat option" where
  "rfind c s =
     (if c \<in> set s then Some (length s - 1 - length (takeWhile (\<lambda>x. x \<noteq> c) (rev s))) else None)"

text \<open>
  Decoding fills a default-constructed \<open>MvccLock\<close>. The second format is the legacy
  \<open>primary#startTs\<close> lock, whose creation time is the decoder's own clock \<open>now\<close>.
\<close>

definition DecodeLegacyLock :: "u64 \<Rightarrow> string \<Rightarrow> MvccLock option option" where
  "DecodeLegacyLock now encoded =
     (case rfind CHR ''#'' encoded of
        None \<Rightarrow> Some None
      | Some separator \<Rightarrow>
          (let st = DecodeTs (drop (separator + 1) encoded)
           in Some (Some \<lparr> l_primaryKey = take separator encoded, l_value = [], l_startTs = st,
                l_ttlMs = 0, l_createTimeMs = now, l_isDelete = False, l_isPessimistic = False,
                l_isLockOnly = False, l_forUpdateTs = st, l_expireAtPhysicalMs = 0,
                l_legacyExpiry = True \<rparr>)))"

definition DecodeLockValue :: "u64 \<Rightarrow> string \<Rightarrow> MvccLock option option" where
  "DecodeLockValue now encoded =
     (case DecodeFields encoded of
        None \<Rightarrow> None
      | Some r \<Rightarrow>
          (case r of
             Some fs \<Rightarrow>
               (if length fs \<ge> 5 then
                  let n = length fs;
                      st = DecodeTs (fs ! 1);
                      fu = (if n \<ge> 7 then DecodeTs (fs ! 6) else st);
                      ex = (if n \<ge> 8 then DecodeTs (fs ! 7) else 0)
                  in Some (Some \<lparr> l_primaryKey = fs ! 0, l_value = [], l_startTs = st,
                       l_ttlMs = DecodeTs (fs ! 2), l_createTimeMs = DecodeTs (fs ! 3),
                       l_isDelete = (fs ! 4 = ''1''),
                       l_isPessimistic = (n \<ge> 6 \<and> fs ! 5 = ''1''),
                       l_isLockOnly = (n \<ge> 9 \<and> fs ! 8 = ''1''),
                       l_forUpdateTs = (if fu = 0 then st else fu),
                       l_expireAtPhysicalMs = ex,
                       l_legacyExpiry = (n < 8 \<or> ex = 0) \<rparr>)
                else DecodeLegacyLock now encoded)
           | None \<Rightarrow> DecodeLegacyLock now encoded))"

definition EncodeWriteValue :: "MvccWrite \<Rightarrow> string" where
  "EncodeWriteValue write = EncodeFields [to_string (w_startTs write), WriteTypeName (w_type write)]"

definition DecodeLegacyWrite :: "string \<Rightarrow> MvccWrite option option" where
  "DecodeLegacyWrite encoded =
     (let st = DecodeTs encoded
      in Some (if st > 0 then Some \<lparr> w_startTs = st, w_commitTs = 0, w_type = WtPut \<rparr> else None))"

definition DecodeWriteValue :: "string \<Rightarrow> MvccWrite option option" where
  "DecodeWriteValue encoded =
     (case DecodeFields encoded of
        None \<Rightarrow> None
      | Some r \<Rightarrow>
          (case r of
             Some fs \<Rightarrow>
               (if length fs \<ge> 2 then
                  Some (Some \<lparr> w_startTs = DecodeTs (fs ! 0), w_commitTs = 0,
                               w_type = ParseWriteType (fs ! 1) \<rparr>)
                else DecodeLegacyWrite encoded)
           | None \<Rightarrow> DecodeLegacyWrite encoded))"

text \<open>What survives of a lock through its encoding: everything but the value.\<close>

definition norm_lock :: "MvccLock \<Rightarrow> MvccLock" where
  "norm_lock l = l \<lparr> l_value := [],
     l_forUpdateTs := (if l_forUpdateTs l = 0 then l_startTs l else l_forUpdateTs l),
     l_legacyExpiry := (l_expireAtPhysicalMs l = 0) \<rparr>"

text \<open>
  Encoded records are in-memory strings, so their length is a \<open>size_t\<close>. Everything but the
  user-chosen primary key is at most 24 bytes per field.
\<close>

definition small_string :: "string \<Rightarrow> bool" where
  "small_string s \<longleftrightarrow> length s < 2 ^ 62"

lemma length_to_string_le: "length (to_string w) \<le> 20"
proof -
  have "unat w < 10 ^ 20" using unat_u64_bound [of w] by simp
  then show ?thesis unfolding to_string_def by (rule length_dec_le) simp
qed

lemma length_field: "length (field v) = length (dec (length v)) + 1 + length v"
  by (simp add: field_def)

lemma length_dec_u64: "n < 2 ^ 64 \<Longrightarrow> length (dec n) \<le> 20"
  by (rule length_dec_le) simp_all

lemma length_field_le: "length v \<le> 20 \<Longrightarrow> length (field v) \<le> 41"
  using length_dec_u64 [of "length v"] by (simp add: length_field)

lemma bool_flag_len [simp]: "length (bool_flag b) = 1"
  by (simp add: bool_flag_def)

lemma bool_flag_eq [simp]: "(bool_flag b = ''1'') = b"
  by (simp add: bool_flag_def)

lemma length_EncodeFields_le:
  "\<forall>v \<in> set fs. length v \<le> 20 \<Longrightarrow> length (EncodeFields fs) \<le> 41 * length fs"
  unfolding EncodeFields_concat
proof (induction fs)
  case (Cons v fs)
  then show ?case using length_field_le [of v] by simp
qed simp

lemma EncodeFields_Cons: "EncodeFields (v # fs) = field v @ EncodeFields fs"
  by (simp add: EncodeFields_concat)

lemma EncodeLockValue_len:
  assumes "small_string (l_primaryKey l)"
  shows "length (EncodeLockValue l) < 2 ^ 64"
proof -
  have "length (field (l_primaryKey l)) < 2 ^ 62 + 21"
    using assms length_dec_u64 [of "length (l_primaryKey l)"]
    by (simp add: length_field small_string_def)
  then show ?thesis
    unfolding EncodeLockValue_def EncodeFields_Cons [of "l_primaryKey l"]
    using length_EncodeFields_le [of "[to_string (l_startTs l), to_string (l_ttlMs l),
      to_string (l_createTimeMs l), bool_flag (l_isDelete l), bool_flag (l_isPessimistic l),
      to_string (if l_forUpdateTs l = 0 then l_startTs l else l_forUpdateTs l),
      to_string (l_expireAtPhysicalMs l), bool_flag (l_isLockOnly l)]"]
    by (simp add: length_to_string_le)
qed

lemma DecodeLockValue_EncodeLockValue:
  assumes "small_string (l_primaryKey l)"
  shows "DecodeLockValue now (EncodeLockValue l) = Some (Some (norm_lock l))"
  using EncodeLockValue_len [OF assms]
  by (simp add: DecodeLockValue_def EncodeLockValue_def DecodeFields_EncodeFields norm_lock_def Let_def)

lemma ParseWriteType_WriteTypeName [simp]: "ParseWriteType (WriteTypeName t) = t"
  by (cases t) (simp_all add: ParseWriteType_def)

lemma DecodeWriteValue_EncodeWriteValue [simp]:
  "DecodeWriteValue (EncodeWriteValue w) = Some (Some (w \<lparr> w_commitTs := 0 \<rparr>))"
proof -
  have "length (field (to_string (w_startTs w))) \<le> 41"
    by (rule length_field_le) (rule length_to_string_le)
  moreover have "length (field (WriteTypeName (w_type w))) \<le> 41"
    by (rule length_field_le) (cases "w_type w"; simp)
  ultimately have "length (EncodeFields [to_string (w_startTs w), WriteTypeName (w_type w)]) < 2 ^ 64"
    by (simp add: EncodeFields_concat)
  then show ?thesis
    by (simp add: DecodeWriteValue_def EncodeWriteValue_def DecodeFields_EncodeFields)
qed

section \<open>Engine keys\<close>

definition DataKey :: "string \<Rightarrow> u64 \<Rightarrow> string" where
  "DataKey key startTs = ''data/'' @ key @ ''/'' @ EncodeTs startTs"

definition LockKey :: "string \<Rightarrow> string" where
  "LockKey key = ''lock/'' @ key"

definition WriteKey :: "string \<Rightarrow> u64 \<Rightarrow> string" where
  "WriteKey key commitTs = ''write/'' @ key @ ''/'' @ EncodeTs commitTs"

definition RevisionKey :: "string \<Rightarrow> string" where
  "RevisionKey key = ''meta/revision/'' @ key"

definition AppliedIndexKey :: string where
  "AppliedIndexKey = ''meta/mvcc_applied_raft_index''"

definition StripPrefix :: "string \<Rightarrow> string \<Rightarrow> string" where
  "StripPrefix value pre = drop (length pre) value"

definition SplitKeyTs :: "string \<Rightarrow> (string \<times> u64) option" where
  "SplitKeyTs suf =
     (case rfind CHR ''/'' suf of
        None \<Rightarrow> None
      | Some separator \<Rightarrow> Some (take separator suf, DecodeTs (drop (separator + 1) suf)))"

lemma rfind_last:
  assumes "c \<notin> set ys"
  shows "rfind c (xs @ c # ys) = Some (length xs)"
proof -
  have "takeWhile (\<lambda>x. x \<noteq> c) (rev ys @ c # rev xs) = rev ys"
    using assms by (subst takeWhile_append2) auto
  then show ?thesis by (simp add: rfind_def)
qed

lemma slash_notin_EncodeTs: "CHR ''/'' \<notin> set (EncodeTs ts)"
  using EncodeTs_isdigit isdigit_no_slash by blast

lemma SplitKeyTs_key [simp]: "SplitKeyTs (key @ CHR ''/'' # EncodeTs ts) = Some (key, ts)"
  by (simp add: SplitKeyTs_def rfind_last slash_notin_EncodeTs)

lemma SplitKeyTs_WriteKey [simp]: "SplitKeyTs (StripPrefix (WriteKey key ts) ''write/'') = Some (key, ts)"
  by (simp add: WriteKey_def StripPrefix_def)

lemma StripPrefix_keys [simp]:
  "StripPrefix (LockKey key) ''lock/'' = key"
  "StripPrefix (RevisionKey key) ''meta/revision/'' = key"
  by (simp_all add: LockKey_def RevisionKey_def StripPrefix_def)

lemma key_ts_inject: "k @ CHR ''/'' # EncodeTs a = k' @ CHR ''/'' # EncodeTs b \<longleftrightarrow> k = k' \<and> a = b"
  by (metis SplitKeyTs_key option.inject prod.inject)

lemma engine_key_inject [simp]:
  "DataKey k a = DataKey k' b \<longleftrightarrow> k = k' \<and> a = b"
  "WriteKey k a = WriteKey k' b \<longleftrightarrow> k = k' \<and> a = b"
  "LockKey k = LockKey k' \<longleftrightarrow> k = k'"
  "RevisionKey k = RevisionKey k' \<longleftrightarrow> k = k'"
  by (simp_all add: DataKey_def WriteKey_def LockKey_def RevisionKey_def key_ts_inject)

lemma engine_key_disjoint [simp]:
  "DataKey k a \<noteq> LockKey k'" "LockKey k' \<noteq> DataKey k a"
  "DataKey k a \<noteq> WriteKey k' b" "WriteKey k' b \<noteq> DataKey k a"
  "DataKey k a \<noteq> RevisionKey k'" "RevisionKey k' \<noteq> DataKey k a"
  "LockKey k \<noteq> WriteKey k' b" "WriteKey k' b \<noteq> LockKey k"
  "LockKey k \<noteq> RevisionKey k'" "RevisionKey k' \<noteq> LockKey k"
  "WriteKey k a \<noteq> RevisionKey k'" "RevisionKey k' \<noteq> WriteKey k a"
  "AppliedIndexKey \<noteq> DataKey k a" "DataKey k a \<noteq> AppliedIndexKey"
  "AppliedIndexKey \<noteq> LockKey k" "LockKey k \<noteq> AppliedIndexKey"
  "AppliedIndexKey \<noteq> WriteKey k a" "WriteKey k a \<noteq> AppliedIndexKey"
  "AppliedIndexKey \<noteq> RevisionKey k" "RevisionKey k \<noteq> AppliedIndexKey"
  by (simp_all add: DataKey_def WriteKey_def LockKey_def RevisionKey_def AppliedIndexKey_def)

lemma engine_key_prefix [simp]:
  "prefix ''lock/'' (LockKey k)" "\<not> prefix ''write/'' (LockKey k)" "\<not> prefix ''meta/revision/'' (LockKey k)"
  "prefix ''write/'' (WriteKey k a)" "\<not> prefix ''lock/'' (WriteKey k a)" "\<not> prefix ''meta/revision/'' (WriteKey k a)"
  "prefix ''meta/revision/'' (RevisionKey k)" "\<not> prefix ''lock/'' (RevisionKey k)" "\<not> prefix ''write/'' (RevisionKey k)"
  "\<not> prefix ''lock/'' (DataKey k a)" "\<not> prefix ''write/'' (DataKey k a)" "\<not> prefix ''meta/revision/'' (DataKey k a)"
  "\<not> prefix ''lock/'' AppliedIndexKey" "\<not> prefix ''write/'' AppliedIndexKey" "\<not> prefix ''meta/revision/'' AppliedIndexKey"
  by (simp_all add: DataKey_def WriteKey_def LockKey_def RevisionKey_def AppliedIndexKey_def)

end
