(* ===== verification/HlcOracle.thy ===== *)
theory HlcOracle
  imports MvccCodec
begin

text \<open>
  Hybrid logical timestamps and the durable allocator of
  \<open>transaction/timestamp_oracle.h\<close> and \<open>transaction/timestamp_oracle.cpp\<close>.
  A reading of the clock is an argument of the operation that takes it. The state file is its
  contents, \<open>None\<close> when it does not exist; replacing it may fail before the rename, which
  leaves the old contents, or after it, when the directory cannot be synced. An exception is
  the left value of a sum.
\<close>

section \<open>Timestamps\<close>

datatype TsoError =
  PhysicalOverflow | LogicalOverflow | SpaceExhausted | ObservedMaximum
| InvalidStateFile | IoError

definition kLogicalBits :: nat where "kLogicalBits = 18"

definition kLogicalMask :: u64 where "kLogicalMask = push_bit kLogicalBits 1 - 1"

definition kMaxPhysicalMs :: u64 where "kMaxPhysicalMs = drop_bit kLogicalBits UINT64_MAX"

definition PhysicalMs :: "u64 \<Rightarrow> u64" where
  "PhysicalMs timestamp = drop_bit kLogicalBits timestamp"

definition Logical :: "u64 \<Rightarrow> u32" where
  "Logical timestamp = ucast (and timestamp kLogicalMask)"

definition Compose :: "u64 \<Rightarrow> u32 \<Rightarrow> TsoError + u64" where
  "Compose physicalMs logical =
     (if physicalMs > kMaxPhysicalMs then Inl PhysicalOverflow
      else if ucast logical > kLogicalMask then Inl LogicalOverflow
      else Inr (or (push_bit kLogicalBits physicalMs) (ucast logical)))"

section \<open>The state file\<close>

datatype persist_outcome = PersistOk | PersistFailedBefore | PersistFailedAfter

record PersistedState =
  ps_limit :: u64
  ps_exists :: bool
  ps_legacy :: bool

definition skip_ws :: "string \<Rightarrow> string" where
  "skip_ws s = dropWhile isspace s"

definition read_word :: "string \<Rightarrow> (string \<times> string) option" where
  "read_word s = (let r = skip_ws s in
     if r = [] then None else Some (takeWhile (\<lambda>c. \<not> isspace c) r, dropWhile (\<lambda>c. \<not> isspace c) r))"

definition read_u64 :: "string \<Rightarrow> (u64 \<times> string) option" where
  "read_u64 s =
     (let r = skip_ws s;
          neg = (r \<noteq> [] \<and> hd r = CHR ''-'');
          body = (if r \<noteq> [] \<and> (hd r = CHR ''-'' \<or> hd r = CHR ''+'') then tl r else r);
          ds = takeWhile isdigit body;
          v = digits_val ds
      in if ds = [] \<or> v \<ge> 2 ^ 64 then None
         else Some (if neg then - of_nat v else of_nat v, dropWhile isdigit body))"

definition ReadPersistedState :: "string option \<Rightarrow> TsoError + PersistedState" where
  "ReadPersistedState file =
     (case file of
        None \<Rightarrow> Inr \<lparr> ps_limit = 0, ps_exists = False, ps_legacy = False \<rparr>
      | Some input \<Rightarrow>
          (case read_word input of
             None \<Rightarrow> Inl InvalidStateFile
           | Some (first, rest) \<Rightarrow>
               if first = ''v2'' then
                 (case read_u64 rest of
                    None \<Rightarrow> Inl InvalidStateFile
                  | Some (limit, trailing) \<Rightarrow>
                      if read_word trailing \<noteq> None then Inl InvalidStateFile
                      else Inr \<lparr> ps_limit = limit, ps_exists = True, ps_legacy = False \<rparr>)
               else if first \<noteq> [] \<and> hd first = CHR ''v'' then Inl InvalidStateFile
               else
                 (case read_u64 first of
                    None \<Rightarrow> Inl InvalidStateFile
                  | Some (limit, unconsumed) \<Rightarrow>
                      if unconsumed \<noteq> [] then Inl InvalidStateFile
                      else if read_word rest \<noteq> None then Inl InvalidStateFile
                      else Inr \<lparr> ps_limit = limit, ps_exists = True, ps_legacy = True \<rparr>)))"

definition state_text :: "u64 \<Rightarrow> string" where
  "state_text limit = ''v2 '' @ to_string limit @ [CHR 0x0A]"

section \<open>The allocator\<close>

record PersistentTimestampOracle =
  segmentSz :: u64
  nextTs :: u64
  segmentLimit :: u64
  stateFile :: "string option"

definition PersistLimitLocked ::
  "persist_outcome \<Rightarrow> u64 \<Rightarrow> PersistentTimestampOracle \<Rightarrow> (TsoError + unit) \<times> PersistentTimestampOracle" where
  "PersistLimitLocked io limit o1 =
     (case io of
        PersistFailedBefore \<Rightarrow> (Inl IoError, o1)
      | PersistFailedAfter \<Rightarrow> (Inl IoError, o1 \<lparr> stateFile := Some (state_text limit) \<rparr>)
      | PersistOk \<Rightarrow> (Inr (), o1 \<lparr> stateFile := Some (state_text limit) \<rparr>))"

definition ReserveThroughLocked ::
  "persist_outcome \<Rightarrow> u64 \<Rightarrow> PersistentTimestampOracle \<Rightarrow> (TsoError + unit) \<times> PersistentTimestampOracle" where
  "ReserveThroughLocked io required o1 =
     (if required \<le> segmentLimit o1 then (Inr (), o1)
      else let extra = segmentSz o1 - 1 in
        if required > UINT64_MAX - extra then (Inl SpaceExhausted, o1)
        else let newLimit = required + extra in
          case PersistLimitLocked io newLimit o1 of
            (Inl e, o2) \<Rightarrow> (Inl e, o2)
          | (Inr _, o2) \<Rightarrow> (Inr (), o2 \<lparr> segmentLimit := newLimit \<rparr>))"

definition NextCandidateLocked :: "u64 \<Rightarrow> PersistentTimestampOracle \<Rightarrow> TsoError + u64" where
  "NextCandidateLocked clk o1 =
     (case Compose clk 0 of Inl e \<Rightarrow> Inl e | Inr t \<Rightarrow> Inr (max (nextTs o1) t))"

definition OracleNext ::
  "u64 \<Rightarrow> persist_outcome \<Rightarrow> PersistentTimestampOracle \<Rightarrow> (TsoError + u64) \<times> PersistentTimestampOracle" where
  "OracleNext clk io o1 =
     (case NextCandidateLocked clk o1 of
        Inl e \<Rightarrow> (Inl e, o1)
      | Inr candidate \<Rightarrow>
          if candidate = UINT64_MAX then (Inl SpaceExhausted, o1)
          else case ReserveThroughLocked io candidate o1 of
                 (Inl e, o2) \<Rightarrow> (Inl e, o2)
               | (Inr _, o2) \<Rightarrow> (Inr candidate, o2 \<lparr> nextTs := candidate + 1 \<rparr>))"

definition OraclePeek :: "u64 \<Rightarrow> PersistentTimestampOracle \<Rightarrow> TsoError + u64" where
  "OraclePeek clk o1 = NextCandidateLocked clk o1"

definition OracleObserve ::
  "u64 \<Rightarrow> persist_outcome \<Rightarrow> PersistentTimestampOracle \<Rightarrow> (TsoError + unit) \<times> PersistentTimestampOracle" where
  "OracleObserve ts io o1 =
     (if ts < nextTs o1 then (Inr (), o1)
      else if ts = UINT64_MAX then (Inl ObservedMaximum, o1)
      else case ReserveThroughLocked io (ts + 1) o1 of
             (Inl e, o2) \<Rightarrow> (Inl e, o2)
           | (Inr _, o2) \<Rightarrow> (Inr (), o2 \<lparr> nextTs := ts + 1 \<rparr>))"

definition OpenOracle ::
  "string option \<Rightarrow> u64 \<Rightarrow> u64 \<Rightarrow> persist_outcome \<Rightarrow> (TsoError + unit) \<times> PersistentTimestampOracle" where
  "OpenOracle file segmentSize clk io =
     (let o0 = \<lparr> segmentSz = (if segmentSize = 0 then 1 else segmentSize), nextTs = 1,
                 segmentLimit = 0, stateFile = file \<rparr>
      in case ReadPersistedState file of
           Inl e \<Rightarrow> (Inl e, o0)
         | Inr persisted \<Rightarrow>
             let o1 = o0 \<lparr> segmentLimit := ps_limit persisted \<rparr> in
             if segmentLimit o1 = UINT64_MAX then (Inl SpaceExhausted, o1)
             else case Compose clk 0 of
                    Inl e \<Rightarrow> (Inl e, o1)
                  | Inr t \<Rightarrow>
                      let o2 = o1 \<lparr> nextTs := max (segmentLimit o1 + 1) t \<rparr>
                      in if ps_legacy persisted then ReserveThroughLocked io (nextTs o2) o2
                         else (Inr (), o2))"

section \<open>Runs with crashes\<close>

text \<open>
  A process opens the state file, serves calls and crashes; the file outlives it. \<open>issued\<close> is
  the sequence of timestamps handed out by all incarnations, latest first.
\<close>

datatype tso_event =
  TsoOpen u64 u64 persist_outcome | TsoNext u64 persist_outcome | TsoObserve u64 persist_outcome
| TsoCrash

record tso_world =
  disk :: "string option"
  process :: "PersistentTimestampOracle option"
  issued :: "u64 list"

definition tso_step :: "tso_event \<Rightarrow> tso_world \<Rightarrow> tso_world" where
  "tso_step ev w =
     (case ev of
        TsoCrash \<Rightarrow> w \<lparr> process := None \<rparr>
      | TsoOpen seg clk io \<Rightarrow>
          (case process w of
             Some _ \<Rightarrow> w
           | None \<Rightarrow>
               (case OpenOracle (disk w) seg clk io of
                  (Inl _, o1) \<Rightarrow> w \<lparr> disk := stateFile o1 \<rparr>
                | (Inr _, o1) \<Rightarrow> w \<lparr> disk := stateFile o1, process := Some o1 \<rparr>))
      | TsoNext clk io \<Rightarrow>
          (case process w of
             None \<Rightarrow> w
           | Some o1 \<Rightarrow>
               (case OracleNext clk io o1 of
                  (Inl _, o2) \<Rightarrow> w \<lparr> disk := stateFile o2, process := Some o2 \<rparr>
                | (Inr t, o2) \<Rightarrow> w \<lparr> disk := stateFile o2, process := Some o2, issued := t # issued w \<rparr>))
      | TsoObserve ts io \<Rightarrow>
          (case process w of
             None \<Rightarrow> w
           | Some o1 \<Rightarrow>
               (case OracleObserve ts io o1 of
                  (_, o2) \<Rightarrow> w \<lparr> disk := stateFile o2, process := Some o2 \<rparr>)))"

definition tso_boot :: "string option \<Rightarrow> tso_world" where
  "tso_boot f = \<lparr> disk = f, process = None, issued = [] \<rparr>"

definition tso_run :: "tso_event list \<Rightarrow> tso_world \<Rightarrow> tso_world" where
  "tso_run evs w = fold tso_step evs w"

lemmas hlc_consts = kLogicalBits_def kLogicalMask_def kMaxPhysicalMs_def

lemma kLogicalMask_mask: "kLogicalMask = mask 18"
  by (simp add: hlc_consts mask_eq_exp_minus_1)

lemma kMaxPhysicalMs_val: "kMaxPhysicalMs = 70368744177663"
  by (simp add: hlc_consts mask_eq_exp_minus_1)

lemma Compose_bounds:
  assumes "Compose p l = Inr t"
  shows "unat p < 2 ^ 46" "unat l < 2 ^ 18" "t = or (push_bit 18 p) (ucast l)"
proof -
  have p: "p \<le> 70368744177663" and l: "(ucast l :: u64) \<le> 262143"
    and t: "t = or (push_bit 18 p) (ucast l)"
    using assms by (auto simp: Compose_def kMaxPhysicalMs_val kLogicalBits_def kLogicalMask_def
        split: if_splits)
  show "unat p < 2 ^ 46" using p by (simp add: word_le_nat_alt)
  have "unat (ucast l :: u64) = unat l"
    using unsigned_less [of l, where 'a = nat] by (simp add: unsigned_ucast_eq take_bit_nat_eq_self)
  with l show "unat l < 2 ^ 18" by (simp add: word_le_nat_alt)
  show "t = or (push_bit 18 p) (ucast l)" by (rule t)
qed

lemma PhysicalMs_Compose:
  assumes "Compose p l = Inr t"
  shows "PhysicalMs t = p"
proof (rule bit_word_eqI)
  fix n assume "n < LENGTH(64)"
  then show "bit (PhysicalMs t) n = bit p n"
    using Compose_bounds [OF assms] bit_less_exp [of p 46 n] bit_less_exp [of l 18 "18 + n"]
    by (auto simp: PhysicalMs_def kLogicalBits_def bit_simps)
qed

lemma Logical_Compose:
  assumes "Compose p l = Inr t"
  shows "Logical t = l"
proof (rule bit_word_eqI)
  fix n assume "n < LENGTH(32)"
  then show "bit (Logical t) n = bit l n"
    using Compose_bounds [OF assms] bit_less_exp [of l 18 n]
    by (auto simp: Logical_def kLogicalMask_mask bit_simps)
qed

lemma ucast_Logical: "(ucast (Logical t) :: u64) = take_bit 18 t"
  by (rule bit_word_eqI) (auto simp: Logical_def kLogicalMask_mask bit_simps)

lemma Compose_PhysicalMs: "Compose (PhysicalMs t) (Logical t) = Inr t"
proof -
  have "unat (PhysicalMs t) = unat t div 262144"
    unfolding PhysicalMs_def kLogicalBits_def unat_drop_bit_eq by (simp add: drop_bit_eq_div)
  then have "unat (PhysicalMs t) \<le> 70368744177663" using unat_u64_less [of t] by simp
  then have p: "\<not> PhysicalMs t > kMaxPhysicalMs"
    by (simp add: kMaxPhysicalMs_val word_less_nat_alt)
  have "unat (take_bit 18 t) < 262144" unfolding unsigned_take_bit_eq by (simp add: take_bit_eq_mod)
  then have "\<not> take_bit 18 t > kLogicalMask" by (simp add: kLogicalMask_def kLogicalBits_def word_less_nat_alt)
  moreover have "or (push_bit 18 (PhysicalMs t)) (take_bit 18 t) = t"
    by (rule bit_word_eqI) (auto simp: PhysicalMs_def kLogicalBits_def bit_simps)
  ultimately show ?thesis using p by (simp add: Compose_def kLogicalBits_def ucast_Logical)
qed

section \<open>The state file\<close>

lemma isspace_ws [simp]: "isspace CHR 0x0A" "isspace CHR '' ''" "\<not> isspace CHR ''v''" "\<not> isspace CHR ''2''"
  by (simp_all add: isspace_def)

lemma read_u64_text: "read_u64 (CHR '' '' # to_string w @ [CHR 0x0A]) = Some (w, [CHR 0x0A])"
proof -
  obtain c cs where d: "dec (unat w) = c # cs" by (cases "dec (unat w)") auto
  with dec_isdigit [of "unat w"] have c: "isdigit c" and cs: "\<forall>x\<in>set cs. isdigit x" by auto
  have nl: "\<not> isdigit CHR 0x0A" by (simp add: isdigit_def)
  have t: "takeWhile isdigit (dec (unat w) @ [CHR 0x0A]) = dec (unat w)"
    "dropWhile isdigit (dec (unat w) @ [CHR 0x0A]) = [CHR 0x0A]"
    using dec_isdigit [of "unat w"] nl by (simp_all add: takeWhile_append2 dropWhile_append2)
  from unat_u64_less [of w] show ?thesis
    using isdigit_not_space [OF c] isdigit_not_sign [OF c] c cs nl t digits_val_dec [of "unat w"]
    unfolding d by (simp add: read_u64_def skip_ws_def Let_def to_string_def d)
qed

lemma ReadPersistedState_text [simp]:
  "ReadPersistedState (Some (state_text limit)) = Inr \<lparr> ps_limit = limit, ps_exists = True, ps_legacy = False \<rparr>"
  by (simp add: ReadPersistedState_def state_text_def read_word_def skip_ws_def read_u64_text)

definition covers :: "string option \<Rightarrow> u64 \<Rightarrow> bool" where
  "covers f t = (case ReadPersistedState f of Inl _ \<Rightarrow> False | Inr ps \<Rightarrow> t \<le> ps_limit ps)"

lemma covers_text [simp]: "covers (Some (state_text limit)) t \<longleftrightarrow> t \<le> limit"
  by (simp add: covers_def)

lemma covers_mono: "covers f t \<Longrightarrow> s \<le> t \<Longrightarrow> covers f s"
  by (auto simp: covers_def split: sum.splits)

lemma Reserve_spec:
  assumes "ReserveThroughLocked io req o1 = (r, o2)" and "covers (stateFile o1) (segmentLimit o1)"
  shows "nextTs o2 = nextTs o1 \<and> covers (stateFile o2) (segmentLimit o2) \<and>
    segmentLimit o1 \<le> segmentLimit o2 \<and> (r = Inr () \<longrightarrow> req \<le> segmentLimit o2)"
proof (cases "req \<le> segmentLimit o1 \<or> req > UINT64_MAX - (segmentSz o1 - 1)")
  case True
  with assms show ?thesis by (auto simp: ReserveThroughLocked_def Let_def split: if_splits)
next
  case False
  then have "req \<le> req + (segmentSz o1 - 1)" "segmentLimit o1 < req"
    using u64_add_no_wrap by auto
  with False assms show ?thesis
    by (auto simp: ReserveThroughLocked_def Let_def PersistLimitLocked_def split: persist_outcome.splits)
qed

definition tso_inv :: "tso_world \<Rightarrow> bool" where
  "tso_inv w \<longleftrightarrow> sorted_wrt (>) (issued w) \<and>
     (case process w of
        None \<Rightarrow> (\<forall>t \<in> set (issued w). covers (disk w) t)
      | Some o1 \<Rightarrow> stateFile o1 = disk w \<and> covers (disk w) (segmentLimit o1) \<and>
          (\<forall>t \<in> set (issued w). t \<le> segmentLimit o1 \<and> t < nextTs o1))"

lemma OracleNext_spec:
  assumes "OracleNext clk io o1 = (r, o2)" and "covers (stateFile o1) (segmentLimit o1)"
  shows "covers (stateFile o2) (segmentLimit o2) \<and> segmentLimit o1 \<le> segmentLimit o2 \<and> nextTs o1 \<le> nextTs o2 \<and>
    (\<forall>t. r = Inr t \<longrightarrow> nextTs o1 \<le> t \<and> t < nextTs o2 \<and> t \<le> segmentLimit o2)"
proof (cases "NextCandidateLocked clk o1")
  case (Inl e)
  with assms show ?thesis by (auto simp: OracleNext_def)
next
  case (Inr c)
  then have c: "nextTs o1 \<le> c" by (auto simp: NextCandidateLocked_def split: sum.splits)
  show ?thesis
  proof (cases "c = UINT64_MAX")
    case True
    with assms Inr show ?thesis by (auto simp: OracleNext_def)
  next
    case False
    obtain r' o' where R: "ReserveThroughLocked io c o1 = (r', o')" by fastforce
    from Reserve_spec [OF R assms(2)] u64_less_Suc [OF False] False assms(1) Inr R c show ?thesis
      by (auto simp: OracleNext_def split: sum.splits)
  qed
qed

lemma OracleObserve_spec:
  assumes "OracleObserve ts io o1 = (r, o2)" and "covers (stateFile o1) (segmentLimit o1)"
  shows "covers (stateFile o2) (segmentLimit o2) \<and> segmentLimit o1 \<le> segmentLimit o2 \<and> nextTs o1 \<le> nextTs o2 \<and>
    (r = Inr () \<longrightarrow> ts < nextTs o2)"
proof (cases "ts < nextTs o1 \<or> ts = UINT64_MAX")
  case True
  with assms show ?thesis by (auto simp: OracleObserve_def)
next
  case False
  obtain r' o' where R: "ReserveThroughLocked io (ts + 1) o1 = (r', o')" by fastforce
  from Reserve_spec [OF R assms(2)] u64_less_Suc [of ts] False assms(1) R show ?thesis
    by (auto simp: OracleObserve_def split: sum.splits)
qed

lemma OpenOracle_spec:
  assumes "OpenOracle f seg clk io = (r, o1)"
  shows "(covers f t \<longrightarrow> covers (stateFile o1) t) \<and>
    (r = Inr () \<longrightarrow> covers (stateFile o1) (segmentLimit o1) \<and>
       (covers f t \<longrightarrow> t \<le> segmentLimit o1 \<and> t < nextTs o1))"
proof (cases "ReadPersistedState f")
  case (Inl e)
  with assms show ?thesis by (auto simp: OpenOracle_def covers_def Let_def)
next
  case (Inr ps)
  show ?thesis
  proof (cases "ps_limit ps = UINT64_MAX \<or> (\<exists>e. Compose clk 0 = Inl e)")
    case True
    with assms Inr have "r \<noteq> Inr () \<and> stateFile o1 = f"
      by (auto simp: OpenOracle_def Let_def split: if_splits sum.splits)
    then show ?thesis by simp
  next
    case False
    then obtain p where p: "Compose clk 0 = Inr p" and m: "ps_limit ps \<noteq> UINT64_MAX"
      by (cases "Compose clk 0") auto
    define n where "n = max (ps_limit ps + 1) p"
    define o2 where "o2 = \<lparr> segmentSz = (if seg = 0 then 1 else seg), nextTs = n,
      segmentLimit = ps_limit ps, stateFile = f \<rparr>"
    have n: "ps_limit ps < n" using u64_less_Suc [OF m] by (simp add: n_def less_max_iff_disj)
    have c: "covers (stateFile o2) (segmentLimit o2)" by (simp add: o2_def covers_def Inr)
    have ct: "covers f t \<Longrightarrow> t \<le> ps_limit ps" by (simp add: covers_def Inr)
    have eq: "OpenOracle f seg clk io = (if ps_legacy ps then ReserveThroughLocked io n o2 else (Inr (), o2))"
      using m by (simp add: OpenOracle_def Let_def Inr p o2_def n_def)
    show ?thesis
    proof (cases "ps_legacy ps")
      case True
      with assms eq have R: "ReserveThroughLocked io n o2 = (r, o1)" by simp
      note sp = Reserve_spec [OF R c]
      have l: "segmentLimit o2 = ps_limit ps" "nextTs o2 = n" by (simp_all add: o2_def)
      show ?thesis
      proof (intro conjI impI)
        assume "covers f t"
        with ct sp l have "t \<le> segmentLimit o1" by (metis order_trans)
        then show "covers (stateFile o1) t" using sp covers_mono by blast
      next
        assume "covers f t"
        with ct sp l show "t \<le> segmentLimit o1" by (metis order_trans)
        from \<open>covers f t\<close> ct sp l n show "t < nextTs o1" by (metis order_le_less_trans)
      qed (use sp in simp)
    next
      case False
      with assms eq have "r = Inr ()" "o1 = o2" by simp_all
      with c ct n show ?thesis by (auto simp: o2_def)
    qed
  qed
qed

lemma tso_step_inv: "tso_inv w \<Longrightarrow> tso_inv (tso_step ev w)"
proof (cases ev)
  case (TsoOpen seg clk io)
  assume inv: "tso_inv w"
  obtain r o1 where R: "OpenOracle (disk w) seg clk io = (r, o1)" by fastforce
  from inv TsoOpen R OpenOracle_spec [OF R] show ?thesis
    by (auto simp: tso_inv_def tso_step_def split: option.splits sum.splits)
next
  case (TsoNext clk io)
  assume inv: "tso_inv w"
  show ?thesis
  proof (cases "process w")
    case (Some o1)
    obtain r o2 where R: "OracleNext clk io o1 = (r, o2)" by fastforce
    with inv TsoNext Some OracleNext_spec [OF R] show ?thesis
      by (fastforce simp: tso_inv_def tso_step_def split: sum.splits)
  qed (use inv TsoNext in \<open>simp add: tso_step_def\<close>)
next
  case (TsoObserve ts io)
  assume inv: "tso_inv w"
  show ?thesis
  proof (cases "process w")
    case (Some o1)
    obtain r o2 where R: "OracleObserve ts io o1 = (r, o2)" by fastforce
    with inv TsoObserve Some OracleObserve_spec [OF R] show ?thesis
      by (fastforce simp: tso_inv_def tso_step_def split: sum.splits)
  qed (use inv TsoObserve in \<open>simp add: tso_step_def\<close>)
next
  case TsoCrash
  assume "tso_inv w"
  with TsoCrash show ?thesis
    by (auto simp: tso_inv_def tso_step_def intro: covers_mono split: option.splits)
qed

lemma tso_run_inv: "tso_inv w \<Longrightarrow> tso_inv (tso_run evs w)"
  by (induction evs arbitrary: w) (simp_all add: tso_run_def tso_step_inv)

text \<open>
  C4. Whatever the contents of the state file, the clock readings, the failures of the file
  replacement and the crashes and restarts, the timestamps the allocator hands out over all
  its incarnations are strictly increasing: none is ever repeated.
\<close>

theorem tso_timestamps_increase: "sorted_wrt (<) (rev (issued (tso_run evs (tso_boot f))))"
  using tso_run_inv [of "tso_boot f" evs] by (simp add: tso_inv_def tso_boot_def sorted_wrt_rev)

text \<open>
  Composing a physical and a logical part yields a timestamp exactly when taking that
  timestamp apart yields these parts: the encoding is a bijection between 64-bit timestamps
  and the parts that are in range, and it overflows on all others.
\<close>

theorem hlc_round_trip: "Compose p l = Inr t \<longleftrightarrow> PhysicalMs t = p \<and> Logical t = l"
  using PhysicalMs_Compose Logical_Compose Compose_PhysicalMs [of t] by blast

lemma hlc_order: "Compose p l = Inr t \<Longrightarrow> Compose p' l' = Inr t' \<Longrightarrow> p < p' \<Longrightarrow> t < t'"
proof -
  assume a: "Compose p l = Inr t" "Compose p' l' = Inr t'" "p < p'"
  have "unat (PhysicalMs x) = unat x div 262144" for x
    unfolding PhysicalMs_def kLogicalBits_def unat_drop_bit_eq by (simp add: drop_bit_eq_div)
  with a show "t < t'"
    using PhysicalMs_Compose [of p l t] PhysicalMs_Compose [of p' l' t']
    by (metis div_le_mono not_less word_le_nat_alt word_less_nat_alt)
qed

text \<open>
  An observation below the current clock is acknowledged without being persisted, so it does
  not survive a crash followed by a clock regression.
\<close>

lemma observe_not_durable:
  "issued (tso_run [TsoOpen 1 8 PersistOk, TsoObserve 5 PersistOk, TsoCrash,
     TsoOpen 1 0 PersistOk, TsoNext 0 PersistOk] (tso_boot None)) = [1]"
  by (simp add: tso_run_def tso_boot_def tso_step_def OpenOracle_def ReadPersistedState_def Compose_def
      kMaxPhysicalMs_val kLogicalMask_def kLogicalBits_def OracleObserve_def OracleNext_def NextCandidateLocked_def
      ReserveThroughLocked_def PersistLimitLocked_def Let_def)

end
