(* ===== verification/KvEngine.thy ===== *)
theory KvEngine
  imports StrataPrelude
begin

text \<open>
  The storage engine interface (\<open>storage/include/kv_engine.h\<close>) and its RocksDB
  implementation (\<open>storage/rocksdb_kv_engine.cpp\<close>).
  The virtual methods of \<open>IKVEngine\<close> are the fields of a record of operations over an
  engine state \<open>'e\<close>; a boolean result is returned beside the new state, a read returns an
  option. RocksDB itself and the Boost text archive are not part of the repository: they are
  the parameters \<open>db\<close> and \<open>ar\<close>, and the locale \<open>rocksdb\<close> states the documented behaviour
  the engine relies on. The locale \<open>kv_engine\<close> is the contract the storage layer above uses.
\<close>

section \<open>The interface\<close>

datatype KVBatchOpType = OpPut | OpDelete

record KVBatchOp =
  op_type :: KVBatchOpType
  op_key :: string
  op_value :: string

definition BatchPut :: "string \<Rightarrow> string \<Rightarrow> KVBatchOp" where
  "BatchPut k v = \<lparr> op_type = OpPut, op_key = k, op_value = v \<rparr>"

definition BatchDelete :: "string \<Rightarrow> KVBatchOp" where
  "BatchDelete k = \<lparr> op_type = OpDelete, op_key = k, op_value = [] \<rparr>"

record 'e IKVEngine =
  kv_Put :: "'e \<Rightarrow> string \<Rightarrow> string \<Rightarrow> bool \<times> 'e"
  kv_Get :: "'e \<Rightarrow> string \<Rightarrow> string option"
  kv_Append :: "'e \<Rightarrow> string \<Rightarrow> string \<Rightarrow> bool \<times> 'e"
  kv_Delete :: "'e \<Rightarrow> string \<Rightarrow> bool \<times> 'e"
  kv_WriteBatch :: "'e \<Rightarrow> KVBatchOp list \<Rightarrow> bool \<times> 'e"
  kv_ScanPrefix :: "'e \<Rightarrow> string \<Rightarrow> (string \<times> string) list"
  kv_DeleteRange :: "'e \<Rightarrow> string \<Rightarrow> string \<Rightarrow> bool \<times> 'e"
  kv_Dump :: "'e \<Rightarrow> string option"
  kv_Load :: "'e \<Rightarrow> string \<Rightarrow> bool option \<times> 'e"

section \<open>Contents and batches\<close>

type_synonym kv_content = "string \<rightharpoonup> string"

definition apply_op :: "KVBatchOp \<Rightarrow> kv_content \<Rightarrow> kv_content" where
  "apply_op op c = (case op_type op of
     OpPut \<Rightarrow> c(op_key op \<mapsto> op_value op)
   | OpDelete \<Rightarrow> c(op_key op := None))"

definition apply_ops :: "KVBatchOp list \<Rightarrow> kv_content \<Rightarrow> kv_content" where
  "apply_ops ops c = fold apply_op ops c"

definition restrict_prefix :: "string \<Rightarrow> kv_content \<Rightarrow> kv_content" where
  "restrict_prefix p c k = (if prefix p k then c k else None)"

lemma apply_op_simps [simp]:
  "apply_op (BatchPut k v) c = c(k \<mapsto> v)"
  "apply_op (BatchDelete k) c = c(k := None)"
  by (simp_all add: apply_op_def BatchPut_def BatchDelete_def)

lemma apply_ops_simps [simp]:
  "apply_ops [] c = c"
  "apply_ops (op # ops) c = apply_ops ops (apply_op op c)"
  "apply_ops (ops @ ops') c = apply_ops ops' (apply_ops ops c)"
  by (simp_all add: apply_ops_def)

lemma apply_op_other: "op_key op \<noteq> k \<Longrightarrow> apply_op op c k = c k"
  by (simp add: apply_op_def split: KVBatchOpType.split)

lemma apply_ops_other: "k \<notin> op_key ` set ops \<Longrightarrow> apply_ops ops c k = c k"
  by (induction ops arbitrary: c) (auto simp: apply_op_other)

lemma op_key_Batch [simp]:
  "op_key (BatchPut k v) = k" "op_key (BatchDelete k) = k"
  "op_value (BatchPut k v) = v" "op_type (BatchPut k v) = OpPut" "op_type (BatchDelete k) = OpDelete"
  by (simp_all add: BatchPut_def BatchDelete_def)

section \<open>The contract of an engine\<close>

locale kv_engine =
  fixes E :: "'e IKVEngine" and content :: "'e \<Rightarrow> kv_content"
  assumes get: "kv_Get E e k = content e k"
    and batch_ok: "kv_WriteBatch E e ops = (True, e') \<Longrightarrow> content e' = apply_ops ops (content e)"
    and batch_fail: "kv_WriteBatch E e ops = (False, e') \<Longrightarrow> content e' = content e"
    and delete_ok: "kv_Delete E e k = (True, e') \<Longrightarrow> content e' = (content e)(k := None)"
    and delete_fail: "kv_Delete E e k = (False, e') \<Longrightarrow> content e' = content e"
    and scan_ok: "om_ok (kv_ScanPrefix E e p)"
    and scan: "map_of (kv_ScanPrefix E e p) = restrict_prefix p (content e)"
    and load_dump: "kv_Dump E e0 = Some s \<Longrightarrow> s \<noteq> [] \<Longrightarrow> kv_Load E e s = (Some True, e') \<Longrightarrow>
      content e' = content e0"
begin

lemma scan_entry: "(k, v) \<in> set (kv_ScanPrefix E e p) \<longleftrightarrow> prefix p k \<and> content e k = Some v"
  using om_lookup_iff [OF scan_ok, of e p k v] by (auto simp: scan restrict_prefix_def split: if_splits)

lemma batch_cases:
  obtains (ok) e' where "kv_WriteBatch E e ops = (True, e')" "content e' = apply_ops ops (content e)"
  | (failed) e' where "kv_WriteBatch E e ops = (False, e')" "content e' = content e"
  using batch_ok batch_fail by (metis (full_types) surj_pair)

end

section \<open>The RocksDB engine\<close>

text \<open>
  The calls of \<open>rocksdb::DB\<close> the engine makes. A write reports whether its status is ok, a
  \<open>WriteBatch\<close> is the list of its puts and deletes, \<open>db_Iter\<close> is the sequence of entries
  an iterator visits from \<open>SeekToFirst\<close> and \<open>db_IterOk\<close> its status at the end. Reading an
  archive yields \<open>None\<close> when the archive throws; an exception of \<open>Load\<close> or \<open>Dump\<close> is
  \<open>None\<close> too.
\<close>

record 'd RocksDB =
  db_Put :: "'d \<Rightarrow> string \<Rightarrow> string \<Rightarrow> bool \<times> 'd"
  db_Get :: "'d \<Rightarrow> string \<Rightarrow> string option"
  db_Delete :: "'d \<Rightarrow> string \<Rightarrow> bool \<times> 'd"
  db_Write :: "'d \<Rightarrow> KVBatchOp list \<Rightarrow> bool \<times> 'd"
  db_DeleteRange :: "'d \<Rightarrow> string \<Rightarrow> string \<Rightarrow> bool \<times> 'd"
  db_Iter :: "'d \<Rightarrow> (string \<times> string) list"
  db_IterOk :: "'d \<Rightarrow> bool"

record BoostArchive =
  ar_out :: "string list \<times> string list \<Rightarrow> string"
  ar_in :: "string \<Rightarrow> (string list \<times> string list) option"

definition RocksPut :: "'d RocksDB \<Rightarrow> 'd \<Rightarrow> string \<Rightarrow> string \<Rightarrow> bool \<times> 'd" where
  "RocksPut db d key value = db_Put db d key value"

definition RocksGet :: "'d RocksDB \<Rightarrow> 'd \<Rightarrow> string \<Rightarrow> string option" where
  "RocksGet db d key = db_Get db d key"

definition RocksAppend :: "'d RocksDB \<Rightarrow> 'd \<Rightarrow> string \<Rightarrow> string \<Rightarrow> bool \<times> 'd" where
  "RocksAppend db d key value =
     (case RocksGet db d key of
        Some oldValue \<Rightarrow> RocksPut db d key (oldValue @ value)
      | None \<Rightarrow> RocksPut db d key value)"

definition RocksDelete :: "'d RocksDB \<Rightarrow> 'd \<Rightarrow> string \<Rightarrow> bool \<times> 'd" where
  "RocksDelete db d key = db_Delete db d key"

definition RocksWriteBatch :: "'d RocksDB \<Rightarrow> 'd \<Rightarrow> KVBatchOp list \<Rightarrow> bool \<times> 'd" where
  "RocksWriteBatch db d ops =
     db_Write db d
       (map (\<lambda>op. case op_type op of OpDelete \<Rightarrow> BatchDelete (op_key op)
                                  | OpPut \<Rightarrow> BatchPut (op_key op) (op_value op)) ops)"

definition RocksScanPrefix :: "'d RocksDB \<Rightarrow> 'd \<Rightarrow> string \<Rightarrow> (string \<times> string) list" where
  "RocksScanPrefix db d p =
     takeWhile (\<lambda>e. prefix p (fst e)) (dropWhile (\<lambda>e. fst e < p) (db_Iter db d))"

definition RocksDeleteRange :: "'d RocksDB \<Rightarrow> 'd \<Rightarrow> string \<Rightarrow> string \<Rightarrow> bool \<times> 'd" where
  "RocksDeleteRange db d b e = db_DeleteRange db d b e"

definition RocksDump :: "BoostArchive \<Rightarrow> 'd RocksDB \<Rightarrow> 'd \<Rightarrow> string option" where
  "RocksDump ar db d =
     (if \<not> db_IterOk db d then None
      else Some (ar_out ar (map fst (db_Iter db d), map snd (db_Iter db d))))"

definition RocksLoad :: "BoostArchive \<Rightarrow> 'd RocksDB \<Rightarrow> 'd \<Rightarrow> string \<Rightarrow> bool option \<times> 'd" where
  "RocksLoad ar db d snapshot =
     (if snapshot = [] then (Some True, d)
      else case ar_in ar snapshot of
        None \<Rightarrow> (None, d)
      | Some (keys, values) \<Rightarrow>
          if length keys \<noteq> length values then (Some False, d)
          else if \<not> db_IterOk db d then (Some False, d)
          else let (ok, d') = db_Write db d
                     (map (\<lambda>e. BatchDelete (fst e)) (db_Iter db d) @
                      map (\<lambda>(k, v). BatchPut k v) (zip keys values))
               in (Some ok, d'))"

definition RocksDbKVEngine :: "BoostArchive \<Rightarrow> 'd RocksDB \<Rightarrow> 'd IKVEngine" where
  "RocksDbKVEngine ar db = \<lparr> kv_Put = RocksPut db, kv_Get = RocksGet db, kv_Append = RocksAppend db,
     kv_Delete = RocksDelete db, kv_WriteBatch = RocksWriteBatch db,
     kv_ScanPrefix = RocksScanPrefix db, kv_DeleteRange = RocksDeleteRange db,
     kv_Dump = RocksDump ar db, kv_Load = RocksLoad ar db \<rparr>"

lemma RocksWriteBatch_ops:
  "apply_ops (map (\<lambda>op. case op_type op of OpDelete \<Rightarrow> BatchDelete (op_key op)
      | OpPut \<Rightarrow> BatchPut (op_key op) (op_value op)) ops) c = apply_ops ops c"
  by (induction ops arbitrary: c) (simp_all add: apply_op_def split: KVBatchOpType.split)

text \<open>
  \<open>Seek\<close> followed by iteration while the key starts with the prefix visits every entry with
  that prefix: in the bytewise order these entries are adjacent, from the first key that is
  not below the prefix on.
\<close>

lemma prefix_ge: "prefix p k \<Longrightarrow> p \<le> k" for p k :: string
  by (induction p arbitrary: k) (auto simp: prefix_def)

lemma prefix_convex: "prefix p k \<Longrightarrow> p \<le> j \<Longrightarrow> j \<le> k \<Longrightarrow> prefix p j" for p j k :: string
proof (induction p arbitrary: k j)
  case (Cons c p)
  then obtain k' where k: "k = c # k'" "prefix p k'" by (cases k) auto
  with Cons.prems obtain j' where j: "j = c # j'" "p \<le> j'" "j' \<le> k'"
    by (cases j) (auto dest: less_asym)
  with Cons.IH [OF k(2) j(2,3)] show ?case by simp
qed simp

lemma seek_prefix_filter:
  fixes p :: string
  shows "om_ok m \<Longrightarrow> takeWhile (\<lambda>e. prefix p (fst e)) (dropWhile (\<lambda>e. fst e < p) m) =
     filter (\<lambda>e. prefix p (fst e)) m"
proof (induction m)
  case (Cons e m)
  then have ok: "om_ok m" and lt: "\<And>x. x \<in> set m \<Longrightarrow> fst e < fst x" by (auto simp: om_ok_Cons)
  show ?case
  proof (cases "fst e < p")
    case True
    then have "\<not> prefix p (fst e)" using prefix_ge [of p "fst e"] by auto
    with True Cons.IH [OF ok] show ?thesis by simp
  next
    case ge: False
    then have "dropWhile (\<lambda>e. fst e < p) m = m"
      using lt by (cases m) fastforce+
    moreover have "\<not> prefix p (fst e) \<Longrightarrow> filter (\<lambda>e. prefix p (fst e)) m = []"
      using ge lt prefix_convex [of p] by (fastforce intro!: filter_False)
    ultimately show ?thesis using ge Cons.IH [OF ok] by simp
  qed
qed simp

lemma apply_ops_deletes:
  "apply_ops (map (\<lambda>e. BatchDelete (fst e)) m) c = (\<lambda>k. if k \<in> fst ` set m then None else c k)"
  by (induction m arbitrary: c) (auto simp: fun_eq_iff)

lemma apply_ops_puts:
  "distinct (map fst m) \<Longrightarrow>
   apply_ops (map (\<lambda>(k, v). BatchPut k v) m) c = (\<lambda>k. case map_of m k of Some v \<Rightarrow> Some v | None \<Rightarrow> c k)"
proof (induction m arbitrary: c)
  case (Cons e m)
  obtain k v where e: "e = (k, v)" by (cases e)
  from Cons.prems e have "map_of m k = None" by (simp add: map_of_eq_None_iff)
  with Cons e show ?case by (auto simp: fun_eq_iff split: option.split)
qed simp

text \<open>What the engine relies on: the documented behaviour of RocksDB and of the archive.\<close>

locale rocksdb =
  fixes ar :: BoostArchive and db :: "'d RocksDB" and contents :: "'d \<Rightarrow> kv_content"
  assumes db_get: "db_Get db d k = contents d k"
    and db_write_ok: "db_Write db d ops = (True, d') \<Longrightarrow> contents d' = apply_ops ops (contents d)"
    and db_write_fail: "db_Write db d ops = (False, d') \<Longrightarrow> contents d' = contents d"
    and db_delete_ok: "db_Delete db d k = (True, d') \<Longrightarrow> contents d' = (contents d)(k := None)"
    and db_delete_fail: "db_Delete db d k = (False, d') \<Longrightarrow> contents d' = contents d"
    and db_iter_ok: "om_ok (db_Iter db d)"
    and db_iter: "map_of (db_Iter db d) = contents d"
    and archive: "ar_in ar (ar_out ar x) = Some x"
begin

lemma rocks_scan: "RocksScanPrefix db d p = filter (\<lambda>e. prefix p (fst e)) (db_Iter db d)"
  unfolding RocksScanPrefix_def by (rule seek_prefix_filter) (rule db_iter_ok)

lemma rocks_scan_lookup: "map_of (RocksScanPrefix db d p) = restrict_prefix p (contents d)"
  by (simp add: fun_eq_iff rocks_scan map_of_filter_key restrict_prefix_def db_iter)

lemma rocks_load_dump:
  assumes "RocksDump ar db d0 = Some s" and "s \<noteq> []" and "RocksLoad ar db d s = (Some True, d')"
  shows "contents d' = contents d0"
proof -
  have z: "zip (map fst (db_Iter db d0)) (map snd (db_Iter db d0)) = db_Iter db d0"
    by (rule zip_map_fst_snd)
  have "contents d' = apply_ops (map (\<lambda>(k, v). BatchPut k v) (db_Iter db d0))
      (apply_ops (map (\<lambda>e. BatchDelete (fst e)) (db_Iter db d)) (contents d))"
    using assms db_write_ok
    by (auto simp: RocksLoad_def RocksDump_def archive z split: if_splits prod.splits)
  moreover have "apply_ops (map (\<lambda>e. BatchDelete (fst e)) (db_Iter db d)) (contents d) = Map.empty"
    unfolding apply_ops_deletes
    by (auto simp: fun_eq_iff db_iter [symmetric] map_of_eq_None_iff)
  ultimately show ?thesis
    using apply_ops_puts [OF om_ok_distinct [OF db_iter_ok [of d0]], of Map.empty]
    by (simp add: fun_eq_iff db_iter split: option.split)
qed

end

sublocale rocksdb \<subseteq> eng: kv_engine "RocksDbKVEngine ar db" contents
proof
  show "om_ok (kv_ScanPrefix (RocksDbKVEngine ar db) e p)" for e p
    by (simp add: RocksDbKVEngine_def rocks_scan om_ok_filter db_iter_ok)
  show "map_of (kv_ScanPrefix (RocksDbKVEngine ar db) e p) = restrict_prefix p (contents e)" for e p
    by (simp add: RocksDbKVEngine_def rocks_scan_lookup)
  show "contents e' = contents e0"
    if "kv_Dump (RocksDbKVEngine ar db) e0 = Some s" and "s \<noteq> []"
      and "kv_Load (RocksDbKVEngine ar db) e s = (Some True, e')" for e e' e0 s
    using that rocks_load_dump by (simp add: RocksDbKVEngine_def)
qed (auto simp: RocksDbKVEngine_def RocksGet_def RocksDelete_def RocksWriteBatch_def db_get
    db_delete_ok db_delete_fail db_write_fail RocksWriteBatch_ops dest: db_write_ok)

section \<open>An in-memory database\<close>

text \<open>
  A database that meets the contract: the entries, and a switch that makes every write fail.
\<close>

type_synonym mem_db = "(string \<times> string) list \<times> bool"

definition mem_upd :: "mem_db \<Rightarrow> KVBatchOp list \<Rightarrow> bool \<times> mem_db" where
  "mem_upd d ops =
     (if snd d then (False, d)
      else (True, (fold (\<lambda>op m. case op_type op of OpPut \<Rightarrow> om_put (op_key op) (op_value op) m
                                             | OpDelete \<Rightarrow> om_del (op_key op) m) ops (fst d), False)))"

definition mem_rocksdb :: "mem_db RocksDB" where
  "mem_rocksdb = \<lparr> db_Put = (\<lambda>d k v. mem_upd d [BatchPut k v]), db_Get = (\<lambda>d. map_of (fst d)),
     db_Delete = (\<lambda>d k. mem_upd d [BatchDelete k]), db_Write = mem_upd,
     db_DeleteRange = (\<lambda>d b e. mem_upd d (map (\<lambda>x. BatchDelete (fst x))
        (filter (\<lambda>x. b \<le> fst x \<and> fst x < e) (fst d)))),
     db_Iter = (\<lambda>d. foldr (\<lambda>x. om_put (fst x) (snd x)) (fst d) []),
     db_IterOk = (\<lambda>_. True) \<rparr>"

fun wr_strings :: "string list \<Rightarrow> string" where
  "wr_strings [] = []"
| "wr_strings (s # ss) = concat (map (\<lambda>c. [CHR ''c'', c]) s) @ CHR ''.'' # wr_strings ss"

fun rd_strings :: "string \<Rightarrow> string list" where
  "rd_strings [] = []"
| "rd_strings (x # r) =
     (if x = CHR ''.'' then [] # rd_strings r
      else case r of [] \<Rightarrow> []
           | c # r' \<Rightarrow> (case rd_strings r' of [] \<Rightarrow> [] | s # ss \<Rightarrow> (c # s) # ss))"

definition mem_archive :: BoostArchive where
  "mem_archive = \<lparr> ar_out = (\<lambda>(ks, vs). wr_strings (map (\<lambda>_. CHR ''n'') ks # ks @ vs)),
     ar_in = (\<lambda>s. let l = rd_strings s; n = length (hd l) in
       if l = [] then None else Some (take n (tl l), drop n (tl l))) \<rparr>"

lemma rd_wr_strings: "rd_strings (wr_strings ss) = ss"
proof (induction ss)
  case (Cons s ss)
  then show ?case by (induction s) simp_all
qed simp

lemma mem_archive_round_trip: "ar_in mem_archive (ar_out mem_archive x) = Some x"
  by (cases x) (simp add: mem_archive_def rd_wr_strings del: wr_strings.simps)

lemma map_of_mem_fold:
  "map_of (fold (\<lambda>op m. case op_type op of OpPut \<Rightarrow> om_put (op_key op) (op_value op) m
      | OpDelete \<Rightarrow> om_del (op_key op) m) ops m) = apply_ops ops (map_of m)"
  by (induction ops arbitrary: m)
     (simp_all add: apply_op_def map_of_om_put map_of_om_del split: KVBatchOpType.split)

lemma mem_iter:
  "om_ok (foldr (\<lambda>x. om_put (fst x) (snd x)) m [])"
  "map_of (foldr (\<lambda>x. om_put (fst x) (snd x)) m []) = map_of m"
  by (induction m) (simp_all add: om_ok_put map_of_om_put)

interpretation mem: rocksdb mem_archive mem_rocksdb "\<lambda>d. map_of (fst d)"
  by unfold_locales
     (auto simp: mem_rocksdb_def mem_upd_def mem_iter map_of_mem_fold
       mem_archive_round_trip split: if_splits)

abbreviation mem_engine :: "mem_db IKVEngine" where
  "mem_engine \<equiv> RocksDbKVEngine mem_archive mem_rocksdb"

end
