(* ===== verification/MvccTypes.thy ===== *)
theory MvccTypes
  imports MvccCodec KvEngine
begin

text \<open>
  The data types of \<open>transaction/include/mvcc_storage.h\<close> and the Raft command codec of
  \<open>transaction/mvcc_storage.cpp\<close>. Protocol buffer messages (\<open>proto/kv_server_rpc.proto\<close>)
  are records; their wire format is generated code and enters as a pair of functions, a
  serializer and a parser.
\<close>

section \<open>Statuses and records\<close>

datatype TxnStatus =
  Ok | NotFound | LockConflict | WriteConflict | AlreadyCommitted | Timeout | AbortOnly
| CleanupPending | ResultUnknown | StorageError

datatype TxnRecordState = Locked | Committed | RolledBack | RecNotFound

record TxnRecordStatus =
  rs_state :: TxnRecordState
  rs_commitTs :: u64
  rs_lock :: "MvccLock option"

record PessimisticLockResult =
  pr_status :: TxnStatus
  pr_found :: bool
  pr_value :: string
  pr_valueCommitTs :: u64
  pr_applied :: bool

record MvccStats =
  lockCount :: nat
  pessimisticLockCount :: nat
  writeCount :: nat
  dataVersionCount :: nat
  st_writeBatchCount :: u64
  st_appliedRaftIndex :: u64

record ProtocolCapabilities =
  protocolVersion :: u32
  preparedCommandVersion :: u32
  lockFormatVersion :: u32
  hlcExpiry :: bool

definition no_record :: TxnRecordStatus where
  "no_record = \<lparr> rs_state = RecNotFound, rs_commitTs = 0, rs_lock = None \<rparr>"

definition kLegacyCommandVersion :: u32 where "kLegacyCommandVersion = 1"

definition kCommandVersion :: u32 where "kCommandVersion = 2"

definition kBatchCommandVersion :: u32 where "kBatchCommandVersion = 1"

record PreparedMvccWrite =
  p_commandVersion :: u32
  p_status :: TxnStatus
  p_expectedRevision :: u64
  p_newRevision :: u64
  p_modifications :: "KVBatchOp list"
  p_readStatus :: TxnStatus
  p_readValue :: string
  p_readCommitTs :: u64
  p_txnRecordStatus :: TxnRecordStatus

definition new_prepared :: PreparedMvccWrite where
  "new_prepared = \<lparr> p_commandVersion = kLegacyCommandVersion, p_status = StorageError,
     p_expectedRevision = 0, p_newRevision = 0, p_modifications = [], p_readStatus = NotFound,
     p_readValue = [], p_readCommitTs = 0, p_txnRecordStatus = no_record \<rparr>"

definition PreparedHasChanges :: "PreparedMvccWrite \<Rightarrow> bool" where
  "PreparedHasChanges p \<longleftrightarrow> p_status p = Ok \<and> p_modifications p \<noteq> []"

record MvccMutation =
  m_key :: string
  m_value :: string
  m_isDelete :: bool
  m_isLockOnly :: bool

record PreparedMvccBatchItem =
  i_key :: string
  i_prepared :: PreparedMvccWrite

record PreparedMvccBatch =
  b_commandVersion :: u32
  b_status :: TxnStatus
  b_items :: "PreparedMvccBatchItem list"

definition new_batch :: PreparedMvccBatch where
  "new_batch = \<lparr> b_commandVersion = kBatchCommandVersion, b_status = StorageError, b_items = [] \<rparr>"

definition BatchHasChanges :: "PreparedMvccBatch \<Rightarrow> bool" where
  "BatchHasChanges b \<longleftrightarrow> b_status b = Ok \<and> list_ex (\<lambda>i. PreparedHasChanges (i_prepared i)) (b_items b)"

record PreparedApplyCommand =
  c_raftIndex :: u64
  c_isBatch :: bool
  c_key :: string
  c_single :: PreparedMvccWrite
  c_batch :: PreparedMvccBatch

section \<open>Raft commands\<close>

record MvccModification =
  mm_type :: int
  mm_key :: string
  mm_value :: string

record PreparedMvccWriteCommand =
  wc_version :: u32
  wc_preparedStatus :: int
  wc_expectedRevision :: u64
  wc_newRevision :: u64
  wc_modifications :: "MvccModification list"

record PreparedMvccBatchCommand =
  bc_version :: u32
  bc_items :: "(string \<times> PreparedMvccWriteCommand) list"

definition MVCC_MODIFICATION_PUT :: int where "MVCC_MODIFICATION_PUT = 0"

definition MVCC_MODIFICATION_DELETE :: int where "MVCC_MODIFICATION_DELETE = 1"

text \<open>The generated serializer and parser of a message type.\<close>

record 'm wire =
  SerializeToString :: "'m \<Rightarrow> string option"
  ParseFromString :: "string \<Rightarrow> 'm option"

fun status_code :: "TxnStatus \<Rightarrow> int" where
  "status_code Ok = 0" | "status_code NotFound = 1" | "status_code LockConflict = 2"
| "status_code WriteConflict = 3" | "status_code AlreadyCommitted = 4" | "status_code Timeout = 5"
| "status_code AbortOnly = 6" | "status_code CleanupPending = 7" | "status_code ResultUnknown = 8"
| "status_code StorageError = 9"

definition code_status :: "int \<Rightarrow> TxnStatus" where
  "code_status n = [Ok, NotFound, LockConflict, WriteConflict, AlreadyCommitted, Timeout, AbortOnly,
     CleanupPending, ResultUnknown, StorageError] ! nat n"

definition PreparedToCommand :: "PreparedMvccWrite \<Rightarrow> PreparedMvccWriteCommand" where
  "PreparedToCommand p = \<lparr> wc_version = p_commandVersion p, wc_preparedStatus = status_code (p_status p),
     wc_expectedRevision = p_expectedRevision p, wc_newRevision = p_newRevision p,
     wc_modifications = map (\<lambda>m. \<lparr> mm_type = (if op_type m = OpDelete then MVCC_MODIFICATION_DELETE
         else MVCC_MODIFICATION_PUT), mm_key = op_key m, mm_value = op_value m \<rparr>) (p_modifications p) \<rparr>"

definition PreparedSerialize :: "PreparedMvccWriteCommand wire \<Rightarrow> PreparedMvccWrite \<Rightarrow> string" where
  "PreparedSerialize w p =
     (case SerializeToString w (PreparedToCommand p) of None \<Rightarrow> [] | Some encoded \<Rightarrow> encoded)"

fun ParseModifications :: "MvccModification list \<Rightarrow> KVBatchOp list option" where
  "ParseModifications [] = Some []"
| "ParseModifications (m # ms) =
     (if mm_type m \<noteq> MVCC_MODIFICATION_PUT \<and> mm_type m \<noteq> MVCC_MODIFICATION_DELETE then None
      else case ParseModifications ms of
             None \<Rightarrow> None
           | Some ops \<Rightarrow> Some (\<lparr> op_type = (if mm_type m = MVCC_MODIFICATION_DELETE then OpDelete else OpPut),
                              op_key = mm_key m, op_value = mm_value m \<rparr> # ops))"

definition PreparedFromCommand :: "PreparedMvccWriteCommand \<Rightarrow> PreparedMvccWrite option" where
  "PreparedFromCommand c =
     (if (wc_version c \<noteq> kLegacyCommandVersion \<and> wc_version c \<noteq> kCommandVersion) \<or>
         length (wc_modifications c) > 1000000 then None
      else if wc_preparedStatus c < status_code Ok \<or> wc_preparedStatus c > status_code StorageError then None
      else case ParseModifications (wc_modifications c) of
             None \<Rightarrow> None
           | Some ops \<Rightarrow> Some (new_prepared \<lparr> p_commandVersion := wc_version c,
               p_status := code_status (wc_preparedStatus c),
               p_expectedRevision := wc_expectedRevision c, p_newRevision := wc_newRevision c,
               p_modifications := ops \<rparr>))"

definition PreparedParse :: "PreparedMvccWriteCommand wire \<Rightarrow> string \<Rightarrow> PreparedMvccWrite option" where
  "PreparedParse w encoded =
     (case ParseFromString w encoded of None \<Rightarrow> None | Some c \<Rightarrow> PreparedFromCommand c)"

fun BatchItemsToCommand ::
  "PreparedMvccWriteCommand wire \<Rightarrow> PreparedMvccBatchItem list \<Rightarrow> (string \<times> PreparedMvccWriteCommand) list option" where
  "BatchItemsToCommand w [] = Some []"
| "BatchItemsToCommand w (i # is) =
     (let encodedPrepared = PreparedSerialize w (i_prepared i) in
      if encodedPrepared = [] then None
      else case ParseFromString w encodedPrepared of
             None \<Rightarrow> None
           | Some c \<Rightarrow> (case BatchItemsToCommand w is of
                          None \<Rightarrow> None
                        | Some cs \<Rightarrow> Some ((i_key i, c) # cs)))"

definition BatchSerialize ::
  "PreparedMvccWriteCommand wire \<Rightarrow> PreparedMvccBatchCommand wire \<Rightarrow> PreparedMvccBatch \<Rightarrow> string" where
  "BatchSerialize w wb b =
     (case BatchItemsToCommand w (b_items b) of
        None \<Rightarrow> []
      | Some items \<Rightarrow>
          (case SerializeToString wb \<lparr> bc_version = b_commandVersion b, bc_items = items \<rparr> of
             None \<Rightarrow> [] | Some encoded \<Rightarrow> encoded))"

fun ParseBatchItems ::
  "PreparedMvccWriteCommand wire \<Rightarrow> string \<Rightarrow> (string \<times> PreparedMvccWriteCommand) list \<Rightarrow>
   PreparedMvccBatchItem list option" where
  "ParseBatchItems w previousKey [] = Some []"
| "ParseBatchItems w previousKey ((k, c) # cs) =
     (if k = [] \<or> (previousKey \<noteq> [] \<and> k \<le> previousKey) then None
      else case PreparedParse w (case SerializeToString w c of None \<Rightarrow> [] | Some s \<Rightarrow> s) of
             None \<Rightarrow> None
           | Some p \<Rightarrow>
               if p_status p \<noteq> Ok then None
               else (case ParseBatchItems w k cs of
                       None \<Rightarrow> None
                     | Some is \<Rightarrow> Some (\<lparr> i_key = k, i_prepared = p \<rparr> # is)))"

definition BatchParse ::
  "PreparedMvccWriteCommand wire \<Rightarrow> PreparedMvccBatchCommand wire \<Rightarrow> string \<Rightarrow> PreparedMvccBatch option" where
  "BatchParse w wb encoded =
     (case ParseFromString wb encoded of
        None \<Rightarrow> None
      | Some c \<Rightarrow>
          if bc_version c \<noteq> kBatchCommandVersion \<or> bc_items c = [] \<or> length (bc_items c) > 100000 then None
          else (case ParseBatchItems w [] (bc_items c) of
                  None \<Rightarrow> None
                | Some is \<Rightarrow> Some \<lparr> b_commandVersion = bc_version c, b_status = Ok, b_items = is \<rparr>))"

end
