(* ===== verification/MvccStorage.thy ===== *)
theory MvccStorage
  imports MvccTypes HlcOracle
begin

text \<open>
  The class \<open>MvccStorage\<close> (\<open>transaction/include/mvcc_storage.h\<close>,
  \<open>transaction/mvcc_storage.cpp\<close>). Every public operation runs under the storage mutex, so
  an operation is a function from the state to its result and the next state. The engine
  behind \<open>engine_\<close> is the argument \<open>E\<close>; \<open>NowMs()\<close> is the argument \<open>now\<close>, one reading of the
  process clock per call. Decoding a stored record may not return (see \<open>MvccCodec\<close>); operations
  that decode return an option, \<open>None\<close> for a call that does not return. Hash maps are ordered
  association lists: where the source iterates over one, the order it leaves open is the key
  order here.
\<close>

section \<open>State\<close>

type_synonym version_map = "(u64, MvccWrite) omap"

record 'e MvccStorage =
  engine :: 'e
  locks :: "(string, MvccLock) omap"
  writes :: "(string, version_map) omap"
  revisions :: "(string, u64) omap"
  writeBatchCount :: u64
  appliedRaftIndex :: u64

definition versions :: "'e MvccStorage \<Rightarrow> string \<Rightarrow> version_map" where
  "versions st key = (case map_of (writes st) key of None \<Rightarrow> [] | Some vs \<Rightarrow> vs)"

definition put_version :: "string \<Rightarrow> u64 \<Rightarrow> MvccWrite \<Rightarrow> (string, version_map) omap \<Rightarrow> (string, version_map) omap" where
  "put_version key ts w ws =
     om_put key (om_put ts w (case map_of ws key of None \<Rightarrow> [] | Some vs \<Rightarrow> vs)) ws"

definition del_version :: "string \<Rightarrow> u64 \<Rightarrow> (string, version_map) omap \<Rightarrow> (string, version_map) omap" where
  "del_version key ts ws =
     (case map_of ws key of None \<Rightarrow> ws | Some vs \<Rightarrow> om_put key (om_del ts vs) ws)"

definition hasFinishedWrite :: "version_map \<Rightarrow> u64 \<Rightarrow> bool" where
  "hasFinishedWrite vs ts = list_ex (\<lambda>x. w_startTs (snd x) = ts) vs"

definition CurrentRevisionLocked :: "'e MvccStorage \<Rightarrow> string \<Rightarrow> u64" where
  "CurrentRevisionLocked st key = (case map_of (revisions st) key of None \<Rightarrow> 0 | Some r \<Rightarrow> r)"

section \<open>Reads\<close>

text \<open>
  The versions at or below the read timestamp, newest first: the order in which an iterator
  set to \<open>upper_bound(readTs)\<close> is decremented.
\<close>

definition visible :: "u64 \<Rightarrow> version_map \<Rightarrow> version_map" where
  "visible readTs vs = rev (takeWhile (\<lambda>x. fst x \<le> readTs) vs)"

fun GetWalk :: "'e IKVEngine \<Rightarrow> 'e \<Rightarrow> string \<Rightarrow> version_map \<Rightarrow> TxnStatus \<times> string" where
  "GetWalk E e key [] = (NotFound, [])"
| "GetWalk E e key ((ts, w) # older) =
     (if w_type w = WtRollback \<or> w_type w = WtLock then
        (if older = [] then (NotFound, []) else GetWalk E e key older)
      else if w_type w = WtDelete then (NotFound, [])
      else case kv_Get E e (DataKey key (w_startTs w)) of
             Some value \<Rightarrow> (Ok, value)
           | None \<Rightarrow> (StorageError, []))"

definition lock_blocks :: "'e MvccStorage \<Rightarrow> string \<Rightarrow> u64 \<Rightarrow> bool" where
  "lock_blocks st key readTs =
     (case map_of (locks st) key of
        None \<Rightarrow> False
      | Some l \<Rightarrow> l_startTs l \<le> readTs \<and> \<not> hasFinishedWrite (versions st key) (l_startTs l))"

definition Get :: "'e IKVEngine \<Rightarrow> 'e MvccStorage \<Rightarrow> string \<Rightarrow> u64 \<Rightarrow> TxnStatus \<times> string" where
  "Get E st key readTs =
     (if lock_blocks st key readTs then (LockConflict, [])
      else case map_of (writes st) key of
             None \<Rightarrow> (NotFound, [])
           | Some vs \<Rightarrow>
               if visible readTs vs = [] then (NotFound, [])
               else GetWalk E (engine st) key (visible readTs vs))"

fun ReadWalk :: "'e IKVEngine \<Rightarrow> 'e \<Rightarrow> string \<Rightarrow> version_map \<Rightarrow> TxnStatus \<times> string \<times> u64" where
  "ReadWalk E e key [] = (NotFound, [], 0)"
| "ReadWalk E e key ((ts, w) # older) =
     (if w_type w = WtRollback \<or> w_type w = WtLock then ReadWalk E e key older
      else if w_type w = WtDelete then (NotFound, [], ts)
      else case kv_Get E e (DataKey key (w_startTs w)) of
             Some value \<Rightarrow> (Ok, value, ts)
           | None \<Rightarrow> (StorageError, [], ts))"

definition ReadCommittedLocked ::
  "'e IKVEngine \<Rightarrow> 'e MvccStorage \<Rightarrow> string \<Rightarrow> u64 \<Rightarrow> TxnStatus \<times> string \<times> u64" where
  "ReadCommittedLocked E st key readTs =
     (case map_of (writes st) key of
        None \<Rightarrow> (NotFound, [], 0)
      | Some vs \<Rightarrow> ReadWalk E (engine st) key (visible readTs vs))"

definition in_scan_range :: "string \<Rightarrow> string \<Rightarrow> string \<Rightarrow> bool" where
  "in_scan_range startKey endKey key \<longleftrightarrow> \<not> key < startKey \<and> \<not> (endKey \<noteq> [] \<and> key \<ge> endKey)"

fun ScanLoop ::
  "'e IKVEngine \<Rightarrow> 'e MvccStorage \<Rightarrow> u64 \<Rightarrow> nat \<Rightarrow> string list \<Rightarrow> (string \<times> string) list \<Rightarrow>
   TxnStatus \<times> (string \<times> string) list" where
  "ScanLoop E st readTs limit [] entries = (Ok, entries)"
| "ScanLoop E st readTs limit (key # names) entries =
     (if limit \<noteq> 0 \<and> length entries \<ge> limit then (Ok, entries)
      else if lock_blocks st key readTs then (LockConflict, [])
      else case ReadCommittedLocked E st key readTs of
             (status, value, _) \<Rightarrow>
               ScanLoop E st readTs limit names (if status = Ok then entries @ [(key, value)] else entries))"

definition Scan ::
  "'e IKVEngine \<Rightarrow> 'e MvccStorage \<Rightarrow> string \<Rightarrow> string \<Rightarrow> u64 \<Rightarrow> nat \<Rightarrow> (string \<times> string) list \<Rightarrow>
   TxnStatus \<times> (string \<times> string) list" where
  "Scan E st startKey endKey readTs limit entries =
     (if endKey \<noteq> [] \<and> endKey \<le> startKey then (StorageError, entries)
      else let names = filter (in_scan_range startKey endKey) (map fst (writes st)) @
                       filter (in_scan_range startKey endKey) (map fst (locks st))
           in ScanLoop E st readTs limit (remdups_adj (sort names)) entries)"

definition GetLock :: "'e MvccStorage \<Rightarrow> string \<Rightarrow> MvccLock option" where
  "GetLock st key = map_of (locks st) key"

definition FindCommitTs :: "'e MvccStorage \<Rightarrow> string \<Rightarrow> u64 \<Rightarrow> u64 option" where
  "FindCommitTs st key startTs =
     (case map_of (writes st) key of
        None \<Rightarrow> None
      | Some vs \<Rightarrow>
          map_option fst (find (\<lambda>x. w_startTs (snd x) = startTs \<and> w_type (snd x) \<noteq> WtRollback) vs))"

definition InspectTxnStatusLocked :: "'e MvccStorage \<Rightarrow> string \<Rightarrow> u64 \<Rightarrow> TxnRecordStatus" where
  "InspectTxnStatusLocked st key startTs =
     (case find (\<lambda>x. w_startTs (snd x) = startTs) (versions st key) of
        Some x \<Rightarrow>
          if w_type (snd x) = WtRollback
          then \<lparr> rs_state = RolledBack, rs_commitTs = 0, rs_lock = None \<rparr>
          else \<lparr> rs_state = Committed, rs_commitTs = fst x, rs_lock = None \<rparr>
      | None \<Rightarrow>
          (case map_of (locks st) key of
             Some l \<Rightarrow> if l_startTs l = startTs
                       then \<lparr> rs_state = Locked, rs_commitTs = 0, rs_lock = Some l \<rparr> else no_record
           | None \<Rightarrow> no_record))"

definition ExpiredLocks :: "'e MvccStorage \<Rightarrow> u64 \<Rightarrow> (string \<times> MvccLock) list" where
  "ExpiredLocks st nowMs =
     filter (\<lambda>x. let l = snd x in
       if \<not> l_legacyExpiry l \<and> l_expireAtPhysicalMs l \<noteq> 0 then l_expireAtPhysicalMs l \<le> nowMs
       else l_createTimeMs l \<noteq> 0 \<and> l_ttlMs l \<noteq> 0 \<and> l_createTimeMs l + l_ttlMs l \<le> nowMs) (locks st)"

definition Stats :: "'e MvccStorage \<Rightarrow> MvccStats" where
  "Stats st = (let n = sum_list (map (\<lambda>x. length (snd x)) (writes st)) in
     \<lparr> lockCount = length (locks st),
       pessimisticLockCount = length (filter (\<lambda>x. l_isPessimistic (snd x)) (locks st)),
       writeCount = n, dataVersionCount = n + length (locks st),
       st_writeBatchCount = writeBatchCount st, st_appliedRaftIndex = appliedRaftIndex st \<rparr>)"

definition Capabilities :: ProtocolCapabilities where
  "Capabilities = \<lparr> protocolVersion = 3, preparedCommandVersion = 2, lockFormatVersion = 1, hlcExpiry = True \<rparr>"

definition MaxObservedTs :: "'e MvccStorage \<Rightarrow> u64" where
  "MaxObservedTs st =
     fold (\<lambda>kw m. fold (\<lambda>x m. max m (max (fst x) (w_startTs (snd x)))) (snd kw) m) (writes st)
       (fold (\<lambda>x m. max m (l_startTs (snd x))) (locks st) 0)"

section \<open>Preparing commands\<close>

definition rolled_back_at :: "version_map \<Rightarrow> u64 \<Rightarrow> bool" where
  "rolled_back_at vs startTs =
     list_ex (\<lambda>x. w_startTs (snd x) = startTs \<and> w_type (snd x) = WtRollback) vs"

text \<open>The write conflict check shared by the optimistic paths.\<close>

definition prewrite_conflict :: "version_map \<Rightarrow> u64 \<Rightarrow> bool" where
  "prewrite_conflict vs startTs \<longleftrightarrow>
     rolled_back_at vs startTs \<or> vs \<noteq> [] \<and> fst (last vs) \<ge> startTs"

definition PrecheckPrewrite :: "'e MvccStorage \<Rightarrow> string \<Rightarrow> u64 \<Rightarrow> TxnStatus" where
  "PrecheckPrewrite st key startTs =
     (if (case map_of (locks st) key of None \<Rightarrow> False | Some l \<Rightarrow> l_startTs l \<noteq> startTs) then LockConflict
      else if prewrite_conflict (versions st key) startTs then WriteConflict
      else Ok)"

definition RevisionMutation :: "'e MvccStorage \<Rightarrow> string \<Rightarrow> KVBatchOp" where
  "RevisionMutation st key = BatchPut (RevisionKey key) (to_string (CurrentRevisionLocked st key + 1))"

definition with_changes :: "'e MvccStorage \<Rightarrow> string \<Rightarrow> KVBatchOp list \<Rightarrow> PreparedMvccWrite \<Rightarrow> PreparedMvccWrite" where
  "with_changes st key ops p = p \<lparr> p_status := Ok, p_newRevision := CurrentRevisionLocked st key + 1,
     p_modifications := ops @ [RevisionMutation st key] \<rparr>"

definition prepared_at :: "'e MvccStorage \<Rightarrow> string \<Rightarrow> PreparedMvccWrite" where
  "prepared_at st key = new_prepared \<lparr> p_expectedRevision := CurrentRevisionLocked st key \<rparr>"

text \<open>The lock a prewrite stores; an existing pessimistic lock hands over its timestamps.\<close>

definition PrewriteLockRecord ::
  "u64 \<Rightarrow> MvccLock option \<Rightarrow> string \<Rightarrow> string \<Rightarrow> u64 \<Rightarrow> u64 \<Rightarrow> bool \<Rightarrow> u64 \<Rightarrow> MvccLock" where
  "PrewriteLockRecord now existing primaryKey value startTs ttlMs isDelete forUpdateTs =
     (let (fu, expiry, legacy) =
        (case existing of
           Some l \<Rightarrow> (l_forUpdateTs l, l_expireAtPhysicalMs l, l_legacyExpiry l)
         | None \<Rightarrow>
             let f = (if forUpdateTs = 0 then startTs else forUpdateTs); baseMs = PhysicalMs f
             in (f, (if baseMs > 0 then baseMs else now) + ttlMs, False))
      in \<lparr> l_primaryKey = primaryKey, l_value = value, l_startTs = startTs, l_ttlMs = ttlMs,
           l_createTimeMs = now, l_isDelete = isDelete, l_isPessimistic = False, l_isLockOnly = False,
           l_forUpdateTs = fu, l_expireAtPhysicalMs = expiry, l_legacyExpiry = legacy \<rparr>)"

definition prewrite_data_op :: "string \<Rightarrow> string \<Rightarrow> u64 \<Rightarrow> bool \<Rightarrow> KVBatchOp" where
  "prewrite_data_op key value startTs isDelete =
     (if isDelete then BatchDelete (DataKey key startTs) else BatchPut (DataKey key startTs) value)"

definition PreparePrewrite ::
  "u64 \<Rightarrow> 'e MvccStorage \<Rightarrow> string \<Rightarrow> string \<Rightarrow> string \<Rightarrow> u64 \<Rightarrow> u64 \<Rightarrow> bool \<Rightarrow> u64 \<Rightarrow> PreparedMvccWrite" where
  "PreparePrewrite now st key value primaryKey startTs ttlMs isDelete forUpdateTs =
     (let prepared = prepared_at st key; existing = map_of (locks st) key;
          early = (case existing of
             None \<Rightarrow> None
           | Some l \<Rightarrow>
               if l_startTs l \<noteq> startTs then Some LockConflict
               else if l_primaryKey l \<noteq> primaryKey then Some LockConflict
               else if \<not> l_isPessimistic l then Some Ok
               else if forUpdateTs \<noteq> 0 \<and> forUpdateTs < l_forUpdateTs l then Some WriteConflict
               else if forUpdateTs = 0 \<and> \<not> l_legacyExpiry l \<and> l_isPessimistic l then Some WriteConflict
               else None)
      in case early of
           Some s \<Rightarrow> prepared \<lparr> p_status := s \<rparr>
         | None \<Rightarrow>
             if prewrite_conflict (versions st key) startTs then prepared \<lparr> p_status := WriteConflict \<rparr>
             else with_changes st key
                    [prewrite_data_op key value startTs isDelete,
                     BatchPut (LockKey key) (EncodeLockValue
                       (PrewriteLockRecord now existing primaryKey value startTs ttlMs isDelete forUpdateTs))]
                    prepared)"

text \<open>
  The check of a new pessimistic lock: no rollback at its start timestamp, and the newest
  version that is not a rollback is not above its for-update timestamp.
\<close>

definition pessimistic_conflict :: "version_map \<Rightarrow> u64 \<Rightarrow> u64 \<Rightarrow> bool" where
  "pessimistic_conflict vs startTs requestedForUpdateTs \<longleftrightarrow>
     rolled_back_at vs startTs \<or>
     (case find (\<lambda>x. w_type (snd x) \<noteq> WtRollback) (rev vs) of
        None \<Rightarrow> False | Some x \<Rightarrow> fst x > requestedForUpdateTs)"

definition with_read :: "TxnStatus \<times> string \<times> u64 \<Rightarrow> PreparedMvccWrite \<Rightarrow> PreparedMvccWrite" where
  "with_read r p = p \<lparr> p_readStatus := fst r, p_readValue := fst (snd r), p_readCommitTs := snd (snd r) \<rparr>"

definition PessimisticLockRecord :: "u64 \<Rightarrow> string \<Rightarrow> u64 \<Rightarrow> u64 \<Rightarrow> u64 \<Rightarrow> u64 \<Rightarrow> MvccLock" where
  "PessimisticLockRecord now primaryKey startTs ttlMs forUpdateTs expireAtPhysicalMs =
     \<lparr> l_primaryKey = primaryKey, l_value = [], l_startTs = startTs, l_ttlMs = ttlMs,
       l_createTimeMs = now, l_isDelete = False, l_isPessimistic = True, l_isLockOnly = False,
       l_forUpdateTs = forUpdateTs, l_expireAtPhysicalMs = expireAtPhysicalMs,
       l_legacyExpiry = (expireAtPhysicalMs = 0) \<rparr>"

definition PreparePessimisticLock ::
  "'e IKVEngine \<Rightarrow> u64 \<Rightarrow> 'e MvccStorage \<Rightarrow> string \<Rightarrow> string \<Rightarrow> u64 \<Rightarrow> u64 \<Rightarrow> u64 \<Rightarrow> u64 \<Rightarrow> PreparedMvccWrite" where
  "PreparePessimisticLock E now st key primaryKey startTs ttlMs forUpdateTs expireAtPhysicalMs =
     (let prepared = (prepared_at st key) \<lparr> p_commandVersion := kCommandVersion \<rparr>;
          requestedForUpdateTs = (if forUpdateTs = 0 then startTs else forUpdateTs)
      in case map_of (locks st) key of
           Some l \<Rightarrow>
             if l_startTs l \<noteq> startTs then prepared \<lparr> p_status := LockConflict \<rparr>
             else if \<not> l_isPessimistic l \<or> l_primaryKey l \<noteq> primaryKey then prepared \<lparr> p_status := LockConflict \<rparr>
             else
               let effectiveForUpdateTs = max (l_forUpdateTs l) requestedForUpdateTs;
                   r = ReadCommittedLocked E st key effectiveForUpdateTs;
                   prepared' = with_read r prepared;
                   effectiveExpiry = max (l_expireAtPhysicalMs l) expireAtPhysicalMs
               in if fst r = StorageError then prepared' \<lparr> p_status := StorageError \<rparr>
                  else if effectiveForUpdateTs = l_forUpdateTs l \<and> effectiveExpiry = l_expireAtPhysicalMs l
                  then prepared' \<lparr> p_status := Ok \<rparr>
                  else with_changes st key
                         [BatchPut (LockKey key) (EncodeLockValue
                            (l \<lparr> l_forUpdateTs := effectiveForUpdateTs,
                                 l_expireAtPhysicalMs := effectiveExpiry,
                                 l_legacyExpiry := (effectiveExpiry = 0) \<rparr>))]
                         prepared'
         | None \<Rightarrow>
             if pessimistic_conflict (versions st key) startTs requestedForUpdateTs
             then prepared \<lparr> p_status := WriteConflict \<rparr>
             else
               let r = ReadCommittedLocked E st key requestedForUpdateTs;
                   prepared' = with_read r prepared
               in if fst r = StorageError then prepared' \<lparr> p_status := StorageError \<rparr>
                  else with_changes st key
                         [BatchPut (LockKey key) (EncodeLockValue
                            (PessimisticLockRecord now primaryKey startTs ttlMs requestedForUpdateTs
                               expireAtPhysicalMs))]
                         prepared')"

definition PreparePrewriteLock ::
  "'e MvccStorage \<Rightarrow> string \<Rightarrow> string \<Rightarrow> u64 \<Rightarrow> u64 \<Rightarrow> u64 \<Rightarrow> PreparedMvccWrite" where
  "PreparePrewriteLock st key primaryKey startTs ttlMs forUpdateTs =
     (let prepared = (prepared_at st key) \<lparr> p_commandVersion := kCommandVersion \<rparr> in
      case map_of (locks st) key of
        None \<Rightarrow> prepared \<lparr> p_status := NotFound \<rparr>
      | Some l \<Rightarrow>
          if l_startTs l \<noteq> startTs \<or> l_primaryKey l \<noteq> primaryKey then prepared \<lparr> p_status := LockConflict \<rparr>
          else if \<not> l_isPessimistic l
          then prepared \<lparr> p_status := (if l_isLockOnly l then Ok else LockConflict) \<rparr>
          else if forUpdateTs \<noteq> 0 \<and> forUpdateTs < l_forUpdateTs l then prepared \<lparr> p_status := WriteConflict \<rparr>
          else with_changes st key
                 [BatchPut (LockKey key) (EncodeLockValue
                    (l \<lparr> l_isPessimistic := False, l_isLockOnly := True, l_ttlMs := ttlMs \<rparr>))]
                 prepared)"

text \<open>
  The verdict on a commit request, shared by \<open>PrepareCommit\<close> and \<open>Commit\<close>, which repeat the
  same checks.
\<close>

definition CommitVerdict :: "'e MvccStorage \<Rightarrow> string \<Rightarrow> u64 \<Rightarrow> u64 \<Rightarrow> TxnStatus" where
  "CommitVerdict st key startTs commitTs =
     (case map_of (locks st) key of
        None \<Rightarrow>
          (case find (\<lambda>x. w_startTs (snd x) = startTs) (versions st key) of
             Some x \<Rightarrow> if w_type (snd x) = WtRollback then WriteConflict else AlreadyCommitted
           | None \<Rightarrow> NotFound)
      | Some l \<Rightarrow>
          if l_startTs l \<noteq> startTs then LockConflict
          else if commitTs \<le> max startTs (l_forUpdateTs l) then WriteConflict
          else (case map_of (versions st key) commitTs of
                  Some w \<Rightarrow> if w_startTs w = startTs then AlreadyCommitted else WriteConflict
                | None \<Rightarrow>
                    if list_ex (\<lambda>x. w_startTs (snd x) \<noteq> startTs \<and> w_type (snd x) \<noteq> WtRollback)
                         (takeWhile (\<lambda>x. fst x \<le> commitTs) (dropWhile (\<lambda>x. fst x < startTs) (versions st key)))
                    then WriteConflict else Ok))"

definition CommitWrite :: "MvccLock \<Rightarrow> u64 \<Rightarrow> u64 \<Rightarrow> MvccWrite" where
  "CommitWrite l startTs commitTs = \<lparr> w_startTs = startTs, w_commitTs = commitTs,
     w_type = (if l_isLockOnly l then WtLock else if l_isDelete l then WtDelete else WtPut) \<rparr>"

definition PrepareCommit :: "'e MvccStorage \<Rightarrow> string \<Rightarrow> u64 \<Rightarrow> u64 \<Rightarrow> PreparedMvccWrite" where
  "PrepareCommit st key startTs commitTs =
     (let prepared = prepared_at st key; verdict = CommitVerdict st key startTs commitTs in
      case map_of (locks st) key of
        None \<Rightarrow> prepared \<lparr> p_status := verdict \<rparr>
      | Some l \<Rightarrow>
          if verdict \<noteq> Ok then prepared \<lparr> p_status := verdict \<rparr>
          else with_changes st key
                 [BatchPut (WriteKey key commitTs) (EncodeWriteValue (CommitWrite l startTs commitTs)),
                  BatchDelete (LockKey key)]
                 prepared)"

definition RollbackWrite :: "u64 \<Rightarrow> MvccWrite" where
  "RollbackWrite startTs = \<lparr> w_startTs = startTs, w_commitTs = startTs, w_type = WtRollback \<rparr>"

definition owns_lock :: "'e MvccStorage \<Rightarrow> string \<Rightarrow> u64 \<Rightarrow> bool" where
  "owns_lock st key startTs =
     (case map_of (locks st) key of None \<Rightarrow> False | Some l \<Rightarrow> l_startTs l = startTs)"

definition rollback_ops :: "'e MvccStorage \<Rightarrow> string \<Rightarrow> u64 \<Rightarrow> KVBatchOp list" where
  "rollback_ops st key startTs =
     (if owns_lock st key startTs then [BatchDelete (LockKey key)] else []) @
     [BatchDelete (DataKey key startTs),
      BatchPut (WriteKey key startTs) (EncodeWriteValue (RollbackWrite startTs))]"

definition PrepareRollbackLocked :: "'e MvccStorage \<Rightarrow> string \<Rightarrow> u64 \<Rightarrow> PreparedMvccWrite" where
  "PrepareRollbackLocked st key startTs =
     (let prepared = prepared_at st key in
      case find (\<lambda>x. w_startTs (snd x) = startTs) (versions st key) of
        Some x \<Rightarrow> prepared \<lparr> p_status := (if w_type (snd x) = WtRollback then Ok else AlreadyCommitted) \<rparr>
      | None \<Rightarrow> with_changes st key (rollback_ops st key startTs) prepared)"

definition PrepareRollback :: "'e MvccStorage \<Rightarrow> string \<Rightarrow> u64 \<Rightarrow> PreparedMvccWrite" where
  "PrepareRollback st key startTs = PrepareRollbackLocked st key startTs"

definition PrepareCheckTxnStatus :: "'e MvccStorage \<Rightarrow> string \<Rightarrow> u64 \<Rightarrow> u64 \<Rightarrow> bool \<Rightarrow> PreparedMvccWrite" where
  "PrepareCheckTxnStatus st primaryKey startTs currentPhysicalMs rollbackIfExpired =
     (let rs = InspectTxnStatusLocked st primaryKey startTs;
          prepared = (prepared_at st primaryKey) \<lparr> p_status := Ok, p_txnRecordStatus := rs \<rparr>
      in if \<not> rollbackIfExpired \<or> rs_state rs \<noteq> Locked then prepared
         else case rs_lock rs of
                None \<Rightarrow> prepared
              | Some txnLock \<Rightarrow>
                  if \<not> (\<not> l_legacyExpiry txnLock \<and> l_expireAtPhysicalMs txnLock \<noteq> 0 \<and>
                        l_expireAtPhysicalMs txnLock \<le> currentPhysicalMs)
                  then prepared
                  else let rb = PrepareRollbackLocked st primaryKey startTs in
                       if p_status rb = Ok
                       then rb \<lparr> p_commandVersion := kCommandVersion,
                                 p_txnRecordStatus := \<lparr> rs_state = RolledBack, rs_commitTs = 0, rs_lock = None \<rparr> \<rparr>
                       else rb)"

definition PrepareResolveLock :: "'e MvccStorage \<Rightarrow> string \<Rightarrow> u64 \<Rightarrow> TxnRecordState \<Rightarrow> u64 \<Rightarrow> PreparedMvccWrite" where
  "PrepareResolveLock st key startTs decision commitTs =
     (if decision = Committed \<and> commitTs \<noteq> 0
      then (PrepareCommit st key startTs commitTs) \<lparr> p_commandVersion := kCommandVersion \<rparr>
      else if decision = RolledBack
      then (PrepareRollback st key startTs) \<lparr> p_commandVersion := kCommandVersion \<rparr>
      else new_prepared \<lparr> p_status := StorageError \<rparr>)"

section \<open>Preparing batches\<close>

fun BatchPrewriteLoop ::
  "u64 \<Rightarrow> 'e MvccStorage \<Rightarrow> string \<Rightarrow> u64 \<Rightarrow> u64 \<Rightarrow> u64 \<Rightarrow> string option \<Rightarrow> MvccMutation list \<Rightarrow>
   PreparedMvccBatchItem list \<Rightarrow> PreparedMvccBatch" where
  "BatchPrewriteLoop now st primaryKey startTs ttlMs forUpdateTs previous [] items =
     new_batch \<lparr> b_status := Ok, b_items := items \<rparr>"
| "BatchPrewriteLoop now st primaryKey startTs ttlMs forUpdateTs previous (m # ms) items =
     (if m_key m = [] \<or> previous = Some (m_key m) then new_batch \<lparr> b_items := items \<rparr>
      else
        let prepared = (if m_isLockOnly m
              then PreparePrewriteLock st (m_key m) primaryKey startTs ttlMs forUpdateTs
              else PreparePrewrite now st (m_key m) (m_value m) primaryKey startTs ttlMs (m_isDelete m) forUpdateTs)
        in if p_status prepared \<noteq> Ok then new_batch \<lparr> b_status := p_status prepared \<rparr>
           else BatchPrewriteLoop now st primaryKey startTs ttlMs forUpdateTs (Some (m_key m)) ms
                  (items @ [\<lparr> i_key = m_key m, i_prepared = prepared \<rparr>]))"

definition PrepareBatchPrewrite ::
  "u64 \<Rightarrow> 'e MvccStorage \<Rightarrow> MvccMutation list \<Rightarrow> string \<Rightarrow> u64 \<Rightarrow> u64 \<Rightarrow> u64 \<Rightarrow> PreparedMvccBatch" where
  "PrepareBatchPrewrite now st mutations primaryKey startTs ttlMs forUpdateTs =
     (let ordered = sort_key m_key mutations in
      if ordered = [] then new_batch
      else BatchPrewriteLoop now st primaryKey startTs ttlMs forUpdateTs None ordered [])"

fun BatchCommitLoop ::
  "'e MvccStorage \<Rightarrow> u64 \<Rightarrow> u64 \<Rightarrow> string list \<Rightarrow> PreparedMvccBatchItem list \<Rightarrow> PreparedMvccBatch" where
  "BatchCommitLoop st startTs commitTs [] items = new_batch \<lparr> b_status := Ok, b_items := items \<rparr>"
| "BatchCommitLoop st startTs commitTs (key # keys) items =
     (let p0 = PrepareCommit st key startTs commitTs;
          prepared = (if p_status p0 = AlreadyCommitted then p0 \<lparr> p_status := Ok \<rparr> else p0)
      in if p_status prepared \<noteq> Ok then new_batch \<lparr> b_status := p_status prepared \<rparr>
         else BatchCommitLoop st startTs commitTs keys (items @ [\<lparr> i_key = key, i_prepared = prepared \<rparr>]))"

definition PrepareBatchCommit :: "'e MvccStorage \<Rightarrow> string list \<Rightarrow> u64 \<Rightarrow> u64 \<Rightarrow> PreparedMvccBatch" where
  "PrepareBatchCommit st keys startTs commitTs =
     (let ordered = remdups_adj (sort keys) in
      if ordered = [] \<or> hd ordered = [] then new_batch
      else BatchCommitLoop st startTs commitTs ordered [])"

fun BatchRollbackLoop ::
  "'e MvccStorage \<Rightarrow> u64 \<Rightarrow> string list \<Rightarrow> PreparedMvccBatchItem list \<Rightarrow> PreparedMvccBatch" where
  "BatchRollbackLoop st startTs [] items = new_batch \<lparr> b_status := Ok, b_items := items \<rparr>"
| "BatchRollbackLoop st startTs (key # keys) items =
     (let prepared = PrepareRollback st key startTs
      in if p_status prepared \<noteq> Ok then new_batch \<lparr> b_status := p_status prepared \<rparr>
         else BatchRollbackLoop st startTs keys (items @ [\<lparr> i_key = key, i_prepared = prepared \<rparr>]))"

definition PrepareBatchRollback :: "'e MvccStorage \<Rightarrow> string list \<Rightarrow> u64 \<Rightarrow> PreparedMvccBatch" where
  "PrepareBatchRollback st keys startTs =
     (let ordered = remdups_adj (sort keys) in
      if ordered = [] \<or> hd ordered = [] then new_batch
      else BatchRollbackLoop st startTs ordered [])"

section \<open>Applying commands\<close>

definition ApplyMetadataMutationLocked :: "u64 \<Rightarrow> KVBatchOp \<Rightarrow> 'e MvccStorage \<Rightarrow> 'e MvccStorage option" where
  "ApplyMetadataMutationLocked now op st =
     (if prefix ''lock/'' (op_key op) then
        (let key = StripPrefix (op_key op) ''lock/'' in
         if op_type op = OpDelete then Some (st \<lparr> locks := om_del key (locks st) \<rparr>)
         else case DecodeLockValue now (op_value op) of
                None \<Rightarrow> None
              | Some None \<Rightarrow> Some st
              | Some (Some l) \<Rightarrow> Some (st \<lparr> locks := om_put key l (locks st) \<rparr>))
      else if prefix ''write/'' (op_key op) then
        (case SplitKeyTs (StripPrefix (op_key op) ''write/'') of
           None \<Rightarrow> Some st
         | Some (key, commitTs) \<Rightarrow>
             if op_type op = OpDelete then Some (st \<lparr> writes := del_version key commitTs (writes st) \<rparr>)
             else case DecodeWriteValue (op_value op) of
                    None \<Rightarrow> None
                  | Some None \<Rightarrow> Some st
                  | Some (Some w) \<Rightarrow>
                      Some (st \<lparr> writes := put_version key commitTs (w \<lparr> w_commitTs := commitTs \<rparr>) (writes st) \<rparr>))
      else if prefix ''meta/revision/'' (op_key op) \<and> op_type op = OpPut then
        Some (st \<lparr> revisions := om_put (StripPrefix (op_key op) ''meta/revision/'') (DecodeTs (op_value op)) (revisions st) \<rparr>)
      else Some st)"

fun ApplyMutations :: "u64 \<Rightarrow> KVBatchOp list \<Rightarrow> 'e MvccStorage \<Rightarrow> 'e MvccStorage option" where
  "ApplyMutations now [] st = Some st"
| "ApplyMutations now (op # ops) st =
     (case ApplyMetadataMutationLocked now op st of
        None \<Rightarrow> None | Some st' \<Rightarrow> ApplyMutations now ops st')"

definition progress_ops :: "u64 \<Rightarrow> KVBatchOp list" where
  "progress_ops index = (if index \<noteq> 0 then [BatchPut AppliedIndexKey (to_string index)] else [])"

definition known_version :: "u32 \<Rightarrow> bool" where
  "known_version v \<longleftrightarrow> v = kLegacyCommandVersion \<or> v = kCommandVersion"

definition ApplyPrepared ::
  "'e IKVEngine \<Rightarrow> u64 \<Rightarrow> 'e MvccStorage \<Rightarrow> string \<Rightarrow> PreparedMvccWrite \<Rightarrow> u64 \<Rightarrow> (TxnStatus \<times> 'e MvccStorage) option" where
  "ApplyPrepared E now st key prepared index =
     (if \<not> known_version (p_commandVersion prepared) \<or> p_status prepared \<noteq> Ok \<or>
         p_modifications prepared = [] \<or> p_newRevision prepared \<noteq> p_expectedRevision prepared + 1
      then Some (StorageError, st)
      else if index \<noteq> 0 \<and> index \<le> appliedRaftIndex st then Some (Ok, st)
      else if CurrentRevisionLocked st key \<noteq> p_expectedRevision prepared then Some (StorageError, st)
      else case kv_WriteBatch E (engine st) (p_modifications prepared @ progress_ops index) of
             (False, e) \<Rightarrow> Some (StorageError, st \<lparr> engine := e \<rparr>)
           | (True, e) \<Rightarrow>
               (case ApplyMutations now (p_modifications prepared)
                       (st \<lparr> engine := e, writeBatchCount := writeBatchCount st + 1 \<rparr>) of
                  None \<Rightarrow> None
                | Some st' \<Rightarrow>
                    if CurrentRevisionLocked st' key \<noteq> p_newRevision prepared then Some (StorageError, st')
                    else Some (Ok, if index \<noteq> 0 then st' \<lparr> appliedRaftIndex := index \<rparr> else st')))"

fun CheckBatchItems ::
  "(string \<Rightarrow> u64) \<Rightarrow> string \<Rightarrow> PreparedMvccBatchItem list \<Rightarrow> KVBatchOp list option" where
  "CheckBatchItems rv previousKey [] = Some []"
| "CheckBatchItems rv previousKey (i # is) =
     (let p = i_prepared i in
      if i_key i = [] \<or> (previousKey \<noteq> [] \<and> i_key i \<le> previousKey) \<or> p_status p \<noteq> Ok then None
      else if p_modifications p \<noteq> [] \<and>
              (p_newRevision p \<noteq> p_expectedRevision p + 1 \<or> rv (i_key i) \<noteq> p_expectedRevision p) then None
      else case CheckBatchItems rv (i_key i) is of
             None \<Rightarrow> None | Some ops \<Rightarrow> Some (p_modifications p @ ops))"

fun ApplyBatchItems ::
  "u64 \<Rightarrow> PreparedMvccBatchItem list \<Rightarrow> 'e MvccStorage \<Rightarrow> (TxnStatus \<times> 'e MvccStorage) option" where
  "ApplyBatchItems now [] st = Some (Ok, st)"
| "ApplyBatchItems now (i # is) st =
     (let p = i_prepared i in
      case ApplyMutations now (p_modifications p) st of
        None \<Rightarrow> None
      | Some st' \<Rightarrow>
          if p_modifications p \<noteq> [] \<and> CurrentRevisionLocked st' (i_key i) \<noteq> p_newRevision p
          then Some (StorageError, st')
          else ApplyBatchItems now is st')"

definition ApplyPreparedBatch ::
  "'e IKVEngine \<Rightarrow> u64 \<Rightarrow> 'e MvccStorage \<Rightarrow> PreparedMvccBatch \<Rightarrow> u64 \<Rightarrow> (TxnStatus \<times> 'e MvccStorage) option" where
  "ApplyPreparedBatch E now st prepared index =
     (if b_commandVersion prepared \<noteq> kBatchCommandVersion \<or> b_status prepared \<noteq> Ok \<or> b_items prepared = []
      then Some (StorageError, st)
      else if index \<noteq> 0 \<and> index \<le> appliedRaftIndex st then Some (Ok, st)
      else case CheckBatchItems (CurrentRevisionLocked st) [] (b_items prepared) of
             None \<Rightarrow> Some (StorageError, st)
           | Some ops \<Rightarrow>
               if ops @ progress_ops index = [] then Some (StorageError, st)
               else (case kv_WriteBatch E (engine st) (ops @ progress_ops index) of
                       (False, e) \<Rightarrow> Some (StorageError, st \<lparr> engine := e \<rparr>)
                     | (True, e) \<Rightarrow>
                         (case ApplyBatchItems now (b_items prepared)
                                 (st \<lparr> engine := e, writeBatchCount := writeBatchCount st + 1 \<rparr>) of
                            None \<Rightarrow> None
                          | Some (s, st') \<Rightarrow>
                              if s \<noteq> Ok then Some (s, st')
                              else Some (Ok, if index \<noteq> 0 then st' \<lparr> appliedRaftIndex := index \<rparr> else st'))))"

text \<open>
  The atomic group apply: a first pass checks every command against the revisions staged by
  the earlier ones and collects one batch, a second pass updates the indexes.
\<close>

type_synonym staged = "(string, u64) omap"

definition currentOrStagedRevision :: "'e MvccStorage \<Rightarrow> staged \<Rightarrow> string \<Rightarrow> u64" where
  "currentOrStagedRevision st sr key =
     (case map_of sr key of Some r \<Rightarrow> r | None \<Rightarrow> CurrentRevisionLocked st key)"

fun StageBatchItems ::
  "'e MvccStorage \<Rightarrow> string \<Rightarrow> PreparedMvccBatchItem list \<Rightarrow> staged \<Rightarrow> (staged \<times> KVBatchOp list) option" where
  "StageBatchItems st previousKey [] sr = Some (sr, [])"
| "StageBatchItems st previousKey (i # is) sr =
     (let p = i_prepared i in
      if i_key i = [] \<or> (previousKey \<noteq> [] \<and> i_key i \<le> previousKey) \<or> p_status p \<noteq> Ok then None
      else if p_modifications p = [] then StageBatchItems st (i_key i) is sr
      else if p_newRevision p \<noteq> p_expectedRevision p + 1 \<or>
              currentOrStagedRevision st sr (i_key i) \<noteq> p_expectedRevision p then None
      else case StageBatchItems st (i_key i) is (om_put (i_key i) (p_newRevision p) sr) of
             None \<Rightarrow> None | Some (sr', ops) \<Rightarrow> Some (sr', p_modifications p @ ops))"

definition StageCommand ::
  "'e MvccStorage \<Rightarrow> PreparedApplyCommand \<Rightarrow> staged \<Rightarrow> (staged \<times> KVBatchOp list) option" where
  "StageCommand st cmd sr =
     (if \<not> c_isBatch cmd then
        (let p = c_single cmd in
         if \<not> known_version (p_commandVersion p) \<or> p_status p \<noteq> Ok \<or> p_modifications p = [] \<or>
            p_newRevision p \<noteq> p_expectedRevision p + 1 \<or>
            currentOrStagedRevision st sr (c_key cmd) \<noteq> p_expectedRevision p then None
         else Some (om_put (c_key cmd) (p_newRevision p) sr, p_modifications p))
      else
        (let b = c_batch cmd in
         if b_commandVersion b \<noteq> kBatchCommandVersion \<or> b_status b \<noteq> Ok \<or> b_items b = [] then None
         else StageBatchItems st [] (b_items b) sr))"

fun StageCommands ::
  "'e MvccStorage \<Rightarrow> u64 \<Rightarrow> PreparedApplyCommand list \<Rightarrow> staged \<Rightarrow> (staged \<times> KVBatchOp list) option" where
  "StageCommands st prevRaftIndex [] sr = Some (sr, [])"
| "StageCommands st prevRaftIndex (cmd # cmds) sr =
     (if c_raftIndex cmd = 0 \<or> c_raftIndex cmd \<le> prevRaftIndex then None
      else case StageCommand st cmd sr of
             None \<Rightarrow> None
           | Some (sr1, ops1) \<Rightarrow>
               (case StageCommands st (c_raftIndex cmd) cmds sr1 of
                  None \<Rightarrow> None | Some (sr2, ops2) \<Rightarrow> Some (sr2, ops1 @ ops2)))"

definition command_ops :: "PreparedApplyCommand \<Rightarrow> KVBatchOp list" where
  "command_ops cmd =
     (if \<not> c_isBatch cmd then p_modifications (c_single cmd)
      else concat (map (\<lambda>i. p_modifications (i_prepared i)) (b_items (c_batch cmd))))"

definition ApplyPreparedCommandsAtomically ::
  "'e IKVEngine \<Rightarrow> u64 \<Rightarrow> 'e MvccStorage \<Rightarrow> PreparedApplyCommand list \<Rightarrow> (bool \<times> 'e MvccStorage) option" where
  "ApplyPreparedCommandsAtomically E now st commands =
     (if commands = [] then Some (False, st)
      else case StageCommands st (appliedRaftIndex st) commands [] of
             None \<Rightarrow> Some (False, st)
           | Some (sr, ops) \<Rightarrow>
               if ops = [] then Some (False, st)
               else
                 (let finalRaftIndex = c_raftIndex (last commands) in
                  case kv_WriteBatch E (engine st) (ops @ [BatchPut AppliedIndexKey (to_string finalRaftIndex)]) of
                    (False, e) \<Rightarrow> Some (False, st \<lparr> engine := e \<rparr>)
                  | (True, e) \<Rightarrow>
                      (case ApplyMutations now (concat (map command_ops commands))
                              (st \<lparr> engine := e, writeBatchCount := writeBatchCount st + 1 \<rparr>) of
                         None \<Rightarrow> None
                       | Some st' \<Rightarrow>
                           if list_ex (\<lambda>x. CurrentRevisionLocked st' (fst x) \<noteq> snd x) sr then Some (False, st')
                           else Some (True, st' \<lparr> appliedRaftIndex := finalRaftIndex \<rparr>))))"

section \<open>Direct operations\<close>

text \<open>
  Writing a batch and, when the engine accepts it, updating the indexes by hand: the common
  tail of the operations that do not go through a prepared command.
\<close>

definition commit_batch ::
  "'e IKVEngine \<Rightarrow> 'e MvccStorage \<Rightarrow> string \<Rightarrow> KVBatchOp list \<Rightarrow> ('e MvccStorage \<Rightarrow> 'e MvccStorage) \<Rightarrow>
   TxnStatus \<times> 'e MvccStorage" where
  "commit_batch E st key ops upd =
     (case kv_WriteBatch E (engine st) (ops @ [RevisionMutation st key]) of
        (False, e) \<Rightarrow> (StorageError, st \<lparr> engine := e \<rparr>)
      | (True, e) \<Rightarrow>
          let st' = upd (st \<lparr> engine := e, writeBatchCount := writeBatchCount st + 1 \<rparr>)
          in (Ok, st' \<lparr> revisions := om_put key (CurrentRevisionLocked st key + 1) (revisions st') \<rparr>))"

definition AcquirePessimisticLock ::
  "'e IKVEngine \<Rightarrow> u64 \<Rightarrow> 'e MvccStorage \<Rightarrow> string \<Rightarrow> string \<Rightarrow> u64 \<Rightarrow> u64 \<Rightarrow> u64 \<Rightarrow> u64 \<Rightarrow> TxnStatus \<times> 'e MvccStorage" where
  "AcquirePessimisticLock E now st key primaryKey startTs ttlMs forUpdateTs expireAtPhysicalMs =
     (case map_of (locks st) key of
        Some l \<Rightarrow> (if l_startTs l = startTs then Ok else LockConflict, st)
      | None \<Rightarrow>
          if prewrite_conflict (versions st key) startTs then (WriteConflict, st)
          else
            let l = PessimisticLockRecord now primaryKey startTs ttlMs
                      (if forUpdateTs = 0 then startTs else forUpdateTs) expireAtPhysicalMs
            in commit_batch E st key [BatchPut (LockKey key) (EncodeLockValue l)]
                 (\<lambda>s. s \<lparr> locks := om_put key l (locks s) \<rparr>))"

definition AcquirePessimisticLockForUpdate ::
  "'e IKVEngine \<Rightarrow> u64 \<Rightarrow> 'e MvccStorage \<Rightarrow> string \<Rightarrow> string \<Rightarrow> u64 \<Rightarrow> u64 \<Rightarrow> u64 \<Rightarrow> u64 \<Rightarrow>
   (PessimisticLockResult \<times> 'e MvccStorage) option" where
  "AcquirePessimisticLockForUpdate E now st key primaryKey startTs ttlMs forUpdateTs expireAtPhysicalMs =
     (let prepared = PreparePessimisticLock E now st key primaryKey startTs ttlMs forUpdateTs expireAtPhysicalMs;
          result = \<lparr> pr_status = p_status prepared, pr_found = (p_readStatus prepared = Ok),
                     pr_value = p_readValue prepared, pr_valueCommitTs = p_readCommitTs prepared,
                     pr_applied = False \<rparr>
      in if p_status prepared \<noteq> Ok then Some (result, st)
         else if PreparedHasChanges prepared then
           (case ApplyPrepared E now st key prepared 0 of
              None \<Rightarrow> None
            | Some (s, st') \<Rightarrow> Some (result \<lparr> pr_status := s, pr_applied := (s = Ok) \<rparr>, st'))
         else Some (result \<lparr> pr_applied := True \<rparr>, st))"

definition PrewriteLocked ::
  "'e IKVEngine \<Rightarrow> u64 \<Rightarrow> 'e MvccStorage \<Rightarrow> string \<Rightarrow> string \<Rightarrow> string \<Rightarrow> u64 \<Rightarrow> u64 \<Rightarrow> bool \<Rightarrow> u64 \<Rightarrow>
   TxnStatus \<times> 'e MvccStorage" where
  "PrewriteLocked E now st key value primaryKey startTs ttlMs isDelete forUpdateTs =
     (let existing = map_of (locks st) key in
      if (case existing of
            None \<Rightarrow> False
          | Some l \<Rightarrow> l_startTs l \<noteq> startTs \<or> \<not> l_isPessimistic l \<or> l_primaryKey l \<noteq> primaryKey \<or>
                     (forUpdateTs \<noteq> 0 \<and> forUpdateTs < l_forUpdateTs l)) then (LockConflict, st)
      else if prewrite_conflict (versions st key) startTs then (WriteConflict, st)
      else
        let l = PrewriteLockRecord now existing primaryKey value startTs ttlMs isDelete forUpdateTs
        in commit_batch E st key
             [prewrite_data_op key value startTs isDelete, BatchPut (LockKey key) (EncodeLockValue l)]
             (\<lambda>s. s \<lparr> locks := om_put key l (locks s) \<rparr>))"

definition Prewrite ::
  "'e IKVEngine \<Rightarrow> u64 \<Rightarrow> 'e MvccStorage \<Rightarrow> string \<Rightarrow> string \<Rightarrow> string \<Rightarrow> u64 \<Rightarrow> u64 \<Rightarrow> u64 \<Rightarrow> TxnStatus \<times> 'e MvccStorage" where
  "Prewrite E now st key value primaryKey startTs ttlMs forUpdateTs =
     PrewriteLocked E now st key value primaryKey startTs ttlMs False forUpdateTs"

definition PrewriteDelete ::
  "'e IKVEngine \<Rightarrow> u64 \<Rightarrow> 'e MvccStorage \<Rightarrow> string \<Rightarrow> string \<Rightarrow> u64 \<Rightarrow> u64 \<Rightarrow> u64 \<Rightarrow> TxnStatus \<times> 'e MvccStorage" where
  "PrewriteDelete E now st key primaryKey startTs ttlMs forUpdateTs =
     PrewriteLocked E now st key [] primaryKey startTs ttlMs True forUpdateTs"

definition PrewriteLock ::
  "'e IKVEngine \<Rightarrow> u64 \<Rightarrow> 'e MvccStorage \<Rightarrow> string \<Rightarrow> string \<Rightarrow> u64 \<Rightarrow> u64 \<Rightarrow> u64 \<Rightarrow> (TxnStatus \<times> 'e MvccStorage) option" where
  "PrewriteLock E now st key primaryKey startTs ttlMs forUpdateTs =
     (let prepared = PreparePrewriteLock st key primaryKey startTs ttlMs forUpdateTs in
      if p_status prepared \<noteq> Ok \<or> \<not> PreparedHasChanges prepared then Some (p_status prepared, st)
      else ApplyPrepared E now st key prepared 0)"

definition Commit ::
  "'e IKVEngine \<Rightarrow> 'e MvccStorage \<Rightarrow> string \<Rightarrow> u64 \<Rightarrow> u64 \<Rightarrow> TxnStatus \<times> 'e MvccStorage" where
  "Commit E st key startTs commitTs =
     (case map_of (locks st) key of
        None \<Rightarrow> (CommitVerdict st key startTs commitTs, st)
      | Some l \<Rightarrow>
          if CommitVerdict st key startTs commitTs \<noteq> Ok then (CommitVerdict st key startTs commitTs, st)
          else
            let w = CommitWrite l startTs commitTs
            in commit_batch E st key
                 [BatchPut (WriteKey key commitTs) (EncodeWriteValue w), BatchDelete (LockKey key)]
                 (\<lambda>s. s \<lparr> writes := put_version key commitTs w (writes s), locks := om_del key (locks s) \<rparr>))"

definition Rollback ::
  "'e IKVEngine \<Rightarrow> 'e MvccStorage \<Rightarrow> string \<Rightarrow> u64 \<Rightarrow> TxnStatus \<times> 'e MvccStorage" where
  "Rollback E st key startTs =
     (if list_ex (\<lambda>x. w_startTs (snd x) = startTs \<and> w_type (snd x) \<noteq> WtRollback) (versions st key)
      then (AlreadyCommitted, st)
      else commit_batch E st key (rollback_ops st key startTs)
             (\<lambda>s. s \<lparr> locks := (if owns_lock st key startTs then om_del key (locks s) else locks s),
                      writes := put_version key startTs (RollbackWrite startTs) (writes s) \<rparr>))"

definition CheckTxnStatus ::
  "'e IKVEngine \<Rightarrow> u64 \<Rightarrow> 'e MvccStorage \<Rightarrow> string \<Rightarrow> u64 \<Rightarrow> u64 \<Rightarrow> bool \<Rightarrow>
   ((TxnStatus \<times> TxnRecordStatus option) \<times> 'e MvccStorage) option" where
  "CheckTxnStatus E now st primaryKey startTs currentPhysicalMs rollbackIfExpired =
     (let prepared = PrepareCheckTxnStatus st primaryKey startTs currentPhysicalMs rollbackIfExpired in
      if p_status prepared \<noteq> Ok then Some ((p_status prepared, None), st)
      else if PreparedHasChanges prepared then
        (case ApplyPrepared E now st primaryKey prepared 0 of
           None \<Rightarrow> None
         | Some (applied, st') \<Rightarrow>
             if applied \<noteq> Ok then Some ((applied, None), st')
             else Some ((Ok, Some (p_txnRecordStatus prepared)), st'))
      else Some ((Ok, Some (p_txnRecordStatus prepared)), st))"

definition ResolveLock ::
  "'e IKVEngine \<Rightarrow> u64 \<Rightarrow> 'e MvccStorage \<Rightarrow> string \<Rightarrow> u64 \<Rightarrow> TxnRecordState \<Rightarrow> u64 \<Rightarrow> (TxnStatus \<times> 'e MvccStorage) option" where
  "ResolveLock E now st key startTs decision commitTs =
     (let prepared = PrepareResolveLock st key startTs decision commitTs in
      if p_status prepared = AlreadyCommitted then Some (Ok, st)
      else if p_status prepared \<noteq> Ok then Some (p_status prepared, st)
      else if \<not> PreparedHasChanges prepared then Some (Ok, st)
      else ApplyPrepared E now st key prepared 0)"

definition ApplyBatchIfChanged ::
  "'e IKVEngine \<Rightarrow> u64 \<Rightarrow> 'e MvccStorage \<Rightarrow> PreparedMvccBatch \<Rightarrow> (TxnStatus \<times> 'e MvccStorage) option" where
  "ApplyBatchIfChanged E now st prepared =
     (if b_status prepared \<noteq> Ok \<or> \<not> BatchHasChanges prepared then Some (b_status prepared, st)
      else ApplyPreparedBatch E now st prepared 0)"

definition BatchPrewrite ::
  "'e IKVEngine \<Rightarrow> u64 \<Rightarrow> 'e MvccStorage \<Rightarrow> MvccMutation list \<Rightarrow> string \<Rightarrow> u64 \<Rightarrow> u64 \<Rightarrow> u64 \<Rightarrow>
   (TxnStatus \<times> 'e MvccStorage) option" where
  "BatchPrewrite E now st mutations primaryKey startTs ttlMs forUpdateTs =
     ApplyBatchIfChanged E now st (PrepareBatchPrewrite now st mutations primaryKey startTs ttlMs forUpdateTs)"

definition BatchCommit ::
  "'e IKVEngine \<Rightarrow> u64 \<Rightarrow> 'e MvccStorage \<Rightarrow> string list \<Rightarrow> u64 \<Rightarrow> u64 \<Rightarrow> (TxnStatus \<times> 'e MvccStorage) option" where
  "BatchCommit E now st keys startTs commitTs =
     ApplyBatchIfChanged E now st (PrepareBatchCommit st keys startTs commitTs)"

definition BatchRollback ::
  "'e IKVEngine \<Rightarrow> u64 \<Rightarrow> 'e MvccStorage \<Rightarrow> string list \<Rightarrow> u64 \<Rightarrow> (TxnStatus \<times> 'e MvccStorage) option" where
  "BatchRollback E now st keys startTs =
     ApplyBatchIfChanged E now st (PrepareBatchRollback st keys startTs)"

section \<open>Garbage collection\<close>

definition gc_keep :: "u64 \<Rightarrow> version_map \<Rightarrow> u64 option" where
  "gc_keep safePointTs vs =
     map_option fst (find (\<lambda>x. w_type (snd x) = WtPut \<or> w_type (snd x) = WtDelete)
       (rev (takeWhile (\<lambda>x. fst x < safePointTs) vs)))"

definition gc_victims :: "u64 \<Rightarrow> version_map \<Rightarrow> version_map" where
  "gc_victims safePointTs vs =
     (if length vs \<le> 1 then []
      else filter (\<lambda>x. \<not> (fst x \<ge> safePointTs \<or> gc_keep safePointTs vs = Some (fst x))) vs)"

definition gc_ops :: "u64 \<Rightarrow> string \<times> version_map \<Rightarrow> KVBatchOp list" where
  "gc_ops safePointTs kw =
     concat (map (\<lambda>x. (if w_type (snd x) = WtPut then [BatchDelete (DataKey (fst kw) (w_startTs (snd x)))] else []) @
                       [BatchDelete (WriteKey (fst kw) (fst x))]) (gc_victims safePointTs (snd kw)))"

definition GarbageCollect :: "'e IKVEngine \<Rightarrow> 'e MvccStorage \<Rightarrow> u64 \<Rightarrow> nat \<times> 'e MvccStorage" where
  "GarbageCollect E st safePointTs =
     (let versionsToRemove = concat (map (\<lambda>kw. map (\<lambda>x. (fst kw, fst x)) (gc_victims safePointTs (snd kw))) (writes st));
          touchedKeys = map fst (filter (\<lambda>kw. gc_victims safePointTs (snd kw) \<noteq> []) (writes st));
          ops = concat (map (gc_ops safePointTs) (writes st))
      in if versionsToRemove = [] then (0, st)
         else case kv_WriteBatch E (engine st) (ops @ map (RevisionMutation st) touchedKeys) of
                (False, e) \<Rightarrow> (0, st \<lparr> engine := e \<rparr>)
              | (True, e) \<Rightarrow>
                  (length versionsToRemove,
                   st \<lparr> engine := e, writeBatchCount := writeBatchCount st + 1,
                        writes := fold (\<lambda>(k, ts). del_version k ts) versionsToRemove (writes st),
                        revisions := fold (\<lambda>k. om_put k (CurrentRevisionLocked st k + 1)) touchedKeys (revisions st) \<rparr>))"

section \<open>Recovery\<close>

fun RecoverRevisions :: "(string \<times> string) list \<Rightarrow> (string, u64) omap \<Rightarrow> (string, u64) omap" where
  "RecoverRevisions [] m = m"
| "RecoverRevisions ((k, v) # items) m =
     RecoverRevisions items (om_put (StripPrefix k ''meta/revision/'') (DecodeTs v) m)"

fun RecoverWrites :: "(string \<times> string) list \<Rightarrow> (string, version_map) omap \<Rightarrow> (string, version_map) omap option" where
  "RecoverWrites [] ws = Some ws"
| "RecoverWrites ((k, v) # items) ws =
     (case SplitKeyTs (StripPrefix k ''write/'') of
        None \<Rightarrow> RecoverWrites items ws
      | Some (key, commitTs) \<Rightarrow>
          (case DecodeWriteValue v of
             None \<Rightarrow> None
           | Some None \<Rightarrow> RecoverWrites items ws
           | Some (Some w) \<Rightarrow> RecoverWrites items (put_version key commitTs (w \<lparr> w_commitTs := commitTs \<rparr>) ws)))"

fun RecoverLocks ::
  "'e IKVEngine \<Rightarrow> u64 \<Rightarrow> (string \<times> string) list \<Rightarrow> 'e MvccStorage \<Rightarrow> 'e MvccStorage option" where
  "RecoverLocks E now [] st = Some st"
| "RecoverLocks E now ((k, v) # items) st =
     (case DecodeLockValue now v of
        None \<Rightarrow> None
      | Some None \<Rightarrow> RecoverLocks E now items st
      | Some (Some l) \<Rightarrow>
          let key = StripPrefix k ''lock/'' in
          if hasFinishedWrite (versions st key) (l_startTs l)
          then RecoverLocks E now items (st \<lparr> engine := snd (kv_Delete E (engine st) (LockKey key)) \<rparr>)
          else
            let l' = (if l_isDelete l then l
                      else case kv_Get E (engine st) (DataKey key (l_startTs l)) of
                             Some value \<Rightarrow> l \<lparr> l_value := value \<rparr> | None \<Rightarrow> l)
            in RecoverLocks E now items (st \<lparr> locks := om_put key l' (locks st) \<rparr>))"

definition RecoverMetadataFromEngineLocked :: "'e IKVEngine \<Rightarrow> u64 \<Rightarrow> 'e MvccStorage \<Rightarrow> 'e MvccStorage option" where
  "RecoverMetadataFromEngineLocked E now st =
     (let e = engine st;
          applied = (case kv_Get E e AppliedIndexKey of Some v \<Rightarrow> DecodeTs v | None \<Rightarrow> 0);
          revs = RecoverRevisions (kv_ScanPrefix E e ''meta/revision/'') []
      in case RecoverWrites (kv_ScanPrefix E e ''write/'') [] of
           None \<Rightarrow> None
         | Some ws \<Rightarrow>
             RecoverLocks E now (kv_ScanPrefix E e ''lock/'')
               (st \<lparr> locks := [], writes := ws, revisions := revs, appliedRaftIndex := applied \<rparr>))"

definition OpenMvccStorage :: "'e IKVEngine \<Rightarrow> u64 \<Rightarrow> 'e \<Rightarrow> 'e MvccStorage option" where
  "OpenMvccStorage E now e = RecoverMetadataFromEngineLocked E now
     \<lparr> engine = e, locks = [], writes = [], revisions = [], writeBatchCount = 0, appliedRaftIndex = 0 \<rparr>"

text \<open>\<open>None\<close> also stands for an exception of the snapshot archive.\<close>

definition RestoreSnapshot ::
  "'e IKVEngine \<Rightarrow> u64 \<Rightarrow> 'e MvccStorage \<Rightarrow> string \<Rightarrow> (bool \<times> 'e MvccStorage) option" where
  "RestoreSnapshot E now st snapshot =
     (case kv_Load E (engine st) snapshot of
        (None, _) \<Rightarrow> None
      | (Some False, e) \<Rightarrow> Some (False, st \<lparr> engine := e \<rparr>)
      | (Some True, e) \<Rightarrow>
          map_option (Pair True) (RecoverMetadataFromEngineLocked E now (st \<lparr> engine := e \<rparr>)))"

definition in_drop_range :: "string \<Rightarrow> string \<Rightarrow> string \<Rightarrow> bool" where
  "in_drop_range rangeBegin rangeEnd key \<longleftrightarrow> key \<ge> rangeBegin \<and> (rangeEnd = [] \<or> key < rangeEnd)"

definition DropKeysInRange :: "'e MvccStorage \<Rightarrow> string \<Rightarrow> string \<Rightarrow> 'e MvccStorage" where
  "DropKeysInRange st rangeBegin rangeEnd =
     (let keep = (\<lambda>k. \<not> in_drop_range rangeBegin rangeEnd k) in
      st \<lparr> locks := filter (\<lambda>x. keep (fst x)) (locks st),
           writes := filter (\<lambda>x. keep (fst x)) (writes st),
           revisions := filter (\<lambda>x. keep (fst x)) (revisions st) \<rparr>)"

end
