(* ===== verification/MvccEffects.thy ===== *)
theory MvccEffects
  imports MvccStorage
begin

text \<open>
  What the operations of the MVCC storage do to one key. Every mutation, whether made by a
  direct operation or by applying a prepared command, is one of three effects on a key: a lock
  is stored, a lock is turned into a committed version, or a rollback record is stored. An
  effect determines the engine batch (\<open>eff_ops\<close>) and the index update (\<open>eff_apply\<close>);
  \<open>eff_guard\<close> is what the checks of the operations establish before an effect, and
  \<open>key_inv\<close> is the invariant of a key that guarded effects preserve.
\<close>

section \<open>Index updates\<close>

lemma versions_other [simp]:
  "versions (st \<lparr> engine := e \<rparr>) = versions st" "versions (st \<lparr> locks := ls \<rparr>) = versions st"
  "versions (st \<lparr> revisions := rs \<rparr>) = versions st" "versions (st \<lparr> writeBatchCount := n \<rparr>) = versions st"
  "versions (st \<lparr> appliedRaftIndex := i \<rparr>) = versions st"
  by (simp_all add: fun_eq_iff versions_def)

lemma revision_other [simp]:
  "CurrentRevisionLocked (st \<lparr> engine := e \<rparr>) = CurrentRevisionLocked st"
  "CurrentRevisionLocked (st \<lparr> locks := ls \<rparr>) = CurrentRevisionLocked st"
  "CurrentRevisionLocked (st \<lparr> writes := ws \<rparr>) = CurrentRevisionLocked st"
  "CurrentRevisionLocked (st \<lparr> writeBatchCount := n \<rparr>) = CurrentRevisionLocked st"
  "CurrentRevisionLocked (st \<lparr> appliedRaftIndex := i \<rparr>) = CurrentRevisionLocked st"
  by (simp_all add: fun_eq_iff CurrentRevisionLocked_def)

lemma revision_put [simp]:
  "CurrentRevisionLocked (st \<lparr> revisions := om_put k r (revisions st0) \<rparr>) k' =
     (if k' = k then r else CurrentRevisionLocked st0 k')"
  by (simp add: CurrentRevisionLocked_def)

lemma versions_put [simp]:
  "versions (st \<lparr> writes := put_version key ts w (writes st0) \<rparr>) k =
     (if k = key then om_put ts w (versions st0 key) else versions st0 k)"
  by (simp add: versions_def put_version_def)

lemma versions_del [simp]:
  "versions (st \<lparr> writes := del_version key ts (writes st0) \<rparr>) k =
     (if k = key then om_del ts (versions st0 key) else versions st0 k)"
  by (simp add: versions_def del_version_def om_del_def split: option.split)

section \<open>Key effects\<close>

datatype key_effect =
  PutLock "KVBatchOp list" MvccLock | CommitAt u64 MvccWrite | RollbackAt u64 bool

fun eff_ops :: "string \<Rightarrow> key_effect \<Rightarrow> KVBatchOp list" where
  "eff_ops key (PutLock d l) = d @ [BatchPut (LockKey key) (EncodeLockValue l)]"
| "eff_ops key (CommitAt c w) = [BatchPut (WriteKey key c) (EncodeWriteValue w), BatchDelete (LockKey key)]"
| "eff_ops key (RollbackAt s own) = (if own then [BatchDelete (LockKey key)] else []) @
     [BatchDelete (DataKey key s), BatchPut (WriteKey key s) (EncodeWriteValue (RollbackWrite s))]"

fun eff_update :: "string \<Rightarrow> key_effect \<Rightarrow> 'e MvccStorage \<Rightarrow> 'e MvccStorage" where
  "eff_update key (PutLock d l) st = st \<lparr> locks := om_put key l (locks st) \<rparr>"
| "eff_update key (CommitAt c w) st =
     st \<lparr> writes := put_version key c w (writes st), locks := om_del key (locks st) \<rparr>"
| "eff_update key (RollbackAt s own) st =
     st \<lparr> locks := (if own then om_del key (locks st) else locks st),
          writes := put_version key s (RollbackWrite s) (writes st) \<rparr>"

definition bump :: "string \<Rightarrow> u64 \<Rightarrow> 'e MvccStorage \<Rightarrow> 'e MvccStorage" where
  "bump key r st = st \<lparr> revisions := om_put key r (revisions st) \<rparr>"

definition eff_apply :: "string \<Rightarrow> key_effect \<Rightarrow> 'e MvccStorage \<Rightarrow> 'e MvccStorage" where
  "eff_apply key eff st = bump key (CurrentRevisionLocked st key + 1) (eff_update key eff st)"

definition run_effect ::
  "'e IKVEngine \<Rightarrow> 'e MvccStorage \<Rightarrow> string \<Rightarrow> key_effect \<Rightarrow> u64 \<Rightarrow> TxnStatus \<times> 'e MvccStorage" where
  "run_effect E st key eff index =
     (case kv_WriteBatch E (engine st) (eff_ops key eff @ RevisionMutation st key # progress_ops index) of
        (False, e) \<Rightarrow> (StorageError, st \<lparr> engine := e \<rparr>)
      | (True, e) \<Rightarrow>
          (let st' = eff_apply key eff (st \<lparr> engine := e, writeBatchCount := writeBatchCount st + 1 \<rparr>)
           in (Ok, if index \<noteq> 0 then st' \<lparr> appliedRaftIndex := index \<rparr> else st')))"

definition data_ops_for :: "string \<Rightarrow> u64 \<Rightarrow> KVBatchOp list \<Rightarrow> bool" where
  "data_ops_for key s d \<longleftrightarrow> d = [] \<or> (\<exists>v b. d = [prewrite_data_op key v s b])"

fun norm_eff :: "key_effect \<Rightarrow> key_effect" where
  "norm_eff (PutLock d l) = PutLock d (norm_lock l)"
| "norm_eff eff = eff"

fun eff_shape :: "string \<Rightarrow> key_effect \<Rightarrow> bool" where
  "eff_shape key (PutLock d l) \<longleftrightarrow> small_string (l_primaryKey l) \<and> data_ops_for key (l_startTs l) d"
| "eff_shape key (CommitAt c w) \<longleftrightarrow> w_commitTs w = c"
| "eff_shape key (RollbackAt s own) \<longleftrightarrow> True"

lemma EncodeLockValue_norm [simp]: "EncodeLockValue (norm_lock l) = EncodeLockValue l"
  by (simp add: EncodeLockValue_def norm_lock_def)

lemma eff_ops_norm [simp]: "eff_ops key (norm_eff eff) = eff_ops key eff"
  by (cases eff) simp_all

lemma ApplyMutations_append:
  "ApplyMutations now (ops @ ops') st =
     (case ApplyMutations now ops st of None \<Rightarrow> None | Some st' \<Rightarrow> ApplyMutations now ops' st')"
  by (induction ops arbitrary: st) (simp_all split: option.split)

lemma apply_data_op [simp]:
  "ApplyMetadataMutationLocked now (BatchDelete (DataKey key s)) st = Some st"
  "ApplyMetadataMutationLocked now (BatchPut (DataKey key s) v) st = Some st"
  by (simp_all add: ApplyMetadataMutationLocked_def)

lemma apply_lock_op [simp]:
  "ApplyMetadataMutationLocked now (BatchDelete (LockKey key)) st = Some (st \<lparr> locks := om_del key (locks st) \<rparr>)"
  "small_string (l_primaryKey l) \<Longrightarrow>
   ApplyMetadataMutationLocked now (BatchPut (LockKey key) (EncodeLockValue l)) st =
     Some (st \<lparr> locks := om_put key (norm_lock l) (locks st) \<rparr>)"
  by (simp_all add: ApplyMetadataMutationLocked_def DecodeLockValue_EncodeLockValue)

lemma apply_write_op [simp]:
  "ApplyMetadataMutationLocked now (BatchPut (WriteKey key ts) (EncodeWriteValue w)) st =
     Some (st \<lparr> writes := put_version key ts (w \<lparr> w_commitTs := ts \<rparr>) (writes st) \<rparr>)"
  "ApplyMetadataMutationLocked now (BatchDelete (WriteKey key ts)) st =
     Some (st \<lparr> writes := del_version key ts (writes st) \<rparr>)"
  by (simp_all add: ApplyMetadataMutationLocked_def)

lemma apply_revision_op [simp]:
  "ApplyMetadataMutationLocked now (BatchPut (RevisionKey key) (to_string r)) st = Some (bump key r st)"
  by (simp add: ApplyMetadataMutationLocked_def bump_def)

lemma apply_prewrite_data_op [simp]: "ApplyMetadataMutationLocked now (prewrite_data_op key v s b) st = Some st"
  by (simp add: prewrite_data_op_def)

lemma ApplyMutations_eff:
  assumes "eff_shape key eff"
  shows "ApplyMutations now (eff_ops key eff @ [RevisionMutation st0 key]) st =
    Some (bump key (CurrentRevisionLocked st0 key + 1) (eff_update key (norm_eff eff) st))"
proof (cases eff)
  case (PutLock d l)
  with assms show ?thesis by (auto simp: data_ops_for_def RevisionMutation_def)
next
  case (CommitAt c w)
  then have "w \<lparr> w_commitTs := c \<rparr> = w" using assms by auto
  with CommitAt show ?thesis by (simp add: RevisionMutation_def)
next
  case (RollbackAt s own)
  then show ?thesis by (simp add: RevisionMutation_def RollbackWrite_def)
qed

lemma bump_simps [simp]:
  "locks (bump key r st) = locks st" "versions (bump key r st) = versions st" "writes (bump key r st) = writes st"
  "engine (bump key r st) = engine st" "appliedRaftIndex (bump key r st) = appliedRaftIndex st"
  "CurrentRevisionLocked (bump key r st) k = (if k = key then r else CurrentRevisionLocked st k)"
  by (simp_all add: bump_def)

lemma commit_batch_eff:
  assumes "upd = eff_update key eff"
  shows "commit_batch E st key (eff_ops key eff) upd = run_effect E st key eff 0"
  using assms
  by (simp add: commit_batch_def run_effect_def progress_ops_def eff_apply_def bump_def Let_def
      split: bool.split prod.split)

section \<open>The storage invariant\<close>

definition version_ok :: "u64 \<times> MvccWrite \<Rightarrow> bool" where
  "version_ok x \<longleftrightarrow> w_commitTs (snd x) = fst x \<and>
     (if w_type (snd x) = WtRollback then w_startTs (snd x) = fst x else w_startTs (snd x) < fst x)"

definition committed_upto :: "u64 \<Rightarrow> version_map \<Rightarrow> bool" where
  "committed_upto b vs \<longleftrightarrow> (\<forall>x \<in> set vs. w_type (snd x) \<noteq> WtRollback \<longrightarrow> fst x \<le> b)"

text \<open>
  Of two committed versions by different transactions the older was committed before the
  newer one's transaction took its start timestamp.
\<close>

definition first_committer_wins :: "version_map \<Rightarrow> bool" where
  "first_committer_wins vs \<longleftrightarrow>
     (\<forall>x \<in> set vs. \<forall>y \<in> set vs. w_type (snd x) \<noteq> WtRollback \<longrightarrow> w_type (snd y) \<noteq> WtRollback \<longrightarrow>
        fst x < fst y \<longrightarrow> fst x < w_startTs (snd y) \<or> w_startTs (snd x) = w_startTs (snd y))"

definition lock_bound :: "MvccLock \<Rightarrow> u64" where
  "lock_bound l = max (l_startTs l) (l_forUpdateTs l)"

definition key_inv :: "MvccLock option \<Rightarrow> version_map \<Rightarrow> bool" where
  "key_inv lo vs \<longleftrightarrow> om_ok vs \<and> (\<forall>x \<in> set vs. version_ok x) \<and> first_committer_wins vs \<and>
     (case lo of None \<Rightarrow> True | Some l \<Rightarrow> small_string (l_primaryKey l) \<and> committed_upto (lock_bound l) vs)"

definition mvcc_inv :: "'e MvccStorage \<Rightarrow> bool" where
  "mvcc_inv st \<longleftrightarrow> om_ok (locks st) \<and> om_ok (writes st) \<and> om_ok (revisions st) \<and>
     (\<forall>k. key_inv (map_of (locks st) k) (versions st k))"

fun eff_guard :: "MvccLock option \<Rightarrow> version_map \<Rightarrow> string \<Rightarrow> key_effect \<Rightarrow> bool" where
  "eff_guard lo vs key (PutLock d l) \<longleftrightarrow>
     small_string (l_primaryKey l) \<and> data_ops_for key (l_startTs l) d \<and>
     (case lo of None \<Rightarrow> True | Some l0 \<Rightarrow> l_startTs l0 = l_startTs l \<and> l_isPessimistic l0) \<and>
     committed_upto (lock_bound l) vs \<and> (d \<noteq> [] \<longrightarrow> (\<forall>x \<in> set vs. fst x < l_startTs l))"
| "eff_guard lo vs key (CommitAt c w) \<longleftrightarrow>
     (\<exists>l. lo = Some l \<and> w = CommitWrite l (l_startTs l) c \<and> lock_bound l < c \<and> map_of vs c = None \<and>
        (\<forall>x \<in> set vs. l_startTs l \<le> fst x \<longrightarrow> fst x \<le> c \<longrightarrow> w_startTs (snd x) \<noteq> l_startTs l \<longrightarrow>
           w_type (snd x) = WtRollback))"
| "eff_guard lo vs key (RollbackAt s own) \<longleftrightarrow>
     (own \<longleftrightarrow> (\<exists>l. lo = Some l \<and> l_startTs l = s)) \<and>
     (\<forall>x \<in> set vs. w_startTs (snd x) = s \<longrightarrow> w_type (snd x) = WtRollback)"

abbreviation guarded :: "'e MvccStorage \<Rightarrow> string \<Rightarrow> key_effect \<Rightarrow> bool" where
  "guarded st key eff \<equiv> eff_guard (map_of (locks st) key) (versions st key) key eff"

fun eff_lock :: "key_effect \<Rightarrow> MvccLock option \<Rightarrow> MvccLock option" where
  "eff_lock (PutLock d l) lo = Some l"
| "eff_lock (CommitAt c w) lo = None"
| "eff_lock (RollbackAt s own) lo = (if own then None else lo)"

fun eff_versions :: "key_effect \<Rightarrow> version_map \<Rightarrow> version_map" where
  "eff_versions (PutLock d l) vs = vs"
| "eff_versions (CommitAt c w) vs = om_put c w vs"
| "eff_versions (RollbackAt s own) vs = om_put s (RollbackWrite s) vs"

lemma locks_eff_apply [simp]:
  "map_of (locks (eff_apply key eff st)) k =
     (if k = key then eff_lock eff (map_of (locks st) key) else map_of (locks st) k)"
  by (cases eff) (simp_all add: eff_apply_def)

lemma versions_eff_apply [simp]:
  "versions (eff_apply key eff st) k =
     (if k = key then eff_versions eff (versions st key) else versions st k)"
  by (cases eff) (simp_all add: eff_apply_def)

lemma revision_eff_apply [simp]:
  "CurrentRevisionLocked (eff_apply key eff st) k =
     (if k = key then CurrentRevisionLocked st key + 1 else CurrentRevisionLocked st k)"
  by (cases eff) (simp_all add: eff_apply_def)

lemma engine_eff_apply [simp]:
  "engine (eff_apply key eff st) = engine st"
  by (cases eff) (simp_all add: eff_apply_def)

lemma applied_eff_apply [simp]:
  "appliedRaftIndex (eff_apply key eff st) = appliedRaftIndex st"
  by (cases eff) (simp_all add: eff_apply_def)

lemma first_committer_wins_mono:
  assumes "first_committer_wins vs" and "\<And>x. x \<in> set vs' \<Longrightarrow> w_type (snd x) \<noteq> WtRollback \<Longrightarrow> x \<in> set vs"
  shows "first_committer_wins vs'"
  using assms unfolding first_committer_wins_def by blast

lemma committed_upto_mono:
  assumes "committed_upto b vs" and "\<And>x. x \<in> set vs' \<Longrightarrow> w_type (snd x) \<noteq> WtRollback \<Longrightarrow> x \<in> set vs"
  shows "committed_upto b vs'"
  using assms unfolding committed_upto_def by blast

lemma set_om_put:
  fixes vs :: "('k::linorder \<times> 'v) list"
  assumes "om_ok vs"
  shows "set (om_put ts w vs) = insert (ts, w) {x \<in> set vs. fst x \<noteq> ts}"
proof (rule set_eqI)
  fix x :: "'k \<times> 'v"
  obtain k v where x: "x = (k, v)" by (cases x)
  show "x \<in> set (om_put ts w vs) \<longleftrightarrow> x \<in> insert (ts, w) {x \<in> set vs. fst x \<noteq> ts}"
    unfolding x om_lookup_iff [OF om_ok_put [OF assms], symmetric]
    using om_lookup_iff [OF assms, of k v] by auto
qed

lemma key_inv_eff:
  assumes inv: "key_inv lo vs" and g: "eff_guard lo vs key eff"
  shows "key_inv (eff_lock eff lo) (eff_versions eff vs)"
proof (cases eff)
  case (PutLock d l)
  with assms show ?thesis by (simp add: key_inv_def)
next
  case (CommitAt c w)
  then obtain l where l: "lo = Some l" "w = CommitWrite l (l_startTs l) c" "lock_bound l < c" "map_of vs c = None"
    and nc: "\<And>x. x \<in> set vs \<Longrightarrow> l_startTs l \<le> fst x \<Longrightarrow> fst x \<le> c \<Longrightarrow> w_startTs (snd x) \<noteq> l_startTs l \<Longrightarrow>
           w_type (snd x) = WtRollback"
    using g by auto
  have ok: "om_ok vs" using inv by (simp add: key_inv_def)
  have up: "committed_upto (lock_bound l) vs" using inv l(1) by (simp add: key_inv_def)
  have s: "l_startTs l < c" using l(3) by (simp add: lock_bound_def)
  have t: "w_type w \<noteq> WtRollback" "w_startTs w = l_startTs l" "w_commitTs w = c"
    using l(2) by (simp_all add: CommitWrite_def)
  have "first_committer_wins (om_put c w vs)"
    unfolding first_committer_wins_def set_om_put [OF ok]
  proof (intro ballI impI)
    fix x y assume x: "x \<in> insert (c, w) {x \<in> set vs. fst x \<noteq> c}" and y: "y \<in> insert (c, w) {x \<in> set vs. fst x \<noteq> c}"
      and nr: "w_type (snd x) \<noteq> WtRollback" "w_type (snd y) \<noteq> WtRollback" and lt: "fst x < fst y"
    have le: "z \<in> set vs \<Longrightarrow> w_type (snd z) \<noteq> WtRollback \<Longrightarrow> fst z < c" for z
      using up l(3) unfolding committed_upto_def by (meson order_le_less_trans)
    consider "x \<in> set vs" "y \<in> set vs" | "x \<in> set vs" "y = (c, w)" | "x = (c, w)"
      using x y by auto
    then show "fst x < w_startTs (snd y) \<or> w_startTs (snd x) = w_startTs (snd y)"
    proof cases
      case 1
      with inv nr lt show ?thesis unfolding key_inv_def first_committer_wins_def by blast
    next
      case 2
      then have "fst x \<le> c" using le [of x] nr by simp
      with 2 nc [of x] nr(1) t(2) show ?thesis by (cases "fst x < l_startTs l") (auto simp: not_less)
    next
      case 3
      then show ?thesis using y lt le [of y] nr by auto
    qed
  qed
  moreover have "version_ok (c, w)" using s t by (simp add: version_ok_def)
  then have "\<forall>x \<in> set (om_put c w vs). version_ok x"
    using inv unfolding key_inv_def set_om_put [OF ok] by blast
  ultimately show ?thesis using CommitAt ok by (simp add: key_inv_def)
next
  case (RollbackAt s own)
  have ok: "om_ok vs" using inv by (simp add: key_inv_def)
  have sub: "x \<in> set (om_put s (RollbackWrite s) vs) \<Longrightarrow> w_type (snd x) \<noteq> WtRollback \<Longrightarrow> x \<in> set vs" for x
    by (auto simp: set_om_put [OF ok] RollbackWrite_def)
  have fc: "first_committer_wins (om_put s (RollbackWrite s) vs)"
    by (rule first_committer_wins_mono [OF _ sub]) (use inv in \<open>simp add: key_inv_def\<close>)
  have "version_ok (s, RollbackWrite s)" by (simp add: version_ok_def RollbackWrite_def)
  then have vo: "\<forall>x \<in> set (om_put s (RollbackWrite s) vs). version_ok x"
    using inv unfolding key_inv_def set_om_put [OF ok] by blast
  have up: "committed_upto b vs \<Longrightarrow> committed_upto b (om_put s (RollbackWrite s) vs)" for b
    by (rule committed_upto_mono [OF _ sub])
  show ?thesis
    unfolding RollbackAt eff_lock.simps eff_versions.simps key_inv_def
    using ok vo fc up inv by (cases lo) (simp_all add: key_inv_def)
qed

end
