(* ===== verification/MvccRequests.thy ===== *)
theory MvccRequests
  imports MvccEffects
begin

text \<open>
  The checks of the prepare operations establish the guards of the effects. \<open>request\<close> names
  the prepare operations, \<open>prepare\<close> runs them and \<open>rq_eff\<close> is the effect a request has when it
  is accepted; \<open>prepare_eff\<close> and \<open>ApplyPrepared_eff\<close> relate the two.
\<close>

section \<open>Guards\<close>

lemma guard_shape: "eff_guard lo vs key eff \<Longrightarrow> eff_shape key eff"
  by (cases eff) (auto simp: CommitWrite_def)

lemma norm_lock_simps [simp]:
  "l_primaryKey (norm_lock l) = l_primaryKey l" "l_startTs (norm_lock l) = l_startTs l"
  "l_isPessimistic (norm_lock l) = l_isPessimistic l" "l_isDelete (norm_lock l) = l_isDelete l"
  "l_isLockOnly (norm_lock l) = l_isLockOnly l" "l_ttlMs (norm_lock l) = l_ttlMs l"
  "l_expireAtPhysicalMs (norm_lock l) = l_expireAtPhysicalMs l"
  by (simp_all add: norm_lock_def)

lemma lock_bound_norm [simp]: "lock_bound (norm_lock l) = lock_bound l"
  by (simp add: lock_bound_def norm_lock_def)

lemma guard_norm: "eff_guard lo vs key (norm_eff eff) = eff_guard lo vs key eff"
  by (cases eff; cases lo) simp_all

lemma om_ok_last: "om_ok vs \<Longrightarrow> x \<in> set vs \<Longrightarrow> fst x \<le> fst (last vs)"
  by (induction vs) (auto simp: om_ok_Cons less_imp_le)

lemma prewrite_no_conflict:
  "om_ok vs \<Longrightarrow> \<not> prewrite_conflict vs s \<Longrightarrow> x \<in> set vs \<Longrightarrow> fst x < s"
  using om_ok_last [of vs x] by (auto simp: prewrite_conflict_def)

lemma committed_upto_less: "(\<And>x. x \<in> set vs \<Longrightarrow> fst x < s) \<Longrightarrow> s \<le> b \<Longrightarrow> committed_upto b vs"
  by (fastforce simp: committed_upto_def)

lemma committed_upto_le: "committed_upto a vs \<Longrightarrow> a \<le> b \<Longrightarrow> committed_upto b vs"
  by (fastforce simp: committed_upto_def)

lemma pessimistic_no_conflict:
  assumes "om_ok vs" and "\<not> pessimistic_conflict vs s b"
  shows "committed_upto b vs"
  unfolding committed_upto_def
proof (intro ballI impI)
  fix x assume x: "x \<in> set vs" "w_type (snd x) \<noteq> WtRollback"
  have "om_ok vs \<Longrightarrow> x \<in> set vs \<Longrightarrow> find (\<lambda>x. w_type (snd x) \<noteq> WtRollback) (rev vs) = Some y \<Longrightarrow> fst x \<le> fst y" for y
    using x(2)
  proof (induction vs arbitrary: y rule: rev_induct)
    case (snoc z vs)
    then have ok: "om_ok vs" and lt: "\<forall>v\<in>set vs. fst v < fst z"
      by (auto simp: om_ok_def sorted_wrt_append)
    show ?case
    proof (cases "w_type (snd z) = WtRollback")
      case True
      with snoc.prems have "x \<in> set vs" "find (\<lambda>x. w_type (snd x) \<noteq> WtRollback) (rev vs) = Some y" by auto
      with snoc.IH ok x(2) show ?thesis by blast
    next
      case False
      with snoc.prems have "y = z" by simp
      with snoc.prems lt show ?thesis by (auto simp: less_imp_le)
    qed
  qed simp
  moreover have "find (\<lambda>x. w_type (snd x) \<noteq> WtRollback) (rev vs) \<noteq> None"
  proof
    assume "find (\<lambda>x. w_type (snd x) \<noteq> WtRollback) (rev vs) = None"
    from find_None_D [OF this, of x] x show False by simp
  qed
  ultimately show "fst x \<le> b"
    using assms x by (fastforce simp: pessimistic_conflict_def)
qed

lemma mvcc_inv_key: "mvcc_inv st \<Longrightarrow> key_inv (map_of (locks st) k) (versions st k)"
  by (simp add: mvcc_inv_def)

lemma mvcc_inv_versions_ok: "mvcc_inv st \<Longrightarrow> om_ok (versions st k)"
  using mvcc_inv_key [of st k] by (simp add: key_inv_def)

lemma mvcc_inv_lock:
  "mvcc_inv st \<Longrightarrow> map_of (locks st) k = Some l \<Longrightarrow>
   small_string (l_primaryKey l) \<and> committed_upto (lock_bound l) (versions st k)"
  using mvcc_inv_key [of st k] by (simp add: key_inv_def)

lemma commit_guarded:
  assumes "mvcc_inv st" and "CommitVerdict st key s c = Ok"
  shows "\<exists>l. map_of (locks st) key = Some l \<and> l_startTs l = s \<and> guarded st key (CommitAt c (CommitWrite l s c))"
proof -
  obtain l where l: "map_of (locks st) key = Some l"
    using assms(2) by (auto simp: CommitVerdict_def split: option.splits if_splits)
  have s: "l_startTs l = s" and c: "max s (l_forUpdateTs l) < c" and n: "map_of (versions st key) c = None"
    and f: "\<not> list_ex (\<lambda>x. w_startTs (snd x) \<noteq> s \<and> w_type (snd x) \<noteq> WtRollback)
             (takeWhile (\<lambda>x. fst x \<le> c) (dropWhile (\<lambda>x. fst x < s) (versions st key)))"
    using assms(2) l by (auto simp: CommitVerdict_def not_le split: option.splits if_splits)
  have "w_type (snd x) = WtRollback"
    if "x \<in> set (versions st key)" "s \<le> fst x" "fst x \<le> c" "w_startTs (snd x) \<noteq> s" for x
    using f that mvcc_inv_versions_ok [OF assms(1), of key]
    by (cases x) (auto simp: om_dropWhile_less om_takeWhile_le list_ex_iff not_less)
  with l s c n show ?thesis by (auto simp: lock_bound_def)
qed

lemma rollback_guarded:
  assumes "find (\<lambda>x. w_startTs (snd x) = s) (versions st key) = None"
  shows "guarded st key (RollbackAt s (owns_lock st key s))"
  using find_None_D [OF assms] by (auto simp: owns_lock_def split: option.split)

lemma Rollback_guarded:
  assumes "\<not> list_ex (\<lambda>x. w_startTs (snd x) = s \<and> w_type (snd x) \<noteq> WtRollback) (versions st key)"
  shows "guarded st key (RollbackAt s (owns_lock st key s))"
  using assms by (auto simp: owns_lock_def list_ex_iff split: option.split)

lemma prewrite_guarded:
  assumes inv: "mvcc_inv st" and pk: "small_string primaryKey"
    and nc: "\<not> prewrite_conflict (versions st key) s"
    and lo: "\<And>l. map_of (locks st) key = Some l \<Longrightarrow> l_startTs l = s \<and> l_isPessimistic l"
  shows "guarded st key (PutLock [prewrite_data_op key value s del]
    (PrewriteLockRecord now (map_of (locks st) key) primaryKey value s ttl del fu))"
proof -
  let ?l = "PrewriteLockRecord now (map_of (locks st) key) primaryKey value s ttl del fu"
  have lt: "\<And>x. x \<in> set (versions st key) \<Longrightarrow> fst x < s"
    using prewrite_no_conflict [OF mvcc_inv_versions_ok [OF inv] nc] .
  have l: "l_startTs ?l = s" "l_primaryKey ?l = primaryKey"
    by (simp_all add: PrewriteLockRecord_def split: prod.split option.split)
  then have "committed_upto (lock_bound ?l) (versions st key)"
    using committed_upto_less [OF lt] by (simp add: lock_bound_def)
  with l lt pk lo show ?thesis
    by (auto simp: data_ops_for_def split: option.split)
qed

lemma acquire_guarded:
  assumes "map_of (locks st) key = None" and "small_string primaryKey"
    and "committed_upto (max s fu) (versions st key)"
  shows "guarded st key (PutLock [] (PessimisticLockRecord now primaryKey s ttl fu exp))"
  using assms by (simp add: PessimisticLockRecord_def lock_bound_def data_ops_for_def)

lemma relock_guarded:
  assumes "mvcc_inv st" and "map_of (locks st) key = Some l0" and "l_isPessimistic l0"
    and "l_startTs l = l_startTs l0" and "l_primaryKey l = l_primaryKey l0" and "l_forUpdateTs l0 \<le> l_forUpdateTs l"
  shows "guarded st key (PutLock [] l)"
proof -
  have "lock_bound l0 \<le> lock_bound l" using assms(4,6) by (simp add: lock_bound_def max.coboundedI2)
  with mvcc_inv_lock [OF assms(1,2)] committed_upto_le assms show ?thesis
    by (auto simp: data_ops_for_def)
qed

lemma mvcc_inv_eff:
  assumes "mvcc_inv st" and "guarded st key eff"
  shows "mvcc_inv (eff_apply key eff st)"
proof -
  have "om_ok (locks (eff_apply key eff st)) \<and> om_ok (writes (eff_apply key eff st)) \<and>
      om_ok (revisions (eff_apply key eff st))"
    using assms(1) by (cases eff) (simp_all add: eff_apply_def bump_def mvcc_inv_def put_version_def)
  moreover have "key_inv (map_of (locks (eff_apply key eff st)) k) (versions (eff_apply key eff st) k)" for k
    using key_inv_eff [OF mvcc_inv_key [OF assms(1)] assms(2)] mvcc_inv_key [OF assms(1), of k] by simp
  ultimately show ?thesis by (simp add: mvcc_inv_def)
qed

section \<open>Prepared commands\<close>

datatype request =
  RqPrewrite string string string u64 u64 bool u64
| RqPessimisticLock string string u64 u64 u64 u64
| RqPrewriteLock string string u64 u64 u64
| RqCommit string u64 u64
| RqRollback string u64
| RqCheckTxnStatus string u64 u64 bool
| RqResolveLock string u64 TxnRecordState u64

fun rq_key :: "request \<Rightarrow> string" where
  "rq_key (RqPrewrite key _ _ _ _ _ _) = key"
| "rq_key (RqPessimisticLock key _ _ _ _ _) = key"
| "rq_key (RqPrewriteLock key _ _ _ _) = key"
| "rq_key (RqCommit key _ _) = key"
| "rq_key (RqRollback key _) = key"
| "rq_key (RqCheckTxnStatus key _ _ _) = key"
| "rq_key (RqResolveLock key _ _ _) = key"

fun rq_ok :: "request \<Rightarrow> bool" where
  "rq_ok (RqPrewrite _ _ pk _ _ _ _) \<longleftrightarrow> small_string pk"
| "rq_ok (RqPessimisticLock _ pk _ _ _ _) \<longleftrightarrow> small_string pk"
| "rq_ok _ \<longleftrightarrow> True"

fun prepare :: "'e IKVEngine \<Rightarrow> u64 \<Rightarrow> 'e MvccStorage \<Rightarrow> request \<Rightarrow> PreparedMvccWrite" where
  "prepare E now st (RqPrewrite key value pk s ttl del fu) = PreparePrewrite now st key value pk s ttl del fu"
| "prepare E now st (RqPessimisticLock key pk s ttl fu exp) = PreparePessimisticLock E now st key pk s ttl fu exp"
| "prepare E now st (RqPrewriteLock key pk s ttl fu) = PreparePrewriteLock st key pk s ttl fu"
| "prepare E now st (RqCommit key s c) = PrepareCommit st key s c"
| "prepare E now st (RqRollback key s) = PrepareRollback st key s"
| "prepare E now st (RqCheckTxnStatus key s cur rb) = PrepareCheckTxnStatus st key s cur rb"
| "prepare E now st (RqResolveLock key s decision c) = PrepareResolveLock st key s decision c"

fun rq_eff :: "u64 \<Rightarrow> 'e MvccStorage \<Rightarrow> request \<Rightarrow> key_effect" where
  "rq_eff now st (RqPrewrite key value pk s ttl del fu) =
     PutLock [prewrite_data_op key value s del]
       (PrewriteLockRecord now (map_of (locks st) key) pk value s ttl del fu)"
| "rq_eff now st (RqPessimisticLock key pk s ttl fu exp) =
     PutLock [] (let r = (if fu = 0 then s else fu) in
       case map_of (locks st) key of
         None \<Rightarrow> PessimisticLockRecord now pk s ttl r exp
       | Some l \<Rightarrow> l \<lparr> l_forUpdateTs := max (l_forUpdateTs l) r,
                      l_expireAtPhysicalMs := max (l_expireAtPhysicalMs l) exp,
                      l_legacyExpiry := (max (l_expireAtPhysicalMs l) exp = 0) \<rparr>)"
| "rq_eff now st (RqPrewriteLock key pk s ttl fu) =
     PutLock [] ((the (map_of (locks st) key))
       \<lparr> l_isPessimistic := False, l_isLockOnly := True, l_ttlMs := ttl \<rparr>)"
| "rq_eff now st (RqCommit key s c) = CommitAt c (CommitWrite (the (map_of (locks st) key)) s c)"
| "rq_eff now st (RqRollback key s) = RollbackAt s (owns_lock st key s)"
| "rq_eff now st (RqCheckTxnStatus key s cur rb) = RollbackAt s (owns_lock st key s)"
| "rq_eff now st (RqResolveLock key s decision c) =
     (if decision = Committed \<and> c \<noteq> 0 then CommitAt c (CommitWrite (the (map_of (locks st) key)) s c)
      else RollbackAt s (owns_lock st key s))"

definition prepared_eff :: "'e MvccStorage \<Rightarrow> string \<Rightarrow> key_effect \<Rightarrow> PreparedMvccWrite \<Rightarrow> bool" where
  "prepared_eff st key eff p \<longleftrightarrow> known_version (p_commandVersion p) \<and> p_status p = Ok \<and>
     p_expectedRevision p = CurrentRevisionLocked st key \<and> p_newRevision p = CurrentRevisionLocked st key + 1 \<and>
     p_modifications p = eff_ops key eff @ [RevisionMutation st key]"

lemma with_changes_prepared_eff:
  "known_version (p_commandVersion p) \<Longrightarrow> p_expectedRevision p = CurrentRevisionLocked st key \<Longrightarrow>
   ops = eff_ops key eff \<Longrightarrow> prepared_eff st key eff (with_changes st key ops p)"
  by (simp add: prepared_eff_def with_changes_def)

lemma known_versions [simp]: "known_version kCommandVersion" "known_version kLegacyCommandVersion"
  by (simp_all add: known_version_def)

lemma prepared_at_simps [simp]:
  "p_commandVersion (prepared_at st key) = kLegacyCommandVersion"
  "p_expectedRevision (prepared_at st key) = CurrentRevisionLocked st key"
  "p_modifications (prepared_at st key) = []"
  "p_status (prepared_at st key) = StorageError"
  by (simp_all add: prepared_at_def new_prepared_def)

lemma with_read_simps [simp]:
  "p_commandVersion (with_read r p) = p_commandVersion p"
  "p_expectedRevision (with_read r p) = p_expectedRevision p"
  "p_modifications (with_read r p) = p_modifications p"
  by (simp_all add: with_read_def)

lemma prepare_prewrite_eff:
  assumes "mvcc_inv st" and "small_string pk" and "p_modifications (PreparePrewrite now st key value pk s ttl del fu) \<noteq> []"
  shows "prepared_eff st key (rq_eff now st (RqPrewrite key value pk s ttl del fu))
      (PreparePrewrite now st key value pk s ttl del fu) \<and>
    guarded st key (rq_eff now st (RqPrewrite key value pk s ttl del fu))"
proof -
  have lo: "\<And>l. map_of (locks st) key = Some l \<Longrightarrow> l_startTs l = s \<and> l_isPessimistic l"
    and nc: "\<not> prewrite_conflict (versions st key) s"
    using assms(3) by (auto simp: PreparePrewrite_def Let_def split: option.splits if_splits)
  have "prepared_eff st key (rq_eff now st (RqPrewrite key value pk s ttl del fu))
      (PreparePrewrite now st key value pk s ttl del fu)"
    using assms(3) unfolding PreparePrewrite_def Let_def
    by (auto split: option.splits if_splits intro!: with_changes_prepared_eff)
  with prewrite_guarded [OF assms(1,2) nc lo] show ?thesis by simp
qed

lemma prepare_pessimistic_eff:
  assumes "mvcc_inv st" and "small_string pk" and "p_modifications (PreparePessimisticLock E now st key pk s ttl fu exp) \<noteq> []"
  shows "prepared_eff st key (rq_eff now st (RqPessimisticLock key pk s ttl fu exp))
      (PreparePessimisticLock E now st key pk s ttl fu exp) \<and>
    guarded st key (rq_eff now st (RqPessimisticLock key pk s ttl fu exp))"
proof (cases "map_of (locks st) key")
  case None
  let ?fu = "if fu = 0 then s else fu"
  have nc: "\<not> pessimistic_conflict (versions st key) s ?fu"
    using assms(3) None by (auto simp: PreparePessimisticLock_def Let_def split: if_splits)
  have "prepared_eff st key (rq_eff now st (RqPessimisticLock key pk s ttl fu exp))
      (PreparePessimisticLock E now st key pk s ttl fu exp)"
    using assms(3) None unfolding PreparePessimisticLock_def Let_def
    by (auto split: if_splits intro!: with_changes_prepared_eff)
  moreover have "committed_upto (max s ?fu) (versions st key)"
    using pessimistic_no_conflict [OF mvcc_inv_versions_ok [OF assms(1)] nc] committed_upto_le max.cobounded2 by blast
  ultimately show ?thesis
    using acquire_guarded [OF None assms(2), of s ?fu] None by (simp add: Let_def)
next
  case (Some l)
  have l: "l_isPessimistic l" "l_primaryKey l = pk" "l_startTs l = s"
    using assms(3) Some by (auto simp: PreparePessimisticLock_def Let_def split: if_splits)
  have "prepared_eff st key (rq_eff now st (RqPessimisticLock key pk s ttl fu exp))
      (PreparePessimisticLock E now st key pk s ttl fu exp)"
    using assms(3) Some unfolding PreparePessimisticLock_def Let_def
    by (auto split: if_splits intro!: with_changes_prepared_eff)
  with relock_guarded [OF assms(1) Some] l Some show ?thesis by (simp add: Let_def)
qed

lemma prepare_prewrite_lock_eff:
  assumes "mvcc_inv st" and "p_modifications (PreparePrewriteLock st key pk s ttl fu) \<noteq> []"
  shows "prepared_eff st key (rq_eff now st (RqPrewriteLock key pk s ttl fu)) (PreparePrewriteLock st key pk s ttl fu) \<and>
    guarded st key (rq_eff now st (RqPrewriteLock key pk s ttl fu))"
proof -
  obtain l where l: "map_of (locks st) key = Some l" "l_isPessimistic l"
    using assms(2) by (auto simp: PreparePrewriteLock_def Let_def split: option.splits if_splits)
  have "prepared_eff st key (rq_eff now st (RqPrewriteLock key pk s ttl fu)) (PreparePrewriteLock st key pk s ttl fu)"
    using assms(2) l unfolding PreparePrewriteLock_def Let_def
    by (auto split: if_splits intro!: with_changes_prepared_eff)
  with relock_guarded [OF assms(1) l(1) l(2)] l(1) show ?thesis by simp
qed

lemma prepare_commit_eff:
  assumes "mvcc_inv st" and "p_modifications (PrepareCommit st key s c) \<noteq> []"
  shows "prepared_eff st key (rq_eff now st (RqCommit key s c)) (PrepareCommit st key s c) \<and>
    guarded st key (rq_eff now st (RqCommit key s c))"
proof -
  have v: "CommitVerdict st key s c = Ok"
    using assms(2) by (auto simp: PrepareCommit_def Let_def split: option.splits if_splits)
  then obtain l where l: "map_of (locks st) key = Some l" "guarded st key (CommitAt c (CommitWrite l s c))"
    using commit_guarded [OF assms(1)] by blast
  have "prepared_eff st key (rq_eff now st (RqCommit key s c)) (PrepareCommit st key s c)"
    using v l(1) by (auto simp: PrepareCommit_def Let_def intro!: with_changes_prepared_eff)
  with l show ?thesis by simp
qed

lemma prepare_rollback_eff:
  assumes "p_modifications (PrepareRollbackLocked st key s) \<noteq> []"
  shows "prepared_eff st key (RollbackAt s (owns_lock st key s)) (PrepareRollbackLocked st key s) \<and>
    guarded st key (RollbackAt s (owns_lock st key s))"
proof -
  have n: "find (\<lambda>x. w_startTs (snd x) = s) (versions st key) = None"
    using assms by (auto simp: PrepareRollbackLocked_def Let_def split: option.splits)
  have "prepared_eff st key (RollbackAt s (owns_lock st key s)) (PrepareRollbackLocked st key s)"
    using n by (auto simp: PrepareRollbackLocked_def rollback_ops_def intro!: with_changes_prepared_eff)
  with rollback_guarded [OF n] show ?thesis by simp
qed

lemma prepared_eff_upd [simp]:
  "prepared_eff st key eff (p \<lparr> p_txnRecordStatus := r \<rparr>) = prepared_eff st key eff p"
  "known_version v \<Longrightarrow> prepared_eff st key eff p \<Longrightarrow> prepared_eff st key eff (p \<lparr> p_commandVersion := v \<rparr>)"
  by (simp_all add: prepared_eff_def)

lemma prepare_eff:
  assumes "mvcc_inv st" and "rq_ok rq" and "p_modifications (prepare E now st rq) \<noteq> []"
  shows "prepared_eff st (rq_key rq) (rq_eff now st rq) (prepare E now st rq) \<and>
    guarded st (rq_key rq) (rq_eff now st rq)"
proof (cases rq)
  case (RqCheckTxnStatus key s cur rb)
  have "prepare E now st rq = (PrepareRollbackLocked st key s) \<lparr> p_commandVersion := kCommandVersion,
      p_txnRecordStatus := \<lparr> rs_state = RolledBack, rs_commitTs = 0, rs_lock = None \<rparr> \<rparr> \<or>
      prepare E now st rq = PrepareRollbackLocked st key s"
    using assms(3) RqCheckTxnStatus
    by (auto simp: PrepareCheckTxnStatus_def Let_def split: if_splits option.splits)
  then have m: "p_modifications (PrepareRollbackLocked st key s) \<noteq> []"
    and pe: "prepared_eff st key eff (PrepareRollbackLocked st key s) \<Longrightarrow> prepared_eff st key eff (prepare E now st rq)" for eff
    using assms(3) by auto
  from prepare_rollback_eff [OF m] pe show ?thesis
    unfolding RqCheckTxnStatus rq_key.simps rq_eff.simps by blast
next
  case (RqResolveLock key s d c)
  show ?thesis
  proof (cases "d = Committed \<and> c \<noteq> 0")
    case True
    then have p: "prepare E now st rq = (PrepareCommit st key s c) \<lparr> p_commandVersion := kCommandVersion \<rparr>"
      "rq_eff now st rq = rq_eff now st (RqCommit key s c)"
      by (simp_all add: RqResolveLock PrepareResolveLock_def)
    with assms(3) have "p_modifications (PrepareCommit st key s c) \<noteq> []" by simp
    from prepare_commit_eff [OF assms(1) this, of now] show ?thesis
      unfolding p unfolding RqResolveLock rq_key.simps using prepared_eff_upd(2) [OF known_versions(1)] by blast
  next
    case False
    with assms(3) have "d = RolledBack"
      by (auto simp: RqResolveLock PrepareResolveLock_def new_prepared_def split: if_splits)
    with False have p: "prepare E now st rq = (PrepareRollbackLocked st key s) \<lparr> p_commandVersion := kCommandVersion \<rparr>"
      "rq_eff now st rq = RollbackAt s (owns_lock st key s)"
      by (simp_all add: RqResolveLock PrepareResolveLock_def PrepareRollback_def)
    with assms(3) have "p_modifications (PrepareRollbackLocked st key s) \<noteq> []" by simp
    from prepare_rollback_eff [OF this] show ?thesis
      unfolding p unfolding RqResolveLock rq_key.simps using prepared_eff_upd(2) [OF known_versions(1)] by blast
  qed
next
  case (RqPrewrite key v pk st0 ttl dl fu)
  show ?thesis
    using assms unfolding RqPrewrite prepare.simps rq_key.simps rq_ok.simps by (rule prepare_prewrite_eff)
next
  case (RqPessimisticLock key pk st0 ttl fu exp)
  show ?thesis
    using assms unfolding RqPessimisticLock prepare.simps rq_key.simps rq_ok.simps by (rule prepare_pessimistic_eff)
next
  case (RqPrewriteLock key pk st0 ttl fu)
  show ?thesis
    using assms(1,3) unfolding RqPrewriteLock prepare.simps rq_key.simps rq_ok.simps by (rule prepare_prewrite_lock_eff)
next
  case (RqCommit key st0 c)
  show ?thesis
    using assms(1,3) unfolding RqCommit prepare.simps rq_key.simps rq_ok.simps by (rule prepare_commit_eff)
next
  case (RqRollback key st0)
  show ?thesis
    using assms(3) unfolding RqRollback prepare.simps rq_key.simps rq_eff.simps PrepareRollback_def
    by (rule prepare_rollback_eff)
qed

lemma ApplyPrepared_eff:
  assumes "prepared_eff st key eff p" and "eff_shape key eff"
  shows "ApplyPrepared E now st key p index =
    Some (if index \<noteq> 0 \<and> index \<le> appliedRaftIndex st then (Ok, st) else run_effect E st key (norm_eff eff) index)"
proof -
  obtain ok e where w: "kv_WriteBatch E (engine st) (eff_ops key eff @ RevisionMutation st key # progress_ops index) = (ok, e)"
    by fastforce
  show ?thesis
    using assms w
    by (cases ok; cases "index = 0")
      (simp_all add: ApplyPrepared_def prepared_eff_def run_effect_def ApplyMutations_eff eff_apply_def)
qed

end
