(* ===== verification/MvccMachine.thy ===== *)
theory MvccMachine
  imports MvccRequests
begin

text \<open>
  The MVCC storage as a state machine. \<open>mvcc_call\<close> lists the calls that change the storage,
  direct ones and applications of prepared commands, and \<open>run_call\<close> runs one. \<open>run_call_msteps\<close>
  is the simulation all invariants rest on: on an engine that meets its contract every call
  returns, and it is a sequence of guarded effects, garbage collections, apply-index updates
  and inert changes, made of the requests of the call only.
\<close>

section \<open>Steps\<close>

definition gc_removed :: "u64 \<Rightarrow> 'e MvccStorage \<Rightarrow> (string \<times> u64) list" where
  "gc_removed sp st = concat (map (\<lambda>kw. map (\<lambda>x. (fst kw, fst x)) (gc_victims sp (snd kw))) (writes st))"

definition gc_touched :: "u64 \<Rightarrow> 'e MvccStorage \<Rightarrow> string list" where
  "gc_touched sp st = map fst (filter (\<lambda>kw. gc_victims sp (snd kw) \<noteq> []) (writes st))"

definition gc_batch :: "u64 \<Rightarrow> 'e MvccStorage \<Rightarrow> KVBatchOp list" where
  "gc_batch sp st = concat (map (gc_ops sp) (writes st)) @ map (RevisionMutation st) (gc_touched sp st)"

definition gc_apply :: "u64 \<Rightarrow> 'e MvccStorage \<Rightarrow> 'e MvccStorage" where
  "gc_apply sp st = st \<lparr> writes := fold (\<lambda>(k, ts). del_version k ts) (gc_removed sp st) (writes st),
     revisions := fold (\<lambda>k. om_put k (CurrentRevisionLocked st k + 1)) (gc_touched sp st) (revisions st) \<rparr>"

text \<open>
  A step of the contents of the engine and the indexes together: an effect on a key, a new
  apply index, a garbage collection, or a change of the parts no read depends on. \<open>P\<close> and \<open>G\<close>
  restrict the effects and the garbage collections that may occur.
\<close>

type_synonym 'e mvcc_config = "kv_content \<times> 'e MvccStorage"

inductive mstep :: "(string \<Rightarrow> key_effect \<Rightarrow> bool) \<Rightarrow> (u64 \<Rightarrow> bool) \<Rightarrow> 'e mvcc_config \<Rightarrow> 'e mvcc_config \<Rightarrow> bool"
  for P :: "string \<Rightarrow> key_effect \<Rightarrow> bool" and G :: "u64 \<Rightarrow> bool" where
  ms_eff: "guarded st key eff \<Longrightarrow> P key eff \<Longrightarrow>
     mstep P G (c, st) (apply_ops (eff_ops key eff @ [RevisionMutation st key]) c, eff_apply key eff st)"
| ms_applied: "i \<noteq> 0 \<Longrightarrow> mstep P G (c, st) (c(AppliedIndexKey \<mapsto> to_string i), st \<lparr> appliedRaftIndex := i \<rparr>)"
| ms_gc: "G sp \<Longrightarrow> mstep P G (c, st) (apply_ops (gc_batch sp st) c, gc_apply sp st)"
| ms_inert: "locks st' = locks st \<Longrightarrow> writes st' = writes st \<Longrightarrow> revisions st' = revisions st \<Longrightarrow>
     appliedRaftIndex st' = appliedRaftIndex st \<Longrightarrow> mstep P G (c, st) (c, st')"

inductive_cases mstep_elim: "mstep P G (c, st) (c', st')"

abbreviation msteps ::
  "(string \<Rightarrow> key_effect \<Rightarrow> bool) \<Rightarrow> (u64 \<Rightarrow> bool) \<Rightarrow> 'e mvcc_config \<Rightarrow> 'e mvcc_config \<Rightarrow> bool" where
  "msteps P G \<equiv> (mstep P G)\<^sup>*\<^sup>*"

definition agree_on :: "string \<Rightarrow> 'e MvccStorage \<Rightarrow> 'e MvccStorage \<Rightarrow> bool" where
  "agree_on key st st' \<longleftrightarrow> map_of (locks st') key = map_of (locks st) key \<and> versions st' key = versions st key \<and>
     CurrentRevisionLocked st' key = CurrentRevisionLocked st key"

lemma agree_on_refl [simp]: "agree_on key st st"
  by (simp add: agree_on_def)

lemma agree_on_trans: "agree_on key st1 st2 \<Longrightarrow> agree_on key st2 st3 \<Longrightarrow> agree_on key st1 st3"
  by (simp add: agree_on_def)

lemma agree_on_eff: "k \<noteq> key \<Longrightarrow> agree_on k st (eff_apply key eff st)"
  by (simp add: agree_on_def)

lemma agree_on_engine [simp]: "agree_on key st (st \<lparr> engine := e, writeBatchCount := n \<rparr>)"
  by (simp add: agree_on_def)

lemma prepared_eff_agree: "agree_on key st st' \<Longrightarrow> prepared_eff st' key eff p = prepared_eff st key eff p"
  by (simp add: prepared_eff_def agree_on_def RevisionMutation_def)

section \<open>What a request may do\<close>

fun eff_start :: "key_effect \<Rightarrow> u64" where
  "eff_start (PutLock d l) = l_startTs l"
| "eff_start (CommitAt c w) = w_startTs w"
| "eff_start (RollbackAt s own) = s"

fun rq_start :: "request \<Rightarrow> u64" where
  "rq_start (RqPrewrite _ _ _ s _ _ _) = s"
| "rq_start (RqPessimisticLock _ _ s _ _ _) = s"
| "rq_start (RqPrewriteLock _ _ s _ _) = s"
| "rq_start (RqCommit _ s _) = s"
| "rq_start (RqRollback _ s) = s"
| "rq_start (RqCheckTxnStatus _ s _ _) = s"
| "rq_start (RqResolveLock _ s _ _) = s"

fun rq_commit :: "request \<Rightarrow> u64 option" where
  "rq_commit (RqCommit _ _ c) = Some c"
| "rq_commit (RqResolveLock _ _ decision c) = (if decision = Committed then Some c else None)"
| "rq_commit _ = None"

fun rq_rollback :: "request \<Rightarrow> bool" where
  "rq_rollback (RqRollback _ _) = True"
| "rq_rollback (RqCheckTxnStatus _ _ _ rb) = rb"
| "rq_rollback (RqResolveLock _ _ decision _) = (decision = RolledBack)"
| "rq_rollback _ = False"

definition rq_allows :: "request \<Rightarrow> string \<Rightarrow> key_effect \<Rightarrow> bool" where
  "rq_allows rq k eff \<longleftrightarrow> k = rq_key rq \<and> eff_start eff = rq_start rq \<and>
     (case eff of PutLock _ _ \<Rightarrow> True | CommitAt c _ \<Rightarrow> rq_commit rq = Some c | RollbackAt _ _ \<Rightarrow> rq_rollback rq)"

lemma rq_allows_eff:
  assumes "mvcc_inv st" and "rq_ok rq" and "p_modifications (prepare E now st rq) \<noteq> []"
  shows "rq_allows rq (rq_key rq) (norm_eff (rq_eff now st rq))"
proof (cases rq)
  case (RqPrewrite key v pk s ttl dl fu)
  then show ?thesis by (simp add: rq_allows_def PrewriteLockRecord_def split: option.split prod.split)
next
  case (RqPessimisticLock key pk s ttl fu exp)
  then have "\<And>l. map_of (locks st) key = Some l \<Longrightarrow> l_startTs l = s"
    using assms(3) by (auto simp: PreparePessimisticLock_def Let_def split: if_splits)
  with RqPessimisticLock show ?thesis
    by (simp add: rq_allows_def PessimisticLockRecord_def Let_def split: option.split)
next
  case (RqPrewriteLock key pk s ttl fu)
  then have "\<exists>l. map_of (locks st) key = Some l \<and> l_startTs l = s"
    using assms(3) by (auto simp: PreparePrewriteLock_def Let_def split: option.splits if_splits)
  with RqPrewriteLock show ?thesis by (auto simp: rq_allows_def)
next
  case (RqCheckTxnStatus key s cur rb)
  then have rb using assms(3) by (auto simp: PrepareCheckTxnStatus_def Let_def split: if_splits)
  with RqCheckTxnStatus show ?thesis by (simp add: rq_allows_def)
next
  case (RqResolveLock key s d c)
  then have "(d = Committed \<and> c \<noteq> 0) \<or> d = RolledBack"
    using assms(3) by (auto simp: PrepareResolveLock_def new_prepared_def split: if_splits)
  with RqResolveLock show ?thesis by (auto simp: rq_allows_def CommitWrite_def)
qed (simp_all add: rq_allows_def CommitWrite_def)

lemma progress_steps:
  "msteps P G (c, st) (apply_ops (progress_ops index) c, if index \<noteq> 0 then st \<lparr> appliedRaftIndex := index \<rparr> else st)"
  by (auto simp: progress_ops_def intro: r_into_rtranclp ms_applied)

lemma run_effect_msteps:
  assumes "kv_engine E content" and "guarded st key eff" and "P key eff"
  shows "msteps P G (content (engine st), st)
    (content (engine (snd (run_effect E st key eff index))), snd (run_effect E st key eff index))"
proof -
  obtain ok e where w: "kv_WriteBatch E (engine st) (eff_ops key eff @ RevisionMutation st key # progress_ops index) = (ok, e)"
    by fastforce
  show ?thesis
  proof (cases ok)
    case False
    then have "content e = content (engine st)" using w kv_engine.batch_fail [OF assms(1)] by simp
    then have "mstep P G (content (engine st), st) (content e, st \<lparr> engine := e \<rparr>)" by (simp add: ms_inert)
    with False w show ?thesis by (simp add: run_effect_def r_into_rtranclp)
  next
    case True
    let ?st1 = "st \<lparr> engine := e, writeBatchCount := writeBatchCount st + 1 \<rparr>"
    let ?c = "content (engine st)"
    have c: "content e = apply_ops (progress_ops index) (apply_ops (eff_ops key eff @ [RevisionMutation st key]) ?c)"
      using w True kv_engine.batch_ok [OF assms(1)] by fastforce
    have "mstep P G (?c, st) (?c, ?st1)" by (rule ms_inert) simp_all
    moreover have "guarded ?st1 key eff" using assms(2) by simp
    from ms_eff [OF this, of P G ?c] assms(3) have
      "mstep P G (?c, ?st1) (apply_ops (eff_ops key eff @ [RevisionMutation st key]) ?c, eff_apply key eff ?st1)"
      by (simp add: RevisionMutation_def)
    moreover note progress_steps [of P G "apply_ops (eff_ops key eff @ [RevisionMutation st key]) ?c" "eff_apply key eff ?st1" index]
    ultimately have "msteps P G (?c, st) (content e,
        if index \<noteq> 0 then (eff_apply key eff ?st1) \<lparr> appliedRaftIndex := index \<rparr> else eff_apply key eff ?st1)"
      unfolding c by (meson converse_rtranclp_into_rtranclp)
    with True w show ?thesis by (auto simp: run_effect_def Let_def)
  qed
qed

lemma apply_request_msteps:
  assumes "kv_engine E content" and "mvcc_inv st" and "rq_ok rq"
    and P: "\<And>eff. rq_allows rq (rq_key rq) eff \<Longrightarrow> P (rq_key rq) eff"
  shows "\<exists>s st'. ApplyPrepared E now st (rq_key rq) (prepare E now' st rq) index = Some (s, st') \<and>
    msteps P G (content (engine st), st) (content (engine st'), st')"
proof (cases "p_modifications (prepare E now' st rq) = []")
  case True
  then show ?thesis by (simp add: ApplyPrepared_def)
next
  case False
  from prepare_eff [OF assms(2,3) False] have p: "prepared_eff st (rq_key rq) (rq_eff now' st rq) (prepare E now' st rq)"
    and g: "guarded st (rq_key rq) (rq_eff now' st rq)" by auto
  from g have g': "guarded st (rq_key rq) (norm_eff (rq_eff now' st rq))" by (simp add: guard_norm)
  have "P (rq_key rq) (norm_eff (rq_eff now' st rq))"
    by (rule P, rule rq_allows_eff [OF assms(2,3) False])
  note steps = run_effect_msteps [where P = P, OF assms(1) g' this]
  obtain s st' where r: "run_effect E st (rq_key rq) (norm_eff (rq_eff now' st rq)) index = (s, st')" by fastforce
  show ?thesis
    unfolding ApplyPrepared_eff [OF p guard_shape [OF g]]
    using steps [of G index] r by auto
qed

section \<open>Batches\<close>

definition item_ok ::
  "(string \<Rightarrow> key_effect \<Rightarrow> bool) \<Rightarrow> 'e MvccStorage \<Rightarrow> PreparedMvccBatchItem \<Rightarrow> bool" where
  "item_ok P st i \<longleftrightarrow> p_status (i_prepared i) = Ok \<and>
     (p_modifications (i_prepared i) = [] \<or>
      (\<exists>eff. prepared_eff st (i_key i) eff (i_prepared i) \<and> guarded st (i_key i) eff \<and> P (i_key i) (norm_eff eff)))"

definition item_mods :: "PreparedMvccBatchItem \<Rightarrow> KVBatchOp list" where
  "item_mods i = p_modifications (i_prepared i)"

lemma item_ok_agree: "agree_on (i_key i) st st' \<Longrightarrow> item_ok P st' i = item_ok P st i"
  using prepared_eff_agree [of "i_key i" st st'] by (simp add: item_ok_def agree_on_def)

lemma ApplyBatchItems_msteps:
  assumes "\<forall>i \<in> set items. item_ok P st i" and "distinct (map i_key items)"
  shows "\<exists>st'. ApplyBatchItems now items st = Some (Ok, st') \<and>
    msteps P G (c, st) (apply_ops (concat (map item_mods items)) c, st') \<and> engine st' = engine st \<and>
    appliedRaftIndex st' = appliedRaftIndex st"
  using assms
proof (induction items arbitrary: st c)
  case (Cons i items)
  let ?p = "i_prepared i"
  have oki: "item_ok P st i" using Cons.prems by simp
  show ?case
  proof (cases "p_modifications ?p = []")
    case True
    with Cons show ?thesis by (simp add: item_mods_def)
  next
    case False
    then obtain eff where p: "prepared_eff st (i_key i) eff ?p" and g: "guarded st (i_key i) eff"
      and Pe: "P (i_key i) (norm_eff eff)"
      using oki by (auto simp: item_ok_def)
    let ?st1 = "eff_apply (i_key i) (norm_eff eff) st"
    let ?c1 = "apply_ops (item_mods i) c"
    have am: "ApplyMutations now (p_modifications ?p) st = Some ?st1"
      using p ApplyMutations_eff [OF guard_shape [OF g], of now st st] by (simp add: prepared_eff_def eff_apply_def)
    have rv: "CurrentRevisionLocked ?st1 (i_key i) = p_newRevision ?p" using p by (simp add: prepared_eff_def)
    have "guarded st (i_key i) (norm_eff eff)" using g by (simp add: guard_norm)
    from ms_eff [of _ _ _ P, OF this Pe, of G c] have "mstep P G (c, st) (?c1, ?st1)"
      using p by (simp add: item_mods_def prepared_eff_def)
    moreover have "\<forall>j \<in> set items. item_ok P ?st1 j"
    proof
      fix j assume j: "j \<in> set items"
      then have "i_key j \<noteq> i_key i" using Cons.prems(2) by (metis distinct.simps(2) image_eqI list.map(2) set_map)
      with j Cons.prems(1) show "item_ok P ?st1 j" by (simp add: item_ok_agree [OF agree_on_eff])
    qed
    then obtain st' where "ApplyBatchItems now items ?st1 = Some (Ok, st')"
      "msteps P G (?c1, ?st1) (apply_ops (concat (map item_mods items)) ?c1, st')" "engine st' = engine st"
      "appliedRaftIndex st' = appliedRaftIndex st"
      using Cons.IH [of ?st1 ?c1] Cons.prems by auto
    ultimately show ?thesis
      using am rv by (auto simp: Let_def intro: converse_rtranclp_into_rtranclp)
  qed
qed simp

lemma CheckBatchItems_ok:
  assumes "\<forall>i \<in> set items. item_ok P st i" and "sorted_wrt (<) (map i_key items)"
    and "\<forall>i \<in> set items. i_key i \<noteq> []" and "\<forall>i \<in> set items. prev \<noteq> [] \<longrightarrow> prev < i_key i"
  shows "CheckBatchItems (CurrentRevisionLocked st) prev items = Some (concat (map item_mods items))"
  using assms
proof (induction items arbitrary: prev)
  case (Cons i items)
  have IH: "CheckBatchItems (CurrentRevisionLocked st) (i_key i) items = Some (concat (map item_mods items))"
    by (rule Cons.IH) (use Cons.prems in auto)
  have "item_ok P st i" using Cons.prems(1) by simp
  then have "p_status (i_prepared i) = Ok" "p_modifications (i_prepared i) \<noteq> [] \<Longrightarrow>
      p_newRevision (i_prepared i) = p_expectedRevision (i_prepared i) + 1 \<and>
      CurrentRevisionLocked st (i_key i) = p_expectedRevision (i_prepared i)"
    by (auto simp: item_ok_def prepared_eff_def)
  with IH Cons.prems(3,4) show ?case
    by (auto simp: Let_def item_mods_def [of i] not_le)
qed simp

lemma ApplyPreparedBatch_msteps:
  assumes eng: "kv_engine E content" and items: "\<forall>i \<in> set (b_items b). item_ok P st i"
    and srt: "sorted_wrt (<) (map i_key (b_items b))" and ne: "\<forall>i \<in> set (b_items b). i_key i \<noteq> []"
  shows "\<exists>s st'. ApplyPreparedBatch E now st b index = Some (s, st') \<and>
    msteps P G (content (engine st), st) (content (engine st'), st')"
proof (cases "b_commandVersion b \<noteq> kBatchCommandVersion \<or> b_status b \<noteq> Ok \<or> b_items b = [] \<or>
    (index \<noteq> 0 \<and> index \<le> appliedRaftIndex st)")
  case True
  then show ?thesis by (auto simp: ApplyPreparedBatch_def)
next
  case False
  let ?ops = "concat (map item_mods (b_items b))"
  have chk: "CheckBatchItems (CurrentRevisionLocked st) [] (b_items b) = Some ?ops"
    using CheckBatchItems_ok [OF items srt ne] by simp
  obtain ok e where w: "kv_WriteBatch E (engine st) (?ops @ progress_ops index) = (ok, e)" by fastforce
  show ?thesis
  proof (cases "?ops @ progress_ops index = [] \<or> \<not> ok")
    case True
    then show ?thesis
    proof
      assume "?ops @ progress_ops index = []"
      with False chk show ?thesis by (simp add: ApplyPreparedBatch_def)
    next
      assume nok: "\<not> ok"
      then have "content e = content (engine st)" using w kv_engine.batch_fail [OF eng] by simp
      then have "mstep P G (content (engine st), st) (content e, st \<lparr> engine := e \<rparr>)" by (simp add: ms_inert)
      with False chk w nok show ?thesis by (auto simp: ApplyPreparedBatch_def)
    qed
  next
    case ok: False
    let ?st1 = "st \<lparr> engine := e, writeBatchCount := writeBatchCount st + 1 \<rparr>"
    let ?c = "content (engine st)"
    have "\<forall>i \<in> set (b_items b). item_ok P ?st1 i" using items by (simp add: item_ok_agree [OF agree_on_engine])
    from ApplyBatchItems_msteps [OF this, of now G ?c] srt obtain st' where
      ab: "ApplyBatchItems now (b_items b) ?st1 = Some (Ok, st')"
      "msteps P G (?c, ?st1) (apply_ops ?ops ?c, st')" "engine st' = e"
      using strict_sorted_iff by auto
    have c: "content e = apply_ops (progress_ops index) (apply_ops ?ops ?c)"
      using w ok kv_engine.batch_ok [OF eng, of "engine st" "?ops @ progress_ops index" e] by simp
    have "mstep P G (?c, st) (?c, ?st1)" by (rule ms_inert) simp_all
    with ab(2) progress_steps [of P G "apply_ops ?ops ?c" st' index] have
      "msteps P G (?c, st) (content e, if index \<noteq> 0 then st' \<lparr> appliedRaftIndex := index \<rparr> else st')"
      unfolding c by (meson converse_rtranclp_into_rtranclp rtranclp_trans)
    with False ok chk w ab show ?thesis by (auto simp: ApplyPreparedBatch_def)
  qed
qed

lemma item_ok_request:
  assumes "mvcc_inv st" and "rq_ok rq" and "p_status (prepare E now st rq) = Ok"
    and P: "\<And>eff. rq_allows rq (rq_key rq) eff \<Longrightarrow> P (rq_key rq) eff"
  shows "item_ok P st \<lparr> i_key = rq_key rq, i_prepared = prepare E now st rq \<rparr>"
proof (cases "p_modifications (prepare E now st rq) = []")
  case False
  from prepare_eff [OF assms(1,2) False] P [OF rq_allows_eff [OF assms(1,2) False]] assms(3) show ?thesis
    unfolding item_ok_def by auto
qed (simp add: item_ok_def assms(3))

definition mutation_request :: "string \<Rightarrow> u64 \<Rightarrow> u64 \<Rightarrow> u64 \<Rightarrow> MvccMutation \<Rightarrow> request" where
  "mutation_request pk s ttl fu m =
     (if m_isLockOnly m then RqPrewriteLock (m_key m) pk s ttl fu
      else RqPrewrite (m_key m) (m_value m) pk s ttl (m_isDelete m) fu)"

lemma BatchPrewriteLoop_ok:
  assumes inv: "mvcc_inv st" and pk: "small_string pk"
    and P: "\<And>m eff. m \<in> set ms \<Longrightarrow> rq_allows (mutation_request pk s ttl fu m) (m_key m) eff \<Longrightarrow> P (m_key m) eff"
    and "b_status (BatchPrewriteLoop now st pk s ttl fu prev ms items) = Ok"
    and "sorted (map m_key ms)" and "\<And>p m. prev = Some p \<Longrightarrow> m \<in> set ms \<Longrightarrow> p \<le> m_key m"
  shows "\<exists>new. b_items (BatchPrewriteLoop now st pk s ttl fu prev ms items) = items @ new \<and>
    (\<forall>i \<in> set new. item_ok P st i \<and> i_key i \<noteq> [] \<and> (\<forall>p. prev = Some p \<longrightarrow> p < i_key i)) \<and>
    sorted_wrt (<) (map i_key new)"
  using assms(3-)
proof (induction ms arbitrary: prev items)
  case (Cons m ms)
  let ?rq = "mutation_request pk s ttl fu m"
  let ?p = "prepare undefined now st ?rq"
  let ?i = "\<lparr> i_key = m_key m, i_prepared = ?p \<rparr>"
  have k: "m_key m \<noteq> []" "prev \<noteq> Some (m_key m)" and st: "p_status ?p = Ok"
    and step: "BatchPrewriteLoop now st pk s ttl fu prev (m # ms) items =
      BatchPrewriteLoop now st pk s ttl fu (Some (m_key m)) ms (items @ [?i])"
    using Cons.prems(2) by (auto simp: Let_def new_batch_def mutation_request_def split: if_splits)
  have "b_status (BatchPrewriteLoop now st pk s ttl fu (Some (m_key m)) ms (items @ [?i])) = Ok"
    using Cons.prems(2) unfolding step .
  then obtain new where new: "b_items (BatchPrewriteLoop now st pk s ttl fu (Some (m_key m)) ms (items @ [?i])) = (items @ [?i]) @ new"
    "\<forall>i \<in> set new. item_ok P st i \<and> i_key i \<noteq> [] \<and> m_key m < i_key i" "sorted_wrt (<) (map i_key new)"
    using Cons.IH [of "Some (m_key m)" "items @ [?i]"] Cons.prems(1,3) by auto
  have rk: "rq_key ?rq = m_key m" "rq_ok ?rq" using pk by (simp_all add: mutation_request_def)
  have oki: "item_ok P st ?i"
    using item_ok_request [OF inv rk(2) st, of P] Cons.prems(1) [of m] unfolding rk(1) by simp
  have lt: "p < m_key m" if "prev = Some p" for p
    using Cons.prems(4) [OF that, of m] k(2) that by auto
  show ?case
    unfolding step
    by (rule exI [of _ "?i # new"]) (use new oki k lt in \<open>auto dest: less_trans\<close>)
qed simp

lemma PrepareBatchPrewrite_ok:
  assumes "mvcc_inv st" and "small_string pk" and "b_status (PrepareBatchPrewrite now st ms pk s ttl fu) = Ok"
    and P: "\<And>m eff. m \<in> set ms \<Longrightarrow> rq_allows (mutation_request pk s ttl fu m) (m_key m) eff \<Longrightarrow> P (m_key m) eff"
  shows "(\<forall>i \<in> set (b_items (PrepareBatchPrewrite now st ms pk s ttl fu)). item_ok P st i \<and> i_key i \<noteq> []) \<and>
    sorted_wrt (<) (map i_key (b_items (PrepareBatchPrewrite now st ms pk s ttl fu)))"
proof -
  have eq: "PrepareBatchPrewrite now st ms pk s ttl fu = BatchPrewriteLoop now st pk s ttl fu None (sort_key m_key ms) []"
    using assms(3) by (auto simp: PrepareBatchPrewrite_def Let_def new_batch_def split: if_splits)
  have "\<exists>new. b_items (BatchPrewriteLoop now st pk s ttl fu None (sort_key m_key ms) []) = [] @ new \<and>
    (\<forall>i \<in> set new. item_ok P st i \<and> i_key i \<noteq> [] \<and> (\<forall>p. None = Some p \<longrightarrow> p < i_key i)) \<and> sorted_wrt (<) (map i_key new)"
    by (rule BatchPrewriteLoop_ok [OF assms(1,2)]) (use assms(3) eq P in simp_all)
  then show ?thesis unfolding eq by auto
qed

lemma BatchCommitLoop_ok:
  assumes inv: "mvcc_inv st" and "\<And>key eff. key \<in> set keys \<Longrightarrow> rq_allows (RqCommit key s c) key eff \<Longrightarrow> P key eff"
    and "b_status (BatchCommitLoop st s c keys items) = Ok"
  shows "\<exists>new. b_items (BatchCommitLoop st s c keys items) = items @ new \<and> map i_key new = keys \<and>
    (\<forall>i \<in> set new. item_ok P st i)"
  using assms(2,3)
proof (induction keys arbitrary: items)
  case (Cons key keys)
  let ?q = "PrepareCommit st key s c"
  let ?p = "if p_status ?q = AlreadyCommitted then ?q \<lparr> p_status := Ok \<rparr> else ?q"
  let ?i = "\<lparr> i_key = key, i_prepared = ?p \<rparr>"
  have st: "p_status ?p = Ok" and step: "BatchCommitLoop st s c (key # keys) items = BatchCommitLoop st s c keys (items @ [?i])"
    using Cons.prems(2) by (auto simp: Let_def new_batch_def split: if_splits)
  have "b_status (BatchCommitLoop st s c keys (items @ [?i])) = Ok"
    using Cons.prems(2) unfolding step .
  with Cons.IH [of "items @ [?i]"] Cons.prems(1) obtain new where
    new: "b_items (BatchCommitLoop st s c keys (items @ [?i])) = (items @ [?i]) @ new"
    "map i_key new = keys" "\<forall>i \<in> set new. item_ok P st i" by auto
  have "item_ok P st ?i"
  proof (cases "p_status ?q = AlreadyCommitted")
    case True
    then have "p_modifications ?q = []" using prepare_commit_eff [OF inv, of key s c 0] by (auto simp: prepared_eff_def)
    with True show ?thesis by (simp add: item_ok_def)
  next
    case False
    with st item_ok_request [OF inv, of "RqCommit key s c" undefined 0 P] Cons.prems(1) [of key] show ?thesis by simp
  qed
  with new show ?case unfolding step by (intro exI [of _ "?i # new"]) simp
qed simp

lemma BatchRollbackLoop_ok:
  assumes inv: "mvcc_inv st" and "\<And>key eff. key \<in> set keys \<Longrightarrow> rq_allows (RqRollback key s) key eff \<Longrightarrow> P key eff"
    and "b_status (BatchRollbackLoop st s keys items) = Ok"
  shows "\<exists>new. b_items (BatchRollbackLoop st s keys items) = items @ new \<and> map i_key new = keys \<and>
    (\<forall>i \<in> set new. item_ok P st i)"
  using assms(2,3)
proof (induction keys arbitrary: items)
  case (Cons key keys)
  let ?p = "PrepareRollback st key s"
  let ?i = "\<lparr> i_key = key, i_prepared = ?p \<rparr>"
  have st: "p_status ?p = Ok" and step: "BatchRollbackLoop st s (key # keys) items = BatchRollbackLoop st s keys (items @ [?i])"
    using Cons.prems(2) by (auto simp: Let_def new_batch_def split: if_splits)
  have "b_status (BatchRollbackLoop st s keys (items @ [?i])) = Ok"
    using Cons.prems(2) unfolding step .
  with Cons.IH [of "items @ [?i]"] Cons.prems(1) obtain new where
    new: "b_items (BatchRollbackLoop st s keys (items @ [?i])) = (items @ [?i]) @ new"
    "map i_key new = keys" "\<forall>i \<in> set new. item_ok P st i" by auto
  have "item_ok P st ?i"
    using st item_ok_request [OF inv, of "RqRollback key s" undefined 0 P] Cons.prems(1) [of key] by simp
  with new show ?case unfolding step by (intro exI [of _ "?i # new"]) simp
qed simp

lemma distinct_remdups_adj: "sorted xs \<Longrightarrow> distinct (remdups_adj xs)"
proof (induction xs rule: remdups_adj.induct)
  case (3 x y xs)
  then show ?case by (cases "x = y") (auto simp: less_le)
qed simp_all

lemma ordered_keys:
  fixes keys :: "string list"
  shows "sorted_wrt (<) (remdups_adj (sort keys))"
    and "remdups_adj (sort keys) \<noteq> [] \<Longrightarrow> hd (remdups_adj (sort keys)) \<noteq> [] \<Longrightarrow> k \<in> set (remdups_adj (sort keys)) \<Longrightarrow> k \<noteq> []"
proof -
  have s: "sorted (remdups_adj (sort keys))" by (simp add: sorted_remdups_adj)
  then show "sorted_wrt (<) (remdups_adj (sort keys))"
    by (simp add: strict_sorted_iff distinct_remdups_adj)
  show "remdups_adj (sort keys) \<noteq> [] \<Longrightarrow> hd (remdups_adj (sort keys)) \<noteq> [] \<Longrightarrow> k \<in> set (remdups_adj (sort keys)) \<Longrightarrow> k \<noteq> []"
    using s by (cases "remdups_adj (sort keys)") auto
qed

datatype batch_request =
  BqPrewrite "MvccMutation list" string u64 u64 u64
| BqCommit "string list" u64 u64
| BqRollback "string list" u64

fun prepare_batch :: "u64 \<Rightarrow> 'e MvccStorage \<Rightarrow> batch_request \<Rightarrow> PreparedMvccBatch" where
  "prepare_batch now st (BqPrewrite ms pk s ttl fu) = PrepareBatchPrewrite now st ms pk s ttl fu"
| "prepare_batch now st (BqCommit keys s c) = PrepareBatchCommit st keys s c"
| "prepare_batch now st (BqRollback keys s) = PrepareBatchRollback st keys s"

fun bq_ok :: "batch_request \<Rightarrow> bool" where
  "bq_ok (BqPrewrite _ pk _ _ _) \<longleftrightarrow> small_string pk"
| "bq_ok _ \<longleftrightarrow> True"

fun bq_requests :: "batch_request \<Rightarrow> request list" where
  "bq_requests (BqPrewrite ms pk s ttl fu) = map (mutation_request pk s ttl fu) ms"
| "bq_requests (BqCommit keys s c) = map (\<lambda>key. RqCommit key s c) keys"
| "bq_requests (BqRollback keys s) = map (\<lambda>key. RqRollback key s) keys"

lemma rq_key_mutation [simp]: "rq_key (mutation_request pk s ttl fu m) = m_key m"
  by (simp add: mutation_request_def)

lemma prepare_batch_ok:
  assumes inv: "mvcc_inv st" and "bq_ok bq" and ok: "b_status (prepare_batch now st bq) = Ok"
    and P: "\<And>rq eff. rq \<in> set (bq_requests bq) \<Longrightarrow> rq_allows rq (rq_key rq) eff \<Longrightarrow> P (rq_key rq) eff"
  shows "(\<forall>i \<in> set (b_items (prepare_batch now st bq)). item_ok P st i \<and> i_key i \<noteq> []) \<and>
    sorted_wrt (<) (map i_key (b_items (prepare_batch now st bq)))"
proof (cases bq)
  case (BqPrewrite ms pk s ttl fu)
  have "m \<in> set ms \<Longrightarrow> rq_allows (mutation_request pk s ttl fu m) (m_key m) eff \<Longrightarrow> P (m_key m) eff" for m eff
    using P [of "mutation_request pk s ttl fu m" eff] by (simp add: BqPrewrite)
  with assms PrepareBatchPrewrite_ok [OF inv, of pk now ms s ttl fu P] show ?thesis by (simp add: BqPrewrite)
next
  case (BqCommit keys s c)
  let ?ks = "remdups_adj (sort keys)"
  have ne: "?ks \<noteq> []" "hd ?ks \<noteq> []" and eq: "prepare_batch now st bq = BatchCommitLoop st s c ?ks []"
    using ok BqCommit by (auto simp: PrepareBatchCommit_def Let_def new_batch_def split: if_splits)
  have "key \<in> set ?ks \<Longrightarrow> rq_allows (RqCommit key s c) key eff \<Longrightarrow> P key eff" for key eff
    using P [of "RqCommit key s c" eff] by (simp add: BqCommit)
  then obtain new where "b_items (prepare_batch now st bq) = new" "map i_key new = ?ks" "\<forall>i \<in> set new. item_ok P st i"
    using BatchCommitLoop_ok [OF inv, of ?ks s c P "[]"] ok unfolding eq by auto
  moreover have "i_key i \<in> set ?ks" if "i \<in> set new" for i
    unfolding \<open>map i_key new = ?ks\<close> [symmetric] using that by simp
  ultimately show ?thesis using ordered_keys [of keys] ne by auto
next
  case (BqRollback keys s)
  let ?ks = "remdups_adj (sort keys)"
  have ne: "?ks \<noteq> []" "hd ?ks \<noteq> []" and eq: "prepare_batch now st bq = BatchRollbackLoop st s ?ks []"
    using ok BqRollback by (auto simp: PrepareBatchRollback_def Let_def new_batch_def split: if_splits)
  have "key \<in> set ?ks \<Longrightarrow> rq_allows (RqRollback key s) key eff \<Longrightarrow> P key eff" for key eff
    using P [of "RqRollback key s" eff] by (simp add: BqRollback)
  then obtain new where "b_items (prepare_batch now st bq) = new" "map i_key new = ?ks" "\<forall>i \<in> set new. item_ok P st i"
    using BatchRollbackLoop_ok [OF inv, of ?ks s P "[]"] ok unfolding eq by auto
  moreover have "i_key i \<in> set ?ks" if "i \<in> set new" for i
    unfolding \<open>map i_key new = ?ks\<close> [symmetric] using that by simp
  ultimately show ?thesis using ordered_keys [of keys] ne by auto
qed

lemma apply_batch_request_msteps:
  assumes "kv_engine E content" and "mvcc_inv st" and "bq_ok bq"
    and "\<And>rq eff. rq \<in> set (bq_requests bq) \<Longrightarrow> rq_allows rq (rq_key rq) eff \<Longrightarrow> P (rq_key rq) eff"
  shows "\<exists>s st'. ApplyPreparedBatch E now st (prepare_batch now' st bq) index = Some (s, st') \<and>
    msteps P G (content (engine st), st) (content (engine st'), st')"
proof (cases "b_status (prepare_batch now' st bq) = Ok")
  case True
  from prepare_batch_ok [where P = P, OF assms(2,3) True assms(4)] show ?thesis
    by (intro ApplyPreparedBatch_msteps [OF assms(1)]) auto
next
  case False
  then show ?thesis by (simp add: ApplyPreparedBatch_def)
qed

lemma apply_batch_if_changed_msteps:
  assumes "kv_engine E content" and "mvcc_inv st" and "bq_ok bq"
    and "\<And>rq eff. rq \<in> set (bq_requests bq) \<Longrightarrow> rq_allows rq (rq_key rq) eff \<Longrightarrow> P (rq_key rq) eff"
  shows "\<exists>s st'. ApplyBatchIfChanged E now st (prepare_batch now' st bq) = Some (s, st') \<and>
    msteps P G (content (engine st), st) (content (engine st'), st')"
  using apply_batch_request_msteps [where P = P and G = G, OF assms(1-3), of now now' 0] assms(4)
  by (auto simp: ApplyBatchIfChanged_def)

section \<open>Direct operations\<close>

lemma Commit_eff:
  assumes "mvcc_inv st"
  shows "(CommitVerdict st key s c \<noteq> Ok \<and> Commit E st key s c = (CommitVerdict st key s c, st)) \<or>
    (\<exists>l. map_of (locks st) key = Some l \<and> l_startTs l = s \<and> guarded st key (CommitAt c (CommitWrite l s c)) \<and>
       Commit E st key s c = run_effect E st key (CommitAt c (CommitWrite l s c)) 0)"
proof (cases "CommitVerdict st key s c = Ok")
  case True
  from commit_guarded [OF assms True] obtain l where l: "map_of (locks st) key = Some l" "l_startTs l = s"
    "guarded st key (CommitAt c (CommitWrite l s c))" by blast
  have "Commit E st key s c = run_effect E st key (CommitAt c (CommitWrite l s c)) 0"
    using True l(1) commit_batch_eff [of _ key "CommitAt c (CommitWrite l s c)" E st]
    by (simp add: Commit_def Let_def fun_eq_iff)
  with l show ?thesis by blast
next
  case False
  then show ?thesis by (simp add: Commit_def split: option.split)
qed

lemma Rollback_eff:
  "Rollback E st key s = (AlreadyCommitted, st) \<or>
   (guarded st key (RollbackAt s (owns_lock st key s)) \<and>
    Rollback E st key s = run_effect E st key (RollbackAt s (owns_lock st key s)) 0)"
proof (cases "list_ex (\<lambda>x. w_startTs (snd x) = s \<and> w_type (snd x) \<noteq> WtRollback) (versions st key)")
  case False
  have "Rollback E st key s = run_effect E st key (RollbackAt s (owns_lock st key s)) 0"
    using False commit_batch_eff [of _ key "RollbackAt s (owns_lock st key s)" E st]
    by (simp add: Rollback_def rollback_ops_def fun_eq_iff)
  with Rollback_guarded [OF False] show ?thesis by blast
qed (simp add: Rollback_def)

lemma PrewriteLocked_eff:
  assumes "mvcc_inv st" and "small_string pk"
  shows "(\<exists>s'. s' \<noteq> Ok \<and> PrewriteLocked E now st key v pk s ttl dl fu = (s', st)) \<or>
    (let eff = PutLock [prewrite_data_op key v s dl] (PrewriteLockRecord now (map_of (locks st) key) pk v s ttl dl fu)
     in guarded st key eff \<and> PrewriteLocked E now st key v pk s ttl dl fu = run_effect E st key eff 0)"
proof (cases "prewrite_conflict (versions st key) s \<or>
    (\<exists>l. map_of (locks st) key = Some l \<and> (l_startTs l \<noteq> s \<or> \<not> l_isPessimistic l \<or> l_primaryKey l \<noteq> pk \<or>
       (fu \<noteq> 0 \<and> fu < l_forUpdateTs l)))")
  case True
  then show ?thesis by (auto simp: PrewriteLocked_def Let_def split: option.split)
next
  case False
  let ?l = "PrewriteLockRecord now (map_of (locks st) key) pk v s ttl dl fu"
  let ?eff = "PutLock [prewrite_data_op key v s dl] ?l"
  have "guarded st key ?eff"
    by (rule prewrite_guarded [OF assms]) (use False in auto)
  moreover have "PrewriteLocked E now st key v pk s ttl dl fu = run_effect E st key ?eff 0"
    using False commit_batch_eff [of _ key ?eff E st]
    by (auto simp: PrewriteLocked_def Let_def fun_eq_iff split: option.split)
  ultimately show ?thesis unfolding Let_def by blast
qed

lemma AcquirePessimisticLock_eff:
  assumes "mvcc_inv st" and "small_string pk"
  shows "(\<exists>s'. AcquirePessimisticLock E now st key pk s ttl fu exp = (s', st)) \<or>
    (let eff = PutLock [] (PessimisticLockRecord now pk s ttl (if fu = 0 then s else fu) exp)
     in guarded st key eff \<and> AcquirePessimisticLock E now st key pk s ttl fu exp = run_effect E st key eff 0)"
proof (cases "map_of (locks st) key = None \<and> \<not> prewrite_conflict (versions st key) s")
  case False
  then show ?thesis by (auto simp: AcquirePessimisticLock_def split: option.split)
next
  case True
  let ?l = "PessimisticLockRecord now pk s ttl (if fu = 0 then s else fu) exp"
  have "committed_upto (max s (if fu = 0 then s else fu)) (versions st key)"
    using prewrite_no_conflict [OF mvcc_inv_versions_ok [OF assms(1)], of key s] True
    by (intro committed_upto_less [of _ s]) auto
  then have "guarded st key (PutLock [] ?l)"
    using True assms(2) by (intro acquire_guarded) simp_all
  moreover have "AcquirePessimisticLock E now st key pk s ttl fu exp = run_effect E st key (PutLock [] ?l) 0"
    using True commit_batch_eff [of _ key "PutLock [] ?l" E st]
    by (simp add: AcquirePessimisticLock_def Let_def fun_eq_iff)
  ultimately show ?thesis unfolding Let_def by blast
qed

lemma GarbageCollect_unfold:
  "GarbageCollect E st sp =
     (if gc_removed sp st = [] then (0, st)
      else case kv_WriteBatch E (engine st) (gc_batch sp st) of
             (False, e) \<Rightarrow> (0, st \<lparr> engine := e \<rparr>)
           | (True, e) \<Rightarrow> (length (gc_removed sp st),
               gc_apply sp (st \<lparr> engine := e, writeBatchCount := writeBatchCount st + 1 \<rparr>)))"
  unfolding GarbageCollect_def gc_removed_def gc_batch_def gc_apply_def gc_touched_def Let_def
  by (simp split: prod.split bool.split)

lemma GarbageCollect_msteps:
  assumes "kv_engine E content" and "G sp"
  shows "msteps P G (content (engine st), st)
    (content (engine (snd (GarbageCollect E st sp))), snd (GarbageCollect E st sp))"
proof -
  obtain ok e where w: "kv_WriteBatch E (engine st) (gc_batch sp st) = (ok, e)" by fastforce
  let ?st1 = "st \<lparr> engine := e, writeBatchCount := writeBatchCount st + 1 \<rparr>"
  let ?c = "content (engine st)"
  consider "gc_removed sp st = []" | "gc_removed sp st \<noteq> []" "\<not> ok" | "gc_removed sp st \<noteq> []" "ok" by blast
  then show ?thesis
  proof cases
    case 1
    then show ?thesis by (simp add: GarbageCollect_unfold)
  next
    case 2
    then have "mstep P G (?c, st) (content e, st \<lparr> engine := e \<rparr>)"
      using w kv_engine.batch_fail [OF assms(1)] by (simp add: ms_inert)
    moreover have "snd (GarbageCollect E st sp) = st \<lparr> engine := e \<rparr>"
      using 2 w by (simp add: GarbageCollect_unfold)
    ultimately show ?thesis by (simp add: r_into_rtranclp)
  next
    case 3
    have c: "content e = apply_ops (gc_batch sp st) ?c" using 3 w kv_engine.batch_ok [OF assms(1)] by simp
    have "mstep P G (?c, st) (?c, ?st1)" by (rule ms_inert) simp_all
    moreover have "gc_batch sp ?st1 = gc_batch sp st"
      by (simp add: gc_batch_def gc_touched_def RevisionMutation_def)
    then have "mstep P G (?c, ?st1) (content e, gc_apply sp ?st1)" unfolding c using assms(2) by (metis ms_gc)
    moreover have "snd (GarbageCollect E st sp) = gc_apply sp ?st1"
      using 3 w by (simp add: GarbageCollect_unfold)
    moreover have "engine (gc_apply sp ?st1) = e" by (simp add: gc_apply_def)
    ultimately show ?thesis by (simp add: converse_rtranclp_into_rtranclp)
  qed
qed

section \<open>Calls\<close>

datatype mvcc_call =
  CallPrewrite string string string u64 u64 u64
| CallPrewriteDelete string string u64 u64 u64
| CallPrewriteLock string string u64 u64 u64
| CallAcquire string string u64 u64 u64 u64
| CallAcquireForUpdate string string u64 u64 u64 u64
| CallCommit string u64 u64
| CallRollback string u64
| CallCheckTxnStatus string u64 u64 bool
| CallResolveLock string u64 TxnRecordState u64
| CallBatch batch_request
| CallApply request u64
| CallApplyBatch batch_request u64
| CallGarbageCollect u64

fun call_ok :: "mvcc_call \<Rightarrow> bool" where
  "call_ok (CallPrewrite _ _ pk _ _ _) \<longleftrightarrow> small_string pk"
| "call_ok (CallPrewriteDelete _ pk _ _ _) \<longleftrightarrow> small_string pk"
| "call_ok (CallAcquire _ pk _ _ _ _) \<longleftrightarrow> small_string pk"
| "call_ok (CallAcquireForUpdate _ pk _ _ _ _) \<longleftrightarrow> small_string pk"
| "call_ok (CallBatch bq) \<longleftrightarrow> bq_ok bq"
| "call_ok (CallApply rq _) \<longleftrightarrow> rq_ok rq"
| "call_ok (CallApplyBatch bq _) \<longleftrightarrow> bq_ok bq"
| "call_ok _ \<longleftrightarrow> True"

fun run_call :: "'e IKVEngine \<Rightarrow> u64 \<Rightarrow> mvcc_call \<Rightarrow> 'e MvccStorage \<Rightarrow> 'e MvccStorage option" where
  "run_call E now (CallPrewrite key v pk s ttl fu) st = Some (snd (Prewrite E now st key v pk s ttl fu))"
| "run_call E now (CallPrewriteDelete key pk s ttl fu) st = Some (snd (PrewriteDelete E now st key pk s ttl fu))"
| "run_call E now (CallPrewriteLock key pk s ttl fu) st = map_option snd (PrewriteLock E now st key pk s ttl fu)"
| "run_call E now (CallAcquire key pk s ttl fu exp) st =
     Some (snd (AcquirePessimisticLock E now st key pk s ttl fu exp))"
| "run_call E now (CallAcquireForUpdate key pk s ttl fu exp) st =
     map_option snd (AcquirePessimisticLockForUpdate E now st key pk s ttl fu exp)"
| "run_call E now (CallCommit key s c) st = Some (snd (Commit E st key s c))"
| "run_call E now (CallRollback key s) st = Some (snd (Rollback E st key s))"
| "run_call E now (CallCheckTxnStatus key s cur rb) st = map_option snd (CheckTxnStatus E now st key s cur rb)"
| "run_call E now (CallResolveLock key s decision c) st = map_option snd (ResolveLock E now st key s decision c)"
| "run_call E now (CallBatch bq) st =
     map_option snd (case bq of
        BqPrewrite ms pk s ttl fu \<Rightarrow> BatchPrewrite E now st ms pk s ttl fu
      | BqCommit keys s c \<Rightarrow> BatchCommit E now st keys s c
      | BqRollback keys s \<Rightarrow> BatchRollback E now st keys s)"
| "run_call E now (CallApply rq index) st =
     map_option snd (ApplyPrepared E now st (rq_key rq) (prepare E now st rq) index)"
| "run_call E now (CallApplyBatch bq index) st =
     map_option snd (ApplyPreparedBatch E now st (prepare_batch now st bq) index)"
| "run_call E now (CallGarbageCollect sp) st = Some (snd (GarbageCollect E st sp))"

text \<open>The requests a call makes and the safe points it collects up to.\<close>

fun call_requests :: "mvcc_call \<Rightarrow> request list" where
  "call_requests (CallPrewrite key v pk s ttl fu) = [RqPrewrite key v pk s ttl False fu]"
| "call_requests (CallPrewriteDelete key pk s ttl fu) = [RqPrewrite key [] pk s ttl True fu]"
| "call_requests (CallPrewriteLock key pk s ttl fu) = [RqPrewriteLock key pk s ttl fu]"
| "call_requests (CallAcquire key pk s ttl fu exp) = [RqPessimisticLock key pk s ttl fu exp]"
| "call_requests (CallAcquireForUpdate key pk s ttl fu exp) = [RqPessimisticLock key pk s ttl fu exp]"
| "call_requests (CallCommit key s c) = [RqCommit key s c]"
| "call_requests (CallRollback key s) = [RqRollback key s]"
| "call_requests (CallCheckTxnStatus key s cur rb) = [RqCheckTxnStatus key s cur rb]"
| "call_requests (CallResolveLock key s decision c) = [RqResolveLock key s decision c]"
| "call_requests (CallBatch bq) = bq_requests bq"
| "call_requests (CallApply rq index) = [rq]"
| "call_requests (CallApplyBatch bq index) = bq_requests bq"
| "call_requests (CallGarbageCollect sp) = []"

definition call_allows :: "mvcc_call \<Rightarrow> string \<Rightarrow> key_effect \<Rightarrow> bool" where
  "call_allows call k eff \<longleftrightarrow> (\<exists>rq \<in> set (call_requests call). rq_allows rq k eff)"

definition call_collects :: "mvcc_call \<Rightarrow> u64 \<Rightarrow> bool" where
  "call_collects call sp \<longleftrightarrow> call = CallGarbageCollect sp"

lemma call_allows_single: "call_requests call = [rq] \<Longrightarrow> rq_allows rq k eff \<Longrightarrow> call_allows call k eff"
  by (simp add: call_allows_def)

lemma via_request_msteps:
  assumes "kv_engine E content" and "mvcc_inv st" and "rq_ok rq" and "call_requests call = [rq]"
    and "res = Some st \<or> res = map_option snd (ApplyPrepared E now st (rq_key rq) (prepare E now st rq) 0)"
  shows "\<exists>st'. res = Some st' \<and>
    msteps (call_allows call) (call_collects call) (content (engine st), st) (content (engine st'), st')"
  using apply_request_msteps [where P = "call_allows call" and G = "call_collects call", OF assms(1-3)
      call_allows_single [OF assms(4)], of now now 0] assms(5) by auto

lemma direct_msteps:
  assumes "kv_engine E content" and "res = (s, st) \<or> guarded st key eff \<and> call_allows call key eff \<and> res = run_effect E st key eff 0"
  shows "msteps (call_allows call) (call_collects call) (content (engine st), st) (content (engine (snd res)), snd res)"
  using assms(2)
proof
  assume "guarded st key eff \<and> call_allows call key eff \<and> res = run_effect E st key eff 0"
  then show ?thesis using run_effect_msteps [OF assms(1)] by blast
qed simp

lemma run_call_msteps:
  assumes "kv_engine E content" and "mvcc_inv st" and "call_ok call"
  shows "\<exists>st'. run_call E now call st = Some st' \<and>
    msteps (call_allows call) (call_collects call) (content (engine st), st) (content (engine st'), st')"
proof (cases call)
  case (CallPrewrite key v pk s ttl fu)
  let ?eff = "PutLock [prewrite_data_op key v s False] (PrewriteLockRecord now (map_of (locks st) key) pk v s ttl False fu)"
  have "call_allows call key ?eff"
    by (simp add: CallPrewrite call_allows_def rq_allows_def PrewriteLockRecord_def split: option.split prod.split)
  with assms PrewriteLocked_eff [OF assms(2), of pk E now key v s ttl False fu] show ?thesis
    using direct_msteps [OF assms(1), of "Prewrite E now st key v pk s ttl fu" _ st key ?eff call]
    unfolding CallPrewrite run_call.simps Prewrite_def Let_def call_ok.simps by blast
next
  case (CallPrewriteDelete key pk s ttl fu)
  let ?eff = "PutLock [prewrite_data_op key [] s True] (PrewriteLockRecord now (map_of (locks st) key) pk [] s ttl True fu)"
  have "call_allows call key ?eff"
    by (simp add: CallPrewriteDelete call_allows_def rq_allows_def PrewriteLockRecord_def split: option.split prod.split)
  with assms PrewriteLocked_eff [OF assms(2), of pk E now key "[]" s ttl True fu] show ?thesis
    using direct_msteps [OF assms(1), of "PrewriteDelete E now st key pk s ttl fu" _ st key ?eff call]
    unfolding CallPrewriteDelete run_call.simps PrewriteDelete_def Let_def call_ok.simps by blast
next
  case (CallPrewriteLock key pk s ttl fu)
  show ?thesis
    by (rule via_request_msteps [OF assms(1,2), of "RqPrewriteLock key pk s ttl fu" _ _ now])
       (simp_all add: CallPrewriteLock PrewriteLock_def Let_def)
next
  case (CallAcquire key pk s ttl fu exp)
  let ?eff = "PutLock [] (PessimisticLockRecord now pk s ttl (if fu = 0 then s else fu) exp)"
  have "call_allows call key ?eff"
    by (simp add: CallAcquire call_allows_def rq_allows_def PessimisticLockRecord_def)
  with assms AcquirePessimisticLock_eff [OF assms(2), of pk E now key s ttl fu exp] show ?thesis
    using direct_msteps [OF assms(1), of "AcquirePessimisticLock E now st key pk s ttl fu exp" _ st key ?eff call]
    unfolding CallAcquire run_call.simps Let_def call_ok.simps by blast
next
  case (CallAcquireForUpdate key pk s ttl fu exp)
  show ?thesis
    by (rule via_request_msteps [OF assms(1,2), of "RqPessimisticLock key pk s ttl fu exp" _ _ now])
       (use assms(3) in \<open>auto simp: CallAcquireForUpdate AcquirePessimisticLockForUpdate_def Let_def split: option.split\<close>)
next
  case (CallCommit key s c)
  have "call_allows call key (CommitAt c (CommitWrite l s c))" for l
    by (simp add: CallCommit call_allows_def rq_allows_def CommitWrite_def)
  with Commit_eff [OF assms(2), of key s c E] show ?thesis
    using direct_msteps [OF assms(1), of "Commit E st key s c" _ st key _ call]
    unfolding CallCommit run_call.simps by blast
next
  case (CallRollback key s)
  have "call_allows call key (RollbackAt s (owns_lock st key s))"
    by (simp add: CallRollback call_allows_def rq_allows_def)
  with Rollback_eff [of E st key s] show ?thesis
    using direct_msteps [OF assms(1), of "Rollback E st key s" _ st key _ call]
    unfolding CallRollback run_call.simps by blast
next
  case (CallCheckTxnStatus key s cur rb)
  show ?thesis
    by (rule via_request_msteps [OF assms(1,2), of "RqCheckTxnStatus key s cur rb" _ _ now])
       (auto simp: CallCheckTxnStatus CheckTxnStatus_def Let_def split: option.split)
next
  case (CallResolveLock key s d c)
  show ?thesis
    by (rule via_request_msteps [OF assms(1,2), of "RqResolveLock key s d c" _ _ now])
       (auto simp: CallResolveLock ResolveLock_def Let_def)
next
  case (CallBatch bq)
  have "rq \<in> set (bq_requests bq) \<Longrightarrow> rq_allows rq (rq_key rq) eff \<Longrightarrow> call_allows call (rq_key rq) eff" for rq eff
    by (auto simp: call_allows_def CallBatch)
  with apply_batch_if_changed_msteps [where P = "call_allows call" and G = "call_collects call", OF assms(1,2), of bq now now]
    assms(3) CallBatch show ?thesis
    by (cases bq) (auto simp: BatchPrewrite_def BatchCommit_def BatchRollback_def)
next
  case (CallApply rq index)
  have "rq_allows rq (rq_key rq) eff \<Longrightarrow> call_allows call (rq_key rq) eff" for eff
    by (auto simp: call_allows_def CallApply)
  with apply_request_msteps [where P = "call_allows call" and G = "call_collects call", OF assms(1,2), of rq now now index]
    assms(3) CallApply show ?thesis by auto
next
  case (CallApplyBatch bq index)
  have "rq \<in> set (bq_requests bq) \<Longrightarrow> rq_allows rq (rq_key rq) eff \<Longrightarrow> call_allows call (rq_key rq) eff" for rq eff
    by (auto simp: call_allows_def CallApplyBatch)
  with apply_batch_request_msteps [where P = "call_allows call" and G = "call_collects call", OF assms(1,2), of bq now now index]
    assms(3) CallApplyBatch show ?thesis by auto
next
  case (CallGarbageCollect sp)
  with GarbageCollect_msteps [OF assms(1), of "call_collects call" sp "call_allows call" st] show ?thesis
    by (simp add: call_collects_def)
qed

end
