(* ===== verification/MvccInvariants.thy ===== *)
theory MvccInvariants
  imports MvccMachine
begin

text \<open>
  Invariants of the MVCC machine: the key invariant \<open>mvcc_inv\<close>, and \<open>synced\<close>, which says that the
  lock, write and revision records of the engine are exactly the encodings of the in-memory
  indexes. Both hold along every sequence of steps, garbage collection included.
\<close>

section \<open>Garbage collection\<close>

lemma versions_fold_del:
  "versions (st \<lparr> writes := fold (\<lambda>(k, ts). del_version k ts) rs ws \<rparr>) k =
     filter (\<lambda>x. (k, fst x) \<notin> set rs) (versions (st \<lparr> writes := ws \<rparr>) k)"
proof (induction rs arbitrary: ws)
  case (Cons r rs)
  obtain k' ts where r: "r = (k', ts)" by (cases r)
  have "versions (st \<lparr> writes := del_version k' ts ws \<rparr>) k =
      (if k = k' then om_del ts (versions (st \<lparr> writes := ws \<rparr>) k) else versions (st \<lparr> writes := ws \<rparr>) k)"
    by (simp add: versions_def del_version_def om_del_def split: option.split)
  with Cons.IH [of "del_version k' ts ws"] show ?case
    by (cases "k = k'") (simp_all add: r om_del_def conj_commute)
qed simp

lemma gc_victims_Nil [simp]: "gc_victims sp [] = []"
  by (simp add: gc_victims_def)

lemma gc_victims_subset: "set (gc_victims sp vs) \<subseteq> set vs"
  by (auto simp: gc_victims_def)

lemma set_concat_keyed:
  "(k, t) \<in> set (concat (map (\<lambda>kw. map (\<lambda>x. (fst kw, fst x)) (f (snd kw))) m)) \<longleftrightarrow>
     (\<exists>v. (k, v) \<in> set m \<and> t \<in> fst ` set (f v))"
proof
  assume "(k, t) \<in> set (concat (map (\<lambda>kw. map (\<lambda>x. (fst kw, fst x)) (f (snd kw))) m))"
  then obtain kw x where "kw \<in> set m" "x \<in> set (f (snd kw))" "k = fst kw" "t = fst x" by auto
  then show "\<exists>v. (k, v) \<in> set m \<and> t \<in> fst ` set (f v)" by (intro exI [of _ "snd kw"]) simp
next
  assume "\<exists>v. (k, v) \<in> set m \<and> t \<in> fst ` set (f v)"
  then obtain v x where "(k, v) \<in> set m" "x \<in> set (f v)" "t = fst x" by blast
  then show "(k, t) \<in> set (concat (map (\<lambda>kw. map (\<lambda>x. (fst kw, fst x)) (f (snd kw))) m))"
    by (auto intro!: bexI [of _ "(k, v)"])
qed

lemma gc_removed_iff:
  assumes "om_ok (writes st)"
  shows "(k, ts) \<in> set (gc_removed sp st) \<longleftrightarrow> ts \<in> fst ` set (gc_victims sp (versions st k))"
proof -
  have "(k, ts) \<in> set (gc_removed sp st) \<longleftrightarrow> (\<exists>vs. (k, vs) \<in> set (writes st) \<and> ts \<in> fst ` set (gc_victims sp vs))"
    unfolding gc_removed_def by (rule set_concat_keyed)
  also have "\<dots> \<longleftrightarrow> ts \<in> fst ` set (gc_victims sp (versions st k))"
    unfolding om_lookup_iff [OF assms, symmetric] versions_def by (cases "map_of (writes st) k") simp_all
  finally show ?thesis .
qed

lemma gc_touched_iff:
  assumes "om_ok (writes st)"
  shows "k \<in> set (gc_touched sp st) \<longleftrightarrow> gc_victims sp (versions st k) \<noteq> []"
proof -
  have "k \<in> set (gc_touched sp st) \<longleftrightarrow> (\<exists>vs. (k, vs) \<in> set (writes st) \<and> gc_victims sp vs \<noteq> [])"
    by (auto simp: gc_touched_def image_iff)
  also have "\<dots> \<longleftrightarrow> gc_victims sp (versions st k) \<noteq> []"
    unfolding om_lookup_iff [OF assms, symmetric] versions_def by (cases "map_of (writes st) k") simp_all
  finally show ?thesis .
qed

lemma gc_versions:
  assumes "om_ok (writes st)"
  shows "versions (gc_apply sp st) k =
    filter (\<lambda>x. fst x \<notin> fst ` set (gc_victims sp (versions st k))) (versions st k)"
  using versions_fold_del [where st = st and rs = "gc_removed sp st" and ws = "writes st" and k = k]
  by (simp add: gc_apply_def gc_removed_iff [OF assms])

lemma map_of_fold_put:
  "map_of (fold (\<lambda>k. om_put k (f k)) ks m) k = (if k \<in> set ks then Some (f k) else map_of m k)"
  by (induction ks arbitrary: m) auto

lemma gc_revision:
  "map_of (revisions (gc_apply sp st)) k =
     (if k \<in> set (gc_touched sp st) then Some (CurrentRevisionLocked st k + 1) else map_of (revisions st) k)"
  by (simp add: gc_apply_def map_of_fold_put)

lemma gc_locks [simp]: "locks (gc_apply sp st) = locks st" "engine (gc_apply sp st) = engine st"
  "appliedRaftIndex (gc_apply sp st) = appliedRaftIndex st"
  by (simp_all add: gc_apply_def)

lemma om_ok_del_version: "om_ok ws \<Longrightarrow> om_ok (del_version k ts ws)"
  by (simp add: del_version_def split: option.split)

lemma om_ok_fold_del: "om_ok ws \<Longrightarrow> om_ok (fold (\<lambda>(k, ts). del_version k ts) rs ws)"
  by (induction rs arbitrary: ws) (simp_all add: om_ok_del_version case_prod_beta)

lemma om_ok_fold_put: "om_ok m \<Longrightarrow> om_ok (fold (\<lambda>k. om_put k (f k)) ks m)"
  by (induction ks arbitrary: m) auto

section \<open>The invariant holds in every step\<close>

lemma key_inv_filter:
  assumes "key_inv lo vs"
  shows "key_inv lo (filter Q vs)"
proof -
  have a: "om_ok vs" "\<forall>x \<in> set vs. version_ok x" "first_committer_wins vs"
    using assms unfolding key_inv_def by blast+
  have sub: "x \<in> set (filter Q vs) \<Longrightarrow> w_type (snd x) \<noteq> WtRollback \<Longrightarrow> x \<in> set vs" for x
    by simp
  have b: "om_ok (filter Q vs)" "\<forall>x \<in> set (filter Q vs). version_ok x" using a(1,2) by simp_all
  have c: "committed_upto b vs \<Longrightarrow> committed_upto b (filter Q vs)" for b
    by (rule committed_upto_mono [OF _ sub])
  have f: "first_committer_wins (filter Q vs)" by (rule first_committer_wins_mono [OF a(3) sub])
  show ?thesis
    using b f assms c unfolding key_inv_def by (cases lo) simp_all
qed

lemma mvcc_inv_mstep: "mstep P G (c, st) (c', st') \<Longrightarrow> mvcc_inv st \<Longrightarrow> mvcc_inv st'"
proof (erule mstep_elim)
  fix key eff assume "mvcc_inv st" "st' = eff_apply key eff st" "guarded st key eff"
  then show "mvcc_inv st'" by (simp add: mvcc_inv_eff)
next
  fix sp assume inv: "mvcc_inv st" and st': "st' = gc_apply sp st"
  have "om_ok (writes st')" "om_ok (revisions st')" "om_ok (locks st')"
    using inv by (simp_all add: st' gc_apply_def mvcc_inv_def om_ok_fold_del om_ok_fold_put)
  moreover have "key_inv (map_of (locks st') k) (versions st' k)" for k
    using inv key_inv_filter [OF mvcc_inv_key [OF inv, of k]] by (simp add: st' gc_versions mvcc_inv_def)
  ultimately show "mvcc_inv st'" by (simp add: mvcc_inv_def)
next
  fix i assume "mvcc_inv st" "st' = st \<lparr> appliedRaftIndex := i \<rparr>"
  then show "mvcc_inv st'" by (simp add: mvcc_inv_def)
next
  assume "mvcc_inv st" "locks st' = locks st" "writes st' = writes st" "revisions st' = revisions st"
  then show "mvcc_inv st'" by (simp add: mvcc_inv_def versions_def)
qed

lemma mvcc_inv_msteps: "msteps P G (c, st) (c', st') \<Longrightarrow> mvcc_inv st \<Longrightarrow> mvcc_inv st'"
proof (induction rule: rtranclp_induct2)
  case (step c1 st1 c2 st2)
  then show ?case using mvcc_inv_mstep by blast
qed

section \<open>Indexes and engine\<close>

definition synced :: "kv_content \<Rightarrow> 'e MvccStorage \<Rightarrow> bool" where
  "synced c st \<longleftrightarrow>
     (\<forall>k. c (LockKey k) = map_option EncodeLockValue (map_of (locks st) k)) \<and>
     (\<forall>k ts. c (WriteKey k ts) = map_option EncodeWriteValue (map_of (versions st k) ts)) \<and>
     (\<forall>k. c (RevisionKey k) = map_option to_string (map_of (revisions st) k)) \<and>
     c AppliedIndexKey = (if appliedRaftIndex st = 0 then None else Some (to_string (appliedRaftIndex st))) \<and>
     (\<forall>x. prefix ''write/'' x \<longrightarrow> c x \<noteq> None \<longrightarrow> (\<exists>k ts. x = WriteKey k ts))"

lemma map_of_revisions_eff: "map_of (revisions (eff_apply key eff st)) =
    (map_of (revisions st))(key \<mapsto> CurrentRevisionLocked st key + 1)"
  by (cases eff) (simp_all add: eff_apply_def bump_def)

lemma map_of_om_del_filter: "map_of (filter (\<lambda>x. fst x \<notin> K) m) k = (if k \<in> K then None else map_of m k)"
  using map_of_filter_key [of "\<lambda>k. k \<notin> K" m k] by simp

lemma op_key_prewrite [simp]: "op_key (prewrite_data_op key v s b) = DataKey key s"
  by (simp add: prewrite_data_op_def)

lemma syncedI:
  assumes "\<And>k. c (LockKey k) = map_option EncodeLockValue (map_of (locks st) k)"
    and "\<And>k ts. c (WriteKey k ts) = map_option EncodeWriteValue (map_of (versions st k) ts)"
    and "\<And>k. c (RevisionKey k) = map_option to_string (map_of (revisions st) k)"
    and "c AppliedIndexKey = (if appliedRaftIndex st = 0 then None else Some (to_string (appliedRaftIndex st)))"
    and "\<And>x. prefix ''write/'' x \<Longrightarrow> c x \<noteq> None \<Longrightarrow> \<exists>k ts. x = WriteKey k ts"
  shows "synced c st"
  using assms by (simp add: synced_def)

lemma syncedD:
  assumes "synced c st"
  shows "c (LockKey k) = map_option EncodeLockValue (map_of (locks st) k)"
    and "c (WriteKey k ts) = map_option EncodeWriteValue (map_of (versions st k) ts)"
    and "c (RevisionKey k) = map_option to_string (map_of (revisions st) k)"
    and "c AppliedIndexKey = (if appliedRaftIndex st = 0 then None else Some (to_string (appliedRaftIndex st)))"
    and "prefix ''write/'' x \<Longrightarrow> c x \<noteq> None \<Longrightarrow> \<exists>k ts. x = WriteKey k ts"
  using assms by (auto simp: synced_def)

lemma synced_cong:
  "locks st' = locks st \<Longrightarrow> writes st' = writes st \<Longrightarrow> revisions st' = revisions st \<Longrightarrow>
   appliedRaftIndex st' = appliedRaftIndex st \<Longrightarrow> synced c st' = synced c st"
  by (simp add: synced_def versions_def)

lemma synced_data:
  assumes "synced c st" and "\<And>x. (\<And>k s. x \<noteq> DataKey k s) \<Longrightarrow> c' x = c x"
  shows "synced c' st"
proof (rule syncedI)
  fix x assume x: "prefix ''write/'' x" "c' x \<noteq> None"
  then have "x \<noteq> DataKey k s" for k s by auto
  with x assms(2) [of x] show "\<exists>k ts. x = WriteKey k ts" using syncedD(5) [OF assms(1) x(1)] by simp
qed (simp_all add: assms(2) syncedD(1-4) [OF assms(1)])

lemma synced_revision:
  assumes "synced c st"
  shows "synced (c(RevisionKey key \<mapsto> to_string r)) (bump key r st)"
proof (rule syncedI)
  fix x assume x: "prefix ''write/'' x" "(c(RevisionKey key \<mapsto> to_string r)) x \<noteq> None"
  then have "x \<noteq> RevisionKey key" by auto
  with x show "\<exists>k ts. x = WriteKey k ts" using syncedD(5) [OF assms x(1)] by simp
qed (simp_all add: syncedD(1-4) [OF assms] bump_def)

lemma synced_lock:
  assumes "synced c st"
  shows "synced (c(LockKey key \<mapsto> EncodeLockValue l)) (st \<lparr> locks := om_put key l (locks st) \<rparr>)"
proof (rule syncedI)
  fix x assume x: "prefix ''write/'' x" "(c(LockKey key \<mapsto> EncodeLockValue l)) x \<noteq> None"
  then have "x \<noteq> LockKey key" by auto
  with x show "\<exists>k ts. x = WriteKey k ts" using syncedD(5) [OF assms x(1)] by simp
qed (simp_all add: syncedD(1-4) [OF assms])

lemma synced_unlock:
  assumes "synced c st"
  shows "synced (c(LockKey key := None)) (st \<lparr> locks := om_del key (locks st) \<rparr>)"
proof (rule syncedI)
  fix x assume x: "prefix ''write/'' x" "(c(LockKey key := None)) x \<noteq> None"
  then have "x \<noteq> LockKey key" by auto
  with x show "\<exists>k ts. x = WriteKey k ts" using syncedD(5) [OF assms x(1)] by simp
qed (simp_all add: syncedD(1-4) [OF assms])

lemma synced_write:
  assumes "synced c st"
  shows "synced (c(WriteKey key ts \<mapsto> EncodeWriteValue w)) (st \<lparr> writes := put_version key ts w (writes st) \<rparr>)"
proof (rule syncedI)
  fix x assume x: "prefix ''write/'' x" "(c(WriteKey key ts \<mapsto> EncodeWriteValue w)) x \<noteq> None"
  then show "\<exists>k ts. x = WriteKey k ts" using syncedD(5) [OF assms x(1)] by (cases "x = WriteKey key ts") auto
qed (simp_all add: syncedD(1-4) [OF assms])

lemma synced_applied:
  assumes "synced c st" and "i \<noteq> 0"
  shows "synced (c(AppliedIndexKey \<mapsto> to_string i)) (st \<lparr> appliedRaftIndex := i \<rparr>)"
proof (rule syncedI)
  fix x assume x: "prefix ''write/'' x" "(c(AppliedIndexKey \<mapsto> to_string i)) x \<noteq> None"
  then have "x \<noteq> AppliedIndexKey" by auto
  with x show "\<exists>k ts. x = WriteKey k ts" using syncedD(5) [OF assms(1) x(1)] by simp
qed (simp_all add: assms(2) syncedD(1-4) [OF assms(1)])

lemma synced_eff:
  assumes "synced c st" and "guarded st key eff"
  shows "synced (apply_ops (eff_ops key eff @ [RevisionMutation st key]) c) (eff_apply key eff st)"
proof -
  have "synced (apply_ops (eff_ops key eff) c) (eff_update key eff st)"
  proof (cases eff)
    case (PutLock d l)
    then have "op_key ` set d \<subseteq> range (DataKey key)" using assms(2) by (auto simp: data_ops_for_def)
    then have "(\<And>k s. x \<noteq> DataKey k s) \<Longrightarrow> apply_ops d c x = c x" for x
      by (intro apply_ops_other) blast
    then have "synced (apply_ops d c) st" by (rule synced_data [OF assms(1)])
    then show ?thesis using synced_lock by (simp add: PutLock)
  next
    case (CommitAt t w)
    then show ?thesis using synced_unlock [OF synced_write [OF assms(1), of key t w], of key] by simp
  next
    case (RollbackAt s own)
    let ?c = "if own then c(LockKey key := None) else c"
    let ?st = "if own then st \<lparr> locks := om_del key (locks st) \<rparr> else st"
    have "synced ?c ?st" using synced_unlock [OF assms(1), of key] assms(1) by simp
    then have "synced (?c(DataKey key s := None)) ?st" by (rule synced_data) simp
    from synced_write [OF this, of key s "RollbackWrite s"] show ?thesis
      by (cases own) (simp_all add: RollbackAt fun_upd_twist)
  qed
  from synced_revision [OF this, of key "CurrentRevisionLocked st key + 1"] show ?thesis
    by (simp add: eff_apply_def RevisionMutation_def)
qed

lemma apply_deletes:
  "(\<And>op. op \<in> set ops \<Longrightarrow> op_type op = OpDelete) \<Longrightarrow>
   apply_ops ops c x = (if x \<in> op_key ` set ops then None else c x)"
  by (induction ops arbitrary: c) (auto simp: apply_op_def)

lemma apply_revision_mutations:
  "apply_ops (map (RevisionMutation st) ks) c (RevisionKey k) =
     (if k \<in> set ks then Some (to_string (CurrentRevisionLocked st k + 1)) else c (RevisionKey k))"
  by (induction ks arbitrary: c) (auto simp: RevisionMutation_def)

lemma apply_revision_mutations_other:
  "(\<And>k. x \<noteq> RevisionKey k) \<Longrightarrow> apply_ops (map (RevisionMutation st) ks) c x = c x"
proof (rule apply_ops_other)
  assume "\<And>k. x \<noteq> RevisionKey k"
  moreover have "op_key ` set (map (RevisionMutation st) ks) \<subseteq> range RevisionKey"
    by (auto simp: RevisionMutation_def)
  ultimately show "x \<notin> op_key ` set (map (RevisionMutation st) ks)" by blast
qed

definition gc_dead :: "u64 \<Rightarrow> 'e MvccStorage \<Rightarrow> string set" where
  "gc_dead sp st = op_key ` set (concat (map (gc_ops sp) (writes st)))"

lemma apply_gc_batch:
  "apply_ops (gc_batch sp st) c x =
     apply_ops (map (RevisionMutation st) (gc_touched sp st)) (\<lambda>y. if y \<in> gc_dead sp st then None else c y) x"
proof -
  have "op_type op = OpDelete" if "op \<in> set (concat (map (gc_ops sp) (writes st)))" for op
    using that by (auto simp: gc_ops_def split: if_splits)
  then have "apply_ops (concat (map (gc_ops sp) (writes st))) c = (\<lambda>y. if y \<in> gc_dead sp st then None else c y)"
    unfolding gc_dead_def by (intro ext apply_deletes)
  then show ?thesis by (simp add: gc_batch_def)
qed

lemma op_key_gc_ops:
  "x \<in> op_key ` set (gc_ops sp (k, vs)) \<longleftrightarrow>
     (\<exists>y. y \<in> set (gc_victims sp vs) \<and>
        (x = WriteKey k (fst y) \<or> x = DataKey k (w_startTs (snd y)) \<and> w_type (snd y) = WtPut))"
proof -
  have "x \<in> op_key ` set (concat (map (\<lambda>y. (if w_type (snd y) = WtPut then [BatchDelete (DataKey k (w_startTs (snd y)))] else []) @
      [BatchDelete (WriteKey k (fst y))]) ys)) \<longleftrightarrow>
    (\<exists>y. y \<in> set ys \<and> (x = WriteKey k (fst y) \<or> x = DataKey k (w_startTs (snd y)) \<and> w_type (snd y) = WtPut))" for ys
  proof (induction ys)
    case (Cons y ys)
    then show ?case
      unfolding list.map concat.simps set_append image_Un Un_iff list.set
      by (cases "w_type (snd y) = WtPut") (simp_all del: split_paired_Ex, blast+)
  qed simp
  then show ?thesis unfolding gc_ops_def fst_conv snd_conv .
qed

lemma gc_dead_char:
  assumes "om_ok (writes st)"
  shows "x \<in> gc_dead sp st \<longleftrightarrow>
    (\<exists>k y. y \<in> set (gc_victims sp (versions st k)) \<and>
       (x = WriteKey k (fst y) \<or> x = DataKey k (w_startTs (snd y)) \<and> w_type (snd y) = WtPut))"
proof
  assume "x \<in> gc_dead sp st"
  then obtain kw where kw: "kw \<in> set (writes st)" "x \<in> op_key ` set (gc_ops sp kw)"
    unfolding gc_dead_def set_concat set_map by blast
  obtain k vs where k: "kw = (k, vs)" by (cases kw)
  with kw om_lookup_iff [OF assms, of k vs] have "versions st k = vs" by (simp add: versions_def)
  with kw(2) show "\<exists>k y. y \<in> set (gc_victims sp (versions st k)) \<and>
       (x = WriteKey k (fst y) \<or> x = DataKey k (w_startTs (snd y)) \<and> w_type (snd y) = WtPut)"
    unfolding k op_key_gc_ops by blast
next
  assume "\<exists>k y. y \<in> set (gc_victims sp (versions st k)) \<and>
       (x = WriteKey k (fst y) \<or> x = DataKey k (w_startTs (snd y)) \<and> w_type (snd y) = WtPut)"
  then obtain k y where y: "y \<in> set (gc_victims sp (versions st k))"
    "x = WriteKey k (fst y) \<or> x = DataKey k (w_startTs (snd y)) \<and> w_type (snd y) = WtPut" by blast
  then obtain vs where vs: "map_of (writes st) k = Some vs" by (cases "map_of (writes st) k") (auto simp: versions_def)
  then have "versions st k = vs" by (simp add: versions_def)
  with y have "x \<in> op_key ` set (gc_ops sp (k, vs))" unfolding op_key_gc_ops by blast
  moreover have "(k, vs) \<in> set (writes st)" using vs om_lookup_iff [OF assms] by blast
  ultimately show "x \<in> gc_dead sp st" unfolding gc_dead_def set_concat set_map by blast
qed

lemma gc_dead_keys:
  assumes "om_ok (writes st)"
  shows "WriteKey k ts \<in> gc_dead sp st \<longleftrightarrow> ts \<in> fst ` set (gc_victims sp (versions st k))"
    and "LockKey k \<notin> gc_dead sp st" and "RevisionKey k \<notin> gc_dead sp st" and "AppliedIndexKey \<notin> gc_dead sp st"
    and "DataKey k s \<in> gc_dead sp st \<longleftrightarrow>
      (\<exists>y \<in> set (gc_victims sp (versions st k)). w_startTs (snd y) = s \<and> w_type (snd y) = WtPut)"
  unfolding gc_dead_char [OF assms] image_iff Bex_def by (simp_all del: split_paired_Ex) blast+

lemma synced_gc:
  assumes s: "synced c st" and inv: "mvcc_inv st"
  shows "synced (apply_ops (gc_batch sp st) c) (gc_apply sp st)"
proof -
  have ok: "om_ok (writes st)" using inv by (simp add: mvcc_inv_def)
  note dead = gc_dead_keys [OF ok]
  show ?thesis
  proof (rule syncedI)
    fix k ts
    show "apply_ops (gc_batch sp st) c (WriteKey k ts) =
        map_option EncodeWriteValue (map_of (versions (gc_apply sp st) k) ts)"
      by (simp add: apply_gc_batch apply_revision_mutations_other dead gc_versions [OF ok] map_of_om_del_filter
          syncedD(2) [OF s])
  next
    fix x assume x: "prefix ''write/'' x" "apply_ops (gc_batch sp st) c x \<noteq> None"
    then have "\<And>k. x \<noteq> RevisionKey k" by auto
    with x have "c x \<noteq> None" by (auto simp: apply_gc_batch apply_revision_mutations_other split: if_splits)
    with syncedD(5) [OF s x(1)] show "\<exists>k ts. x = WriteKey k ts" .
  qed (simp_all add: apply_gc_batch apply_revision_mutations apply_revision_mutations_other dead gc_revision
      syncedD [OF s])
qed

lemma synced_mstep:
  assumes "mstep P G (c, st) (c', st')" and "mvcc_inv st" and "synced c st"
  shows "synced c' st'"
  using assms(1)
proof cases
  case (ms_eff key eff)
  then show ?thesis using synced_eff [OF assms(3), of key eff] by simp
next
  case (ms_applied i)
  then show ?thesis using synced_applied [OF assms(3)] by simp
next
  case (ms_gc sp)
  then show ?thesis using synced_gc [OF assms(3,2)] by simp
next
  case ms_inert
  then show ?thesis using assms(3) synced_cong [of st' st c] by simp
qed

lemma synced_msteps:
  "msteps P G (c, st) (c', st') \<Longrightarrow> mvcc_inv st \<Longrightarrow> synced c st \<Longrightarrow> mvcc_inv st' \<and> synced c' st'"
proof (induction rule: rtranclp_induct2)
  case (step c1 st1 c2 st2)
  then show ?case using mvcc_inv_mstep synced_mstep by blast
qed simp

end
