(* ===== verification/MvccReads.thy ===== *)
theory MvccReads
  imports MvccInvariants
begin

text \<open>
  Reads of the MVCC storage: \<open>Get\<close> as a walk over the versions of the key that the engine rows
  resolve, and \<open>Scan\<close> as the point reads of the keys of its range.
\<close>

section \<open>Point reads\<close>

lemma GetWalk_ReadWalk: "GetWalk E e key vs = (case ReadWalk E e key vs of (s, v, _) \<Rightarrow> (s, v))"
  by (induction E e key vs rule: GetWalk.induct) (auto split: option.split)

lemma ReadCommittedLocked_versions:
  "ReadCommittedLocked E st key r = ReadWalk E (engine st) key (visible r (versions st key))"
  by (simp add: ReadCommittedLocked_def versions_def visible_def split: option.split)

lemma Get_read:
  "Get E st key r =
     (if lock_blocks st key r then (LockConflict, [])
      else case ReadCommittedLocked E st key r of (s, v, _) \<Rightarrow> (s, v))"
  by (simp add: Get_def ReadCommittedLocked_def GetWalk_ReadWalk split: option.split)

lemma ReadWalk_status: "fst (ReadWalk E e key vs) \<noteq> LockConflict"
  by (induction E e key vs rule: ReadWalk.induct) (auto split: option.split)

lemma ReadWalk_cong:
  assumes "\<And>x. x \<in> set vs \<Longrightarrow> w_type (snd x) = WtPut \<Longrightarrow>
      kv_Get E e (DataKey key (w_startTs (snd x))) = kv_Get E e' (DataKey key (w_startTs (snd x)))"
  shows "ReadWalk E e key vs = ReadWalk E e' key vs"
  using assms
proof (induction vs)
  case (Cons x vs)
  obtain ts w where x: "x = (ts, w)" by (cases x)
  have d: "w_type w = WtPut \<Longrightarrow> kv_Get E e (DataKey key (w_startTs w)) = kv_Get E e' (DataKey key (w_startTs w))"
    using Cons.prems [of x] x by simp
  have "ReadWalk E e key vs = ReadWalk E e' key vs" using Cons by simp
  with d show ?case by (cases "w_type w") (simp_all add: x)
qed simp

lemma visible_subset: "x \<in> set (visible r vs) \<Longrightarrow> x \<in> set vs \<and> fst x \<le> r"
  by (auto simp: visible_def dest: set_takeWhileD)

section \<open>Scans\<close>

definition scan_relevant :: "'e IKVEngine \<Rightarrow> 'e MvccStorage \<Rightarrow> u64 \<Rightarrow> string \<Rightarrow> bool" where
  "scan_relevant E st r k \<longleftrightarrow> fst (Get E st k r) = Ok \<or> fst (Get E st k r) = LockConflict"

lemma lock_blocks_Get: "lock_blocks st k r \<longleftrightarrow> fst (Get E st k r) = LockConflict"
  by (auto simp: Get_read ReadCommittedLocked_versions ReadWalk_status split: prod.split)
     (metis ReadWalk_status fst_conv)

lemma ReadWalk_range: "fst (ReadWalk E e key vs) \<in> {Ok, NotFound, StorageError}"
  by (induction E e key vs rule: ReadWalk.induct) (auto split: option.split)

lemma Get_status: "fst (Get E st k r) \<in> {Ok, NotFound, StorageError, LockConflict}"
  using ReadWalk_range [of E "engine st" k "visible r (versions st k)"]
  by (cases "ReadWalk E (engine st) k (visible r (versions st k))") (auto simp: Get_read ReadCommittedLocked_versions)

lemma ScanLoop_Get:
  "ScanLoop E st r limit (key # names) entries =
     (if limit \<noteq> 0 \<and> length entries \<ge> limit then (Ok, entries)
      else case Get E st key r of
             (status, value) \<Rightarrow>
               if status = LockConflict then (LockConflict, [])
               else ScanLoop E st r limit names (if status = Ok then entries @ [(key, value)] else entries))"
  using lock_blocks_Get [of st key r E] by (auto simp: Get_read split: prod.split)

lemma ScanLoop_full: "limit \<noteq> 0 \<Longrightarrow> limit \<le> length entries \<Longrightarrow> ScanLoop E st r limit names entries = (Ok, entries)"
  by (cases names) simp_all

lemma ScanLoop_relevant:
  "ScanLoop E st r limit (filter (scan_relevant E st r) names) entries = ScanLoop E st r limit names entries"
proof (induction names arbitrary: entries)
  case (Cons key names)
  obtain s v where g: "Get E st key r = (s, v)" by fastforce
  show ?case
  proof (cases "limit \<noteq> 0 \<and> limit \<le> length entries")
    case True
    then show ?thesis by (simp add: ScanLoop_full)
  next
    case False
    with Cons.IH g show ?thesis
      by (auto simp: ScanLoop_Get scan_relevant_def simp del: ScanLoop.simps(2))
  qed
qed simp

lemma ScanLoop_cong:
  assumes "\<And>k. k \<in> set names \<Longrightarrow> Get E st k r = Get E' st' k r'"
  shows "ScanLoop E st r limit names entries = ScanLoop E' st' r' limit names entries"
  using assms
proof (induction names arbitrary: entries)
  case (Cons k names)
  obtain s v where "Get E' st' k r' = (s, v)" by fastforce
  with Cons show ?case by (cases "limit = 0") (simp_all add: ScanLoop_Get del: ScanLoop.simps(2))
qed simp

definition scan_names :: "string \<Rightarrow> string \<Rightarrow> 'e MvccStorage \<Rightarrow> string list" where
  "scan_names a b st = remdups_adj (sort (filter (in_scan_range a b) (map fst (writes st)) @
     filter (in_scan_range a b) (map fst (locks st))))"

lemma strict_sorted_remdups_adj: "sorted (xs :: 'a::linorder list) \<Longrightarrow> sorted_wrt (<) (remdups_adj xs)"
proof (induction xs rule: remdups_adj.induct)
  case (3 x y xs)
  then show ?case by (auto simp: less_le)
qed simp_all

lemma scan_names_sorted: "sorted_wrt (<) (scan_names a b st)"
  unfolding scan_names_def by (rule strict_sorted_remdups_adj) (rule sorted_sort)

lemma set_scan_names: "set (scan_names a b st) = {k. in_scan_range a b k \<and> k \<in> fst ` set (writes st) \<union> fst ` set (locks st)}"
  by (auto simp: scan_names_def)

lemma relevant_name:
  assumes "scan_relevant E st r k"
  shows "k \<in> fst ` set (writes st) \<union> fst ` set (locks st)"
proof (rule ccontr)
  assume "k \<notin> fst ` set (writes st) \<union> fst ` set (locks st)"
  then have "map_of (writes st) k = None" "map_of (locks st) k = None" by (simp_all add: map_of_eq_None_iff)
  with assms show False by (simp add: scan_relevant_def Get_def lock_blocks_def)
qed

lemma Scan_names:
  "Scan E st a b r limit entries =
     (if b \<noteq> [] \<and> b \<le> a then (StorageError, entries)
      else ScanLoop E st r limit (filter (scan_relevant E st r) (scan_names a b st)) entries)"
  by (simp add: Scan_def Let_def ScanLoop_relevant scan_names_def)

text \<open>A scan depends on the state only through the point reads.\<close>

lemma Scan_cong:
  assumes "\<And>k. Get E st k r = Get E' st' k r'"
  shows "Scan E st a b r limit entries = Scan E' st' a b r' limit entries"
proof -
  let ?l = "filter (scan_relevant E st r) (scan_names a b st)"
  let ?l' = "filter (scan_relevant E' st' r') (scan_names a b st')"
  have rel: "scan_relevant E st r = scan_relevant E' st' r'"
    by (simp add: scan_relevant_def fun_eq_iff assms)
  have "set ?l = {k. in_scan_range a b k \<and> scan_relevant E st r k}"
    using relevant_name [of E st r] by (auto simp: set_scan_names)
  moreover have "set ?l' = {k. in_scan_range a b k \<and> scan_relevant E st r k}"
    using relevant_name [of E' st' r'] by (auto simp: set_scan_names rel)
  ultimately have eq: "set ?l = set ?l'" by simp
  have "sorted_wrt (<) ?l" "sorted_wrt (<) ?l'" by (rule sorted_wrt_filter, rule scan_names_sorted)+
  then have l: "?l = ?l'" by (intro sorted_distinct_set_unique eq) (simp_all only: strict_sorted_iff)
  have "ScanLoop E st r limit ?l' entries = ScanLoop E' st' r' limit ?l' entries"
    by (rule ScanLoop_cong) (rule assms)
  then show ?thesis unfolding Scan_names l by (rule arg_cong)
qed

lemma ScanLoop_unlimited:
  "ScanLoop E st r 0 names entries =
     (if \<exists>k \<in> set names. fst (Get E st k r) = LockConflict then (LockConflict, [])
      else (Ok, entries @ map (\<lambda>k. (k, snd (Get E st k r))) (filter (\<lambda>k. fst (Get E st k r) = Ok) names)))"
proof (induction names arbitrary: entries)
  case (Cons k names)
  obtain s v where "Get E st k r = (s, v)" by fastforce
  with Cons show ?case by (auto simp: ScanLoop_Get simp del: ScanLoop.simps(2))
qed simp

lemma ScanLoop_limited:
  assumes "ScanLoop E st r 0 names entries = (Ok, es)" and "length entries \<le> limit" and "limit \<noteq> 0"
  shows "ScanLoop E st r limit names entries = (Ok, take limit es)"
  using assms
proof (induction names arbitrary: entries)
  case (Cons k names)
  obtain s v where g: "Get E st k r = (s, v)" by fastforce
  show ?case
  proof (cases "length entries = limit")
    case True
    have "\<exists>zs. es = entries @ zs" using Cons.prems(1) unfolding ScanLoop_unlimited by (auto split: if_splits)
    with True show ?thesis using Cons.prems(3) by (auto simp: ScanLoop_full)
  next
    case False
    then show ?thesis
      using Cons.IH [of "if s = Ok then entries @ [(k, v)] else entries"] Cons.prems g
      by (auto simp: ScanLoop_Get simp del: ScanLoop.simps(2) split: if_splits)
  qed
qed simp


section \<open>A sample store\<close>

fun run_calls :: "'e IKVEngine \<Rightarrow> u64 \<Rightarrow> mvcc_call list \<Rightarrow> 'e MvccStorage \<Rightarrow> 'e MvccStorage option" where
  "run_calls E now [] st = Some st"
| "run_calls E now (c # cs) st = Option.bind (run_call E now c st) (run_calls E now cs)"

text \<open>Two transactions on the in-memory engine: one committed at 7, one still locked since 8.\<close>

definition sample_store :: "mem_db MvccStorage" where
  "sample_store = the (Option.bind (OpenMvccStorage mem_engine 0 ([], False))
     (run_calls mem_engine 0
        [CallPrewrite ''a'' ''v'' ''a'' 5 10 0, CallCommit ''a'' 5 7, CallPrewrite ''b'' ''w'' ''b'' 8 10 0]))"


end
