(* ===== verification/MvccRecovery.thy ===== *)
theory MvccRecovery
  imports MvccReads
begin

text \<open>
  Crash recovery: rebuilding the indexes from the engine rows gives back the versions, the revisions,
  the apply index and every lock whose transaction is not finished, so that no read changes.
  \<open>mvcc_reach\<close> are the states of a storage over its whole life: opening, calls, restarts and
  snapshots of other replicas.
\<close>

section \<open>Rebuilding the indexes\<close>

lemma om_ok_RecoverRevisions: "om_ok m \<Longrightarrow> om_ok (RecoverRevisions items m)"
  by (induction items m rule: RecoverRevisions.induct) auto

lemma RecoverRevisions_lookup:
  assumes "\<And>x v. (x, v) \<in> set items \<Longrightarrow> \<exists>k r. x = RevisionKey k \<and> v = to_string r \<and> f k = Some r"
  shows "map_of (RecoverRevisions items m) k = (if RevisionKey k \<in> fst ` set items then f k else map_of m k)"
  using assms
proof (induction items m rule: RecoverRevisions.induct)
  case (2 x v items m)
  from "2.prems" [of x v] obtain k' r where x: "x = RevisionKey k'" "v = to_string r" "f k' = Some r" by auto
  have "map_of (RecoverRevisions items (om_put k' r m)) k =
      (if RevisionKey k \<in> fst ` set items then f k else map_of (om_put k' r m) k)"
    using "2.IH" "2.prems" x by simp
  with x show ?case by auto
qed simp

lemma versions_writes_put [simp]:
  "versions (st \<lparr> writes := put_version key ts w ws \<rparr>) k =
     (if k = key then om_put ts w (versions (st \<lparr> writes := ws \<rparr>) key) else versions (st \<lparr> writes := ws \<rparr>) k)"
  by (simp add: versions_def put_version_def)

lemma RecoverWrites_lookup:
  assumes "\<And>x v. (x, v) \<in> set items \<Longrightarrow>
      \<exists>k ts w. x = WriteKey k ts \<and> v = EncodeWriteValue w \<and> w_commitTs w = ts \<and> f k ts = Some w"
    and "om_ok ws" and "\<And>k. om_ok (versions (st \<lparr> writes := ws \<rparr>) k)"
  shows "\<exists>ws'. RecoverWrites items ws = Some ws' \<and> om_ok ws' \<and> (\<forall>k. om_ok (versions (st \<lparr> writes := ws' \<rparr>) k)) \<and>
    (\<forall>k ts. map_of (versions (st \<lparr> writes := ws' \<rparr>) k) ts =
       (if WriteKey k ts \<in> fst ` set items then f k ts else map_of (versions (st \<lparr> writes := ws \<rparr>) k) ts))"
  using assms
proof (induction items arbitrary: ws)
  case (Cons i items)
  obtain x v where i: "i = (x, v)" by (cases i)
  from Cons.prems(1) [of x v] i obtain k ts w where x: "x = WriteKey k ts" "v = EncodeWriteValue w" "w_commitTs w = ts"
    "f k ts = Some w" by auto
  let ?ws = "put_version k ts w ws"
  have w: "w \<lparr> w_commitTs := ts \<rparr> = w" using x(3) by auto
  have step: "RecoverWrites (i # items) ws = RecoverWrites items ?ws"
    by (simp add: i x(1,2) w)
  have "om_ok ?ws" using Cons.prems(2) by (simp add: put_version_def)
  moreover have "om_ok (versions (st \<lparr> writes := ?ws \<rparr>) k')" for k' using Cons.prems(3) by simp
  ultimately obtain ws' where "RecoverWrites items ?ws = Some ws'" "om_ok ws'"
    "\<forall>k. om_ok (versions (st \<lparr> writes := ws' \<rparr>) k)"
    "\<forall>k ts. map_of (versions (st \<lparr> writes := ws' \<rparr>) k) ts =
       (if WriteKey k ts \<in> fst ` set items then f k ts else map_of (versions (st \<lparr> writes := ?ws \<rparr>) k) ts)"
    using Cons.IH [of ?ws] Cons.prems(1) by auto
  with step x(1,4) i show ?case by (intro exI [of _ ws']) auto
qed simp

definition recovered_lock :: "kv_content \<Rightarrow> string \<Rightarrow> MvccLock \<Rightarrow> MvccLock" where
  "recovered_lock c k l =
     (if l_isDelete l then norm_lock l
      else case c (DataKey k (l_startTs l)) of Some v \<Rightarrow> (norm_lock l) \<lparr> l_value := v \<rparr> | None \<Rightarrow> norm_lock l)"

lemma RecoverLocks_lookup:
  assumes eng: "kv_engine E content"
    and "\<And>x v. (x, v) \<in> set items \<Longrightarrow>
      \<exists>k l. x = LockKey k \<and> v = EncodeLockValue l \<and> small_string (l_primaryKey l) \<and> f k = Some l"
    and "om_ok (locks st)"
  shows "\<exists>st'. RecoverLocks E now items st = Some st' \<and> writes st' = writes st \<and> revisions st' = revisions st \<and>
    appliedRaftIndex st' = appliedRaftIndex st \<and> om_ok (locks st') \<and>
    (\<forall>k. map_of (locks st') k =
      (if LockKey k \<in> fst ` set items \<and> \<not> hasFinishedWrite (versions st k) (l_startTs (the (f k)))
       then Some (recovered_lock (content (engine st)) k (the (f k))) else map_of (locks st) k)) \<and>
    (\<forall>x. (\<forall>k. x \<noteq> LockKey k) \<longrightarrow> content (engine st') x = content (engine st) x) \<and>
    (\<forall>k. content (engine st') (LockKey k) = content (engine st) (LockKey k) \<or>
       content (engine st') (LockKey k) = None \<and> LockKey k \<in> fst ` set items \<and>
       hasFinishedWrite (versions st k) (l_startTs (the (f k))))"
  using assms(2,3)
proof (induction items arbitrary: st)
  case (Cons i items)
  obtain x v where i: "i = (x, v)" by (cases i)
  from Cons.prems(1) [of x v] i obtain k l where x: "x = LockKey k" "v = EncodeLockValue l" "small_string (l_primaryKey l)"
    "f k = Some l" by auto
  have hyp: "(x, v) \<in> set items \<Longrightarrow>
      \<exists>k l. x = LockKey k \<and> v = EncodeLockValue l \<and> small_string (l_primaryKey l) \<and> f k = Some l" for x v
    using Cons.prems(1) by simp
  show ?case
  proof (cases "hasFinishedWrite (versions st k) (l_startTs l)")
    case True
    obtain ok e where d: "kv_Delete E (engine st) (LockKey k) = (ok, e)" by fastforce
    have c: "content e = (content (engine st))(LockKey k := None) \<or> content e = content (engine st)"
      using d kv_engine.delete_ok [OF eng] kv_engine.delete_fail [OF eng] by (cases ok) auto
    let ?st = "st \<lparr> engine := e \<rparr>"
    have step: "RecoverLocks E now (i # items) st = RecoverLocks E now items ?st"
      using x True d by (simp add: i DecodeLockValue_EncodeLockValue Let_def)
    have data: "recovered_lock (content e) k' = recovered_lock (content (engine st)) k'" for k'
      using c by (auto simp: recovered_lock_def fun_eq_iff)
    obtain st' where st': "RecoverLocks E now items ?st = Some st'" "writes st' = writes st" "revisions st' = revisions st"
      "appliedRaftIndex st' = appliedRaftIndex st" "om_ok (locks st')"
      "\<forall>k. map_of (locks st') k =
        (if LockKey k \<in> fst ` set items \<and> \<not> hasFinishedWrite (versions st k) (l_startTs (the (f k)))
         then Some (recovered_lock (content (engine st)) k (the (f k))) else map_of (locks st) k)"
      "\<forall>x. (\<forall>k. x \<noteq> LockKey k) \<longrightarrow> content (engine st') x = content e x"
      "\<forall>k. content (engine st') (LockKey k) = content e (LockKey k) \<or>
         content (engine st') (LockKey k) = None \<and> LockKey k \<in> fst ` set items \<and>
         hasFinishedWrite (versions st k) (l_startTs (the (f k)))"
      using Cons.IH [of ?st] hyp Cons.prems(2) data by auto
    have fin: "content (engine st') (LockKey k') = content (engine st) (LockKey k') \<or>
        content (engine st') (LockKey k') = None \<and> LockKey k' \<in> fst ` set (i # items) \<and>
        hasFinishedWrite (versions st k') (l_startTs (the (f k')))" for k'
      using st'(8) [rule_format, of k'] c x True by (cases "k' = k") (auto simp: i)
    have oth: "(\<forall>k. y \<noteq> LockKey k) \<longrightarrow> content (engine st') y = content (engine st) y" for y
      using st'(7) c by auto
    show ?thesis
      unfolding step
      by (intro exI [of _ st'] conjI allI fin oth) (use st'(1-6) x True in \<open>auto simp: i\<close>)
  next
    case False
    let ?st = "st \<lparr> locks := om_put k (recovered_lock (content (engine st)) k l) (locks st) \<rparr>"
    have step: "RecoverLocks E now (i # items) st = RecoverLocks E now items ?st"
      using x False kv_engine.get [OF eng]
      by (auto simp: i DecodeLockValue_EncodeLockValue Let_def recovered_lock_def split: option.split)
    obtain st' where st': "RecoverLocks E now items ?st = Some st'" "writes st' = writes st" "revisions st' = revisions st"
      "appliedRaftIndex st' = appliedRaftIndex st" "om_ok (locks st')"
      "\<forall>k. map_of (locks st') k =
        (if LockKey k \<in> fst ` set items \<and> \<not> hasFinishedWrite (versions st k) (l_startTs (the (f k)))
         then Some (recovered_lock (content (engine st)) k (the (f k))) else map_of (locks ?st) k)"
      "\<forall>x. (\<forall>k. x \<noteq> LockKey k) \<longrightarrow> content (engine st') x = content (engine st) x"
      "\<forall>k. content (engine st') (LockKey k) = content (engine st) (LockKey k) \<or>
         content (engine st') (LockKey k) = None \<and> LockKey k \<in> fst ` set items \<and>
         hasFinishedWrite (versions st k) (l_startTs (the (f k)))"
      using Cons.IH [of ?st] hyp Cons.prems(2) by auto
    show ?thesis
      unfolding step
      by (intro exI [of _ st'] conjI) (use st' x False in \<open>auto simp: i\<close>)
  qed
qed simp

definition recovers :: "kv_content \<Rightarrow> 'e MvccStorage \<Rightarrow> 'e MvccStorage \<Rightarrow> bool" where
  "recovers c st st' \<longleftrightarrow> om_ok (locks st') \<and> om_ok (writes st') \<and> om_ok (revisions st') \<and>
     (\<forall>k. versions st' k = versions st k) \<and> (\<forall>k. map_of (revisions st') k = map_of (revisions st) k) \<and>
     appliedRaftIndex st' = appliedRaftIndex st \<and>
     (\<forall>k. map_of (locks st') k =
        (case map_of (locks st) k of
           None \<Rightarrow> None
         | Some l \<Rightarrow> if hasFinishedWrite (versions st k) (l_startTs l) then None else Some (recovered_lock c k l)))"

lemma prefix_lock_key: "prefix ''lock/'' x \<Longrightarrow> \<exists>k. x = LockKey k"
  by (auto simp: prefix_def LockKey_def)

lemma prefix_revision_key: "prefix ''meta/revision/'' x \<Longrightarrow> \<exists>k. x = RevisionKey k"
  by (auto simp: prefix_def RevisionKey_def)

lemma Recover_ok:
  assumes eng: "kv_engine E content" and inv: "mvcc_inv st" and s: "synced (content (engine st1)) st"
  shows "\<exists>st'. RecoverMetadataFromEngineLocked E now st1 = Some st' \<and> recovers (content (engine st1)) st st' \<and>
    (\<forall>x. (\<forall>k. x \<noteq> LockKey k) \<longrightarrow> content (engine st') x = content (engine st1) x) \<and>
    (\<forall>k. content (engine st') (LockKey k) = content (engine st1) (LockKey k) \<or>
       content (engine st') (LockKey k) = None \<and>
       (\<exists>l. map_of (locks st) k = Some l \<and> hasFinishedWrite (versions st k) (l_startTs l)))"
proof -
  let ?e = "engine st1"
  let ?c = "content ?e"
  note entry = kv_engine.scan_entry [OF eng]
  have memb: "x \<in> fst ` set (kv_ScanPrefix E ?e p) \<longleftrightarrow> prefix p x \<and> ?c x \<noteq> None" for x p
    using entry [of x _ ?e p] by (auto simp: image_iff Bex_def)
  define applied where "applied = (case kv_Get E ?e AppliedIndexKey of Some v \<Rightarrow> DecodeTs v | None \<Rightarrow> 0)"
  have applied: "applied = appliedRaftIndex st"
    using syncedD(4) [OF s] kv_engine.get [OF eng] by (simp add: applied_def)
  define revs where "revs = RecoverRevisions (kv_ScanPrefix E ?e ''meta/revision/'') []"
  have revs: "map_of revs k = map_of (revisions st) k" for k
  proof -
    have "\<exists>k r. x = RevisionKey k \<and> v = to_string r \<and> map_of (revisions st) k = Some r"
      if "(x, v) \<in> set (kv_ScanPrefix E ?e ''meta/revision/'')" for x v
      using that prefix_revision_key [of x] syncedD(3) [OF s] entry by auto
    from RecoverRevisions_lookup [where items = "kv_ScanPrefix E ?e ''meta/revision/''" and f = "map_of (revisions st)" and m = "[]" and k = k, OF this] show ?thesis
      using syncedD(3) [OF s, of k] by (auto simp: revs_def memb)
  qed
  have "\<exists>k ts w. x = WriteKey k ts \<and> v = EncodeWriteValue w \<and> w_commitTs w = ts \<and> map_of (versions st k) ts = Some w"
    if "(x, v) \<in> set (kv_ScanPrefix E ?e ''write/'')" for x v
  proof -
    have x: "prefix ''write/'' x" "?c x = Some v" using that entry by auto
    then obtain k ts where k: "x = WriteKey k ts" using syncedD(5) [OF s, of x] by auto
    then obtain w where w: "map_of (versions st k) ts = Some w" "v = EncodeWriteValue w"
      using x syncedD(2) [OF s, of k ts] by auto
    then have "version_ok (ts, w)"
      using mvcc_inv_key [OF inv, of k] map_of_SomeD [OF w(1)] by (auto simp: key_inv_def)
    with k w show ?thesis by (auto simp: version_ok_def)
  qed
  from RecoverWrites_lookup [where items = "kv_ScanPrefix E ?e ''write/''" and f = "\<lambda>k. map_of (versions st k)" and st = st1 and ws = "[]", OF this]
  obtain ws where ws: "RecoverWrites (kv_ScanPrefix E ?e ''write/'') [] = Some ws" "om_ok ws"
    "\<forall>k. om_ok (versions (st1 \<lparr> writes := ws \<rparr>) k)"
    "\<forall>k ts. map_of (versions (st1 \<lparr> writes := ws \<rparr>) k) ts =
       (if WriteKey k ts \<in> fst ` set (kv_ScanPrefix E ?e ''write/'') then map_of (versions st k) ts else None)"
    by (auto simp: versions_def)
  have vs: "versions (st1 \<lparr> writes := ws \<rparr>) k = versions st k" for k
  proof (rule om_ok_eqI)
    have "map_of (versions (st1 \<lparr> writes := ws \<rparr>) k) ts = map_of (versions st k) ts" for ts
      using ws(4) syncedD(2) [OF s, of k ts] by (auto simp: memb)
    then show "map_of (versions (st1 \<lparr> writes := ws \<rparr>) k) = map_of (versions st k)" by (rule ext)
  qed (use ws(3) mvcc_inv_versions_ok [OF inv] in simp_all)
  let ?st = "st1 \<lparr> locks := [], writes := ws, revisions := revs, appliedRaftIndex := applied \<rparr>"
  have vs': "versions (st1 \<lparr> locks := [], writes := ws \<rparr>) k = versions st k" for k using vs [of k] by (simp add: versions_def)
  have "\<exists>k l. x = LockKey k \<and> v = EncodeLockValue l \<and> small_string (l_primaryKey l) \<and> map_of (locks st) k = Some l"
    if "(x, v) \<in> set (kv_ScanPrefix E ?e ''lock/'')" for x v
  proof -
    have x: "prefix ''lock/'' x" "?c x = Some v" using that entry by auto
    then obtain k where k: "x = LockKey k" using prefix_lock_key by blast
    then obtain l where l: "map_of (locks st) k = Some l" "v = EncodeLockValue l"
      using x syncedD(1) [OF s, of k] by auto
    with k mvcc_inv_lock [OF inv l(1)] show ?thesis by auto
  qed
  from RecoverLocks_lookup [where items = "kv_ScanPrefix E ?e ''lock/''" and f = "map_of (locks st)" and st = ?st and now = now, OF eng this]
  obtain st' where st': "RecoverLocks E now (kv_ScanPrefix E ?e ''lock/'') ?st = Some st'" "writes st' = ws"
    "revisions st' = revs" "appliedRaftIndex st' = applied" "om_ok (locks st')"
    "\<forall>k. map_of (locks st') k =
      (if LockKey k \<in> fst ` set (kv_ScanPrefix E ?e ''lock/'') \<and>
          \<not> hasFinishedWrite (versions ?st k) (l_startTs (the (map_of (locks st) k)))
       then Some (recovered_lock ?c k (the (map_of (locks st) k))) else None)"
    "\<forall>x. (\<forall>k. x \<noteq> LockKey k) \<longrightarrow> content (engine st') x = ?c x"
    "\<forall>k. content (engine st') (LockKey k) = ?c (LockKey k) \<or>
       content (engine st') (LockKey k) = None \<and> LockKey k \<in> fst ` set (kv_ScanPrefix E ?e ''lock/'') \<and>
       hasFinishedWrite (versions ?st k) (l_startTs (the (map_of (locks st) k)))"
    by auto
  have vst': "versions st' k = versions st k" for k using vs [of k] st'(2) by (simp add: versions_def)
  have lk: "map_of (locks st') k = (case map_of (locks st) k of None \<Rightarrow> None
      | Some l \<Rightarrow> if hasFinishedWrite (versions st k) (l_startTs l) then None else Some (recovered_lock ?c k l))" for k
    using st'(6) syncedD(1) [OF s, of k] by (cases "map_of (locks st) k") (auto simp: memb vs')
  have fin: "content (engine st') (LockKey k) = ?c (LockKey k) \<or> content (engine st') (LockKey k) = None \<and>
       (\<exists>l. map_of (locks st) k = Some l \<and> hasFinishedWrite (versions st k) (l_startTs l))" for k
    using st'(8) [rule_format, of k] syncedD(1) [OF s, of k] by (cases "map_of (locks st) k") (auto simp: memb vs')
  have rec: "RecoverMetadataFromEngineLocked E now st1 = Some st'"
    using st'(1) ws(1) by (simp add: RecoverMetadataFromEngineLocked_def Let_def applied_def revs_def)
  have "om_ok revs" by (simp add: revs_def om_ok_RecoverRevisions)
  then have "recovers ?c st st'"
    using st'(2-5) ws(2) vst' lk revs applied by (simp add: recovers_def)
  with rec st'(7) fin show ?thesis by blast
qed

section \<open>What recovery keeps\<close>

lemma hasFinished_recovered [simp]: "l_startTs (recovered_lock c k l) = l_startTs l"
  by (simp add: recovered_lock_def norm_lock_def split: option.split)

lemma Encode_recovered [simp]: "EncodeLockValue (recovered_lock c k l) = EncodeLockValue l"
proof -
  have "EncodeLockValue (recovered_lock c k l) = EncodeLockValue (norm_lock l)"
    unfolding recovered_lock_def by (auto simp: EncodeLockValue_def split: option.split)
  then show ?thesis by simp
qed

lemma lock_bound_recovered [simp]:
  "lock_bound (recovered_lock c k l) = lock_bound l"
  "l_primaryKey (recovered_lock c k l) = l_primaryKey l"
  by (simp_all add: recovered_lock_def lock_bound_def norm_lock_def split: option.split)

lemma recovers_lock_blocks: "recovers c st st' \<Longrightarrow> lock_blocks st' k r = lock_blocks st k r"
  by (auto simp: recovers_def lock_blocks_def split: option.split)

lemma recovers_Get:
  assumes "recovers c st st'" and "\<And>s. kv_Get E (engine st') (DataKey k s) = kv_Get E (engine st) (DataKey k s)"
  shows "Get E st' k r = Get E st k r"
proof -
  have v: "versions st' k = versions st k" using assms(1) by (simp add: recovers_def)
  have "ReadWalk E (engine st') k (visible r (versions st k)) = ReadWalk E (engine st) k (visible r (versions st k))"
    by (rule ReadWalk_cong) (rule assms(2))
  then show ?thesis by (simp add: Get_read ReadCommittedLocked_versions recovers_lock_blocks [OF assms(1)] v)
qed

lemma norm_recovered [simp]: "norm_lock (recovered_lock c k l) = norm_lock l"
  by (simp add: recovered_lock_def norm_lock_def split: option.split)

lemma recovers_Inspect:
  assumes "recovers c st st'"
  shows "rs_state (InspectTxnStatusLocked st' k s) = rs_state (InspectTxnStatusLocked st k s) \<and>
    rs_commitTs (InspectTxnStatusLocked st' k s) = rs_commitTs (InspectTxnStatusLocked st k s) \<and>
    map_option norm_lock (rs_lock (InspectTxnStatusLocked st' k s)) = map_option norm_lock (rs_lock (InspectTxnStatusLocked st k s))"
proof -
  have v: "versions st' k = versions st k" using assms by (simp add: recovers_def)
  show ?thesis
  proof (cases "find (\<lambda>x. w_startTs (snd x) = s) (versions st k)")
    case None
    then have "\<not> hasFinishedWrite (versions st k) s" unfolding hasFinishedWrite_def list_ex_iff find_None_iff by blast
    with None assms show ?thesis
      by (auto simp: InspectTxnStatusLocked_def v recovers_def split: option.split)
  qed (simp add: InspectTxnStatusLocked_def v)
qed

lemma recovers_inv:
  assumes "mvcc_inv st" and r: "recovers c st st'"
  shows "mvcc_inv st'"
proof -
  have "key_inv (map_of (locks st') k) (versions st' k)" for k
    using mvcc_inv_key [OF assms(1), of k] r
    by (auto simp: recovers_def key_inv_def split: option.splits)
  with r show ?thesis by (simp add: mvcc_inv_def recovers_def)
qed

lemma recovers_synced:
  assumes r: "recovers c st st'" and s: "synced c st"
    and o: "\<And>x. (\<And>k. x \<noteq> LockKey k) \<Longrightarrow> c' x = c x"
    and l: "\<And>k. map_of (locks st') k = None \<Longrightarrow> c' (LockKey k) = None"
    and l': "\<And>k. c' (LockKey k) \<noteq> c (LockKey k) \<Longrightarrow> map_of (locks st') k = None"
  shows "synced c' st'"
proof (rule syncedI)
  fix k
  show "c' (LockKey k) = map_option EncodeLockValue (map_of (locks st') k)"
  proof (cases "map_of (locks st') k")
    case (Some l1)
    then have "c' (LockKey k) = c (LockKey k)" using l' [of k] by auto
    with Some r show ?thesis by (auto simp: recovers_def syncedD(1) [OF s] split: option.splits if_splits)
  qed (simp add: l)
next
  fix x assume x: "prefix ''write/'' x" "c' x \<noteq> None"
  then have "x \<noteq> LockKey k" for k by auto
  with x o [of x] show "\<exists>k ts. x = WriteKey k ts" using syncedD(5) [OF s x(1)] by simp
qed (use r in \<open>simp_all add: o syncedD(2-4) [OF s] recovers_def\<close>)

section \<open>The life of a storage\<close>

text \<open>
  A storage is opened on an engine without rows, serves calls, is restarted on the engine rows it
  wrote, or takes over the snapshot of another storage. A restart may fail to delete the lock row of
  a finished transaction; the states below are those in which the engine accepted these deletes.
\<close>

definition stale_locks_gone :: "('e \<Rightarrow> kv_content) \<Rightarrow> 'e MvccStorage \<Rightarrow> bool" where
  "stale_locks_gone content st \<longleftrightarrow> (\<forall>k. map_of (locks st) k = None \<longrightarrow> content (engine st) (LockKey k) = None)"

inductive mvcc_reach :: "'e IKVEngine \<Rightarrow> ('e \<Rightarrow> kv_content) \<Rightarrow> 'e MvccStorage \<Rightarrow> bool"
  for E :: "'e IKVEngine" and content :: "'e \<Rightarrow> kv_content" where
  mr_open: "content e = Map.empty \<Longrightarrow> OpenMvccStorage E now e = Some st \<Longrightarrow> mvcc_reach E content st"
| mr_call: "mvcc_reach E content st \<Longrightarrow> call_ok call \<Longrightarrow> run_call E now call st = Some st' \<Longrightarrow> mvcc_reach E content st'"
| mr_restart: "mvcc_reach E content st \<Longrightarrow> OpenMvccStorage E now (engine st) = Some st' \<Longrightarrow>
     stale_locks_gone content st' \<Longrightarrow> mvcc_reach E content st'"
| mr_snapshot: "mvcc_reach E content st \<Longrightarrow> mvcc_reach E content peer \<Longrightarrow> kv_Dump E (engine peer) = Some s \<Longrightarrow> s \<noteq> [] \<Longrightarrow>
     RestoreSnapshot E now st s = Some (True, st') \<Longrightarrow> stale_locks_gone content st' \<Longrightarrow> mvcc_reach E content st'"

lemma synced_empty: "synced Map.empty \<lparr> engine = e, locks = [], writes = [], revisions = [], writeBatchCount = n, appliedRaftIndex = 0 \<rparr>"
  by (rule syncedI) (simp_all add: versions_def)

lemma mvcc_inv_empty: "mvcc_inv \<lparr> engine = e, locks = [], writes = [], revisions = [], writeBatchCount = n, appliedRaftIndex = 0 \<rparr>"
  by (simp add: mvcc_inv_def key_inv_def versions_def first_committer_wins_def)

lemma Recover_inv_synced:
  fixes st st1 :: "'e MvccStorage"
  assumes eng: "kv_engine E content" and inv: "mvcc_inv st" and s: "synced (content (engine st1)) st"
    and rec: "RecoverMetadataFromEngineLocked E now st1 = Some st'" and gone: "stale_locks_gone content st'"
  shows "mvcc_inv st' \<and> synced (content (engine st')) st'"
proof -
  from Recover_ok [OF eng inv s, of now] rec
  have r: "recovers (content (engine st1)) st st'"
    and o: "\<And>x. (\<And>k. x \<noteq> LockKey k) \<Longrightarrow> content (engine st') x = content (engine st1) x"
    and l: "\<And>k. content (engine st') (LockKey k) = content (engine st1) (LockKey k) \<or>
       content (engine st') (LockKey k) = None \<and>
       (\<exists>l. map_of (locks st) k = Some l \<and> hasFinishedWrite (versions st k) (l_startTs l))"
    by auto
  have "map_of (locks st') k = None" if "content (engine st') (LockKey k) \<noteq> content (engine st1) (LockKey k)" for k
    using l [of k] that r by (auto simp: recovers_def)
  then have "synced (content (engine st')) st'"
    using gone by (intro recovers_synced [OF r s]) (simp_all add: o stale_locks_gone_def)
  with recovers_inv [OF inv r] show ?thesis by simp
qed

lemma mvcc_reach_inv:
  assumes eng: "kv_engine E content" and "mvcc_reach E content st"
  shows "mvcc_inv st \<and> synced (content (engine st)) st"
  using assms(2)
proof (induction rule: mvcc_reach.induct)
  case (mr_open e now st)
  let ?st0 = "\<lparr> engine = e, locks = [], writes = [], revisions = [], writeBatchCount = 0, appliedRaftIndex = 0 \<rparr>"
  have s: "synced (content (engine ?st0)) ?st0" using synced_empty mr_open by simp
  have rec: "RecoverMetadataFromEngineLocked E now ?st0 = Some st" using mr_open by (simp add: OpenMvccStorage_def)
  from Recover_ok [OF eng mvcc_inv_empty s, of now] rec
  have "content (engine st) (LockKey k) = content e (LockKey k)" for k by auto
  then have "stale_locks_gone content st" using mr_open by (simp add: stale_locks_gone_def)
  with Recover_inv_synced [OF eng mvcc_inv_empty s rec] show ?case .
next
  case (mr_call st call now st')
  with run_call_msteps [OF eng, of st call now] show ?case
    using mvcc_inv_msteps synced_msteps by (metis option.inject)
next
  case (mr_restart st now st')
  then show ?case
    using Recover_inv_synced [OF eng, of st "\<lparr> engine = engine st, locks = [], writes = [], revisions = [],
      writeBatchCount = 0, appliedRaftIndex = 0 \<rparr>" now st'] by (simp add: OpenMvccStorage_def)
next
  case (mr_snapshot st peer s now st')
  then obtain e where e: "kv_Load E (engine st) s = (Some True, e)"
    "RecoverMetadataFromEngineLocked E now (st \<lparr> engine := e \<rparr>) = Some st'"
    by (auto simp: RestoreSnapshot_def split: prod.splits option.splits bool.splits)
  have "content e = content (engine peer)" using kv_engine.load_dump [OF eng] mr_snapshot e(1) by blast
  with Recover_inv_synced [OF eng, of peer "st \<lparr> engine := e \<rparr>" now st'] e(2) mr_snapshot show ?case by simp
qed

lemma run_calls_reach:
  "mvcc_reach E content st \<Longrightarrow> list_all call_ok cs \<Longrightarrow> run_calls E now cs st = Some st' \<Longrightarrow> mvcc_reach E content st'"
  by (induction cs arbitrary: st) (auto simp: bind_eq_Some_conv intro: mr_call)

lemma sample_store_reach: "mvcc_reach mem_engine (\<lambda>d. map_of (fst d)) sample_store"
proof -
  let ?cs = "[CallPrewrite ''a'' ''v'' ''a'' 5 10 0, CallCommit ''a'' 5 7, CallPrewrite ''b'' ''w'' ''b'' 8 10 0]"
  have "Option.bind (OpenMvccStorage mem_engine 0 ([], False)) (run_calls mem_engine 0 ?cs) \<noteq> None"
    by code_simp
  then obtain st0 where o: "OpenMvccStorage mem_engine 0 ([], False) = Some st0"
    and r: "run_calls mem_engine 0 ?cs st0 = Some sample_store"
    unfolding sample_store_def by (auto simp: bind_eq_Some_conv)
  have "mvcc_reach mem_engine (\<lambda>d. map_of (fst d)) st0" by (rule mr_open [OF _ o]) simp
  with r show ?thesis by (rule run_calls_reach [rotated 2]) (simp add: small_string_def)
qed

text \<open>A second history: two committed transactions on one key.\<close>

definition sample_history :: "mem_db MvccStorage" where
  "sample_history = the (run_calls mem_engine 0
     [CallRollback ''b'' 8, CallAcquire ''a'' ''a'' 8 10 8 0, CallPrewriteDelete ''a'' ''a'' 8 10 0, CallCommit ''a'' 8 9] sample_store)"

lemma sample_history_reach: "mvcc_reach mem_engine (\<lambda>d. map_of (fst d)) sample_history"
proof -
  let ?cs = "[CallRollback ''b'' 8, CallAcquire ''a'' ''a'' 8 10 8 0, CallPrewriteDelete ''a'' ''a'' 8 10 0, CallCommit ''a'' 8 9]"
  have "run_calls mem_engine 0 ?cs sample_store = Some sample_history"
    unfolding sample_history_def by simp
  from this sample_store_reach show ?thesis by (rule run_calls_reach [rotated 2]) (simp_all add: small_string_def)
qed

definition same_reads :: "'e IKVEngine \<Rightarrow> 'e MvccStorage \<Rightarrow> 'e MvccStorage \<Rightarrow> bool" where
  "same_reads E st st' \<longleftrightarrow>
     (\<forall>k r. Get E st' k r = Get E st k r) \<and>
     (\<forall>a b r limit es. Scan E st' a b r limit es = Scan E st a b r limit es)"

text \<open>
  The lock that a status query returns is compared in its normal form, that is in the fields its row stores:
  not in the value, which is read back from the data row, nor in the mark for rows without an expiry.
\<close>

definition same_records :: "'e MvccStorage \<Rightarrow> 'e MvccStorage \<Rightarrow> bool" where
  "same_records st st' \<longleftrightarrow>
     (\<forall>k s. rs_state (InspectTxnStatusLocked st' k s) = rs_state (InspectTxnStatusLocked st k s) \<and>
            rs_commitTs (InspectTxnStatusLocked st' k s) = rs_commitTs (InspectTxnStatusLocked st k s) \<and>
            map_option norm_lock (rs_lock (InspectTxnStatusLocked st' k s)) =
              map_option norm_lock (rs_lock (InspectTxnStatusLocked st k s))) \<and>
     (\<forall>k. CurrentRevisionLocked st' k = CurrentRevisionLocked st k) \<and>
     appliedRaftIndex st' = appliedRaftIndex st"

lemma Recover_same:
  assumes eng: "kv_engine E content" and inv: "mvcc_inv st" and s: "synced (content (engine st)) st"
    and c: "content (engine st1) = content (engine st)"
  shows "\<exists>st'. RecoverMetadataFromEngineLocked E now st1 = Some st' \<and> same_reads E st st' \<and> same_records st st'"
proof -
  from s c have s1: "synced (content (engine st1)) st" by simp
  from Recover_ok [OF eng inv s1, of now] obtain st' where
    rec: "RecoverMetadataFromEngineLocked E now st1 = Some st'" and r: "recovers (content (engine st1)) st st'"
    and o: "\<And>x. (\<And>k. x \<noteq> LockKey k) \<Longrightarrow> content (engine st') x = content (engine st1) x" by auto
  have "kv_Get E (engine st') (DataKey k s) = kv_Get E (engine st) (DataKey k s)" for k s
    using o [of "DataKey k s"] kv_engine.get [OF eng] c by simp
  then have g: "Get E st' k r = Get E st k r" for k r by (rule recovers_Get [OF r])
  then have "same_reads E st st'" by (simp add: same_reads_def Scan_cong [of E st'])
  moreover have "same_records st st'"
    using recovers_Inspect [OF r] r by (simp add: same_records_def CurrentRevisionLocked_def recovers_def)
  ultimately show ?thesis using rec by blast
qed

text \<open>
  C5. Crash consistency: a storage reopened on the rows it wrote answers every read, every range scan
  and every transaction status query as before the crash, with the returned lock compared in the fields
  that are stored with it, and keeps the revision of every key and the index of the last applied log entry.
\<close>

theorem restart_preserves_state:
  assumes "kv_engine E content" and "mvcc_reach E content st"
  shows "\<exists>st'. OpenMvccStorage E now (engine st) = Some st' \<and> same_reads E st st' \<and> same_records st st'"
  unfolding OpenMvccStorage_def
  using mvcc_reach_inv [OF assms] by (intro Recover_same [OF assms(1)]) simp_all

theorem restart_preserves_state_witness:
  "\<exists>st'. OpenMvccStorage mem_engine 99 (engine sample_store) = Some st' \<and> Get mem_engine st' ''a'' 7 = (Ok, ''v'')"
proof -
  have "Get mem_engine sample_store ''a'' 7 = (Ok, ''v'')" by code_simp
  with restart_preserves_state [OF mem.eng.kv_engine_axioms sample_store_reach, of 99] show ?thesis
    by (auto simp: same_reads_def)
qed

text \<open>
  C16. Snapshot transfer: a storage that loads the snapshot of another replica recovers, and then answers
  every read, range scan and transaction status query as that replica, with the returned lock compared in
  the fields that are stored with it, and with its revisions and its apply index.
\<close>

theorem snapshot_transfers_state:
  assumes "kv_engine E content" and "mvcc_reach E content peer"
    and "kv_Dump E (engine peer) = Some s" and "s \<noteq> []" and "kv_Load E (engine st) s = (Some True, e)"
  shows "\<exists>st'. RestoreSnapshot E now st s = Some (True, st') \<and> same_reads E peer st' \<and> same_records peer st'"
proof -
  have "content (engine (st \<lparr> engine := e \<rparr>)) = content (engine peer)"
    using kv_engine.load_dump [OF assms(1,3,4,5)] by simp
  from Recover_same [OF assms(1) _ _ this, of now] mvcc_reach_inv [OF assms(1,2)] assms(5) show ?thesis
    by (auto simp: RestoreSnapshot_def)
qed

theorem snapshot_transfers_state_witness:
  "\<exists>st'. RestoreSnapshot mem_engine 99 sample_store (the (kv_Dump mem_engine (engine sample_store))) = Some (True, st') \<and>
     Get mem_engine st' ''a'' 7 = (Ok, ''v'')"
proof -
  let ?s = "the (kv_Dump mem_engine (engine sample_store))"
  have d: "kv_Dump mem_engine (engine sample_store) = Some ?s" "?s \<noteq> []" by code_simp+
  have "fst (kv_Load mem_engine (engine sample_store) ?s) = Some True" by code_simp
  then have l: "kv_Load mem_engine (engine sample_store) ?s = (Some True, snd (kv_Load mem_engine (engine sample_store) ?s))"
    by (metis prod.collapse)
  have "Get mem_engine sample_store ''a'' 7 = (Ok, ''v'')" by code_simp
  with snapshot_transfers_state [OF mem.eng.kv_engine_axioms sample_store_reach d l, of 99] show ?thesis
    by (auto simp: same_reads_def)
qed

text \<open>
  C3. No lost updates: of two versions of a key committed by different transactions, the older one was
  committed before the transaction of the newer one took its start timestamp, whatever sequence of
  calls, garbage collections, restarts and snapshots produced the store.
\<close>

theorem no_lost_update:
  assumes "kv_engine E content" and "mvcc_reach E content st"
    and "map_of (versions st k) c1 = Some w1" and "map_of (versions st k) c2 = Some w2"
    and "w_type w1 \<noteq> WtRollback" and "w_type w2 \<noteq> WtRollback"
    and "c1 < c2" and "w_startTs w1 \<noteq> w_startTs w2"
  shows "w_startTs w1 < c1 \<and> c1 < w_startTs w2 \<and> w_startTs w2 < c2"
proof -
  have "key_inv (map_of (locks st) k) (versions st k)"
    using mvcc_inv_key mvcc_reach_inv [OF assms(1,2)] by blast
  then have f: "first_committer_wins (versions st k)" and v: "\<forall>x \<in> set (versions st k). version_ok x"
    by (simp_all add: key_inv_def)
  note m = map_of_SomeD [OF assms(3)] map_of_SomeD [OF assms(4)]
  have "c1 < w_startTs w2" using f m assms(5-8) unfolding first_committer_wins_def by fastforce
  moreover have "version_ok (c1, w1)" "version_ok (c2, w2)" using v m by blast+
  ultimately show ?thesis using assms(5,6) by (simp add: version_ok_def)
qed

theorem no_lost_update_witness:
  "map_of (versions sample_history ''a'') 7 = Some \<lparr> w_startTs = 5, w_commitTs = 7, w_type = WtPut \<rparr> \<and>
   map_of (versions sample_history ''a'') 9 = Some \<lparr> w_startTs = 8, w_commitTs = 9, w_type = WtDelete \<rparr> \<and>
   (5 :: u64) < 7 \<and> (7 :: u64) < 8 \<and> (8 :: u64) < 9"
proof -
  have m: "map_of (versions sample_history ''a'') 7 = Some \<lparr> w_startTs = 5, w_commitTs = 7, w_type = WtPut \<rparr>"
    "map_of (versions sample_history ''a'') 9 = Some \<lparr> w_startTs = 8, w_commitTs = 9, w_type = WtDelete \<rparr>"
    by code_simp+
  from no_lost_update [OF mem.eng.kv_engine_axioms sample_history_reach m] m show ?thesis by simp
qed

text \<open>
  C12. Every call returns and keeps the engine and the in-memory indexes in step: afterwards the lock,
  write, revision and apply-index rows of the engine are exactly the encodings of the indexes, also
  when the engine rejected the write batch of the call.
\<close>

theorem calls_keep_engine_in_step:
  assumes "kv_engine E content" and "mvcc_reach E content st" and "call_ok call"
  shows "\<exists>st'. run_call E now call st = Some st' \<and> synced (content (engine st')) st'"
proof -
  from run_call_msteps [OF assms(1) _ assms(3), of st now] mvcc_reach_inv [OF assms(1,2)]
  obtain st' where "run_call E now call st = Some st'" by blast
  with mvcc_reach_inv [OF assms(1) mr_call [OF assms(2,3), of now st']] show ?thesis by blast
qed

theorem calls_keep_engine_in_step_witness:
  "\<exists>st'. run_call mem_engine 0 (CallRollback ''b'' 8) sample_store = Some st' \<and> synced (map_of (fst (engine st'))) st'"
  by (rule calls_keep_engine_in_step [OF mem.eng.kv_engine_axioms sample_store_reach]) simp

end
