(* ===== verification/MvccSnapshots.thy ===== *)
theory MvccSnapshots
  imports MvccRecovery
begin

text \<open>
  What readers and transactions may rely on across calls: the snapshot of a key at a read timestamp
  stays as it is, the decision on a transaction is final, and garbage collection up to a safe point is
  invisible at and above it.
\<close>

section \<open>The newest visible version\<close>

definition has_value :: "u64 \<times> MvccWrite \<Rightarrow> bool" where
  "has_value x \<longleftrightarrow> w_type (snd x) = WtPut \<or> w_type (snd x) = WtDelete"

definition newest :: "u64 \<Rightarrow> version_map \<Rightarrow> (u64 \<times> MvccWrite) option" where
  "newest r vs = find has_value (visible r vs)"

definition read_outcome :: "(string \<Rightarrow> string option) \<Rightarrow> string \<Rightarrow> u64 \<times> MvccWrite \<Rightarrow> TxnStatus \<times> string \<times> u64" where
  "read_outcome get key x =
     (if w_type (snd x) = WtDelete then (NotFound, [], fst x)
      else case get (DataKey key (w_startTs (snd x))) of
             Some v \<Rightarrow> (Ok, v, fst x) | None \<Rightarrow> (StorageError, [], fst x))"

lemma ReadWalk_find:
  "ReadWalk E e key vs =
     (case find has_value vs of None \<Rightarrow> (NotFound, [], 0) | Some x \<Rightarrow> read_outcome (kv_Get E e) key x)"
proof (induction vs)
  case (Cons x vs)
  obtain ts w where x: "x = (ts, w)" by (cases x)
  show ?case using Cons by (cases "w_type w") (simp_all add: x has_value_def read_outcome_def split: option.split)
qed simp

lemma Read_newest:
  "ReadCommittedLocked E st key r =
     (case newest r (versions st key) of None \<Rightarrow> (NotFound, [], 0)
      | Some x \<Rightarrow> read_outcome (kv_Get E (engine st)) key x)"
  by (simp add: ReadCommittedLocked_versions ReadWalk_find newest_def)

lemma find_rev_sorted:
  assumes "sorted_wrt (<) (map fst (xs :: ('k::linorder \<times> 'v) list))"
  shows "find P (rev xs) = Some x \<longleftrightarrow> x \<in> set xs \<and> P x \<and> (\<forall>y \<in> set xs. P y \<longrightarrow> fst y \<le> fst x)"
  using assms
proof (induction xs rule: rev_induct)
  case (snoc z xs)
  have lt: "\<forall>y \<in> set xs. fst y < fst z" using snoc.prems by (auto simp: sorted_wrt_append)
  have IH: "find P (rev xs) = Some x \<longleftrightarrow> x \<in> set xs \<and> P x \<and> (\<forall>y \<in> set xs. P y \<longrightarrow> fst y \<le> fst x)"
    using snoc by (simp add: sorted_wrt_append)
  show ?case
  proof (cases "P z")
    case True
    then show ?thesis using lt by (auto simp: less_imp_le)
  next
    case False
    then show ?thesis using IH by auto
  qed
qed simp

lemma find_sorted:
  assumes "sorted_wrt (<) (map fst (xs :: ('k::linorder \<times> 'v) list))"
  shows "find P xs = Some x \<longleftrightarrow> x \<in> set xs \<and> P x \<and> (\<forall>y \<in> set xs. P y \<longrightarrow> fst x \<le> fst y)"
  using assms
proof (induction xs)
  case (Cons z xs)
  have lt: "\<forall>y \<in> set xs. fst z < fst y" using Cons.prems by auto
  show ?case
  proof (cases "P z")
    case True
    then show ?thesis using lt by (auto simp: less_imp_le)
  next
    case False
    then show ?thesis using Cons by auto
  qed
qed simp

lemma newest_iff:
  assumes "om_ok vs"
  shows "newest r vs = Some x \<longleftrightarrow> x \<in> set vs \<and> fst x \<le> r \<and> has_value x \<and>
    (\<forall>y \<in> set vs. fst y \<le> r \<longrightarrow> has_value y \<longrightarrow> fst y \<le> fst x)"
proof -
  have t: "takeWhile (\<lambda>x. fst x \<le> r) vs = filter (\<lambda>x. fst x \<le> r) vs"
    using om_takeWhile_le [OF assms] by simp
  have "sorted_wrt (<) (map fst (filter (\<lambda>x. fst x \<le> r) vs))"
    using om_ok_filter [OF assms, of "\<lambda>x. fst x \<le> r"] by (simp add: om_ok_def)
  from find_rev_sorted [OF this, of has_value x] show ?thesis
    unfolding newest_def visible_def t by auto
qed

lemma newest_set:
  assumes "om_ok vs" and "om_ok vs'"
    and "{x \<in> set vs'. fst x \<le> r \<and> has_value x} = {x \<in> set vs. fst x \<le> r \<and> has_value x}"
  shows "newest r vs' = newest r vs"
proof -
  have "newest r vs' = Some x \<longleftrightarrow> newest r vs = Some x" for x
    unfolding newest_iff [OF assms(1)] newest_iff [OF assms(2)] using assms(3) by blast
  then show ?thesis by (metis option.exhaust)
qed

section \<open>What garbage collection keeps\<close>

lemma gc_keep_iff:
  assumes "om_ok vs"
  shows "gc_keep sp vs = Some t \<longleftrightarrow> (\<exists>x \<in> set vs. fst x = t \<and> t < sp \<and> has_value x \<and>
    (\<forall>y \<in> set vs. fst y < sp \<longrightarrow> has_value y \<longrightarrow> fst y \<le> t))"
proof -
  have t: "takeWhile (\<lambda>x. fst x < sp) vs = filter (\<lambda>x. fst x < sp) vs"
    using om_takeWhile_less [OF assms] by simp
  have "sorted_wrt (<) (map fst (filter (\<lambda>x. fst x < sp) vs))"
    using om_ok_filter [OF assms, of "\<lambda>x. fst x < sp"] by (simp add: om_ok_def)
  note f = find_rev_sorted [OF this, of has_value]
  have "has_value = (\<lambda>x. w_type (snd x) = WtPut \<or> w_type (snd x) = WtDelete)"
    by (intro ext) (rule has_value_def)
  then have "gc_keep sp vs = map_option fst (find has_value (rev (filter (\<lambda>x. fst x < sp) vs)))"
    by (simp only: gc_keep_def t)
  then have "gc_keep sp vs = Some t \<longleftrightarrow>
      (\<exists>x. find has_value (rev (filter (\<lambda>x. fst x < sp) vs)) = Some x \<and> fst x = t)"
    by (simp only: map_option_eq_Some)
  then show ?thesis unfolding f Bex_def set_filter mem_Collect_eq by blast
qed

lemma om_key_inj:
  assumes "om_ok m" and "x \<in> set m" and "y \<in> set m" and "fst x = fst y"
  shows "x = y"
proof -
  have "map_of m (fst x) = Some (snd x)" "map_of m (fst y) = Some (snd y)"
    using assms(2,3) by (simp_all add: om_lookup_iff [OF assms(1)])
  with assms(4) show ?thesis by (simp add: prod_eq_iff)
qed

lemma gc_keeps_newest:
  assumes "om_ok vs" and "newest r vs = Some x" and "sp \<le> r"
  shows "x \<notin> set (gc_victims sp vs)"
proof
  assume "x \<in> set (gc_victims sp vs)"
  then have v: "fst x < sp" "gc_keep sp vs \<noteq> Some (fst x)" by (auto simp: gc_victims_def split: if_splits)
  note n = assms(2) [unfolded newest_iff [OF assms(1)]]
  have "\<forall>y \<in> set vs. fst y < sp \<longrightarrow> has_value y \<longrightarrow> fst y \<le> fst x" using n assms(3) by force
  with n v show False unfolding gc_keep_iff [OF assms(1)] by blast
qed

lemma newest_gc:
  assumes ok: "om_ok vs" and "sp \<le> r"
  shows "newest r (filter (\<lambda>x. fst x \<notin> fst ` set (gc_victims sp vs)) vs) = newest r vs"
proof -
  let ?vs = "filter (\<lambda>x. fst x \<notin> fst ` set (gc_victims sp vs)) vs"
  have ok': "om_ok ?vs" using ok by simp
  have key: "x \<in> set vs \<Longrightarrow> fst x \<in> fst ` set (gc_victims sp vs) \<longleftrightarrow> x \<in> set (gc_victims sp vs)" for x
    using gc_victims_subset [of sp vs] om_key_inj [OF ok, of x] by blast
  have a: "newest r ?vs = Some x" if n: "newest r vs = Some x" for x
  proof -
    have "x \<in> set ?vs" using n key [of x] gc_keeps_newest [OF ok n assms(2)] newest_iff [OF ok] by simp
    then show ?thesis using n unfolding newest_iff [OF ok] newest_iff [OF ok'] by simp
  qed
  show ?thesis
  proof (cases "newest r vs")
    case None
    have "newest r ?vs \<noteq> Some y" for y
    proof
      assume y: "newest r ?vs = Some y"
      then have "y \<in> set (visible r vs)" "has_value y"
        unfolding newest_iff [OF ok'] visible_def by (simp_all add: om_takeWhile_le [OF ok])
      with find_None_D [OF None [unfolded newest_def]] show False by blast
    qed
    with None show ?thesis by (metis option.exhaust)
  qed (simp add: a)
qed

text \<open>
  The collector deletes the data row of a removed version, which is named after the key and the start
  timestamp. The row of the version a reader at \<open>r\<close> sees survives when no older value of the key in
  the snapshot was written by the same transaction.
\<close>

definition snapshot_at :: "u64 \<Rightarrow> version_map \<Rightarrow> (u64 \<times> MvccWrite) set" where
  "snapshot_at r vs = {x \<in> set vs. fst x \<le> r \<and> has_value x}"

definition own_row :: "u64 \<Rightarrow> version_map \<Rightarrow> bool" where
  "own_row r vs \<longleftrightarrow> (\<forall>x y. newest r vs = Some x \<longrightarrow> y \<in> snapshot_at r vs \<longrightarrow>
     w_type (snd x) = WtPut \<longrightarrow> w_type (snd y) = WtPut \<longrightarrow> w_startTs (snd y) = w_startTs (snd x) \<longrightarrow> y = x)"

lemma snapshot_newest:
  assumes "om_ok vs" and "newest r vs = Some x"
  shows "x \<in> snapshot_at r vs"
  using assms newest_iff [OF assms(1)] by (simp add: snapshot_at_def)

lemma gc_victim_below:
  assumes "y \<in> set (gc_victims sp vs)"
  shows "fst y < sp"
  using assms by (auto simp: gc_victims_def split: if_splits)

lemma gc_keeps_row:
  assumes ok: "om_ok (writes st)" "om_ok (versions st k)" and n: "newest r (versions st k) = Some x"
    and "w_type (snd x) = WtPut" and "sp \<le> r" and own: "own_row r (versions st k)"
  shows "apply_ops (gc_batch sp st) c (DataKey k (w_startTs (snd x))) = c (DataKey k (w_startTs (snd x)))"
proof -
  have "False" if y: "y \<in> set (gc_victims sp (versions st k))" "w_startTs (snd y) = w_startTs (snd x)"
    "w_type (snd y) = WtPut" for y
  proof -
    have "y \<in> snapshot_at r (versions st k)"
      using y gc_victims_subset [of sp "versions st k"] gc_victim_below [OF y(1)] assms(5)
      by (auto simp: snapshot_at_def has_value_def)
    then have "y = x" using own n assms(4) y(2,3) unfolding own_row_def by blast
    with y(1) gc_keeps_newest [OF ok(2) n assms(5)] show False by simp
  qed
  then have "DataKey k (w_startTs (snd x)) \<notin> gc_dead sp st" unfolding gc_dead_keys(5) [OF ok(1)] by blast
  then show ?thesis unfolding apply_gc_batch by (subst apply_revision_mutations_other) simp_all
qed

section \<open>Snapshots\<close>

text \<open>
  Two configurations look the same to a reader of a key at \<open>r\<close>: the newest version it sees is the same,
  a value has the same data row, and no version entered the snapshot.
\<close>

definition snapshot_same :: "u64 \<Rightarrow> string \<Rightarrow> 'e mvcc_config \<Rightarrow> 'e mvcc_config \<Rightarrow> bool" where
  "snapshot_same r k C C' \<longleftrightarrow>
     newest r (versions (snd C') k) = newest r (versions (snd C) k) \<and>
     snapshot_at r (versions (snd C') k) \<subseteq> snapshot_at r (versions (snd C) k) \<and>
     (\<forall>x. newest r (versions (snd C) k) = Some x \<longrightarrow> w_type (snd x) = WtPut \<longrightarrow>
        fst C' (DataKey k (w_startTs (snd x))) = fst C (DataKey k (w_startTs (snd x))))"

lemma snapshot_same_refl: "snapshot_same r k C C"
  by (simp add: snapshot_same_def)

lemma snapshot_same_trans: "snapshot_same r k C1 C2 \<Longrightarrow> snapshot_same r k C2 C3 \<Longrightarrow> snapshot_same r k C1 C3"
  unfolding snapshot_same_def by (elim conjE) (intro conjI, simp, blast, simp)

lemma snapshot_same_own_row:
  assumes "snapshot_same r k C C'" and "own_row r (versions (snd C) k)"
  shows "own_row r (versions (snd C') k)"
proof -
  have n: "newest r (versions (snd C') k) = newest r (versions (snd C) k)"
    and s: "snapshot_at r (versions (snd C') k) \<subseteq> snapshot_at r (versions (snd C) k)"
    using assms(1) by (simp_all add: snapshot_same_def)
  show ?thesis unfolding own_row_def n
  proof (intro allI impI)
    fix x y
    assume "newest r (versions (snd C) k) = Some x" "y \<in> snapshot_at r (versions (snd C') k)" "w_type (snd x) = WtPut"
      "w_type (snd y) = WtPut" "w_startTs (snd y) = w_startTs (snd x)"
    with s assms(2) show "y = x" unfolding own_row_def by blast
  qed
qed

lemma snapshot_same_read:
  assumes eng: "kv_engine E content" and "mvcc_inv st"
    and same: "snapshot_same r k (content (engine st), st) (content (engine st'), st')"
  shows "ReadCommittedLocked E st' k r = ReadCommittedLocked E st k r"
proof -
  note ok = mvcc_inv_versions_ok [OF assms(2), of k]
  have "read_outcome (kv_Get E (engine st')) k x = read_outcome (kv_Get E (engine st)) k x"
    if n: "newest r (versions st k) = Some x" for x
  proof -
    have "has_value x" using n newest_iff [OF ok] by simp
    then show ?thesis
      using same n kv_engine.get [OF eng] by (auto simp: snapshot_same_def read_outcome_def has_value_def)
  qed
  moreover have "newest r (versions st' k) = newest r (versions st k)" using same by (simp add: snapshot_same_def)
  ultimately show ?thesis by (simp add: Read_newest split: option.split)
qed

text \<open>
  The effects that leave what a reader of a key at \<open>r\<close> sees alone: a commit above \<open>r\<close>, and a rollback
  that does not write its record over the version the reader sees.
\<close>

fun snapshot_safe :: "u64 \<Rightarrow> version_map \<Rightarrow> key_effect \<Rightarrow> bool" where
  "snapshot_safe r vs (PutLock d l) \<longleftrightarrow> True"
| "snapshot_safe r vs (CommitAt c w) \<longleftrightarrow> r < c"
| "snapshot_safe r vs (RollbackAt s own) \<longleftrightarrow> map_option fst (newest r vs) \<noteq> Some s"

lemma snapshot_safe_cong: "newest r vs' = newest r vs \<Longrightarrow> snapshot_safe r vs' eff = snapshot_safe r vs eff"
  by (cases eff) simp_all

lemma snapshot_version:
  assumes "mvcc_inv st" and "newest r (versions st k) = Some x"
  shows "x \<in> set (versions st k) \<and> w_startTs (snd x) < fst x \<and> w_type (snd x) \<noteq> WtRollback"
proof -
  have "x \<in> snapshot_at r (versions st k)" using snapshot_newest [OF mvcc_inv_versions_ok [OF assms(1)] assms(2)] .
  moreover from this have "version_ok x" using mvcc_inv_key [OF assms(1), of k] by (simp add: key_inv_def snapshot_at_def)
  ultimately show ?thesis by (auto simp: version_ok_def snapshot_at_def has_value_def)
qed

lemma snapshot_at_eff:
  assumes "om_ok vs" and "snapshot_safe r vs eff"
  shows "snapshot_at r (eff_versions eff vs) \<subseteq> snapshot_at r vs"
  using assms by (cases eff) (auto simp: snapshot_at_def set_om_put has_value_def RollbackWrite_def)

lemma newest_shrink:
  assumes "om_ok vs" and "om_ok vs'" and "snapshot_at r vs' \<subseteq> snapshot_at r vs"
    and "\<And>x. newest r vs = Some x \<Longrightarrow> x \<in> set vs'"
  shows "newest r vs' = newest r vs"
proof (cases "newest r vs")
  case None
  then have "snapshot_at r vs = {}"
    using find_None_D [of has_value "visible r vs"] om_takeWhile_le [OF assms(1), of r]
    by (auto simp: snapshot_at_def newest_def visible_def)
  with assms(3) have "newest r vs' \<noteq> Some y" for y using snapshot_newest [OF assms(2), of r y] by auto
  with None show ?thesis by (metis option.exhaust)
next
  case (Some x)
  have "newest r vs' = Some x"
    unfolding newest_iff [OF assms(2)]
    using Some [unfolded newest_iff [OF assms(1)]] assms(4) [OF Some] assms(3) by (auto simp: snapshot_at_def)
  with Some show ?thesis by simp
qed

lemma newest_eff:
  assumes ok: "om_ok vs" and safe: "snapshot_safe r vs eff"
  shows "newest r (eff_versions eff vs) = newest r vs"
proof (rule newest_shrink [OF ok _ snapshot_at_eff [OF assms]])
  show "om_ok (eff_versions eff vs)" using ok by (cases eff) simp_all
  fix x assume x: "newest r vs = Some x"
  then have "x \<in> set vs" "fst x \<le> r" using newest_iff [OF ok] by simp_all
  then show "x \<in> set (eff_versions eff vs)" using safe x ok by (cases eff) (auto simp: set_om_put)
qed

lemma data_row_eff:
  assumes inv: "mvcc_inv st" and g: "guarded st key eff" and x: "newest r (versions st k) = Some x"
  shows "apply_ops (eff_ops key eff @ [RevisionMutation st key]) c (DataKey k (w_startTs (snd x))) =
    c (DataKey k (w_startTs (snd x)))"
proof (cases "k = key")
  case False
  have "op_key op \<noteq> DataKey k s" if "op \<in> set (eff_ops key eff)" for op s
    using that g False by (cases eff) (auto simp: data_ops_for_def split: if_splits)
  then have "DataKey k (w_startTs (snd x)) \<notin> op_key ` set (eff_ops key eff)" by (metis imageE)
  then show ?thesis by (simp add: RevisionMutation_def apply_ops_other)
next
  case True
  note v = snapshot_version [OF inv x]
  show ?thesis
  proof (cases eff)
    case (PutLock d l)
    have "w_startTs (snd x) \<noteq> l_startTs l" if "d \<noteq> []"
      using that g PutLock v True by fastforce
    then have "DataKey k (w_startTs (snd x)) \<notin> op_key ` set d"
      using g PutLock by (cases "d = []") (auto simp: data_ops_for_def)
    then show ?thesis by (simp add: PutLock RevisionMutation_def apply_ops_other)
  next
    case (RollbackAt s own)
    then have "w_startTs (snd x) \<noteq> s" using g v True by auto
    then show ?thesis by (simp add: RollbackAt RevisionMutation_def True)
  qed (simp add: RevisionMutation_def)
qed

lemma snapshot_gc:
  assumes inv: "mvcc_inv st" and sp: "sp \<le> r" and own: "own_row r (versions st k)"
  shows "snapshot_same r k (c, st) (apply_ops (gc_batch sp st) c, gc_apply sp st)"
proof -
  have ok: "om_ok (writes st)" "om_ok (versions st k)"
    using inv mvcc_inv_versions_ok [OF inv] by (simp_all add: mvcc_inv_def)
  show ?thesis
    unfolding snapshot_same_def fst_conv snd_conv gc_versions [OF ok(1)] newest_gc [OF ok(2) sp]
    using gc_keeps_row [OF ok _ _ sp own] by (auto simp: snapshot_at_def)
qed

lemma snapshot_mstep:
  assumes "mstep P G (c, st) (c', st')" and inv: "mvcc_inv st"
    and P: "\<And>eff. P k eff \<Longrightarrow> snapshot_safe r (versions st k) eff"
    and G: "\<And>sp. G sp \<Longrightarrow> sp \<le> r \<and> own_row r (versions st k)"
  shows "snapshot_same r k (c, st) (c', st')"
  using assms(1)
proof cases
  case (ms_eff key eff)
  note ok = mvcc_inv_versions_ok [OF inv]
  have "newest r (versions st' k) = newest r (versions st k) \<and>
      snapshot_at r (versions st' k) \<subseteq> snapshot_at r (versions st k)"
  proof (cases "k = key")
    case True
    then have "snapshot_safe r (versions st k) eff" using P ms_eff(4) by blast
    from newest_eff [OF ok this] snapshot_at_eff [OF ok this] show ?thesis
      by (simp add: ms_eff(2) True)
  qed (simp only: ms_eff(2) versions_eff_apply if_False, simp)
  moreover have "c' (DataKey k (w_startTs (snd x))) = c (DataKey k (w_startTs (snd x)))"
    if "newest r (versions st k) = Some x" for x
    unfolding ms_eff(1) by (rule data_row_eff [OF inv ms_eff(3) that])
  ultimately show ?thesis unfolding snapshot_same_def fst_conv snd_conv by blast
next
  case (ms_applied i)
  then show ?thesis by (simp add: snapshot_same_def)
next
  case (ms_gc sp)
  then show ?thesis using snapshot_gc [OF inv] G by simp
next
  case ms_inert
  then have "versions st' k = versions st k" by (simp add: versions_def)
  with ms_inert show ?thesis by (simp add: snapshot_same_def)
qed

lemma snapshot_msteps:
  assumes "msteps P G (c, st) (c', st')" and inv: "mvcc_inv st"
    and P: "\<And>eff. P k eff \<Longrightarrow> snapshot_safe r (versions st k) eff"
    and G: "\<And>sp. G sp \<Longrightarrow> sp \<le> r \<and> own_row r (versions st k)"
  shows "snapshot_same r k (c, st) (c', st')"
  using assms(1)
proof (induction rule: rtranclp_induct2)
  case (step c1 st1 c2 st2)
  have "mvcc_inv st1" using mvcc_inv_msteps step.hyps(1) inv by blast
  moreover have e: "newest r (versions st1 k) = newest r (versions st k)"
    using step.IH by (simp add: snapshot_same_def)
  have "snapshot_safe r (versions st1 k) eff" if "P k eff" for eff
    using P [OF that] snapshot_safe_cong [OF e] by simp
  moreover have "sp \<le> r \<and> own_row r (versions st1 k)" if "G sp" for sp
    using G [OF that] snapshot_same_own_row [OF step.IH] by simp
  ultimately have "snapshot_same r k (c1, st1) (c2, st2)" by (rule snapshot_mstep [OF step.hyps(2)])
  with step.IH show ?case by (rule snapshot_same_trans)
qed (rule snapshot_same_refl)

text \<open>
  A call that does not disturb a reader of a key at \<open>r\<close>. On that key it commits above \<open>r\<close> only and rolls
  back no transaction whose start timestamp is the commit timestamp of the version the reader sees, since
  that rollback record would take the place of the version. Garbage collection runs at a safe point up to
  \<open>r\<close>, on a snapshot in which the value read has its data row to itself.
\<close>

definition request_safe :: "u64 \<Rightarrow> string \<Rightarrow> version_map \<Rightarrow> request \<Rightarrow> bool" where
  "request_safe r k vs rq \<longleftrightarrow> rq_key rq = k \<longrightarrow>
     (\<forall>c. rq_commit rq = Some c \<longrightarrow> r < c) \<and> (rq_rollback rq \<longrightarrow> map_option fst (newest r vs) \<noteq> Some (rq_start rq))"

lemma request_safe_eff:
  assumes "request_safe r k vs rq" and "rq_allows rq k eff"
  shows "snapshot_safe r vs eff"
  using assms by (cases eff) (auto simp: request_safe_def rq_allows_def)

definition call_safe :: "u64 \<Rightarrow> string \<Rightarrow> version_map \<Rightarrow> mvcc_call \<Rightarrow> bool" where
  "call_safe r k vs call \<longleftrightarrow> (\<forall>sp. call = CallGarbageCollect sp \<longrightarrow> sp \<le> r \<and> own_row r vs) \<and>
     list_all (request_safe r k vs) (call_requests call)"

lemma call_safe_snapshot:
  assumes "kv_engine E content" and "mvcc_inv st" and "call_ok call" and safe: "call_safe r k (versions st k) call"
    and "run_call E now call st = Some st'"
  shows "mvcc_inv st' \<and> snapshot_same r k (content (engine st), st) (content (engine st'), st')"
proof -
  from run_call_msteps [OF assms(1-3), of now] assms(5)
  have m: "msteps (call_allows call) (call_collects call) (content (engine st), st) (content (engine st'), st')"
    by simp
  have p: "snapshot_safe r (versions st k) eff" if "call_allows call k eff" for eff
    using that safe request_safe_eff by (auto simp: call_allows_def call_safe_def list_all_iff)
  have g: "sp \<le> r \<and> own_row r (versions st k)" if "call_collects call sp" for sp
    using that safe by (simp add: call_collects_def call_safe_def)
  from snapshot_msteps [OF m assms(2) p g] mvcc_inv_msteps [OF m assms(2)] show ?thesis by blast
qed

lemma call_safe_same:
  assumes "snapshot_same r k (c, st) (c', st')" and "call_safe r k (versions st k) call"
  shows "call_safe r k (versions st' k) call"
proof -
  have "newest r (versions st' k) = newest r (versions st k)" using assms(1) by (simp add: snapshot_same_def)
  then have "request_safe r k (versions st' k) = request_safe r k (versions st k)"
    by (simp add: fun_eq_iff request_safe_def)
  then show ?thesis using assms(2) snapshot_same_own_row [OF assms(1)] by (simp add: call_safe_def)
qed

lemma calls_safe_snapshot:
  assumes "kv_engine E content" and "mvcc_inv st" and "list_all call_ok cs"
    and "list_all (call_safe r k (versions st k)) cs" and "run_calls E now cs st = Some st'"
  shows "mvcc_inv st' \<and> snapshot_same r k (content (engine st), st) (content (engine st'), st')"
  using assms(2-5)
proof (induction cs arbitrary: st)
  case (Cons call cs)
  then obtain st1 where st1: "run_call E now call st = Some st1" "run_calls E now cs st1 = Some st'"
    by (auto simp: bind_eq_Some_conv)
  from call_safe_snapshot [OF assms(1) Cons.prems(1) _ _ st1(1), of r k] Cons.prems
  have inv: "mvcc_inv st1" and same: "snapshot_same r k (content (engine st), st) (content (engine st1), st1)" by auto
  have "list_all (call_safe r k (versions st1 k)) cs"
    using Cons.prems(3) call_safe_same [OF same] by (simp add: list_all_iff)
  with Cons.IH [OF inv _ _ st1(2)] Cons.prems same snapshot_same_trans show ?case by auto
qed (simp add: snapshot_same_refl)



section \<open>Decisions\<close>

definition decision :: "u64 \<Rightarrow> version_map \<Rightarrow> (u64 \<times> MvccWrite) option" where
  "decision s vs = find (\<lambda>x. w_startTs (snd x) = s) vs"

lemma decision_iff:
  assumes "om_ok vs"
  shows "decision s vs = Some x \<longleftrightarrow> x \<in> set vs \<and> w_startTs (snd x) = s \<and>
    (\<forall>y \<in> set vs. w_startTs (snd y) = s \<longrightarrow> fst x \<le> fst y)"
  unfolding decision_def using find_sorted [of vs "\<lambda>x. w_startTs (snd x) = s" x] assms by (simp add: om_ok_def)

lemma rollback_version:
  assumes "version_ok (t, w)" and "w_type w = WtRollback"
  shows "w = RollbackWrite t"
  using assms by (cases w) (simp add: version_ok_def RollbackWrite_def)

lemma decision_eff:
  assumes inv: "mvcc_inv st" and g: "guarded st key eff" and d: "decision s (versions st key) = Some (t, w)"
    and rb: "\<And>s' own. eff = RollbackAt s' own \<Longrightarrow> w_type w \<noteq> WtRollback \<Longrightarrow> s' \<noteq> t"
  shows "decision s (eff_versions eff (versions st key)) = Some (t, w)"
proof -
  let ?vs = "versions st key"
  have ok: "om_ok ?vs" and vok: "\<forall>x \<in> set ?vs. version_ok x"
    using mvcc_inv_key [OF inv, of key] by (simp_all add: key_inv_def)
  from d have x: "(t, w) \<in> set ?vs" "w_startTs w = s" "\<forall>y \<in> set ?vs. w_startTs (snd y) = s \<longrightarrow> t \<le> fst y"
    using decision_iff [OF ok] by auto
  have xv: "version_ok (t, w)" using vok x(1) by blast
  show ?thesis
  proof (cases eff)
    case (PutLock d l)
    with d show ?thesis by simp
  next
    case (CommitAt c w')
    from g CommitAt obtain l where l: "map_of (locks st) key = Some l" "w' = CommitWrite l (l_startTs l) c"
      "lock_bound l < c" "map_of ?vs c = None" by auto
    have "c \<noteq> t" using l(4) x(1) by (auto simp: map_of_eq_None_iff image_iff)
    moreover have "t \<le> c" if "l_startTs l = s"
    proof (cases "w_type w = WtRollback")
      case True
      then have "t = s" using xv x(2) by (simp add: version_ok_def)
      with that l(3) show ?thesis by (simp add: lock_bound_def less_imp_le)
    next
      case False
      then have "t \<le> lock_bound l" using mvcc_inv_lock [OF inv l(1)] x(1) by (auto simp: committed_upto_def)
      with l(3) show ?thesis by simp
    qed
    ultimately show ?thesis using x by (auto simp: CommitAt decision_iff ok set_om_put l(2) CommitWrite_def)
  next
    case (RollbackAt s' own)
    show ?thesis
    proof (cases "s' = s")
      case True
      then have "w_type w = WtRollback" using g RollbackAt x(1,2) by auto
      with rollback_version [OF xv] x(2) xv have "w = RollbackWrite s" "t = s" by (auto simp: version_ok_def)
      with True x show ?thesis by (auto simp: RollbackAt decision_iff ok set_om_put RollbackWrite_def)
    next
      case False
      have "s' \<noteq> t"
      proof (cases "w_type w = WtRollback")
        case True
        then show ?thesis using xv x(2) False by (simp add: version_ok_def)
      next
        case False
        then show ?thesis using rb [OF RollbackAt] by simp
      qed
      with False x show ?thesis by (auto simp: RollbackAt decision_iff ok set_om_put RollbackWrite_def)
    qed
  qed
qed

lemma decision_kept_at:
  assumes "om_ok vs" and "\<forall>x \<in> set vs. version_ok x" and "decision s vs = Some (t, w)"
  shows "s \<le> t"
proof -
  have "(t, w) \<in> set vs" "w_startTs w = s" using assms(3) decision_iff [OF assms(1)] by auto
  then show ?thesis using assms(2) by (fastforce simp: version_ok_def less_imp_le split: if_splits)
qed

lemma decision_gc:
  assumes inv: "mvcc_inv st" and d: "decision s (versions st k) = Some (t, w)" and sp: "sp \<le> t"
  shows "decision s (versions (gc_apply sp st) k) = Some (t, w)"
proof -
  have ok: "om_ok (writes st)" "om_ok (versions st k)"
    using inv mvcc_inv_versions_ok [OF inv] by (simp_all add: mvcc_inv_def)
  have "t \<notin> fst ` set (gc_victims sp (versions st k))" using gc_victim_below [of _ sp] sp by fastforce
  then show ?thesis using d by (auto simp: gc_versions [OF ok(1)] decision_iff ok)
qed

lemma decision_msteps:
  assumes "msteps P G (c, st) (c', st')" and "mvcc_inv st" and "decision s (versions st k) = Some (t, w)"
    and P: "\<And>s' own. P k (RollbackAt s' own) \<Longrightarrow> w_type w \<noteq> WtRollback \<Longrightarrow> s' \<noteq> t"
    and G: "\<And>sp. G sp \<Longrightarrow> sp \<le> t"
  shows "decision s (versions st' k) = Some (t, w)"
  using assms(1)
proof (induction rule: rtranclp_induct2)
  case (step c1 st1 c2 st2)
  have inv: "mvcc_inv st1" using mvcc_inv_msteps [OF step.hyps(1)] assms(2) by simp
  from step.hyps(2) show ?case
  proof cases
    case (ms_eff key eff)
    then show ?thesis
    proof (cases "k = key")
      case True
      have "s' \<noteq> t" if "eff = RollbackAt s' own" "w_type w \<noteq> WtRollback" for s' own
        using P that ms_eff(4) True by blast
      with step.IH True have "decision s (eff_versions eff (versions st1 key)) = Some (t, w)"
        by (intro decision_eff [OF inv ms_eff(3)]) simp_all
      then show ?thesis by (simp add: ms_eff(2) True)
    qed (simp add: step.IH)
  next
    case (ms_applied i)
    with step.IH show ?thesis by simp
  next
    case (ms_gc sp)
    then show ?thesis using decision_gc [OF inv step.IH] G by simp
  next
    case ms_inert
    then have "versions st2 k = versions st1 k" by (simp add: versions_def)
    with step.IH show ?thesis by simp
  qed
qed (rule assms(3))

lemma calls_decision:
  assumes "kv_engine E content" and "mvcc_inv st" and "list_all call_ok cs"
    and gc: "\<And>call sp. call \<in> set cs \<Longrightarrow> call = CallGarbageCollect sp \<Longrightarrow> sp \<le> t"
    and rb: "\<And>call rq. call \<in> set cs \<Longrightarrow> rq \<in> set (call_requests call) \<Longrightarrow> rq_key rq = k \<Longrightarrow> rq_rollback rq \<Longrightarrow>
      w_type w \<noteq> WtRollback \<Longrightarrow> rq_start rq \<noteq> t"
    and "run_calls E now cs st = Some st'" and "decision s (versions st k) = Some (t, w)"
  shows "decision s (versions st' k) = Some (t, w)"
  using assms(2-7)
proof (induction cs arbitrary: st)
  case (Cons call cs)
  then obtain st1 where st1: "run_call E now call st = Some st1" "run_calls E now cs st1 = Some st'"
    by (auto simp: bind_eq_Some_conv)
  from run_call_msteps [OF assms(1) Cons.prems(1), of call now] st1(1) Cons.prems(2)
  have m: "msteps (call_allows call) (call_collects call) (content (engine st), st) (content (engine st1), st1)" by simp
  have p: "s' \<noteq> t" if "call_allows call k (RollbackAt s' own)" "w_type w \<noteq> WtRollback" for s' own
    using that Cons.prems(4) [of call] by (auto simp: call_allows_def rq_allows_def)
  have g: "sp \<le> t" if "call_collects call sp" for sp
    using that Cons.prems(3) [of call sp] by (simp add: call_collects_def)
  from decision_msteps [OF m Cons.prems(1,6) p g] have "decision s (versions st1 k) = Some (t, w)" .
  moreover have "mvcc_inv st1" by (rule mvcc_inv_msteps [OF m Cons.prems(1)])
  moreover have "list_all call_ok cs" using Cons.prems(2) by simp
  ultimately show ?case using Cons.IH [of st1] Cons.prems(3,4) st1(2) by (meson list.set_intros(2))
qed simp



section \<open>Garbage collection and readers\<close>



text \<open>
  The two provisos cannot be dropped. A transaction that commits twice on a key leaves two versions that
  share one data row, and collecting the older one deletes the row of the one that is kept: a point read then
  reports a storage error, and a scan leaves the key out. A rollback
  whose start timestamp is the commit timestamp of another transaction replaces its version.
\<close>

definition locked_again :: "mem_db MvccStorage" where
  "locked_again = snd (run_effect mem_engine sample_store ''a''
     (norm_eff (rq_eff 0 sample_store (RqPessimisticLock ''a'' ''a'' 5 10 8 0))) 0)"

lemma locked_again: "run_call mem_engine 0 (CallAcquireForUpdate ''a'' ''a'' 5 10 8 0) sample_store = Some locked_again"
proof -
  let ?rq = "RqPessimisticLock ''a'' ''a'' 5 10 8 0"
  have inv: "mvcc_inv sample_store" using mvcc_reach_inv [OF mem.eng.kv_engine_axioms sample_store_reach] by simp
  have ch: "p_modifications (prepare mem_engine 0 sample_store ?rq) \<noteq> []" "p_status (prepare mem_engine 0 sample_store ?rq) = Ok"
    by code_simp+
  have p: "prepared_eff sample_store ''a'' (rq_eff 0 sample_store ?rq) (prepare mem_engine 0 sample_store ?rq)"
    and g: "guarded sample_store ''a'' (rq_eff 0 sample_store ?rq)"
    using prepare_eff [OF inv _ ch(1)] by (auto simp: small_string_def)
  show ?thesis
    using ApplyPrepared_eff [OF p guard_shape [OF g], of mem_engine 0 0] ch
    by (simp add: AcquirePessimisticLockForUpdate_def PreparedHasChanges_def Let_def locked_again_def split: prod.split)
qed

lemma gc_deletes_shared_row:
  "\<exists>st. run_calls mem_engine 0 [CallAcquireForUpdate ''a'' ''a'' 5 10 8 0, CallCommit ''a'' 5 9] sample_store = Some st \<and>
     Get mem_engine st ''a'' 10 = (Ok, ''v'') \<and>
     Get mem_engine (snd (GarbageCollect mem_engine st 10)) ''a'' 10 = (StorageError, []) \<and>
     Scan mem_engine (snd (GarbageCollect mem_engine st 10)) ''a'' ''b'' 10 0 [] = (Ok, [])"
proof -
  let ?st = "snd (Commit mem_engine locked_again ''a'' 5 9)"
  have "Get mem_engine ?st ''a'' 10 = (Ok, ''v'')"
    "Get mem_engine (snd (GarbageCollect mem_engine ?st 10)) ''a'' 10 = (StorageError, [])"
    "Scan mem_engine (snd (GarbageCollect mem_engine ?st 10)) ''a'' ''b'' 10 0 [] = (Ok, [])" by code_simp+
  then show ?thesis unfolding run_calls.simps locked_again by simp
qed

lemma rollback_replaces_commit:
  "fst (Get mem_engine sample_store ''a'' 7) = Ok \<and> fst (Rollback mem_engine sample_store ''a'' 7) = Ok \<and>
   fst (Get mem_engine (snd (Rollback mem_engine sample_store ''a'' 7)) ''a'' 7) = NotFound"
  by code_simp

end
