(* ===== verification/MvccCommands.thy ===== *)
theory MvccCommands
  imports MvccSnapshots
begin

text \<open>
  Prepared commands: their form in the Raft log, the atomic apply of a run of log entries against
  applying them one at a time, replay, and the agreement of replicated and direct operations.
\<close>

section \<open>Commands on the wire\<close>

text \<open>What the generated message classes promise: a serialized message parses back to itself.\<close>

definition message_wire :: "'m wire \<Rightarrow> bool" where
  "message_wire w \<longleftrightarrow> (\<forall>m s. SerializeToString w m = Some s \<longrightarrow> ParseFromString w s = Some m)"

lemma message_wireD: "message_wire w \<Longrightarrow> SerializeToString w m = Some s \<Longrightarrow> ParseFromString w s = Some m"
  by (simp add: message_wire_def)

lemma code_status_code [simp]: "code_status (status_code s) = s"
  by (cases s) (simp_all add: code_status_def numeral_nat)

lemma status_code_range: "\<not> status_code s < 0" "\<not> 9 < status_code s"
  by (cases s, simp_all)+

lemma ParseModifications_map:
  "ParseModifications (map (\<lambda>m. \<lparr> mm_type = (if op_type m = OpDelete then MVCC_MODIFICATION_DELETE
      else MVCC_MODIFICATION_PUT), mm_key = op_key m, mm_value = op_value m \<rparr>) ops) = Some ops"
proof (induction ops)
  case (Cons op ops)
  then show ?case
    by (cases op; cases "op_type op") (simp_all add: MVCC_MODIFICATION_DELETE_def MVCC_MODIFICATION_PUT_def)
qed simp

text \<open>The part of a prepared write that its command carries.\<close>

definition on_wire :: "PreparedMvccWrite \<Rightarrow> PreparedMvccWrite" where
  "on_wire p = new_prepared \<lparr> p_commandVersion := p_commandVersion p, p_status := p_status p,
     p_expectedRevision := p_expectedRevision p, p_newRevision := p_newRevision p,
     p_modifications := p_modifications p \<rparr>"

lemma PreparedFromCommand_ToCommand:
  assumes "known_version (p_commandVersion p)" and "length (p_modifications p) \<le> 1000000"
  shows "PreparedFromCommand (PreparedToCommand p) = Some (on_wire p)"
proof -
  have "\<not> 1000000 < length (p_modifications p)" using assms(2) by simp
  then show ?thesis using assms(1)
    by (auto simp: PreparedFromCommand_def PreparedToCommand_def on_wire_def known_version_def
        ParseModifications_map status_code_range)
qed

lemma PreparedParse_Serialize:
  assumes "message_wire w" and "SerializeToString w (PreparedToCommand p) \<noteq> None"
    and "known_version (p_commandVersion p)" and "length (p_modifications p) \<le> 1000000"
  shows "PreparedParse w (PreparedSerialize w p) = Some (on_wire p)"
  using assms(2) message_wireD [OF assms(1)]
  by (auto simp: PreparedParse_def PreparedSerialize_def PreparedFromCommand_ToCommand [OF assms(3,4)])

definition wire_ok :: "PreparedMvccWriteCommand wire \<Rightarrow> PreparedMvccBatchItem \<Rightarrow> bool" where
  "wire_ok w i \<longleftrightarrow> (case SerializeToString w (PreparedToCommand (i_prepared i)) of None \<Rightarrow> False | Some s \<Rightarrow> s \<noteq> []) \<and>
     known_version (p_commandVersion (i_prepared i)) \<and> length (p_modifications (i_prepared i)) \<le> 1000000 \<and>
     p_status (i_prepared i) = Ok"

lemma BatchItemsToCommand_map:
  assumes "message_wire w" and "list_all (wire_ok w) items"
  shows "BatchItemsToCommand w items = Some (map (\<lambda>i. (i_key i, PreparedToCommand (i_prepared i))) items)"
  using assms(2)
proof (induction items)
  case (Cons i items)
  then obtain s where s: "SerializeToString w (PreparedToCommand (i_prepared i)) = Some s" "s \<noteq> []"
    by (auto simp: wire_ok_def split: option.splits)
  with Cons message_wireD [OF assms(1) s(1)] show ?case
    by (simp add: PreparedSerialize_def)
qed simp

lemma ParseBatchItems_map:
  assumes "message_wire w" and "list_all (wire_ok w) items" and "sorted_wrt (<) (map i_key items)"
    and "\<forall>i \<in> set items. i_key i \<noteq> [] \<and> (prev \<noteq> [] \<longrightarrow> prev < i_key i)"
  shows "ParseBatchItems w prev (map (\<lambda>i. (i_key i, PreparedToCommand (i_prepared i))) items) =
    Some (map (\<lambda>i. i \<lparr> i_prepared := on_wire (i_prepared i) \<rparr>) items)"
  using assms(2-4)
proof (induction items arbitrary: prev)
  case (Cons i items)
  then have "wire_ok w i" by simp
  then have "PreparedParse w (PreparedSerialize w (i_prepared i)) = Some (on_wire (i_prepared i))" "p_status (i_prepared i) = Ok"
    using PreparedParse_Serialize [OF assms(1), of "i_prepared i"] by (auto simp: wire_ok_def split: option.splits)
  moreover have "ParseBatchItems w (i_key i) (map (\<lambda>i. (i_key i, PreparedToCommand (i_prepared i))) items) =
      Some (map (\<lambda>i. i \<lparr> i_prepared := on_wire (i_prepared i) \<rparr>) items)"
    using Cons by (intro Cons.IH) auto
  ultimately show ?case
    using Cons.prems(3) by (cases i) (auto simp: PreparedSerialize_def on_wire_def)
qed simp


text \<open>
  C19. A prepared batch survives the trip through the Raft log: parsing the serialized batch command gives
  back every item with its key, revisions and modifications, whenever the items are in strictly
  increasing key order as the prepare step leaves them.
\<close>

theorem batch_command_round_trip:
  assumes "message_wire w" and "message_wire wb" and "list_all (wire_ok w) (b_items b)"
    and "sorted_wrt (<) (map i_key (b_items b))" and "\<forall>i \<in> set (b_items b). i_key i \<noteq> []"
    and "b_items b \<noteq> []" and "length (b_items b) \<le> 100000"
    and "b_commandVersion b = kBatchCommandVersion" and "b_status b = Ok"
    and "SerializeToString wb \<lparr> bc_version = b_commandVersion b,
      bc_items = map (\<lambda>i. (i_key i, PreparedToCommand (i_prepared i))) (b_items b) \<rparr> \<noteq> None"
  shows "BatchParse w wb (BatchSerialize w wb b) =
    Some (b \<lparr> b_items := map (\<lambda>i. i \<lparr> i_prepared := on_wire (i_prepared i) \<rparr>) (b_items b) \<rparr>)"
proof -
  let ?c = "\<lparr> bc_version = b_commandVersion b, bc_items = map (\<lambda>i. (i_key i, PreparedToCommand (i_prepared i))) (b_items b) \<rparr>"
  from assms(10) obtain s where s: "SerializeToString wb ?c = Some s" by auto
  have "BatchSerialize w wb b = s" by (simp add: BatchSerialize_def BatchItemsToCommand_map [OF assms(1,3)] s)
  moreover have "ParseBatchItems w [] (bc_items ?c) = Some (map (\<lambda>i. i \<lparr> i_prepared := on_wire (i_prepared i) \<rparr>) (b_items b))"
    using ParseBatchItems_map [OF assms(1,3,4), of "[]"] assms(5) by simp
  ultimately show ?thesis
    using message_wireD [OF assms(2) s] assms(6-9) by (cases b) (simp add: BatchParse_def)
qed

text \<open>A wire that knows a single message.\<close>

definition single_wire :: "'m \<Rightarrow> 'm wire" where
  "single_wire m = \<lparr> SerializeToString = (\<lambda>m'. if m' = m then Some ''m'' else None),
     ParseFromString = (\<lambda>s. if s = ''m'' then Some m else None) \<rparr>"

lemma single_wire: "message_wire (single_wire m)"
  by (simp add: message_wire_def single_wire_def)

theorem batch_command_round_trip_witness:
  "let p = PrepareRollback sample_store ''c'' 9;
       b = new_batch \<lparr> b_status := Ok, b_items := [\<lparr> i_key = ''c'', i_prepared = p \<rparr>] \<rparr>;
       w = single_wire (PreparedToCommand p);
       wb = single_wire \<lparr> bc_version = kBatchCommandVersion, bc_items = [(''c'', PreparedToCommand p)] \<rparr>
   in BatchParse w wb (BatchSerialize w wb b) = Some (b \<lparr> b_items := [\<lparr> i_key = ''c'', i_prepared = on_wire p \<rparr>] \<rparr>)"
proof -
  let ?p = "PrepareRollback sample_store ''c'' 9"
  let ?b = "new_batch \<lparr> b_status := Ok, b_items := [\<lparr> i_key = ''c'', i_prepared = ?p \<rparr>] \<rparr>"
  let ?w = "single_wire (PreparedToCommand ?p)"
  let ?wb = "single_wire \<lparr> bc_version = kBatchCommandVersion, bc_items = [(''c'', PreparedToCommand ?p)] \<rparr>"
  have "p_status ?p = Ok" "length (p_modifications ?p) = 3" "known_version (p_commandVersion ?p)" by code_simp+
  then show ?thesis
    using batch_command_round_trip [of ?w ?wb ?b] unfolding Let_def
    by (simp add: single_wire wire_ok_def) (simp add: single_wire_def new_batch_def)
qed

section \<open>Group apply\<close>

text \<open>The reference: the commands one at a time, each with its own log index.\<close>

fun ApplySequentially ::
  "'e IKVEngine \<Rightarrow> u64 \<Rightarrow> PreparedApplyCommand list \<Rightarrow> 'e MvccStorage \<Rightarrow> (bool \<times> 'e MvccStorage) option" where
  "ApplySequentially E now [] st = Some (True, st)"
| "ApplySequentially E now (cmd # cmds) st =
     (case (if \<not> c_isBatch cmd then ApplyPrepared E now st (c_key cmd) (c_single cmd) (c_raftIndex cmd)
            else ApplyPreparedBatch E now st (c_batch cmd) (c_raftIndex cmd)) of
        None \<Rightarrow> None
      | Some (s, st') \<Rightarrow> if s \<noteq> Ok then Some (False, st') else ApplySequentially E now cmds st')"

text \<open>A write as the prepare operations build it: its last modification sets the new revision of its key.\<close>

definition wf_write :: "string \<Rightarrow> PreparedMvccWrite \<Rightarrow> bool" where
  "wf_write k p \<longleftrightarrow> p_modifications p = [] \<or>
     (let ops = p_modifications p in
      last ops = BatchPut (RevisionKey k) (to_string (p_newRevision p)) \<and>
      list_all (\<lambda>op. \<not> prefix ''meta/revision/'' (op_key op)) (butlast ops))"

definition wf_command :: "PreparedApplyCommand \<Rightarrow> bool" where
  "wf_command cmd \<longleftrightarrow>
     (if \<not> c_isBatch cmd then wf_write (c_key cmd) (c_single cmd)
      else list_all (\<lambda>i. wf_write (i_key i) (i_prepared i)) (b_items (c_batch cmd)))"

definition same_index :: "'e MvccStorage \<Rightarrow> 'e MvccStorage \<Rightarrow> bool" where
  "same_index st st' \<longleftrightarrow> locks st' = locks st \<and> writes st' = writes st \<and> revisions st' = revisions st"

lemma same_index_refl [simp]: "same_index st st" by (simp add: same_index_def)

lemma same_index_trans: "same_index a b \<Longrightarrow> same_index b c \<Longrightarrow> same_index a c"
  by (simp add: same_index_def)

lemma same_index_revision: "same_index st st' \<Longrightarrow> CurrentRevisionLocked st' k = CurrentRevisionLocked st k"
  by (simp add: same_index_def CurrentRevisionLocked_def)

lemma mutation_frame:
  assumes "ApplyMetadataMutationLocked now op st = Some st1"
  shows "engine st1 = engine st \<and> appliedRaftIndex st1 = appliedRaftIndex st"
    and "\<not> prefix ''meta/revision/'' (op_key op) \<Longrightarrow> revisions st1 = revisions st"
    and "same_index st st' \<Longrightarrow> \<exists>st1'. ApplyMetadataMutationLocked now op st' = Some st1' \<and> same_index st1 st1'"
  using assms
  by (auto simp: ApplyMetadataMutationLocked_def Let_def same_index_def split: if_splits option.splits prod.splits)

lemma mutations_frame:
  assumes "ApplyMutations now ops st = Some st1"
  shows "engine st1 = engine st \<and> appliedRaftIndex st1 = appliedRaftIndex st"
    and "list_all (\<lambda>op. \<not> prefix ''meta/revision/'' (op_key op)) ops \<Longrightarrow> revisions st1 = revisions st"
    and "same_index st st' \<Longrightarrow> \<exists>st1'. ApplyMutations now ops st' = Some st1' \<and> same_index st1 st1'"
  using assms
proof (induction ops arbitrary: st st')
  case (Cons op ops)
  {
    case 1
    then show ?case by (auto split: option.splits dest!: Cons.IH(1) mutation_frame(1))
  next
    case 2
    then show ?case using Cons.IH(2) by (auto split: option.splits dest!: mutation_frame(2))
  next
    case 3
    then obtain st2 where st2: "ApplyMetadataMutationLocked now op st = Some st2" "ApplyMutations now ops st2 = Some st1"
      by (auto split: option.splits)
    from mutation_frame(3) [OF st2(1) 3(1)] Cons.IH(3) [OF _ st2(2)] show ?case by auto
  }
qed (auto)

lemma wf_write_revision:
  assumes "wf_write k p" and "p_modifications p \<noteq> []" and "ApplyMutations now (p_modifications p) st = Some st'"
  shows "CurrentRevisionLocked st' k' = (if k' = k then p_newRevision p else CurrentRevisionLocked st k')"
proof -
  let ?ops = "butlast (p_modifications p)" let ?r = "BatchPut (RevisionKey k) (to_string (p_newRevision p))"
  have m: "p_modifications p = ?ops @ [?r]" using assms(1,2) by (simp add: wf_write_def Let_def) (metis append_butlast_last_id)
  obtain st1 where st1: "ApplyMutations now ?ops st = Some st1" "st' = bump k (p_newRevision p) st1"
    using assms(3) by (subst (asm) m) (auto simp: ApplyMutations_append split: option.splits)
  have "revisions st1 = revisions st" using mutations_frame(2) [OF st1(1)] assms(1,2) by (simp add: wf_write_def Let_def)
  with st1(2) show ?thesis by (simp add: bump_def CurrentRevisionLocked_def)
qed

lemma ApplyBatchItems_mutations:
  assumes "ApplyMutations now (concat (map item_mods items)) st = Some st'"
    and "list_all (\<lambda>i. wf_write (i_key i) (i_prepared i)) items" and "same_index st q"
  shows "\<exists>q'. ApplyBatchItems now items q = Some (Ok, q') \<and> same_index st' q' \<and> engine q' = engine q \<and>
    appliedRaftIndex q' = appliedRaftIndex q"
  using assms
proof (induction items arbitrary: st q)
  case (Cons i items)
  then obtain st1 where st1: "ApplyMutations now (p_modifications (i_prepared i)) st = Some st1"
    "ApplyMutations now (concat (map item_mods items)) st1 = Some st'"
    by (auto simp: ApplyMutations_append item_mods_def [of i] split: option.splits)
  obtain q1 where q1: "ApplyMutations now (p_modifications (i_prepared i)) q = Some q1" "same_index st1 q1"
    using mutations_frame(3) [OF st1(1) Cons.prems(3)] by blast
  have r: "p_modifications (i_prepared i) \<noteq> [] \<Longrightarrow> CurrentRevisionLocked q1 (i_key i) = p_newRevision (i_prepared i)"
    using wf_write_revision [OF _ _ q1(1), of "i_key i"] Cons.prems(2) by simp
  obtain q' where "ApplyBatchItems now items q1 = Some (Ok, q')" "same_index st' q'" "engine q' = engine q1"
    "appliedRaftIndex q' = appliedRaftIndex q1"
    using Cons.IH [OF st1(2) _ q1(2)] Cons.prems(2) by auto
  with q1(1) r mutations_frame(1) [OF q1(1)] show ?case by (auto simp: Let_def)
qed (auto)

lemma StageBatchItems_check:
  assumes "StageBatchItems st prev items sr = Some (sr', ops)"
    and "\<And>k. prev < k \<Longrightarrow> currentOrStagedRevision st sr k = rv k"
  shows "CheckBatchItems rv prev items = Some ops \<and> ops = concat (map item_mods items)"
  using assms
proof (induction items arbitrary: prev sr sr' ops)
  case (Cons i items)
  let ?p = "i_prepared i"
  have k: "i_key i \<noteq> []" "prev \<noteq> [] \<Longrightarrow> prev < i_key i" "p_status ?p = Ok"
    using Cons.prems(1) by (auto simp: Let_def split: if_splits)
  have prev: "prev < i_key i" using k by (cases "prev = []") (auto simp: neq_Nil_conv)
  show ?case
  proof (cases "p_modifications ?p = []")
    case True
    then have "StageBatchItems st (i_key i) items sr = Some (sr', ops)"
      using Cons.prems(1) by (auto simp: Let_def split: if_splits)
    moreover have "currentOrStagedRevision st sr k = rv k" if "i_key i < k" for k
      using Cons.prems(2) [of k] prev that by (meson less_trans)
    ultimately show ?thesis using Cons.IH [of "i_key i" sr sr' ops] True k
      by (auto simp: Let_def item_mods_def)
  next
    case False
    then obtain ops' where ops': "StageBatchItems st (i_key i) items (om_put (i_key i) (p_newRevision ?p) sr) = Some (sr', ops')"
      "ops = p_modifications ?p @ ops'" "p_newRevision ?p = p_expectedRevision ?p + 1"
      "currentOrStagedRevision st sr (i_key i) = p_expectedRevision ?p"
      using Cons.prems(1) by (auto simp: Let_def split: if_splits option.splits)
    moreover have "currentOrStagedRevision st (om_put (i_key i) (p_newRevision ?p) sr) k = rv k" if "i_key i < k" for k
      using Cons.prems(2) [of k] prev that by (auto simp: currentOrStagedRevision_def)
    ultimately show ?thesis using Cons.IH [OF ops'(1)] Cons.prems(2) [OF prev] k
      by (auto simp: Let_def item_mods_def [of i])
  qed
qed simp

lemma StageBatchItems_revisions:
  assumes "StageBatchItems st prev items sr = Some (sr', ops)"
    and "list_all (\<lambda>i. wf_write (i_key i) (i_prepared i)) items"
    and "ApplyMutations now (concat (map item_mods items)) q = Some q'"
    and "\<And>k. currentOrStagedRevision st sr k = CurrentRevisionLocked q k"
  shows "currentOrStagedRevision st sr' k = CurrentRevisionLocked q' k"
  using assms
proof (induction items arbitrary: prev sr sr' ops q)
  case (Cons i items)
  let ?p = "i_prepared i"
  obtain q1 where q1: "ApplyMutations now (p_modifications ?p) q = Some q1"
    "ApplyMutations now (concat (map item_mods items)) q1 = Some q'"
    using Cons.prems(3) by (auto simp: ApplyMutations_append item_mods_def [of i] split: option.splits)
  show ?case
  proof (cases "p_modifications ?p = []")
    case True
    then show ?thesis using Cons.IH [OF _ _ q1(2), of "i_key i" sr sr' ops] Cons.prems q1(1)
      by (auto simp: Let_def split: if_splits)
  next
    case False
    then obtain ops' where ops': "StageBatchItems st (i_key i) items (om_put (i_key i) (p_newRevision ?p) sr) = Some (sr', ops')"
      using Cons.prems(1) by (auto simp: Let_def split: if_splits option.splits)
    have "currentOrStagedRevision st (om_put (i_key i) (p_newRevision ?p) sr) k = CurrentRevisionLocked q1 k" for k
      using wf_write_revision [OF _ False q1(1), of "i_key i" k] Cons.prems(2,4) by (auto simp: currentOrStagedRevision_def)
    with Cons.IH [OF ops' _ q1(2)] Cons.prems(2) show ?thesis by simp
  qed
qed simp

definition ApplyCommand ::
  "'e IKVEngine \<Rightarrow> u64 \<Rightarrow> PreparedApplyCommand \<Rightarrow> 'e MvccStorage \<Rightarrow> (TxnStatus \<times> 'e MvccStorage) option" where
  "ApplyCommand E now cmd st =
     (if \<not> c_isBatch cmd then ApplyPrepared E now st (c_key cmd) (c_single cmd) (c_raftIndex cmd)
      else ApplyPreparedBatch E now st (c_batch cmd) (c_raftIndex cmd))"

text \<open>An engine that accepts every batch as long as it is in good order.\<close>

definition accepts :: "'e IKVEngine \<Rightarrow> ('e \<Rightarrow> bool) \<Rightarrow> bool" where
  "accepts E ok \<longleftrightarrow> (\<forall>e ops. ok e \<longrightarrow> fst (kv_WriteBatch E e ops) \<and> ok (snd (kv_WriteBatch E e ops)))"

lemma accepted_batch:
  assumes "kv_engine E content" and "accepts E ok" and "ok e0"
  obtains e where "kv_WriteBatch E e0 ops = (True, e)" and "content e = apply_ops ops (content e0)" and "ok e"
proof -
  obtain b e where e: "kv_WriteBatch E e0 ops = (b, e)" by fastforce
  have "fst (kv_WriteBatch E e0 ops) \<and> ok (snd (kv_WriteBatch E e0 ops))" using assms(2,3) by (simp add: accepts_def)
  with e have "b" "ok e" by simp_all
  with e that kv_engine.batch_ok [OF assms(1)] show ?thesis by simp
qed

lemma command_ops_items: "c_isBatch cmd \<Longrightarrow> command_ops cmd = concat (map item_mods (b_items (c_batch cmd)))"
  by (simp add: command_ops_def item_mods_def cong: map_cong)

lemma StageCommand_revisions:
  assumes stage: "StageCommand st cmd sr = Some (sr1, ops)" and wf: "wf_command cmd"
    and rev: "\<And>k. currentOrStagedRevision st sr k = CurrentRevisionLocked q k"
    and g: "ApplyMutations now ops q = Some g"
  shows "currentOrStagedRevision st sr1 k = CurrentRevisionLocked g k"
proof (cases "c_isBatch cmd")
  case False
  let ?p = "c_single cmd"
  from stage False have p: "p_modifications ?p \<noteq> []" "sr1 = om_put (c_key cmd) (p_newRevision ?p) sr" "ops = p_modifications ?p"
    by (auto simp: StageCommand_def Let_def split: if_splits)
  from wf_write_revision [OF _ p(1), of "c_key cmd" now q g k] wf False g p rev show ?thesis
    by (auto simp: wf_command_def currentOrStagedRevision_def)
next
  case True
  from stage True have b: "StageBatchItems st [] (b_items (c_batch cmd)) sr = Some (sr1, ops)"
    by (auto simp: StageCommand_def Let_def split: if_splits)
  note ops = StageBatchItems_check [OF b refl, THEN conjunct2]
  show ?thesis
    by (rule StageBatchItems_revisions [OF b _ g [unfolded ops] rev]) (use wf True in \<open>simp add: wf_command_def\<close>)
qed

lemma StageCommand_step:
  assumes eng: "kv_engine E content" and acc: "accepts E ok"
    and stage: "StageCommand st cmd sr = Some (sr1, ops)" and wf: "wf_command cmd"
    and rev: "\<And>k. currentOrStagedRevision st sr k = CurrentRevisionLocked q k"
    and idx: "c_raftIndex cmd \<noteq> 0" "appliedRaftIndex q < c_raftIndex cmd"
    and g: "ApplyMutations now ops q = Some g" and okq: "ok (engine q)"
  shows "\<exists>q'. ok (engine q') \<and> ApplyCommand E now cmd q = Some (Ok, q') \<and> same_index g q' \<and> appliedRaftIndex q' = c_raftIndex cmd \<and>
    content (engine q') = (apply_ops ops (content (engine q)))(AppliedIndexKey \<mapsto> to_string (c_raftIndex cmd))"
proof -
  obtain e where e: "kv_WriteBatch E (engine q) (ops @ progress_ops (c_raftIndex cmd)) = (True, e)"
    "content e = (apply_ops ops (content (engine q)))(AppliedIndexKey \<mapsto> to_string (c_raftIndex cmd))" "ok e"
    using accepted_batch [OF eng acc okq, of "ops @ progress_ops (c_raftIndex cmd)"] idx(1)
    by (auto simp: progress_ops_def)
  let ?q = "q \<lparr> engine := e, writeBatchCount := writeBatchCount q + 1 \<rparr>"
  have same: "same_index q ?q" by (simp add: same_index_def)
  have fresh: "\<not> (c_raftIndex cmd \<noteq> 0 \<and> c_raftIndex cmd \<le> appliedRaftIndex q)" using idx by simp
  show ?thesis
  proof (cases "c_isBatch cmd")
    case False
    let ?p = "c_single cmd"
    from stage False have p: "known_version (p_commandVersion ?p)" "p_status ?p = Ok" "p_modifications ?p \<noteq> []"
      "p_newRevision ?p = p_expectedRevision ?p + 1" "CurrentRevisionLocked q (c_key cmd) = p_expectedRevision ?p"
      "sr1 = om_put (c_key cmd) (p_newRevision ?p) sr" "ops = p_modifications ?p"
      by (auto simp: StageCommand_def Let_def rev split: if_splits)
    obtain q1 where q1: "ApplyMutations now (p_modifications ?p) ?q = Some q1" "same_index g q1"
      using mutations_frame(3) [OF g same] p(7) by auto
    have r: "CurrentRevisionLocked q1 k = (if k = c_key cmd then p_newRevision ?p else CurrentRevisionLocked q k)" for k
      using wf_write_revision [OF _ p(3) q1(1), of "c_key cmd" k] wf False by (simp add: wf_command_def)
    have "ApplyCommand E now cmd q = Some (Ok, q1 \<lparr> appliedRaftIndex := c_raftIndex cmd \<rparr>)"
      using p e(1) q1(1) r False fresh idx(1) by (simp add: ApplyCommand_def ApplyPrepared_def)
    moreover have "engine q1 = e" using mutations_frame(1) [OF q1(1)] by simp
    ultimately show ?thesis using q1(2) e(2,3) by (auto simp: same_index_def)
  next
    case True
    let ?b = "c_batch cmd"
    from stage True have b: "b_commandVersion ?b = kBatchCommandVersion" "b_status ?b = Ok" "b_items ?b \<noteq> []"
      "StageBatchItems st [] (b_items ?b) sr = Some (sr1, ops)"
      by (auto simp: StageCommand_def Let_def split: if_splits)
    from StageBatchItems_check [OF b(4), of "CurrentRevisionLocked q"] rev
    have chk: "CheckBatchItems (CurrentRevisionLocked q) [] (b_items ?b) = Some ops"
      and ops: "ops = concat (map item_mods (b_items ?b))" by auto
    have wfi: "list_all (\<lambda>i. wf_write (i_key i) (i_prepared i)) (b_items ?b)" using wf True by (simp add: wf_command_def)
    obtain q1 where q1: "ApplyBatchItems now (b_items ?b) ?q = Some (Ok, q1)" "same_index g q1" "engine q1 = e"
      using ApplyBatchItems_mutations [OF g [unfolded ops] wfi same] by auto
    have ne: "ops @ progress_ops (c_raftIndex cmd) \<noteq> []" using idx(1) by (simp add: progress_ops_def)
    have "ApplyCommand E now cmd q = Some (Ok, q1 \<lparr> appliedRaftIndex := c_raftIndex cmd \<rparr>)"
      using b e(1) chk ne q1(1) True fresh idx(1) by (simp add: ApplyCommand_def ApplyPreparedBatch_def)
    then show ?thesis using q1 e(2,3) by (auto simp: same_index_def)
  qed
qed

lemma StageCommands_ops:
  "StageCommands st prev cmds sr = Some (sr', ops) \<Longrightarrow> ops = concat (map command_ops cmds)"
proof (induction cmds arbitrary: prev sr sr' ops)
  case (Cons cmd cmds)
  then obtain sr1 ops1 ops2 where s: "StageCommand st cmd sr = Some (sr1, ops1)"
    "StageCommands st (c_raftIndex cmd) cmds sr1 = Some (sr', ops2)" "ops = ops1 @ ops2"
    by (auto split: if_splits option.splits)
  have "ops1 = command_ops cmd"
  proof (cases "c_isBatch cmd")
    case True
    then have "StageBatchItems st [] (b_items (c_batch cmd)) sr = Some (sr1, ops1)"
      using s(1) by (auto simp: StageCommand_def Let_def split: if_splits)
    from StageBatchItems_check [OF this refl] True show ?thesis by (simp add: command_ops_items)
  qed (use s(1) in \<open>auto simp: StageCommand_def Let_def command_ops_def split: if_splits\<close>)
  with s Cons.IH show ?case by simp
qed simp

lemma apply_op_pointwise: "c x = c' x \<Longrightarrow> apply_op op c x = apply_op op c' x"
  by (cases "op_type op") (simp_all add: apply_op_def)

lemma apply_ops_pointwise: "c x = c' x \<Longrightarrow> apply_ops ops c x = apply_ops ops c' x"
proof (induction ops arbitrary: c c')
  case (Cons op ops)
  have "apply_op op c x = apply_op op c' x" using Cons.prems by (rule apply_op_pointwise)
  from Cons.IH [of "apply_op op c" "apply_op op c'", OF this] show ?case by simp
qed simp

lemma StageCommands_sequential:
  assumes eng: "kv_engine E content" and acc: "accepts E ok"
    and "StageCommands st (appliedRaftIndex q) cmds sr = Some (sr', ops)" and "list_all wf_command cmds"
    and "\<And>k. currentOrStagedRevision st sr k = CurrentRevisionLocked q k"
    and "ApplyMutations now ops q = Some g" and "ok (engine q)"
  shows "\<exists>q'. ApplySequentially E now cmds q = Some (True, q') \<and> same_index g q' \<and>
    appliedRaftIndex q' = (if cmds = [] then appliedRaftIndex q else c_raftIndex (last cmds)) \<and>
    (\<forall>x. x \<noteq> AppliedIndexKey \<longrightarrow> content (engine q') x = apply_ops ops (content (engine q)) x) \<and>
    (cmds \<noteq> [] \<longrightarrow> content (engine q') AppliedIndexKey = Some (to_string (c_raftIndex (last cmds))))"
  using assms(3-7)
proof (induction cmds arbitrary: q sr sr' ops g)
  case (Cons cmd cmds)
  then obtain sr1 ops1 ops2 where s: "StageCommand st cmd sr = Some (sr1, ops1)"
    "StageCommands st (c_raftIndex cmd) cmds sr1 = Some (sr', ops2)" "ops = ops1 @ ops2"
    "c_raftIndex cmd \<noteq> 0" "appliedRaftIndex q < c_raftIndex cmd"
    by (auto split: if_splits option.splits)
  obtain g1 where g1: "ApplyMutations now ops1 q = Some g1" "ApplyMutations now ops2 g1 = Some g"
    using Cons.prems(4) s(3) by (auto simp: ApplyMutations_append split: option.splits)
  have wf: "wf_command cmd" using Cons.prems(2) by simp
  from StageCommand_step [OF eng acc s(1) wf Cons.prems(3) s(4,5) g1(1) Cons.prems(5)]
  obtain q1 where okq1: "ok (engine q1)" and q1: "ApplyCommand E now cmd q = Some (Ok, q1)" "same_index g1 q1" "appliedRaftIndex q1 = c_raftIndex cmd"
    "content (engine q1) = (apply_ops ops1 (content (engine q)))(AppliedIndexKey \<mapsto> to_string (c_raftIndex cmd))" by auto
  have rev1: "currentOrStagedRevision st sr1 k = CurrentRevisionLocked q1 k" for k
    using StageCommand_revisions [OF s(1) wf Cons.prems(3) g1(1)] same_index_revision [OF q1(2)] by simp
  obtain g' where g': "ApplyMutations now ops2 q1 = Some g'" "same_index g g'"
    using mutations_frame(3) [OF g1(2) q1(2)] by blast
  have "StageCommands st (appliedRaftIndex q1) cmds sr1 = Some (sr', ops2)" "list_all wf_command cmds"
    using s(2) q1(3) Cons.prems(2) by simp_all
  from Cons.IH [OF this rev1 g'(1) okq1] obtain q' where q': "ApplySequentially E now cmds q1 = Some (True, q')"
    "same_index g' q'" "appliedRaftIndex q' = (if cmds = [] then appliedRaftIndex q1 else c_raftIndex (last cmds))"
    "\<forall>x. x \<noteq> AppliedIndexKey \<longrightarrow> content (engine q') x = apply_ops ops2 (content (engine q1)) x"
    "cmds \<noteq> [] \<longrightarrow> content (engine q') AppliedIndexKey = Some (to_string (c_raftIndex (last cmds)))" by blast
  have "content (engine q') x = apply_ops ops (content (engine q)) x" if "x \<noteq> AppliedIndexKey" for x
    using q'(4) that q1(4) by (auto simp: s(3) intro: apply_ops_pointwise)
  moreover have "content (engine q') AppliedIndexKey = Some (to_string (c_raftIndex (last (cmd # cmds))))"
  proof (cases "cmds = []")
    case True
    with q'(1) q1(4) show ?thesis by simp
  qed (simp add: q'(5))
  moreover have "ApplySequentially E now (cmd # cmds) q = Some (True, q')"
    using q1(1) q'(1) by (simp add: ApplyCommand_def)
  ultimately show ?case using q'(2,3) q1(3) same_index_trans [OF g'(2)] by auto
qed simp

lemma StageBatchItems_ok: "StageBatchItems st prev items sr = Some (sr', ops) \<Longrightarrow> om_ok sr \<Longrightarrow> om_ok sr'"
proof (induction items arbitrary: prev sr ops)
  case (Cons i items)
  then show ?case by (cases "p_modifications (i_prepared i) = []") (auto simp: Let_def split: if_splits option.splits)
qed simp

lemma StageCommands_staged:
  assumes "StageCommands st prev cmds sr = Some (sr', ops)" and "list_all wf_command cmds" and "om_ok sr"
    and "\<And>k. currentOrStagedRevision st sr k = CurrentRevisionLocked q k"
    and "ApplyMutations now ops q = Some g"
  shows "om_ok sr' \<and> (\<forall>k. currentOrStagedRevision st sr' k = CurrentRevisionLocked g k)"
  using assms
proof (induction cmds arbitrary: prev sr ops q)
  case (Cons cmd cmds)
  then obtain sr1 ops1 ops2 where s: "StageCommand st cmd sr = Some (sr1, ops1)"
    "StageCommands st (c_raftIndex cmd) cmds sr1 = Some (sr', ops2)" "ops = ops1 @ ops2"
    by (auto split: if_splits option.splits)
  obtain g1 where g1: "ApplyMutations now ops1 q = Some g1" "ApplyMutations now ops2 g1 = Some g"
    using Cons.prems(5) s(3) by (auto simp: ApplyMutations_append split: option.splits)
  have wf: "wf_command cmd" "list_all wf_command cmds" using Cons.prems(2) by simp_all
  have "om_ok sr1" using s(1) Cons.prems(3) StageBatchItems_ok
    by (auto simp: StageCommand_def Let_def split: if_splits)
  from Cons.IH [OF s(2) wf(2) this StageCommand_revisions [OF s(1) wf(1) Cons.prems(4) g1(1)] g1(2)] show ?case .
qed simp

lemma StageCommands_staged_ok:
  assumes "StageCommands st prev cmds [] = Some (sr, ops)" and "list_all wf_command cmds"
    and "ApplyMutations now ops st = Some g"
  shows "\<not> list_ex (\<lambda>x. CurrentRevisionLocked g (fst x) \<noteq> snd x) sr"
proof -
  have s: "om_ok sr \<and> (\<forall>k. currentOrStagedRevision st sr k = CurrentRevisionLocked g k)"
    by (rule StageCommands_staged [OF assms(1,2) _ _ assms(3)]) (simp_all add: currentOrStagedRevision_def)
  have "snd x = CurrentRevisionLocked g (fst x)" if "x \<in> set sr" for x
    using that s om_lookup_iff [of sr "fst x" "snd x"]
    by (auto simp: currentOrStagedRevision_def split: option.splits)
  then show ?thesis by (simp add: list_ex_iff)
qed

lemma Atomically_cases:
  assumes "ApplyPreparedCommandsAtomically E now st cmds = Some (b, st')"
  obtains (rejected) "\<not> b" and "st' = st"
    | (engine) e ops where "\<not> b" and "kv_WriteBatch E (engine st) ops = (False, e)" and "st' = st \<lparr> engine := e \<rparr>"
    | (applied) sr ops e g where "cmds \<noteq> []" and "StageCommands st (appliedRaftIndex st) cmds [] = Some (sr, ops)"
        and "kv_WriteBatch E (engine st) (ops @ [BatchPut AppliedIndexKey (to_string (c_raftIndex (last cmds)))]) = (True, e)"
        and "ApplyMutations now ops (st \<lparr> engine := e, writeBatchCount := writeBatchCount st + 1 \<rparr>) = Some g"
        and "(b, st') = (if list_ex (\<lambda>x. CurrentRevisionLocked g (fst x) \<noteq> snd x) sr then (False, g)
              else (True, g \<lparr> appliedRaftIndex := c_raftIndex (last cmds) \<rparr>))"
proof -
  consider "cmds = [] \<or> StageCommands st (appliedRaftIndex st) cmds [] = None"
    | sr where "StageCommands st (appliedRaftIndex st) cmds [] = Some (sr, [])" and "cmds \<noteq> []"
    | sr ops where "cmds \<noteq> []" "StageCommands st (appliedRaftIndex st) cmds [] = Some (sr, ops)" "ops \<noteq> []"
    by (metis option.exhaust surj_pair)
  then show thesis
  proof cases
    case 1
    then have "ApplyPreparedCommandsAtomically E now st cmds = Some (False, st)"
      by (cases "cmds = []") (simp_all add: ApplyPreparedCommandsAtomically_def)
    with assms rejected show thesis by simp
  next
    case 2
    with assms rejected show thesis by (simp add: ApplyPreparedCommandsAtomically_def)
  next
    case (3 sr ops)
    let ?i = "c_raftIndex (last cmds)"
    obtain b' e where w: "kv_WriteBatch E (engine st) (ops @ [BatchPut AppliedIndexKey (to_string ?i)]) = (b', e)"
      by fastforce
    let ?st1 = "st \<lparr> engine := e, writeBatchCount := writeBatchCount st + 1 \<rparr>"
    have u: "ApplyPreparedCommandsAtomically E now st cmds =
        (if \<not> b' then Some (False, st \<lparr> engine := e \<rparr>)
         else case ApplyMutations now (concat (map command_ops cmds)) ?st1 of
                None \<Rightarrow> None
              | Some g \<Rightarrow> Some (if list_ex (\<lambda>x. CurrentRevisionLocked g (fst x) \<noteq> snd x) sr then (False, g)
                  else (True, g \<lparr> appliedRaftIndex := ?i \<rparr>)))"
      using 3 w by (cases b') (auto simp: ApplyPreparedCommandsAtomically_def Let_def split: option.split)
    show thesis
    proof (cases b')
      case False
      with assms u w engine show thesis by auto
    next
      case True
      with assms u obtain g where g: "ApplyMutations now (concat (map command_ops cmds)) ?st1 = Some g"
        "(b, st') = (if list_ex (\<lambda>x. CurrentRevisionLocked g (fst x) \<noteq> snd x) sr then (False, g)
              else (True, g \<lparr> appliedRaftIndex := ?i \<rparr>))"
        by (cases "ApplyMutations now (concat (map command_ops cmds)) ?st1") simp_all
      have "ApplyMutations now ops ?st1 = Some g" using g(1) unfolding StageCommands_ops [OF 3(2)] .
      from applied [OF 3(1,2) _ this g(2)] w True show thesis by simp
    qed
  qed
qed

text \<open>
  C7. Group apply refines sequential apply: when the atomic group apply of a run of log entries succeeds,
  applying the same commands one at a time succeeds too, ends with the same locks, versions, revisions
  and apply index, and leaves the same engine rows.
\<close>

theorem group_apply_is_sequential:
  assumes eng: "kv_engine E content" and acc: "accepts E ok"
    and okst: "ok (engine st)" and wf: "list_all wf_command cmds"
    and run: "ApplyPreparedCommandsAtomically E now st cmds = Some (True, st')"
  shows "\<exists>q. ApplySequentially E now cmds st = Some (True, q) \<and> same_index st' q \<and>
    appliedRaftIndex q = appliedRaftIndex st' \<and> content (engine q) = content (engine st')"
  using run
proof (cases rule: Atomically_cases)
  case (applied sr ops e g)
  let ?st1 = "st \<lparr> engine := e, writeBatchCount := writeBatchCount st + 1 \<rparr>"
  obtain g1 where g1: "ApplyMutations now ops st = Some g1" "same_index g g1"
    using mutations_frame(3) [OF applied(4), of st] by (auto simp: same_index_def)
  from StageCommands_sequential [OF eng acc applied(2) wf _ g1(1) okst]
  obtain q where q: "ApplySequentially E now cmds st = Some (True, q)" "same_index g1 q"
    "appliedRaftIndex q = c_raftIndex (last cmds)"
    "\<And>x. x \<noteq> AppliedIndexKey \<Longrightarrow> content (engine q) x = apply_ops ops (content (engine st)) x"
    "content (engine q) AppliedIndexKey = Some (to_string (c_raftIndex (last cmds)))"
    using applied(1) by (auto simp: currentOrStagedRevision_def)
  have st': "st' = g \<lparr> appliedRaftIndex := c_raftIndex (last cmds) \<rparr>" using applied(5) by (simp split: if_splits)
  have "engine st' = e" using mutations_frame(1) [OF applied(4)] by (simp add: st')
  then have "content (engine st') = (apply_ops ops (content (engine st)))(AppliedIndexKey \<mapsto> to_string (c_raftIndex (last cmds)))"
    using kv_engine.batch_ok [OF eng applied(3)] by simp
  then have "content (engine q) = content (engine st')" using q(4,5) by (simp add: fun_eq_iff)
  moreover have "same_index st' q" using same_index_trans [OF g1(2) q(2)] by (simp add: st' same_index_def)
  ultimately show ?thesis using q(1,3) by (simp add: st')
qed simp_all

lemma group_apply_succeeds:
  assumes "cmds \<noteq> []" and stage: "StageCommands st (appliedRaftIndex st) cmds [] = Some (sr, ops)" and "ops \<noteq> []"
    and "kv_WriteBatch E (engine st) (ops @ [BatchPut AppliedIndexKey (to_string (c_raftIndex (last cmds)))]) = (True, e)"
    and g: "ApplyMutations now ops st = Some g" and wf: "list_all wf_command cmds"
  shows "\<exists>st'. ApplyPreparedCommandsAtomically E now st cmds = Some (True, st')"
proof -
  obtain g' where g': "ApplyMutations now ops (st \<lparr> engine := e, writeBatchCount := writeBatchCount st + 1 \<rparr>) = Some g'"
    "same_index g g'"
    using mutations_frame(3) [OF g, of "st \<lparr> engine := e, writeBatchCount := writeBatchCount st + 1 \<rparr>"]
    by (auto simp: same_index_def)
  have "\<not> list_ex (\<lambda>x. CurrentRevisionLocked g' (fst x) \<noteq> snd x) sr"
    using StageCommands_staged_ok [OF stage wf g] same_index_revision [OF g'(2)] by simp
  then show ?thesis
    using assms(1-4) g'(1) by (simp add: ApplyPreparedCommandsAtomically_def StageCommands_ops [OF stage, symmetric])
qed

text \<open>Two log entries on the sample store: a rollback, and the commit of the pending transaction as a batch.\<close>

definition sample_commands :: "PreparedApplyCommand list" where
  "sample_commands =
     [\<lparr> c_raftIndex = 1, c_isBatch = False, c_key = ''c'', c_single = PrepareRollback sample_store ''c'' 9, c_batch = new_batch \<rparr>,
      \<lparr> c_raftIndex = 2, c_isBatch = True, c_key = [], c_single = new_prepared,
        c_batch = PrepareBatchCommit sample_store [''b''] 8 12 \<rparr>]"

theorem group_apply_is_sequential_witness:
  "\<exists>st' q. ApplyPreparedCommandsAtomically mem_engine 0 sample_store sample_commands = Some (True, st') \<and>
     ApplySequentially mem_engine 0 sample_commands sample_store = Some (True, q) \<and> same_index st' q \<and>
     map_of (fst (engine q)) = map_of (fst (engine st'))"
proof -
  have acc: "accepts mem_engine (\<lambda>e. \<not> snd e)"
    by (simp add: accepts_def RocksDbKVEngine_def RocksWriteBatch_def mem_rocksdb_def mem_upd_def)
  have ok: "\<not> snd (engine sample_store)" "list_all wf_command sample_commands" by code_simp+
  let ?ops = "[BatchDelete (DataKey ''c'' 9), BatchPut (WriteKey ''c'' 9) (EncodeWriteValue (RollbackWrite 9)),
    BatchPut (RevisionKey ''c'') (to_string 1),
    BatchPut (WriteKey ''b'' 12) (EncodeWriteValue \<lparr> w_startTs = 8, w_commitTs = 12, w_type = WtPut \<rparr>),
    BatchDelete (LockKey ''b''), BatchPut (RevisionKey ''b'') (to_string 2)]"
  have stage: "StageCommands sample_store (appliedRaftIndex sample_store) sample_commands [] = Some ([(''b'', 2), (''c'', 1)], ?ops)"
    by code_simp
  have "\<exists>g. ApplyMutations 0 ?ops sample_store = Some g" by (simp add: RollbackWrite_def)
  moreover have "fst (kv_WriteBatch mem_engine (engine sample_store) ops)" for ops
    using acc ok(1) unfolding accepts_def by blast
  then have "\<exists>e. kv_WriteBatch mem_engine (engine sample_store) ops = (True, e)" for ops
    by (metis (full_types) prod.collapse)
  moreover have "sample_commands \<noteq> []" by (simp add: sample_commands_def)
  ultimately obtain st' where run: "ApplyPreparedCommandsAtomically mem_engine 0 sample_store sample_commands = Some (True, st')"
    using group_apply_succeeds [OF _ stage _ _ _ ok(2)] by blast
  from group_apply_is_sequential [OF mem.eng.kv_engine_axioms acc ok run] run show ?thesis by blast
qed

text \<open>
  C11. Group apply is all or nothing: when it reports failure, no row of the engine and no index has
  changed, so that the caller can fall back to applying the entries one at a time.
\<close>

theorem group_apply_all_or_nothing:
  assumes eng: "kv_engine E content" and wf: "list_all wf_command cmds"
    and run: "ApplyPreparedCommandsAtomically E now st cmds = Some (False, st')"
  shows "content (engine st') = content (engine st) \<and> same_index st st' \<and> appliedRaftIndex st' = appliedRaftIndex st"
  using run
proof (cases rule: Atomically_cases)
  case rejected
  then show ?thesis by simp
next
  case (engine e ops)
  then show ?thesis using kv_engine.batch_fail [OF eng] by (simp add: same_index_def)
next
  case (applied sr ops e g)
  obtain g1 where g1: "ApplyMutations now ops st = Some g1" "same_index g g1"
    using mutations_frame(3) [OF applied(4), of st] by (auto simp: same_index_def)
  have "\<not> list_ex (\<lambda>x. CurrentRevisionLocked g (fst x) \<noteq> snd x) sr"
    using StageCommands_staged_ok [OF applied(2) wf g1(1)] same_index_revision [OF g1(2)] by simp
  with applied(5) show ?thesis by simp
qed

theorem group_apply_all_or_nothing_witness:
  "\<exists>st'. ApplyPreparedCommandsAtomically mem_engine 0 (sample_store \<lparr> appliedRaftIndex := 1 \<rparr>) sample_commands = Some (False, st') \<and>
     same_index sample_store st'"
proof -
  have wf: "list_all wf_command sample_commands" by code_simp
  let ?st = "sample_store \<lparr> appliedRaftIndex := 1 \<rparr>"
  have "StageCommands ?st (appliedRaftIndex ?st) sample_commands [] = None" by (simp add: sample_commands_def)
  then have run: "ApplyPreparedCommandsAtomically mem_engine 0 ?st sample_commands = Some (False, ?st)"
    by (simp add: ApplyPreparedCommandsAtomically_def)
  from group_apply_all_or_nothing [OF mem.eng.kv_engine_axioms wf run] run show ?thesis by (auto simp: same_index_def)
qed

section \<open>Replay\<close>

definition write_valid :: "PreparedMvccWrite \<Rightarrow> bool" where
  "write_valid p \<longleftrightarrow> known_version (p_commandVersion p) \<and> p_status p = Ok \<and> p_modifications p \<noteq> [] \<and>
     p_newRevision p = p_expectedRevision p + 1"

lemma ApplyPrepared_invalid: "\<not> write_valid p \<Longrightarrow> ApplyPrepared E now st k p i = Some (StorageError, st)"
  unfolding ApplyPrepared_def write_valid_def by (rule if_P) blast

lemma ApplyPrepared_replay:
  "write_valid p \<Longrightarrow> i \<noteq> 0 \<Longrightarrow> i \<le> appliedRaftIndex st \<Longrightarrow> ApplyPrepared E now st k p i = Some (Ok, st)"
  by (simp add: ApplyPrepared_def write_valid_def)

lemma ApplyPrepared_index:
  assumes "ApplyPrepared E now st k p i = Some (Ok, st')" and "i \<noteq> 0"
  shows "i \<le> appliedRaftIndex st'"
proof (cases "\<not> write_valid p \<or> i \<le> appliedRaftIndex st \<or> CurrentRevisionLocked st k \<noteq> p_expectedRevision p")
  case True
  then show ?thesis
    using assms ApplyPrepared_invalid [of p E now st k i] ApplyPrepared_replay [of p i st E now k]
    by (cases "write_valid p"; cases "i \<le> appliedRaftIndex st") (auto simp: ApplyPrepared_def write_valid_def)
next
  case False
  obtain b e where w: "kv_WriteBatch E (engine st) (p_modifications p @ progress_ops i) = (b, e)" by fastforce
  show ?thesis
    using assms False w
    by (cases b; cases "ApplyMutations now (p_modifications p) (st \<lparr> engine := e, writeBatchCount := writeBatchCount st + 1 \<rparr>)")
       (auto simp: ApplyPrepared_def write_valid_def split: if_split_asm)
qed

text \<open>
  C17. A log entry is applied once: after a prepared command has been applied at a log index, applying it
  again at that index answers success and changes nothing, also on the storage reopened after a crash,
  whose reads are those of the storage before it.
\<close>

theorem replay_after_crash_is_noop:
  assumes eng: "kv_engine E content" and reach: "mvcc_reach E content st" and rq: "rq_ok rq" and i: "i \<noteq> 0"
    and run: "ApplyPrepared E now st (rq_key rq) (prepare E now st rq) i = Some (Ok, st')"
  shows "ApplyPrepared E now' st' (rq_key rq) (prepare E now st rq) i = Some (Ok, st') \<and>
    (\<exists>st2. OpenMvccStorage E now' (engine st') = Some st2 \<and> same_reads E st' st2 \<and>
       ApplyPrepared E now' st2 (rq_key rq) (prepare E now st rq) i = Some (Ok, st2))"
proof -
  have "run_call E now (CallApply rq i) st = Some st'" using run by simp
  then have reach': "mvcc_reach E content st'" by (rule mr_call [OF reach, rotated]) (simp add: rq)
  have valid: "write_valid (prepare E now st rq)"
  proof (rule ccontr)
    assume "\<not> write_valid (prepare E now st rq)"
    from ApplyPrepared_invalid [OF this, of E now st "rq_key rq" i] run show False by simp
  qed
  note again = ApplyPrepared_replay [OF valid i]
  have applied: "i \<le> appliedRaftIndex st'" by (rule ApplyPrepared_index [OF run i])
  moreover from restart_preserves_state [OF eng reach', of now'] obtain st2 where
    o: "OpenMvccStorage E now' (engine st') = Some st2" "same_reads E st' st2" and "same_records st' st2" by blast
  ultimately have "i \<le> appliedRaftIndex st2" by (simp only: same_records_def)
  from again [OF this] again [OF applied] o show ?thesis by blast
qed

theorem replay_after_crash_is_noop_witness:
  "\<exists>st'. ApplyPrepared mem_engine 0 sample_store ''c'' (PrepareRollback sample_store ''c'' 9) 1 = Some (Ok, st') \<and>
     ApplyPrepared mem_engine 5 st' ''c'' (PrepareRollback sample_store ''c'' 9) 1 = Some (Ok, st')"
proof -
  let ?rq = "RqRollback ''c'' 9"
  have inv: "mvcc_inv sample_store" using mvcc_reach_inv [OF mem.eng.kv_engine_axioms sample_store_reach] by simp
  have ch: "p_modifications (prepare mem_engine 0 sample_store ?rq) \<noteq> []" by code_simp
  have i: "appliedRaftIndex sample_store = 0" by code_simp
  define eff where "eff = rq_eff 0 sample_store ?rq"
  from prepare_eff [OF inv _ ch] have p: "prepared_eff sample_store ''c'' eff (prepare mem_engine 0 sample_store ?rq)"
    by (simp add: eff_def del: eff_guard.simps)
  have sh: "eff_shape ''c'' eff" by (simp add: eff_def)
  have acc: "accepts mem_engine (\<lambda>e. \<not> snd e)"
    by (simp add: accepts_def RocksDbKVEngine_def RocksWriteBatch_def mem_rocksdb_def mem_upd_def)
  have ok: "\<not> snd (engine sample_store)" by code_simp
  obtain e where "kv_WriteBatch mem_engine (engine sample_store)
      (eff_ops ''c'' (norm_eff eff) @ RevisionMutation sample_store ''c'' # progress_ops 1) = (True, e)"
    by (rule accepted_batch [OF mem.eng.kv_engine_axioms acc ok])
  then obtain st' where "run_effect mem_engine sample_store ''c'' (norm_eff eff) 1 = (Ok, st')"
    unfolding run_effect_def by auto
  then have run: "ApplyPrepared mem_engine 0 sample_store (rq_key ?rq) (prepare mem_engine 0 sample_store ?rq) 1 = Some (Ok, st')"
    using ApplyPrepared_eff [OF p sh, of mem_engine 0 1] by (simp add: i)
  from replay_after_crash_is_noop [OF mem.eng.kv_engine_axioms sample_store_reach _ _ run, of 5] run show ?thesis by auto
qed

section \<open>Direct and replicated operations\<close>

lemma om_put_same: "om_ok m \<Longrightarrow> map_of m k = Some v \<Longrightarrow> om_put k v m = m"
proof (induction m)
  case (Cons e m)
  then show ?case
    using map_of_SomeD [of m k v] by (cases e) (fastforce simp: om_ok_Cons split: if_splits)
qed simp

text \<open>A rollback of a transaction that is already rolled back on the key writes the record it finds.\<close>

lemma rollback_again:
  assumes inv: "mvcc_inv st" and f: "find (\<lambda>x. w_startTs (snd x) = s) (versions st k) = Some x" and "w_type (snd x) = WtRollback"
  shows "versions (snd (Rollback E st k s)) k' = versions st k'"
    and "fst (Rollback E st k s) = Ok \<Longrightarrow> CurrentRevisionLocked (snd (Rollback E st k s)) k = CurrentRevisionLocked st k + 1"
proof -
  have ok: "om_ok (versions st k)" "\<forall>y \<in> set (versions st k). version_ok y"
    using mvcc_inv_key [OF inv, of k] by (simp_all add: key_inv_def)
  obtain t w where x: "x = (t, w)" by (cases x)
  with find_Some_D [OF f] assms(3) have xs: "(t, w) \<in> set (versions st k)" "w_startTs w = s" "w_type w = WtRollback" by auto
  then have "version_ok (t, w)" using ok(2) by blast
  then have "t = s" "w = RollbackWrite s"
    using xs(2,3) rollback_version [of t w] by (auto simp: version_ok_def)
  then have "map_of (versions st k) s = Some (RollbackWrite s)" using xs(1) om_lookup_iff [OF ok(1)] by blast
  from om_put_same [OF ok(1) this] have put: "om_put s (RollbackWrite s) (versions st k) = versions st k" .
  have r: "Rollback E st k s = (AlreadyCommitted, st) \<or> Rollback E st k s = run_effect E st k (RollbackAt s (owns_lock st k s)) 0"
    using commit_batch_eff [of _ k "RollbackAt s (owns_lock st k s)" E st]
    by (simp add: Rollback_def rollback_ops_def fun_eq_iff)
  show "versions (snd (Rollback E st k s)) k' = versions st k'"
    using r put by (auto simp: run_effect_def Let_def split: prod.splits bool.splits)
  show "CurrentRevisionLocked (snd (Rollback E st k s)) k = CurrentRevisionLocked st k + 1" if "fst (Rollback E st k s) = Ok"
    using r that by (auto simp: run_effect_def Let_def split: prod.splits bool.splits)
qed



end
