(* ===== verification/RegionMetadata.thy ===== *)
theory RegionMetadata
  imports StrataPrelude
begin

text \<open>
  Region topology metadata (\<open>transaction/region_metadata\<close>): descriptors, the catalog constructor that
  validates and completes them, lookups by key, identifier and node, the protobuf form and the digest.
  Keys compare bytewise, which is the order of character lists here. Exceptions are the values of
  \<open>region_error\<close>.
\<close>

section \<open>Descriptors\<close>

record RegionEpoch =
  ep_version :: u64
  ep_confVersion :: u64

record RegionPeerLocation =
  pl_nodeId :: int
  pl_host :: string
  pl_port :: int
  pl_storeId :: u64
  pl_peerId :: u64
  pl_isLearner :: bool

text \<open>\<open>splitPending\<close> is the split key and the prepared child.\<close>

datatype RegionMetadata = RegionMetadata
  (r_regionId: int) (r_startKey: string) (r_endKey: string) (r_peers: "RegionPeerLocation list")
  (r_epoch: RegionEpoch) (r_metadataRevision: u64) (r_leaderPeerId: u64)
  (r_splitPending: "(string \<times> RegionMetadata) option")

datatype region_error = InvalidArgument | OutOfRange

type_synonym 'a region_result = "region_error + 'a"

fun set_peers :: "RegionPeerLocation list \<Rightarrow> RegionMetadata \<Rightarrow> RegionMetadata" where
  "set_peers ps (RegionMetadata i a b _ e m l s) = RegionMetadata i a b ps e m l s"

fun set_leader :: "u64 \<Rightarrow> RegionMetadata \<Rightarrow> RegionMetadata" where
  "set_leader l (RegionMetadata i a b ps e m _ s) = RegionMetadata i a b ps e m l s"

definition RegionBytewiseLess :: "string \<Rightarrow> string \<Rightarrow> bool" where
  "RegionBytewiseLess lhs rhs \<longleftrightarrow> lhs < rhs"

definition Contains :: "RegionMetadata \<Rightarrow> string \<Rightarrow> bool" where
  "Contains region key \<longleftrightarrow> \<not> RegionBytewiseLess key (r_startKey region) \<and>
     (r_endKey region = [] \<or> RegionBytewiseLess key (r_endKey region))"

definition FindPeer :: "RegionMetadata \<Rightarrow> u64 \<Rightarrow> RegionPeerLocation option" where
  "FindPeer region wantedPeerId = find (\<lambda>peer. pl_peerId peer = wantedPeerId) (r_peers region)"

section \<open>Catalog\<close>

text \<open>
  The peer loop of the constructor: missing store and peer identifiers are filled in, peer identifiers
  are unique over the catalog and a store has one endpoint.
\<close>

definition default_store :: "RegionPeerLocation \<Rightarrow> RegionPeerLocation" where
  "default_store peer = (if pl_storeId peer = 0 then peer \<lparr> pl_storeId := of_int (pl_nodeId peer) + 1 \<rparr> else peer)"

definition default_peer_id :: "int \<Rightarrow> nat \<Rightarrow> RegionPeerLocation \<Rightarrow> RegionPeerLocation" where
  "default_peer_id regionId peerIndex peer =
     (if pl_peerId peer = 0
      then peer \<lparr> pl_peerId := (of_int regionId + 1) * 1000000 + of_nat peerIndex + 1 \<rparr> else peer)"

type_synonym store_table = "(u64 \<times> string \<times> int) list"

fun CheckPeers ::
  "int \<Rightarrow> nat \<Rightarrow> RegionPeerLocation list \<Rightarrow> u64 list \<Rightarrow> store_table \<Rightarrow>
   (RegionPeerLocation list \<times> u64 list \<times> store_table) option" where
  "CheckPeers regionId peerIndex [] peerIds stores = Some ([], peerIds, stores)"
| "CheckPeers regionId peerIndex (p # ps) peerIds stores =
     (if pl_nodeId p < 0 \<or> pl_host p = [] \<or> pl_port p \<le> 0 then None
      else let peer = default_peer_id regionId peerIndex (default_store p);
               endpoint = (pl_host peer, pl_port peer)
           in if pl_peerId peer \<in> set peerIds then None
              else if (case map_of stores (pl_storeId peer) of None \<Rightarrow> False | Some e \<Rightarrow> e \<noteq> endpoint) then None
              else case CheckPeers regionId (Suc peerIndex) ps (pl_peerId peer # peerIds)
                          (if map_of stores (pl_storeId peer) = None then (pl_storeId peer, endpoint) # stores else stores) of
                     None \<Rightarrow> None
                   | Some (ps', ids, st) \<Rightarrow> Some (peer # ps', ids, st))"

definition valid_region :: "RegionMetadata \<Rightarrow> bool" where
  "valid_region region \<longleftrightarrow> \<not> (r_regionId region < 0 \<or> r_peers region = [] \<or>
     (r_endKey region \<noteq> [] \<and> \<not> RegionBytewiseLess (r_startKey region) (r_endKey region)) \<or>
     ep_version (r_epoch region) = 0 \<or> ep_confVersion (r_epoch region) = 0 \<or> r_metadataRevision region = 0)"

text \<open>The region loop; \<open>previous\<close> is the end key of the region before.\<close>

fun CheckRegions ::
  "string option \<Rightarrow> RegionMetadata list \<Rightarrow> int list \<Rightarrow> u64 list \<Rightarrow> store_table \<Rightarrow> RegionMetadata list option" where
  "CheckRegions previous [] regionIds peerIds stores = Some []"
| "CheckRegions previous (region # rest) regionIds peerIds stores =
     (if \<not> valid_region region \<or> r_regionId region \<in> set regionIds \<or>
         (case previous of None \<Rightarrow> r_startKey region \<noteq> [] | Some e \<Rightarrow> e \<noteq> r_startKey region) \<or>
         (rest \<noteq> [] \<and> r_endKey region = []) \<or> (rest = [] \<and> r_endKey region \<noteq> []) then None
      else case CheckPeers (r_regionId region) 0 (r_peers region) peerIds stores of
             None \<Rightarrow> None
           | Some (ps, ids, st) \<Rightarrow>
               let r1 = set_peers ps region;
                   r2 = (if r_leaderPeerId r1 = 0 then set_leader (pl_peerId (hd ps)) r1 else r1)
               in if FindPeer r2 (r_leaderPeerId r2) = None then None
                  else case CheckRegions (Some (r_endKey region)) rest (r_regionId region # regionIds) ids st of
                         None \<Rightarrow> None | Some rs \<Rightarrow> Some (r2 # rs))"

definition RegionCatalog :: "RegionMetadata list \<Rightarrow> RegionMetadata list region_result" where
  "RegionCatalog regions =
     (if regions = [] then Inl InvalidArgument
      else case CheckRegions None (sort_key r_startKey regions) [] [] [] of
             None \<Rightarrow> Inl InvalidArgument | Some rs \<Rightarrow> Inr rs)"

text \<open>
  \<open>std::upper_bound\<close> on the start keys, stepped back by one: the last region that does not start
  above the key.
\<close>

definition FindByKey :: "RegionMetadata list \<Rightarrow> string \<Rightarrow> RegionMetadata region_result" where
  "FindByKey regions key =
     (let below = takeWhile (\<lambda>region. \<not> RegionBytewiseLess key (r_startKey region)) regions in
      if below = [] then Inl OutOfRange
      else if \<not> Contains (last below) key then Inl OutOfRange else Inr (last below))"

definition FindById :: "RegionMetadata list \<Rightarrow> int \<Rightarrow> RegionMetadata region_result" where
  "FindById regions regionId =
     (case find (\<lambda>region. r_regionId region = regionId) regions of
        None \<Rightarrow> Inl OutOfRange | Some region \<Rightarrow> Inr region)"

definition RegionsOnNode :: "RegionMetadata list \<Rightarrow> int \<Rightarrow> RegionMetadata list" where
  "RegionsOnNode regions nodeId = filter (\<lambda>region. list_ex (\<lambda>peer. pl_nodeId peer = nodeId) (r_peers region)) regions"

definition PeersOnNode :: "RegionMetadata list \<Rightarrow> int \<Rightarrow> (RegionMetadata \<times> nat) list" where
  "PeersOnNode regions nodeId =
     concat (map (\<lambda>region. map (Pair region)
       (filter (\<lambda>i. pl_nodeId (r_peers region ! i) = nodeId) [0..<length (r_peers region)])) regions)"

section \<open>Protobuf form\<close>

record PeerDescriptor =
  pd_peerId :: u64
  pd_storeId :: u64
  pd_host :: string
  pd_port :: u32
  pd_isLearner :: bool

datatype RegionDescriptor = RegionDescriptor
  (d_regionId: u64) (d_startKey: string) (d_endKey: string) (d_peers: "PeerDescriptor list")
  (d_leaderPeerId: u64) (d_epoch: RegionEpoch) (d_metadataRevision: u64)
  (d_splitPending: "(string \<times> RegionDescriptor) option")

definition ToProtoPeer :: "RegionPeerLocation \<Rightarrow> PeerDescriptor" where
  "ToProtoPeer peer = \<lparr> pd_peerId = pl_peerId peer, pd_storeId = pl_storeId peer, pd_host = pl_host peer,
     pd_port = of_int (pl_port peer), pd_isLearner = pl_isLearner peer \<rparr>"

fun ToProtoRegion :: "RegionMetadata \<Rightarrow> RegionDescriptor" where
  "ToProtoRegion (RegionMetadata i a b ps e m l s) =
     RegionDescriptor (of_int i) a b (map ToProtoPeer ps) l e m
       (case s of None \<Rightarrow> None | Some (key, child) \<Rightarrow> Some (key, ToProtoRegion child))"

definition FromProtoPeer :: "PeerDescriptor \<Rightarrow> RegionPeerLocation option" where
  "FromProtoPeer encoded =
     (if pd_storeId encoded = 0 \<or> pd_peerId encoded = 0 \<or> pd_port encoded = 0 \<or> pd_port encoded > 32767 then None
      else Some \<lparr> pl_nodeId = (if pd_storeId encoded \<le> 2147483647 then uint (pd_storeId encoded - 1) else - 1),
        pl_host = pd_host encoded, pl_port = uint (pd_port encoded), pl_storeId = pd_storeId encoded,
        pl_peerId = pd_peerId encoded, pl_isLearner = pd_isLearner encoded \<rparr>)"

fun map_all :: "('a \<Rightarrow> 'b option) \<Rightarrow> 'a list \<Rightarrow> 'b list option" where
  "map_all f [] = Some []"
| "map_all f (x # xs) =
     (case f x of None \<Rightarrow> None | Some y \<Rightarrow> (case map_all f xs of None \<Rightarrow> None | Some ys \<Rightarrow> Some (y # ys)))"

fun FromProtoRegion :: "RegionDescriptor \<Rightarrow> RegionMetadata region_result" where
  "FromProtoRegion (RegionDescriptor i a b ps l e m s) =
     (if i > 2147483647 then Inl InvalidArgument
      else case (case s of
                   None \<Rightarrow> Some None
                 | Some (key, child) \<Rightarrow> (case FromProtoRegion child of
                                          Inl _ \<Rightarrow> None | Inr c \<Rightarrow> Some (Some (key, c)))) of
             None \<Rightarrow> Inl InvalidArgument
           | Some pending \<Rightarrow>
               (case map_all FromProtoPeer ps of
                  None \<Rightarrow> Inl InvalidArgument
                | Some peers \<Rightarrow> Inr (RegionMetadata (uint i) a b peers e m l pending)))"

definition FromProto :: "RegionDescriptor list \<Rightarrow> RegionMetadata list region_result" where
  "FromProto descriptors =
     (case map_all (\<lambda>d. case FromProtoRegion d of Inl _ \<Rightarrow> None | Inr r \<Rightarrow> Some r) descriptors of
        None \<Rightarrow> Inl InvalidArgument | Some regions \<Rightarrow> RegionCatalog regions)"

definition ToProto :: "RegionMetadata list \<Rightarrow> RegionDescriptor list" where
  "ToProto regions = map ToProtoRegion regions"

text \<open>The 64-bit FNV-1a digest; \<open>serialize\<close> is the generated deterministic serializer of a descriptor.\<close>

definition fnv_step :: "char \<Rightarrow> u64 \<Rightarrow> u64" where
  "fnv_step byte hash = Bit_Operations.xor hash (of_nat (of_char byte)) * 1099511628211"

definition hex_digit :: "nat \<Rightarrow> char" where
  "hex_digit n = ''0123456789abcdef'' ! n"

definition hex16 :: "u64 \<Rightarrow> string" where
  "hex16 hash = map (\<lambda>i. hex_digit (unat hash div 16 ^ i mod 16)) (rev [0..<16])"

definition Digest :: "(RegionDescriptor \<Rightarrow> string) \<Rightarrow> RegionMetadata list \<Rightarrow> string" where
  "Digest serialize regions =
     hex16 (fold (\<lambda>region. fold fnv_step (serialize (ToProtoRegion region))) regions 1469598103934665603)"

section \<open>Contiguous ranges\<close>

text \<open>The regions tile the key space from \<open>a\<close> to infinity.\<close>

fun contiguous :: "string \<Rightarrow> RegionMetadata list \<Rightarrow> bool" where
  "contiguous a [] \<longleftrightarrow> False"
| "contiguous a (r # rs) \<longleftrightarrow> r_startKey r = a \<and>
     (if rs = [] then r_endKey r = [] else a < r_endKey r \<and> contiguous (r_endKey r) rs)"

lemma set_simps [simp]:
  "r_regionId (set_peers ps r) = r_regionId r" "r_startKey (set_peers ps r) = r_startKey r"
  "r_endKey (set_peers ps r) = r_endKey r" "r_peers (set_peers ps r) = ps" "r_epoch (set_peers ps r) = r_epoch r"
  "r_metadataRevision (set_peers ps r) = r_metadataRevision r" "r_leaderPeerId (set_peers ps r) = r_leaderPeerId r"
  "r_splitPending (set_peers ps r) = r_splitPending r"
  "r_regionId (set_leader l r) = r_regionId r" "r_startKey (set_leader l r) = r_startKey r"
  "r_endKey (set_leader l r) = r_endKey r" "r_peers (set_leader l r) = r_peers r" "r_epoch (set_leader l r) = r_epoch r"
  "r_metadataRevision (set_leader l r) = r_metadataRevision r" "r_leaderPeerId (set_leader l r) = l"
  "r_splitPending (set_leader l r) = r_splitPending r"
  by (cases r; simp)+

lemma set_peers_same [simp]: "set_peers (r_peers r) r = r" "set_leader (r_leaderPeerId r) r = r"
  by (cases r; simp)+

lemma contiguous_start: "contiguous a rs \<Longrightarrow> r \<in> set rs \<Longrightarrow> a \<le> r_startKey r"
proof (induction a rs rule: contiguous.induct)
  case (2 a r0 rs)
  then show ?case by (cases "rs = []") (auto dest!: "2.IH" intro: order.trans less_imp_le)
qed simp

lemma contiguous_sorted: "contiguous a rs \<Longrightarrow> sorted_wrt (<) (map r_startKey rs)"
proof (induction a rs rule: contiguous.induct)
  case (2 a r0 rs)
  then show ?case by (cases "rs = []") (auto dest: contiguous_start)
qed simp

lemma contiguous_unique:
  assumes "contiguous a rs" and "r \<in> set rs" and "r' \<in> set rs" and "Contains r key" and "Contains r' key"
  shows "r' = r"
  using assms
proof (induction a rs rule: contiguous.induct)
  case (2 a r0 rs)
  have sep: "\<not> (Contains r0 key \<and> Contains x key)" if "x \<in> set rs" for x
  proof -
    have "rs \<noteq> []" using that by auto
    then have "r_endKey r0 \<le> r_startKey x" "r_endKey r0 \<noteq> []"
      using "2.prems"(1) that contiguous_start [of "r_endKey r0" rs x] by auto
    then show ?thesis by (auto simp: Contains_def RegionBytewiseLess_def)
  qed
  show ?case
  proof (cases "rs = []")
    case True
    then show ?thesis using "2.prems" by simp
  next
    case False
    then show ?thesis using "2.IH" "2.prems" sep by auto
  qed
qed simp

lemma FindByKey_contiguous:
  assumes "contiguous a rs" and "a \<le> key"
  shows "\<exists>r. FindByKey rs key = Inr r \<and> r \<in> set rs \<and> Contains r key"
  using assms
proof (induction a rs rule: contiguous.induct)
  case (2 a r rs)
  have a: "r_startKey r = a" using "2.prems"(1) by simp
  show ?case
  proof (cases "rs = [] \<or> key < r_endKey r")
    case True
    then have c: "Contains r key" using "2.prems" by (auto simp: Contains_def RegionBytewiseLess_def)
    have "takeWhile (\<lambda>x. \<not> key < r_startKey x) rs = []"
    proof (cases rs)
      case (Cons r1 rs')
      then have "r_startKey r1 = r_endKey r" using "2.prems"(1) by simp
      then show ?thesis using True Cons by simp
    qed simp
    then show ?thesis using c "2.prems"(2) a by (simp add: FindByKey_def RegionBytewiseLess_def not_less)
  next
    case False
    then have c: "contiguous (r_endKey r) rs" "r_endKey r \<le> key" "rs \<noteq> []" using "2.prems" by auto
    from "2.IH" [OF c(3,1,2)] obtain r' where r': "FindByKey rs key = Inr r'" "r' \<in> set rs" "Contains r' key" by blast
    then show ?thesis using "2.prems"(2) a
      by (auto simp: FindByKey_def RegionBytewiseLess_def Let_def not_less split: if_splits)
  qed
qed simp

section \<open>What the constructor establishes\<close>

lemma CheckPeers_nonempty:
  "CheckPeers i k ps ids st = Some (ps', ids', st') \<Longrightarrow> ps' = [] \<longleftrightarrow> ps = []"
  by (cases ps) (auto simp: Let_def split: if_splits option.splits)

definition completed :: "RegionPeerLocation list \<Rightarrow> RegionMetadata \<Rightarrow> RegionMetadata" where
  "completed ps r = (let r1 = set_peers ps r in if r_leaderPeerId r1 = 0 then set_leader (pl_peerId (hd ps)) r1 else r1)"

lemma completed_simps [simp]:
  "r_startKey (completed ps r) = r_startKey r" "r_endKey (completed ps r) = r_endKey r"
  "r_regionId (completed ps r) = r_regionId r" "r_peers (completed ps r) = ps"
  "r_epoch (completed ps r) = r_epoch r" "r_metadataRevision (completed ps r) = r_metadataRevision r"
  by (simp_all add: completed_def Let_def)

lemma completed_completed [simp]: "completed ps (completed ps r) = completed ps r"
  by (cases r) (simp add: completed_def Let_def)

definition fits :: "string option \<Rightarrow> RegionMetadata \<Rightarrow> RegionMetadata list \<Rightarrow> int list \<Rightarrow> bool" where
  "fits prev r rest ids \<longleftrightarrow> valid_region r \<and> r_regionId r \<notin> set ids \<and>
     (case prev of None \<Rightarrow> [] | Some e \<Rightarrow> e) = r_startKey r \<and>
     (rest \<noteq> [] \<longrightarrow> r_endKey r \<noteq> []) \<and> (rest = [] \<longrightarrow> r_endKey r = [])"

lemma CheckRegions_Cons:
  "CheckRegions prev (r # rest) ids pids st =
     (if \<not> fits prev r rest ids then None
      else case CheckPeers (r_regionId r) 0 (r_peers r) pids st of
             None \<Rightarrow> None
           | Some (ps, pids1, st1) \<Rightarrow>
               if FindPeer (completed ps r) (r_leaderPeerId (completed ps r)) = None then None
               else case CheckRegions (Some (r_endKey r)) rest (r_regionId r # ids) pids1 st1 of
                      None \<Rightarrow> None | Some rs \<Rightarrow> Some (completed ps r # rs))"
  by (auto simp: fits_def completed_def Let_def split: option.split)

lemma CheckRegions_ConsE:
  assumes "CheckRegions prev (r # rest) ids pids st = Some rs'"
  obtains ps pids1 st1 rs1 where "fits prev r rest ids"
    and "CheckPeers (r_regionId r) 0 (r_peers r) pids st = Some (ps, pids1, st1)"
    and "FindPeer (completed ps r) (r_leaderPeerId (completed ps r)) \<noteq> None"
    and "CheckRegions (Some (r_endKey r)) rest (r_regionId r # ids) pids1 st1 = Some rs1"
    and "rs' = completed ps r # rs1"
  using assms unfolding CheckRegions_Cons by (auto split: if_splits option.splits)

lemma CheckRegions_Nil: "CheckRegions prev rs ids pids st = Some rs' \<Longrightarrow> rs' = [] \<longleftrightarrow> rs = []"
  by (cases rs) (auto elim: CheckRegions_ConsE simp del: CheckRegions.simps(2))

lemma CheckRegions_contiguous:
  "CheckRegions prev rs ids pids st = Some rs' \<Longrightarrow> rs \<noteq> [] \<Longrightarrow>
   contiguous (case prev of None \<Rightarrow> [] | Some e \<Rightarrow> e) rs'"
proof (induction rs arbitrary: prev ids pids st rs')
  case (Cons r rest)
  from Cons.prems(1) obtain ps pids1 st1 rs1 where h: "fits prev r rest ids"
    and cr: "CheckRegions (Some (r_endKey r)) rest (r_regionId r # ids) pids1 st1 = Some rs1"
    and rs': "rs' = completed ps r # rs1" by (rule CheckRegions_ConsE)
  show ?case
  proof (cases "rest = []")
    case True
    then show ?thesis using cr h by (simp add: rs' fits_def)
  next
    case False
    then have "r_startKey r < r_endKey r" using h by (auto simp: fits_def valid_region_def RegionBytewiseLess_def)
    then show ?thesis using Cons.IH [OF cr False] CheckRegions_Nil [OF cr] False h by (simp add: rs' fits_def)
  qed
qed simp

lemma CheckPeers_again:
  "CheckPeers i k ps ids st = Some (ps', ids', st') \<Longrightarrow> CheckPeers i k ps' ids st = Some (ps', ids', st')"
proof (induction i k ps ids st arbitrary: ps' ids' st' rule: CheckPeers.induct)
  case (2 i k p ps ids st)
  define q where "q = default_peer_id i k (default_store p)"
  define stores where "stores = (if map_of st (pl_storeId q) = None then (pl_storeId q, pl_host q, pl_port q) # st else st)"
  have idem: "default_peer_id i k (default_store q) = q" "pl_nodeId q = pl_nodeId p" "pl_host q = pl_host p" "pl_port q = pl_port p"
    by (simp_all add: q_def default_peer_id_def default_store_def)
  from "2.prems" obtain ps1 where c: "\<not> (pl_nodeId p < 0 \<or> pl_host p = [] \<or> pl_port p \<le> 0)" "pl_peerId q \<notin> set ids"
    "\<not> (case map_of st (pl_storeId q) of None \<Rightarrow> False | Some e \<Rightarrow> e \<noteq> (pl_host q, pl_port q))"
    "CheckPeers i (Suc k) ps (pl_peerId q # ids) stores = Some (ps1, ids', st')" "ps' = q # ps1"
    unfolding CheckPeers.simps(2) Let_def q_def [symmetric] stores_def [symmetric]
    by (auto split: if_split_asm option.split_asm)
  have "CheckPeers i (Suc k) ps1 (pl_peerId q # ids) stores = Some (ps1, ids', st')"
    using "2.IH" [OF c(1) q_def refl] c(2-4) unfolding stores_def by blast
  then show ?case
    using c(1-3) idem unfolding c(5) CheckPeers.simps(2) Let_def idem(1) stores_def [symmetric] by simp
qed simp

lemma CheckRegions_again:
  "CheckRegions prev rs ids pids st = Some rs' \<Longrightarrow> CheckRegions prev rs' ids pids st = Some rs'"
proof (induction rs arbitrary: prev ids pids st rs')
  case (Cons r rest)
  from Cons.prems obtain ps pids1 st1 rs1 where h: "fits prev r rest ids"
    and cp: "CheckPeers (r_regionId r) 0 (r_peers r) pids st = Some (ps, pids1, st1)"
    and l: "FindPeer (completed ps r) (r_leaderPeerId (completed ps r)) \<noteq> None"
    and cr: "CheckRegions (Some (r_endKey r)) rest (r_regionId r # ids) pids1 st1 = Some rs1"
    and rs': "rs' = completed ps r # rs1" by (rule CheckRegions_ConsE)
  have "ps \<noteq> []" using h CheckPeers_nonempty [OF cp] by (simp add: fits_def valid_region_def)
  then have "fits prev (completed ps r) rs1 ids"
    using h CheckRegions_Nil [OF cr] by (simp add: fits_def valid_region_def)
  then show ?case
    using CheckPeers_again [OF cp] l Cons.IH [OF cr] unfolding rs' CheckRegions_Cons by simp
qed simp

section \<open>The catalog\<close>

lemma RegionCatalog_contiguous: "RegionCatalog regions = Inr cat \<Longrightarrow> contiguous [] cat"
proof -
  assume "RegionCatalog regions = Inr cat"
  then have "CheckRegions None (sort_key r_startKey regions) [] [] [] = Some cat" "sort_key r_startKey regions \<noteq> []"
    by (auto simp: RegionCatalog_def split: if_splits option.splits) (metis length_0_conv length_sort)
  from CheckRegions_contiguous [OF this] show ?thesis by simp
qed

lemma strict_sorted_sort_key: "sorted_wrt (<) (map f xs) \<Longrightarrow> sort_key f xs = xs"
  by (rule sort_key_id_if_sorted) (rule sorted_wrt_mono_rel [of _ "(<)"], simp_all)

lemma CheckRegions_ids:
  "CheckRegions prev rs ids pids st = Some rs' \<Longrightarrow>
   distinct (map r_regionId rs') \<and> set (map r_regionId rs') \<inter> set ids = {}"
proof (induction rs arbitrary: prev ids pids st rs')
  case (Cons r rest)
  from Cons.prems obtain ps pids1 st1 rs1 where h: "fits prev r rest ids"
    and cr: "CheckRegions (Some (r_endKey r)) rest (r_regionId r # ids) pids1 st1 = Some rs1"
    and rs': "rs' = completed ps r # rs1" by (rule CheckRegions_ConsE)
  from Cons.IH [OF cr] h show ?case by (auto simp: rs' fits_def)
qed simp

lemma RegionCatalog_check:
  assumes "RegionCatalog regions = Inr cat"
  shows "CheckRegions None (sort_key r_startKey regions) [] [] [] = Some cat" and "regions \<noteq> []"
  using assms by (auto simp: RegionCatalog_def split: if_splits option.splits)

lemma RegionCatalog_ids: "RegionCatalog regions = Inr cat \<Longrightarrow> distinct (map r_regionId cat)"
  using CheckRegions_ids [OF RegionCatalog_check(1)] by blast

lemma RegionCatalog_again:
  assumes "RegionCatalog regions = Inr cat"
  shows "RegionCatalog cat = Inr cat"
proof -
  note c = RegionCatalog_contiguous [OF assms]
  have "CheckRegions None cat [] [] [] = Some cat"
    by (rule CheckRegions_again) (rule RegionCatalog_check(1) [OF assms])
  moreover have "sort_key r_startKey cat = cat" by (rule strict_sorted_sort_key) (rule contiguous_sorted [OF c])
  moreover have "cat \<noteq> []" using c by auto
  ultimately show ?thesis by (simp add: RegionCatalog_def)
qed

text \<open>A static topology of two regions, given in the wrong order and without peer identifiers.\<close>

definition sample_peer :: "int \<Rightarrow> RegionPeerLocation" where
  "sample_peer n = \<lparr> pl_nodeId = n, pl_host = ''node'', pl_port = 7000 + n, pl_storeId = 0, pl_peerId = 0, pl_isLearner = False \<rparr>"

definition sample_regions :: "RegionMetadata list" where
  "sample_regions =
     [RegionMetadata 1 ''m'' [] [sample_peer 1, sample_peer 2] \<lparr> ep_version = 1, ep_confVersion = 1 \<rparr> 1 0 None,
      RegionMetadata 0 [] ''m'' [sample_peer 0, sample_peer 1] \<lparr> ep_version = 1, ep_confVersion = 1 \<rparr> 1 0 None]"

definition sample_catalog :: "RegionMetadata list" where
  "sample_catalog = (case RegionCatalog sample_regions of Inl _ \<Rightarrow> [] | Inr cat \<Rightarrow> cat)"

lemma sample_catalog: "RegionCatalog sample_regions = Inr sample_catalog"
proof -
  have "\<not> isl (RegionCatalog sample_regions)" by code_simp
  then show ?thesis by (cases "RegionCatalog sample_regions") (simp_all add: sample_catalog_def)
qed

text \<open>
  C22. Every key has exactly one region: in a catalog that passed validation the lookup of any key returns a
  region of the catalog that contains the key, and no other region of the catalog contains it.
\<close>

theorem catalog_routes_every_key:
  assumes "RegionCatalog regions = Inr cat"
  shows "\<exists>r. FindByKey cat key = Inr r \<and> r \<in> set cat \<and> Contains r key \<and>
    (\<forall>r' \<in> set cat. Contains r' key \<longrightarrow> r' = r)"
  using FindByKey_contiguous [OF RegionCatalog_contiguous [OF assms], of key]
    contiguous_unique [OF RegionCatalog_contiguous [OF assms]] by auto

theorem catalog_routes_every_key_witness:
  "\<exists>r. FindByKey sample_catalog ''zebra'' = Inr r \<and> r_regionId r = 1 \<and> Contains r ''zebra''"
proof -
  have i: "(case FindByKey sample_catalog ''zebra'' of Inl _ \<Rightarrow> False | Inr r \<Rightarrow> r_regionId r = 1)" by code_simp
  obtain r where "FindByKey sample_catalog ''zebra'' = Inr r" "Contains r ''zebra''"
    using catalog_routes_every_key [OF sample_catalog, of "''zebra''"] by blast
  with i show ?thesis by simp
qed

text \<open>
  Validation is idempotent: the catalog it returns, sorted and with the missing identifiers filled in,
  passes validation unchanged.
\<close>

theorem catalog_revalidation:
  assumes "RegionCatalog regions = Inr cat"
  shows "RegionCatalog cat = Inr cat \<and> sorted_wrt (<) (map r_startKey cat) \<and> distinct (map r_regionId cat)"
  using RegionCatalog_again [OF assms] RegionCatalog_ids [OF assms] contiguous_sorted [OF RegionCatalog_contiguous [OF assms]]
  by simp

theorem catalog_revalidation_witness:
  "RegionCatalog sample_catalog = Inr sample_catalog \<and> map r_startKey sample_catalog = [[], ''m'']"
proof -
  have "map r_startKey sample_catalog = [[], ''m'']" by code_simp
  with catalog_revalidation [OF sample_catalog] show ?thesis by simp
qed

section \<open>Protobuf round trip\<close>

text \<open>A peer whose node and store agree, as the static topology numbers them, with a positive 16-bit port.\<close>

definition proto_peer :: "RegionPeerLocation \<Rightarrow> bool" where
  "proto_peer p \<longleftrightarrow> 0 \<le> pl_nodeId p \<and> pl_nodeId p < 2147483647 \<and> pl_storeId p = of_int (pl_nodeId p) + 1 \<and>
     pl_peerId p \<noteq> 0 \<and> 0 < pl_port p \<and> pl_port p \<le> 32767"

fun proto_ok :: "RegionMetadata \<Rightarrow> bool" where
  "proto_ok (RegionMetadata i a b ps e m l s) \<longleftrightarrow> 0 \<le> i \<and> i \<le> 2147483647 \<and> list_all proto_peer ps \<and>
     (case s of None \<Rightarrow> True | Some (key, child) \<Rightarrow> proto_ok child)"

lemma uint_of_int_64: "0 \<le> n \<Longrightarrow> n < 18446744073709551616 \<Longrightarrow> uint (of_int n :: u64) = n"
  by (simp add: unsigned_of_int take_bit_eq_mod)

lemma uint_of_int_32: "0 \<le> n \<Longrightarrow> n < 4294967296 \<Longrightarrow> uint (of_int n :: u32) = n"
  by (simp add: unsigned_of_int take_bit_eq_mod)

text \<open>
  The message has no node number. The decoder takes the store number less one, so a peer comes back with
  that node, whatever node it had. \<open>encodable_peer\<close> is what the decoder and the validation need: identifiers in
  range and a positive 16-bit port.
\<close>

definition encodable_peer :: "RegionPeerLocation \<Rightarrow> bool" where
  "encodable_peer p \<longleftrightarrow> pl_storeId p \<noteq> 0 \<and> pl_storeId p \<le> 2147483647 \<and> pl_peerId p \<noteq> 0 \<and> 0 < pl_port p \<and> pl_port p \<le> 32767"

fun encodable :: "RegionMetadata \<Rightarrow> bool" where
  "encodable (RegionMetadata i a b ps e m l s) \<longleftrightarrow> 0 \<le> i \<and> i \<le> 2147483647 \<and> list_all encodable_peer ps \<and>
     (case s of None \<Rightarrow> True | Some (key, child) \<Rightarrow> encodable child)"

definition store_node :: "RegionPeerLocation \<Rightarrow> RegionPeerLocation" where
  "store_node p = p \<lparr> pl_nodeId := uint (pl_storeId p) - 1 \<rparr>"

fun renumbered :: "RegionMetadata \<Rightarrow> RegionMetadata" where
  "renumbered (RegionMetadata i a b ps e m l s) = RegionMetadata i a b (map store_node ps) e m l
     (case s of None \<Rightarrow> None | Some (key, child) \<Rightarrow> Some (key, renumbered child))"

lemma proto_peer_store:
  assumes "proto_peer p"
  shows "uint (pl_storeId p) = pl_nodeId p + 1"
  using assms uint_of_int_64 [of "pl_nodeId p + 1"] by (simp add: proto_peer_def)

lemma proto_peer_iff: "encodable_peer p \<Longrightarrow> store_node p = p \<longleftrightarrow> proto_peer p"
proof
  assume w: "encodable_peer p" and f: "store_node p = p"
  have "pl_nodeId (store_node p) = uint (pl_storeId p) - 1" by (simp add: store_node_def)
  then have n: "pl_nodeId p = uint (pl_storeId p) - 1" by (simp add: f)
  have u: "0 < uint (pl_storeId p)" "uint (pl_storeId p) \<le> 2147483647"
    using w by (simp_all add: encodable_peer_def word_le_def word_neq_0_conv word_less_def)
  have "(of_int (pl_nodeId p) :: u64) + 1 = pl_storeId p" by (simp add: n)
  then show "proto_peer p" using w n u by (simp add: proto_peer_def encodable_peer_def)
next
  assume "proto_peer p"
  then have "pl_nodeId p = uint (pl_storeId p) - 1" by (simp add: proto_peer_store)
  then show "store_node p = p" by (cases p) (simp add: store_node_def)
qed

lemma proto_peer_encodable: "proto_peer p \<Longrightarrow> encodable_peer p"
  using proto_peer_store [of p] by (auto simp: proto_peer_def encodable_peer_def word_le_def)

lemma proto_ok_encodable: "proto_ok r \<Longrightarrow> encodable r"
  by (induction r rule: proto_ok.induct) (auto simp: list_all_iff proto_peer_encodable split: option.splits)

lemma renumbered_iff: "encodable r \<Longrightarrow> renumbered r = r \<longleftrightarrow> proto_ok r"
proof (induction r rule: proto_ok.induct)
  case (1 i a b ps e m l s)
  have "map store_node ps = ps \<longleftrightarrow> list_all proto_peer ps"
    using "1.prems" by (auto simp: list_all_iff proto_peer_iff map_idI dest: map_eq_conv [THEN iffD1, of store_node ps id, simplified])
  with "1.prems" "1.IH" show ?case by (cases s) (auto split: prod.splits)
qed

lemma FromProtoPeer_ToProtoPeer:
  assumes "encodable_peer p"
  shows "FromProtoPeer (ToProtoPeer p) = Some (store_node p)"
proof -
  have n: "0 < pl_port p" "pl_port p \<le> 32767" using assms by (simp_all add: encodable_peer_def)
  have "uint (pl_storeId p - 1) = uint (pl_storeId p) - 1"
    using assms by (simp add: encodable_peer_def uint_minus_simple_alt [symmetric] word_le_def word_neq_0_conv word_less_def uint_sub_if')
  moreover have q: "uint (of_int (pl_port p) :: u32) = pl_port p" using n by (simp add: uint_of_int_32)
  moreover have "(of_int (pl_port p) :: u32) \<noteq> 0" "\<not> (32767 :: u32) < of_int (pl_port p)"
    using q n by (auto simp: word_less_def simp del: of_int_eq_0_iff)
  ultimately show ?thesis
    using assms by (cases p) (simp add: FromProtoPeer_def ToProtoPeer_def encodable_peer_def store_node_def)
qed

lemma map_all_map: "(\<And>x. x \<in> set xs \<Longrightarrow> f (g x) = Some (h x)) \<Longrightarrow> map_all f (map g xs) = Some (map h xs)"
  by (induction xs) simp_all

lemma FromProtoRegion_renumbered: "encodable r \<Longrightarrow> FromProtoRegion (ToProtoRegion r) = Inr (renumbered r)"
proof (induction r rule: encodable.induct)
  case (1 i a b ps e m l s)
  have i: "\<not> (2147483647 :: u64) < of_int i" "uint (of_int i :: u64) = i"
    using "1.prems" uint_of_int_64 [of i] by (auto simp: word_less_def)
  have "map_all FromProtoPeer (map ToProtoPeer ps) = Some (map store_node ps)"
    using "1.prems" by (intro map_all_map) (auto simp: list_all_iff FromProtoPeer_ToProtoPeer)
  with "1.prems" "1.IH" i show ?case by (cases s) (auto split: prod.splits)
qed

lemma FromProtoRegion_ToProtoRegion: "proto_ok r \<Longrightarrow> FromProtoRegion (ToProtoRegion r) = Inr r"
  using FromProtoRegion_renumbered [of r] renumbered_iff [of r] by (simp add: proto_ok_encodable)

text \<open>Validation does not look at the nodes, except for their sign.\<close>

lemma store_node_simps [simp]:
  "pl_storeId (store_node p) = pl_storeId p" "pl_peerId (store_node p) = pl_peerId p" "pl_host (store_node p) = pl_host p"
  "pl_port (store_node p) = pl_port p"
  by (simp_all add: store_node_def)

lemma store_node_default:
  assumes "encodable_peer p"
  shows "default_peer_id i k (default_store (store_node p)) = store_node (default_peer_id i k (default_store p))"
    and "0 \<le> pl_nodeId (store_node p)"
proof -
  have "pl_storeId p \<noteq> 0" using assms by (simp add: encodable_peer_def)
  then show "default_peer_id i k (default_store (store_node p)) = store_node (default_peer_id i k (default_store p))"
    by (simp add: default_peer_id_def default_store_def store_node_def)
  have "0 < uint (pl_storeId p)" using assms by (simp add: encodable_peer_def word_neq_0_conv word_less_def)
  then show "0 \<le> pl_nodeId (store_node p)" by (simp add: store_node_def)
qed

lemma CheckPeers_renumbered:
  "CheckPeers i k ps ids st = Some (ps', ids', st') \<Longrightarrow> list_all encodable_peer ps \<Longrightarrow>
   CheckPeers i k (map store_node ps) ids st = Some (map store_node ps', ids', st')"
proof (induction ps arbitrary: k ids st ps')
  case (Cons p ps)
  define q where "q = default_peer_id i k (default_store p)"
  define stores where "stores = (if map_of st (pl_storeId q) = None then (pl_storeId q, pl_host q, pl_port q) # st else st)"
  from Cons.prems obtain ps1 where c: "\<not> (pl_nodeId p < 0 \<or> pl_host p = [] \<or> pl_port p \<le> 0)" "pl_peerId q \<notin> set ids"
    "\<not> (case map_of st (pl_storeId q) of None \<Rightarrow> False | Some e \<Rightarrow> e \<noteq> (pl_host q, pl_port q))"
    "CheckPeers i (Suc k) ps (pl_peerId q # ids) stores = Some (ps1, ids', st')" "ps' = q # ps1"
    unfolding CheckPeers.simps(2) Let_def q_def [symmetric] stores_def [symmetric]
    by (auto split: if_split_asm option.split_asm)
  have w: "encodable_peer p" "list_all encodable_peer ps" using Cons.prems(2) by simp_all
  note d1 = store_node_default(1) [OF w(1), of i k, folded q_def] and d2 = store_node_default(2) [OF w(1)]
  have "CheckPeers i (Suc k) (map store_node ps) (pl_peerId q # ids) stores = Some (map store_node ps1, ids', st')"
    by (rule Cons.IH [OF c(4) w(2)])
  then show ?case
    using c(1-3) d2 unfolding c(5) list.map CheckPeers.simps(2) Let_def d1 store_node_simps stores_def [symmetric] by simp
qed simp

lemma renumbered_simps [simp]:
  "r_startKey (renumbered r) = r_startKey r" "r_endKey (renumbered r) = r_endKey r" "r_regionId (renumbered r) = r_regionId r"
  "r_epoch (renumbered r) = r_epoch r" "r_metadataRevision (renumbered r) = r_metadataRevision r"
  "r_leaderPeerId (renumbered r) = r_leaderPeerId r" "r_peers (renumbered r) = map store_node (r_peers r)"
  by (cases r, simp)+

lemma completed_renumbered:
  assumes "ps \<noteq> []"
  shows "completed (map store_node ps) (renumbered r) = renumbered (completed ps r)"
  using assms by (cases r) (simp add: completed_def Let_def hd_map)

lemma FindPeer_renumbered: "FindPeer (renumbered r) i = None \<longleftrightarrow> FindPeer r i = None"
  by (auto simp: FindPeer_def find_None_iff)

lemma CheckRegions_renumbered:
  "CheckRegions prev rs ids pids st = Some rs' \<Longrightarrow> list_all encodable rs \<Longrightarrow>
   CheckRegions prev (map renumbered rs) ids pids st = Some (map renumbered rs')"
proof (induction rs arbitrary: prev ids pids st rs')
  case (Cons r rest)
  from Cons.prems(1) obtain ps pids1 st1 rs1 where h: "fits prev r rest ids"
    and cp: "CheckPeers (r_regionId r) 0 (r_peers r) pids st = Some (ps, pids1, st1)"
    and l: "FindPeer (completed ps r) (r_leaderPeerId (completed ps r)) \<noteq> None"
    and cr: "CheckRegions (Some (r_endKey r)) rest (r_regionId r # ids) pids1 st1 = Some rs1"
    and rs': "rs' = completed ps r # rs1" by (rule CheckRegions_ConsE)
  have w: "list_all encodable_peer (r_peers r)" using Cons.prems(2) by (cases r) simp
  have ps: "ps \<noteq> []" using h CheckPeers_nonempty [OF cp] by (simp add: fits_def valid_region_def)
  have "fits prev (renumbered r) (map renumbered rest) ids" using h by (simp add: fits_def valid_region_def)
  moreover have "FindPeer (renumbered (completed ps r)) (r_leaderPeerId (renumbered (completed ps r))) \<noteq> None"
    using l by (simp add: FindPeer_renumbered)
  ultimately show ?case
    using CheckPeers_renumbered [OF cp w] Cons.IH [OF cr] Cons.prems(2)
    unfolding rs' list.map CheckRegions_Cons by (simp add: completed_renumbered [OF ps])
qed simp

lemma RegionCatalog_renumbered:
  assumes "RegionCatalog regions = Inr cat" and "list_all encodable cat"
  shows "RegionCatalog (map renumbered cat) = Inr (map renumbered cat)"
proof -
  have c: "RegionCatalog cat = Inr cat" by (rule RegionCatalog_again [OF assms(1)])
  have "sorted_wrt (<) (map r_startKey cat)" by (rule contiguous_sorted [OF RegionCatalog_contiguous [OF c]])
  then have sorted: "sorted (map r_startKey cat)" by (rule strict_sorted_imp_sorted)
  then have "sort_key r_startKey cat = cat" by (rule sort_key_id_if_sorted)
  moreover have "sort_key r_startKey (map renumbered cat) = map renumbered cat"
    using sorted by (intro sort_key_id_if_sorted) (simp add: comp_def)
  ultimately show ?thesis
    using c CheckRegions_renumbered [of None cat "[]" "[]" "[]" cat] assms(2)
    by (auto simp: RegionCatalog_def split: option.splits if_splits)
qed



section \<open>What validation does to the descriptors\<close>

fun fill_peers :: "int \<Rightarrow> nat \<Rightarrow> RegionPeerLocation list \<Rightarrow> RegionPeerLocation list" where
  "fill_peers i k [] = []"
| "fill_peers i k (p # ps) = default_peer_id i k (default_store p) # fill_peers i (Suc k) ps"

definition complete_region :: "RegionMetadata \<Rightarrow> RegionMetadata" where
  "complete_region r = completed (fill_peers (r_regionId r) 0 (r_peers r)) r"

lemma complete_region_simps [simp]:
  "r_startKey (complete_region r) = r_startKey r" "r_endKey (complete_region r) = r_endKey r"
  "r_regionId (complete_region r) = r_regionId r" "r_epoch (complete_region r) = r_epoch r"
  "r_metadataRevision (complete_region r) = r_metadataRevision r"
  by (simp_all add: complete_region_def)

lemma Contains_complete_region [simp]: "Contains (complete_region r) key = Contains r key"
  by (simp add: Contains_def)

lemma CheckPeers_fill: "CheckPeers i k ps ids st = Some (ps', ids', st') \<Longrightarrow> ps' = fill_peers i k ps"
proof (induction ps arbitrary: k ids st ps' ids' st')
  case (Cons p ps)
  from Cons.prems show ?case
    by (auto simp: Let_def split: if_split_asm option.split_asm dest: Cons.IH)
qed simp

lemma CheckRegions_complete:
  "CheckRegions prev rs ids pids st = Some rs' \<Longrightarrow> rs' = map complete_region rs"
proof (induction rs arbitrary: prev ids pids st rs')
  case (Cons r rest)
  from Cons.prems obtain ps pids1 st1 rs1
    where cp: "CheckPeers (r_regionId r) 0 (r_peers r) pids st = Some (ps, pids1, st1)"
    and cr: "CheckRegions (Some (r_endKey r)) rest (r_regionId r # ids) pids1 st1 = Some rs1"
    and rs': "rs' = completed ps r # rs1" by (rule CheckRegions_ConsE)
  show ?case using Cons.IH [OF cr] CheckPeers_fill [OF cp] by (simp add: rs' complete_region_def)
qed simp

lemma RegionCatalog_complete:
  "RegionCatalog regions = Inr cat \<Longrightarrow> cat = map complete_region (sort_key r_startKey regions)"
  by (rule CheckRegions_complete) (rule RegionCatalog_check(1))

lemma RegionCatalog_settled: "RegionCatalog cat = Inr cat \<Longrightarrow> r \<in> set cat \<Longrightarrow> complete_region r = r"
proof -
  assume c: "RegionCatalog cat = Inr cat" and r: "r \<in> set cat"
  have "sort_key r_startKey cat = cat"
    by (rule strict_sorted_sort_key) (rule contiguous_sorted [OF RegionCatalog_contiguous [OF c]])
  then have "map complete_region cat = cat" using RegionCatalog_complete [OF c] by simp
  then show ?thesis using r by (metis list.map_ident map_eq_conv)
qed

section \<open>Directories of regions\<close>

text \<open>
  The contract of a component that resolves keys to regions: a valid directory resolves every key, to one of
  its regions that contains the key, and its regions do not overlap.
\<close>

locale region_directory =
  fixes valid :: "'s \<Rightarrow> bool"
    and entries :: "'s \<Rightarrow> RegionMetadata set"
    and resolve :: "'s \<Rightarrow> string \<Rightarrow> RegionMetadata option"
  assumes resolves: "valid s \<Longrightarrow> \<exists>r \<in> entries s. resolve s key = Some r \<and> Contains r key"
    and disjoint: "valid s \<Longrightarrow> r \<in> entries s \<Longrightarrow> r' \<in> entries s \<Longrightarrow> Contains r key \<Longrightarrow> Contains r' key \<Longrightarrow> r' = r"
begin

lemma resolve_iff: "valid s \<Longrightarrow> resolve s key = Some r \<longleftrightarrow> r \<in> entries s \<and> Contains r key"
  using resolves [of s key] disjoint [of s] by fastforce

lemma unaffected:
  assumes "valid s" and "valid s'" and "resolve s key = Some r" and "r \<in> entries s'"
  shows "resolve s' key = resolve s key"
proof -
  have "Contains r key" using assms(1,3) by (simp add: resolve_iff)
  then have "resolve s' key = Some r" using assms(2,4) by (simp add: resolve_iff)
  then show ?thesis using assms(3) by simp
qed

lemma moved:
  assumes "valid s'" and "entries s' \<subseteq> old \<union> new" and "\<And>r. r \<in> old \<Longrightarrow> \<not> Contains r key"
  shows "\<exists>r \<in> new. resolve s' key = Some r \<and> Contains r key"
  using resolves [OF assms(1), of key] assms(2,3) by blast

end

definition catalog_ok :: "RegionMetadata list \<Rightarrow> bool" where
  "catalog_ok regions \<longleftrightarrow> RegionCatalog regions = Inr regions"

definition catalog_find :: "RegionMetadata list \<Rightarrow> string \<Rightarrow> RegionMetadata option" where
  "catalog_find regions key = (case FindByKey regions key of Inl _ \<Rightarrow> None | Inr r \<Rightarrow> Some r)"

interpretation catalog: region_directory catalog_ok set catalog_find
proof
  fix s :: "RegionMetadata list" and key
  assume "catalog_ok s"
  then have "contiguous [] s" by (auto simp: catalog_ok_def dest: RegionCatalog_contiguous)
  from FindByKey_contiguous [OF this] show "\<exists>r \<in> set s. catalog_find s key = Some r \<and> Contains r key"
    by (force simp: catalog_find_def)
next
  fix s :: "RegionMetadata list" and r r' key
  assume "catalog_ok s" and r: "r \<in> set s" "r' \<in> set s" "Contains r key" "Contains r' key"
  then have "contiguous [] s" by (auto simp: catalog_ok_def dest: RegionCatalog_contiguous)
  from contiguous_unique [OF this r] show "r' = r" .
qed

end
