(* ===== verification/RegionCache.thy ===== *)
theory RegionCache
  imports RegionMetadata MvccCodec
begin

text \<open>
  The client's region cache (\<open>transaction/region_cache\<close>): immutable route tables, lookups, the
  replacement of an interval of the table by newer descriptors, and lookup with refresh. The atomically
  published table, the invalidated regions, the open refresh slots and the counters are the fields of one
  state. A lookup reads the table and the invalidated regions in two steps with no common lock; what other
  threads do to the cache between the steps of a call is an argument of the lookups. \<open>ReplaceInterval\<close> is
  one step when its caller looks at it, and two, the publication of the table and the removal of the
  invalidation marks, in the interleavings that \<open>cache_evolves\<close> ranges over. \<open>std::sort\<close> leaves the order
  of equal keys open; the stable order is taken here.
\<close>

section \<open>Route tables\<close>

definition InferRevision :: "RegionMetadata list \<Rightarrow> u64" where
  "InferRevision regions = fold (\<lambda>region revision. max revision (r_metadataRevision region)) regions 0"

definition SamePeers :: "RegionMetadata \<Rightarrow> RegionMetadata \<Rightarrow> bool" where
  "SamePeers lhs rhs \<longleftrightarrow> length (r_peers lhs) = length (r_peers rhs) \<and>
     list_all2 (\<lambda>left right. pl_nodeId left = pl_nodeId right \<and> pl_host left = pl_host right \<and>
       pl_port left = pl_port right \<and> pl_storeId left = pl_storeId right \<and> pl_peerId left = pl_peerId right)
     (r_peers lhs) (r_peers rhs)"

definition Intersects :: "RegionMetadata \<Rightarrow> string \<Rightarrow> string \<Rightarrow> bool" where
  "Intersects region start end' \<longleftrightarrow>
     (r_endKey region = [] \<or> RegionBytewiseLess start (r_endKey region)) \<and>
     (end' = [] \<or> RegionBytewiseLess (r_startKey region) end')"

text \<open>One candidate against the region of the same identifier it replaces.\<close>

definition epoch_advances :: "RegionMetadata \<Rightarrow> RegionMetadata \<Rightarrow> bool" where
  "epoch_advances old candidate \<longleftrightarrow>
     (let rangeChanged = (r_startKey old \<noteq> r_startKey candidate \<or> r_endKey old \<noteq> r_endKey candidate);
          peersChanged = (\<not> SamePeers old candidate)
      in \<not> (ep_version (r_epoch candidate) < ep_version (r_epoch old) \<or>
            ep_confVersion (r_epoch candidate) < ep_confVersion (r_epoch old) \<or>
            (rangeChanged \<and> ep_version (r_epoch candidate) = ep_version (r_epoch old)) \<or>
            (peersChanged \<and> ep_confVersion (r_epoch candidate) = ep_confVersion (r_epoch old))))"

definition ValidateEpochAdvance :: "RegionMetadata list \<Rightarrow> RegionMetadata list \<Rightarrow> bool" where
  "ValidateEpochAdvance oldRegions newRegions =
     list_all (\<lambda>candidate.
       case find (\<lambda>region. r_regionId region = r_regionId candidate) oldRegions of
         None \<Rightarrow> True | Some old \<Rightarrow> epoch_advances old candidate) newRegions"

record RouteTable =
  rt_regions :: "RegionMetadata list"
  rt_byRegionId :: "(int \<times> nat) list"
  rt_revision :: u64

definition NewRouteTable :: "RegionMetadata list \<Rightarrow> u64 \<Rightarrow> RouteTable region_result" where
  "NewRouteTable descriptors metadataRevision =
     (if metadataRevision = 0 then Inl InvalidArgument
      else case RegionCatalog descriptors of
             Inl e \<Rightarrow> Inl e
           | Inr regions \<Rightarrow>
               if list_ex (\<lambda>region. r_metadataRevision region = 0 \<or> r_metadataRevision region > metadataRevision) regions \<or>
                  \<not> distinct (map r_regionId regions)
               then Inl InvalidArgument
               else Inr \<lparr> rt_regions = regions, rt_byRegionId = zip (map r_regionId regions) [0..<length regions],
                          rt_revision = metadataRevision \<rparr>)"

text \<open>A route handle is a table and the index of a region in it; \<open>None\<close> is the empty handle.\<close>

type_synonym RegionRouteHandle = "RouteTable \<times> nat"

fun Descriptor :: "RegionRouteHandle \<Rightarrow> RegionMetadata" where
  "Descriptor (table, index) = rt_regions table ! index"

definition CacheFindKey :: "RouteTable \<Rightarrow> string \<Rightarrow> RegionRouteHandle option" where
  "CacheFindKey table key =
     (let below = takeWhile (\<lambda>region. \<not> RegionBytewiseLess key (r_startKey region)) (rt_regions table) in
      if below = [] then None
      else if \<not> Contains (last below) key then None else Some (table, length below - 1))"

definition CacheFindRegion :: "RouteTable \<Rightarrow> int \<Rightarrow> RegionRouteHandle option" where
  "CacheFindRegion table regionId = map_option (Pair table) (map_of (rt_byRegionId table) regionId)"

section \<open>The cache\<close>

record RegionCacheMetrics =
  cm_hits :: u64
  cm_misses :: u64
  cm_refreshLeaders :: u64
  cm_refreshWaiters :: u64
  cm_refreshSuccesses :: u64
  cm_refreshFailures :: u64
  cm_waiterTimeouts :: u64
  cm_staleUpdates :: u64

record RegionCache =
  published :: RouteTable
  invalidated :: "int list"
  refreshSlots :: "string list"
  metrics :: RegionCacheMetrics

definition no_metrics :: RegionCacheMetrics where
  "no_metrics = \<lparr> cm_hits = 0, cm_misses = 0, cm_refreshLeaders = 0, cm_refreshWaiters = 0, cm_refreshSuccesses = 0,
     cm_refreshFailures = 0, cm_waiterTimeouts = 0, cm_staleUpdates = 0 \<rparr>"

definition count_hit :: "RegionCache \<Rightarrow> RegionCache" where
  "count_hit cache = cache \<lparr> metrics := (metrics cache) \<lparr> cm_hits := cm_hits (metrics cache) + 1 \<rparr> \<rparr>"

definition count_miss :: "RegionCache \<Rightarrow> RegionCache" where
  "count_miss cache = cache \<lparr> metrics := (metrics cache) \<lparr> cm_misses := cm_misses (metrics cache) + 1 \<rparr> \<rparr>"

definition NewRegionCache :: "RegionMetadata list \<Rightarrow> u64 \<Rightarrow> RegionCache region_result" where
  "NewRegionCache regions revision =
     (case NewRouteTable regions (if revision = 0 then InferRevision regions else revision) of
        Inl e \<Rightarrow> Inl e
      | Inr table \<Rightarrow> Inr \<lparr> published = table, invalidated = [], refreshSlots = [], metrics = no_metrics \<rparr>)"

definition IsInvalidated :: "RegionCache \<Rightarrow> int \<Rightarrow> bool" where
  "IsInvalidated cache regionId \<longleftrightarrow> regionId \<in> set (invalidated cache)"

text \<open>
  A lookup returns the region and the cache with its counters moved. \<open>others\<close> is what other threads do
  between the read of the table and the read of the invalidated regions.
\<close>

definition CacheLookupKey ::
  "(RegionCache \<Rightarrow> RegionCache) \<Rightarrow> RegionCache \<Rightarrow> string \<Rightarrow> RegionRouteHandle region_result \<times> RegionCache" where
  "CacheLookupKey others cache key =
     (let table = published cache; c = others cache in
      case CacheFindKey table key of
        None \<Rightarrow> (Inl OutOfRange, count_miss c)
      | Some route \<Rightarrow>
          if IsInvalidated c (r_regionId (Descriptor route)) then (Inl OutOfRange, count_miss c)
          else (Inr route, count_hit c))"

definition CacheLookupRegion ::
  "(RegionCache \<Rightarrow> RegionCache) \<Rightarrow> RegionCache \<Rightarrow> int \<Rightarrow> RegionRouteHandle region_result \<times> RegionCache" where
  "CacheLookupRegion others cache regionId =
     (let table = published cache; c = others cache in
      case CacheFindRegion table regionId of
        None \<Rightarrow> (Inl OutOfRange, count_miss c)
      | Some route \<Rightarrow>
          if IsInvalidated c regionId then (Inl OutOfRange, count_miss c)
          else (Inr route, count_hit c))"

fun no_gaps :: "RegionMetadata list \<Rightarrow> bool" where
  "no_gaps (a # b # rest) \<longleftrightarrow> r_endKey a = r_startKey b \<and> no_gaps (b # rest)"
| "no_gaps _ \<longleftrightarrow> True"

text \<open>
  \<open>Inl\<close> is a thrown exception, \<open>Inr False\<close> an out-of-order update; in both the cache is unchanged but
  for a counter.
\<close>

definition ReplaceInterval :: "RegionCache \<Rightarrow> RegionMetadata list \<Rightarrow> u64 \<Rightarrow> bool region_result \<times> RegionCache" where
  "ReplaceInterval cache descriptors revision =
     (let descs = sort_key r_startKey descriptors; current = published cache in
      if descriptors = [] \<or> \<not> no_gaps descs then (Inl InvalidArgument, cache)
      else if revision < rt_revision current
      then (Inr False, cache \<lparr> metrics := (metrics cache) \<lparr> cm_staleUpdates := cm_staleUpdates (metrics cache) + 1 \<rparr> \<rparr>)
      else
        let start = r_startKey (hd descs); end' = r_endKey (last descs);
            replaced = filter (\<lambda>region. Intersects region start end') (rt_regions current);
            retained = filter (\<lambda>region. \<not> Intersects region start end') (rt_regions current)
        in if replaced = [] \<or> r_startKey (hd replaced) \<noteq> start \<or> r_endKey (last replaced) \<noteq> end' then (Inl InvalidArgument, cache)
           else if \<not> ValidateEpochAdvance replaced descs then (Inl InvalidArgument, cache)
           else if list_ex (\<lambda>d. r_metadataRevision d \<noteq> revision) descs then (Inl InvalidArgument, cache)
           else case NewRouteTable (retained @ descs) revision of
                  Inl e \<Rightarrow> (Inl e, cache)
                | Inr table \<Rightarrow>
                    (Inr True, cache \<lparr> published := table,
                       invalidated := filter (\<lambda>i. i \<notin> r_regionId ` set replaced \<and> i \<notin> r_regionId ` set descs) (invalidated cache) \<rparr>))"

definition Invalidate :: "RegionCache \<Rightarrow> int \<Rightarrow> RegionCache" where
  "Invalidate cache regionId = cache \<lparr> invalidated := List.insert regionId (invalidated cache) \<rparr>"

text \<open>\<open>std::to_string\<close> on an \<open>int\<close>, and the slot a refresh of the key uses.\<close>

definition int_to_string :: "int \<Rightarrow> string" where
  "int_to_string i = (if i < 0 then ''-'' @ dec (nat (- i)) else dec (nat i))"

definition RefreshSlotKey :: "string \<Rightarrow> RegionRouteHandle option \<Rightarrow> string" where
  "RefreshSlotKey key current =
     (case current of
        Some route \<Rightarrow> ''region:'' @ int_to_string (r_regionId (Descriptor route))
      | None \<Rightarrow> ''key:'' @ key)"

datatype lookup_error = RefreshFailed | WaiterDeadline | NoUsableRoute

text \<open>
  The places where other threads act during a lookup with refresh: between the first read of the table and
  of the invalidated regions, before the slot is looked up, while the refresh function runs or the waiter
  sleeps, before the leader closes its slot, before the table is read again, and before the invalidated
  regions are read again.
\<close>

datatype sync_point = Checking | Enlisting | Refreshing | Closing | Rereading | Rechecking

type_synonym interference = "sync_point \<Rightarrow> RegionCache \<Rightarrow> RegionCache"

text \<open>The check of a route that was read from a table earlier, on the cache as it is now.\<close>

definition checked_route :: "RegionCache \<Rightarrow> RegionRouteHandle option \<Rightarrow> lookup_error + RegionRouteHandle" where
  "checked_route cache found =
     (case found of
        None \<Rightarrow> Inl NoUsableRoute
      | Some route \<Rightarrow>
          if IsInvalidated cache (r_regionId (Descriptor route)) then Inl NoUsableRoute
          else Inr route)"

definition usable_route :: "RegionCache \<Rightarrow> string \<Rightarrow> lookup_error + RegionRouteHandle" where
  "usable_route cache key = checked_route cache (CacheFindKey (published cache) key)"

text \<open>
  The leader's part: open the slot, run the refresh function (\<open>response\<close>, \<open>None\<close> when it throws), install
  what it returned, close the slot; any exception is kept for the waiters and rethrown.
\<close>

definition count_refresh :: "bool \<Rightarrow> RegionCache \<Rightarrow> RegionCache" where
  "count_refresh ok cache = cache \<lparr> metrics := (if ok
     then (metrics cache) \<lparr> cm_refreshSuccesses := cm_refreshSuccesses (metrics cache) + 1 \<rparr>
     else (metrics cache) \<lparr> cm_refreshFailures := cm_refreshFailures (metrics cache) + 1 \<rparr>) \<rparr>"

definition RefreshAsLeader ::
  "RegionCache \<Rightarrow> string \<Rightarrow> interference \<Rightarrow> (RegionMetadata list \<times> u64) option \<Rightarrow> bool \<times> RegionCache" where
  "RefreshAsLeader cache slotKey others response =
     (let c1 = cache \<lparr> refreshSlots := slotKey # refreshSlots cache,
                 metrics := (metrics cache) \<lparr> cm_refreshLeaders := cm_refreshLeaders (metrics cache) + 1 \<rparr> \<rparr>;
          c2 = others Refreshing c1;
          (failed, c3) = (case response of
                            None \<Rightarrow> (True, count_refresh False c2)
                          | Some (regions, revision) \<Rightarrow>
                              (case ReplaceInterval c2 regions revision of
                                 (Inl _, c) \<Rightarrow> (True, count_refresh False c)
                               | (Inr _, c) \<Rightarrow> (False, count_refresh True c)));
          c4 = others Closing c3
      in (failed, c4 \<lparr> refreshSlots := filter (\<lambda>k. k \<noteq> slotKey) (refreshSlots c4) \<rparr>))"

text \<open>
  The end of a call without an exception: the table is read again, then the invalidated regions.
\<close>

definition RereadRoute ::
  "RegionCache \<Rightarrow> string \<Rightarrow> interference \<Rightarrow> (lookup_error + RegionRouteHandle) \<times> RegionCache" where
  "RereadRoute cache key others =
     (let c1 = others Rereading cache; found = CacheFindKey (published c1) key; c2 = others Rechecking c1
      in (checked_route c2 found, c2))"

text \<open>
  \<open>wait\<close> is what a waiter sees: \<open>None\<close> when its deadline passes, otherwise whether the leader left an
  exception.
\<close>

definition LookupOrRefresh ::
  "RegionCache \<Rightarrow> string \<Rightarrow> interference \<Rightarrow> (RegionMetadata list \<times> u64) option \<Rightarrow> bool option \<Rightarrow>
   (lookup_error + RegionRouteHandle) \<times> RegionCache" where
  "LookupOrRefresh cache key others response wait =
     (let current = CacheFindKey (published cache) key; cc = others Checking cache in
      case checked_route cc current of
        Inr route \<Rightarrow> (Inr route, count_hit cc)
      | Inl _ \<Rightarrow>
          (let c0 = others Enlisting (count_miss cc); slotKey = RefreshSlotKey key current
           in if slotKey \<notin> set (refreshSlots c0)
              then (let (failed, c) = RefreshAsLeader c0 slotKey others response
                    in if failed then (Inl RefreshFailed, c) else RereadRoute c key others)
              else
                let c1 = others Refreshing (c0 \<lparr> metrics := (metrics c0) \<lparr> cm_refreshWaiters := cm_refreshWaiters (metrics c0) + 1 \<rparr> \<rparr>)
                in case wait of
                     None \<Rightarrow> (Inl WaiterDeadline,
                        c1 \<lparr> metrics := (metrics c1) \<lparr> cm_waiterTimeouts := cm_waiterTimeouts (metrics c1) + 1 \<rparr> \<rparr>)
                   | Some failed \<Rightarrow> if failed then (Inl RefreshFailed, c1) else RereadRoute c1 key others))"

section \<open>Valid tables\<close>

definition table_ok :: "RouteTable \<Rightarrow> bool" where
  "table_ok t \<longleftrightarrow> catalog_ok (rt_regions t) \<and> rt_revision t \<noteq> 0 \<and>
     list_all (\<lambda>r. r_metadataRevision r \<noteq> 0 \<and> r_metadataRevision r \<le> rt_revision t) (rt_regions t) \<and>
     rt_byRegionId t = zip (map r_regionId (rt_regions t)) [0..<length (rt_regions t)]"

lemma NewRouteTable_ok:
  assumes "NewRouteTable descriptors revision = Inr t"
  shows "table_ok t" and "rt_revision t = revision" and "RegionCatalog descriptors = Inr (rt_regions t)"
  using assms
  by (auto simp: NewRouteTable_def table_ok_def catalog_ok_def list_ex_iff list_all_iff RegionCatalog_again not_less
      split: if_splits sum.splits)

lemma NewRouteTable_regions:
  "NewRouteTable descriptors revision = Inr t \<Longrightarrow> set (rt_regions t) = complete_region ` set descriptors"
  using RegionCatalog_complete [OF NewRouteTable_ok(3)] by (metis set_map set_sort)

definition table_find :: "RouteTable \<Rightarrow> string \<Rightarrow> RegionMetadata option" where
  "table_find t key = map_option Descriptor (CacheFindKey t key)"

lemma last_takeWhile: "takeWhile P xs \<noteq> [] \<Longrightarrow> xs ! (length (takeWhile P xs) - Suc 0) = last (takeWhile P xs)"
  by (simp add: last_conv_nth takeWhile_nth)

lemma table_find_catalog: "table_find t key = catalog_find (rt_regions t) key"
  by (auto simp: table_find_def catalog_find_def CacheFindKey_def FindByKey_def Let_def last_takeWhile)

interpretation table: region_directory table_ok "\<lambda>t. set (rt_regions t)" table_find
proof
  fix t key
  assume "table_ok t"
  then have "catalog_ok (rt_regions t)" by (simp add: table_ok_def)
  from catalog.resolves [OF this] show "\<exists>r \<in> set (rt_regions t). table_find t key = Some r \<and> Contains r key"
    by (simp add: table_find_catalog)
next
  fix t r r' key
  assume "table_ok t" "r \<in> set (rt_regions t)" "r' \<in> set (rt_regions t)" "Contains r key" "Contains r' key"
  then show "r' = r" using catalog.disjoint [of "rt_regions t" r r' key] by (simp add: table_ok_def)
qed

lemma table_find_id:
  assumes "table_ok t" and "r \<in> set (rt_regions t)"
  shows "\<exists>h. CacheFindRegion t (r_regionId r) = Some h \<and> Descriptor h = r"
proof -
  obtain i where i: "i < length (rt_regions t)" "rt_regions t ! i = r" using assms(2) by (auto simp: in_set_conv_nth)
  have "distinct (map r_regionId (rt_regions t))"
    using assms(1) RegionCatalog_ids [of "rt_regions t"] by (simp add: table_ok_def catalog_ok_def)
  then have "map_of (rt_byRegionId t) (map r_regionId (rt_regions t) ! i) = Some ([0..<length (rt_regions t)] ! i)"
    using assms(1) i(1) map_of_zip_nth [of "map r_regionId (rt_regions t)" "[0..<length (rt_regions t)]" i]
    by (simp add: table_ok_def)
  then show ?thesis using i by (auto simp: CacheFindRegion_def)
qed

section \<open>Replacing an interval\<close>

definition in_interval :: "string \<Rightarrow> string \<Rightarrow> string \<Rightarrow> bool" where
  "in_interval start end' key \<longleftrightarrow> start \<le> key \<and> (end' = [] \<or> key < end')"

lemma Contains_in_interval: "Contains r key = in_interval (r_startKey r) (r_endKey r) key"
  by (auto simp: Contains_def in_interval_def RegionBytewiseLess_def)

text \<open>The interval a response covers.\<close>

definition resp_start :: "RegionMetadata list \<Rightarrow> string" where
  "resp_start descriptors = r_startKey (hd (sort_key r_startKey descriptors))"

definition resp_end :: "RegionMetadata list \<Rightarrow> string" where
  "resp_end descriptors = r_endKey (last (sort_key r_startKey descriptors))"

definition replaced_by :: "RegionCache \<Rightarrow> RegionMetadata list \<Rightarrow> RegionMetadata list" where
  "replaced_by cache ds = filter (\<lambda>r. Intersects r (resp_start ds) (resp_end ds)) (rt_regions (published cache))"

lemma ReplaceIntervalE:
  assumes "ReplaceInterval cache ds revision = (Inr True, cache')"
  obtains table where "ds \<noteq> []" "rt_revision (published cache) \<le> revision" "replaced_by cache ds \<noteq> []"
    "r_startKey (hd (replaced_by cache ds)) = resp_start ds" "r_endKey (last (replaced_by cache ds)) = resp_end ds"
    "ValidateEpochAdvance (replaced_by cache ds) (sort_key r_startKey ds)"
    "list_all (\<lambda>d. r_metadataRevision d = revision) ds"
    "NewRouteTable (filter (\<lambda>r. \<not> Intersects r (resp_start ds) (resp_end ds)) (rt_regions (published cache)) @ sort_key r_startKey ds)
       revision = Inr table"
    "cache' = cache \<lparr> published := table, invalidated :=
       filter (\<lambda>i. i \<notin> r_regionId ` set (replaced_by cache ds) \<and> i \<notin> r_regionId ` set ds) (invalidated cache) \<rparr>"
  using assms
  by (auto simp: ReplaceInterval_def Let_def replaced_by_def resp_start_def resp_end_def list_ex_iff list_all_iff not_less
      split: if_split_asm sum.split_asm)

lemma ReplaceInterval_unchanged:
  assumes "ReplaceInterval cache ds revision = (res, cache')" and "res \<noteq> Inr True"
  shows "published cache' = published cache \<and> invalidated cache' = invalidated cache \<and> refreshSlots cache' = refreshSlots cache"
  using assms by (auto simp: ReplaceInterval_def Let_def split: if_split_asm sum.split_asm)

lemma ReplaceInterval_slots: "ReplaceInterval cache ds revision = (res, cache') \<Longrightarrow> refreshSlots cache' = refreshSlots cache"
  by (auto simp: ReplaceInterval_def Let_def split: if_split_asm sum.split_asm)

lemma contiguous_order:
  assumes "contiguous a (xs @ r # ys)" and "r' \<in> set ys"
  shows "r_endKey r \<noteq> [] \<and> r_endKey r \<le> r_startKey r'"
  using assms
proof (induction xs arbitrary: a)
  case Nil
  then show ?case by (auto split: if_split_asm dest: contiguous_start)
qed (auto split: if_split_asm)

text \<open>Regions that a response replaces lie inside the interval it covers.\<close>

lemma contiguous_filter_inside:
  assumes c: "contiguous a rs" and r: "r \<in> set (filter P rs)"
  shows "r_startKey (hd (filter P rs)) \<le> r_startKey r"
    and "r_endKey (last (filter P rs)) \<noteq> [] \<Longrightarrow> r_endKey r \<noteq> [] \<and> r_endKey r \<le> r_endKey (last (filter P rs))"
proof -
  have "sorted_wrt (\<lambda>x y. r_startKey x < r_startKey y) (filter P rs)"
    using contiguous_sorted [OF c] by (simp add: sorted_wrt_map sorted_wrt_filter)
  then show "r_startKey (hd (filter P rs)) \<le> r_startKey r" using r by (cases "filter P rs") auto
next
  assume e: "r_endKey (last (filter P rs)) \<noteq> []"
  define l where "l = last (filter P rs)"
  have ne: "filter P rs \<noteq> []" using r by (auto simp: filter_empty_conv)
  then have l: "l \<in> set rs" using last_in_set [OF ne] by (simp add: l_def)
  show "r_endKey r \<noteq> [] \<and> r_endKey r \<le> r_endKey (last (filter P rs))"
  proof (cases "r = l")
    case False
    obtain xs ys where rs: "rs = xs @ r # ys" using r by (auto dest: split_list)
    have "l \<in> set ys"
    proof -
      have "filter P ys \<noteq> []"
        using False r ne by (auto simp: rs l_def split: if_split_asm)
      then have "l = last (filter P ys)" using r by (simp add: rs l_def)
      then show ?thesis using last_in_set [OF \<open>filter P ys \<noteq> []\<close>] by simp
    qed
    with contiguous_order c rs have o: "r_endKey r \<noteq> [] \<and> r_endKey r \<le> r_startKey l" by blast
    obtain us vs where "rs = us @ l # vs" using l by (auto dest: split_list)
    then have "contiguous a (us @ l # vs)" using c by simp
    then have "r_startKey l < r_endKey l \<or> r_endKey l = []"
      by (induction us arbitrary: a) (auto split: if_split_asm)
    then show ?thesis using o e by (auto simp: l_def)
  qed (use e l_def in simp)
qed

lemma Intersects_complete [simp]: "Intersects (complete_region r) a b = Intersects r a b"
  by (simp add: Intersects_def)

lemma new_regions:
  assumes ok: "table_ok (published cache)" and rep: "ReplaceInterval cache ds revision = (Inr True, cache')"
  shows "set (rt_regions (published cache')) =
     {r \<in> set (rt_regions (published cache)). \<not> Intersects r (resp_start ds) (resp_end ds)} \<union> complete_region ` set ds"
proof -
  from rep obtain table where t: "NewRouteTable (filter (\<lambda>r. \<not> Intersects r (resp_start ds) (resp_end ds)) (rt_regions (published cache)) @
      sort_key r_startKey ds) revision = Inr table" and p: "published cache' = table" by (rule ReplaceIntervalE) simp
  have "complete_region r = r" if "r \<in> set (rt_regions (published cache))" for r
    using ok that RegionCatalog_settled by (auto simp: table_ok_def catalog_ok_def)
  then have "complete_region ` {r \<in> set (rt_regions (published cache)). \<not> Intersects r (resp_start ds) (resp_end ds)} =
      {r \<in> set (rt_regions (published cache)). \<not> Intersects r (resp_start ds) (resp_end ds)}" by (force simp: image_iff)
  then show ?thesis using NewRouteTable_regions [OF t] by (simp add: p image_Un)
qed

lemma ReplaceInterval_ok:
  assumes "ReplaceInterval cache ds revision = (Inr True, cache')"
  shows "table_ok (published cache')" and "rt_revision (published cache') = revision"
    and "rt_revision (published cache) \<le> revision"
  using assms by (auto elim!: ReplaceIntervalE simp: NewRouteTable_ok)

lemma ReplaceInterval_preserves:
  assumes "table_ok (published cache)" and "ReplaceInterval cache ds revision = (res, cache')"
  shows "table_ok (published cache') \<and> rt_revision (published cache) \<le> rt_revision (published cache')"
proof (cases "res = Inr True")
  case True
  then show ?thesis using ReplaceInterval_ok [of cache ds revision cache'] assms(2) by simp
next
  case False
  then show ?thesis using ReplaceInterval_unchanged [OF assms(2)] assms(1) by simp
qed

lemma Intersects_interval:
  assumes "Contains r key" and "in_interval a b key" shows "Intersects r a b"
  using assms by (auto simp: Contains_def in_interval_def Intersects_def RegionBytewiseLess_def)

lemma replaced_inside:
  assumes ok: "table_ok (published cache)" and rep: "ReplaceInterval cache ds revision = (Inr True, cache')"
    and r: "r \<in> set (replaced_by cache ds)" and k: "Contains r key"
  shows "in_interval (resp_start ds) (resp_end ds) key"
proof -
  have c: "contiguous [] (rt_regions (published cache))"
    using ok by (auto simp: table_ok_def catalog_ok_def dest: RegionCatalog_contiguous)
  note ins = contiguous_filter_inside [OF c, of r "\<lambda>r. Intersects r (resp_start ds) (resp_end ds)", folded replaced_by_def, OF r]
  from rep obtain "r_startKey (hd (replaced_by cache ds)) = resp_start ds" "r_endKey (last (replaced_by cache ds)) = resp_end ds"
    by (rule ReplaceIntervalE)
  with ins have "resp_start ds \<le> r_startKey r" "resp_end ds \<noteq> [] \<Longrightarrow> r_endKey r \<noteq> [] \<and> r_endKey r \<le> resp_end ds" by simp_all
  with k show ?thesis
    by (cases "resp_end ds = []") (auto simp: Contains_def in_interval_def RegionBytewiseLess_def not_less)
qed

lemma replace_outside:
  assumes ok: "table_ok (published cache)" and rep: "ReplaceInterval cache ds revision = (Inr True, cache')"
    and k: "\<not> in_interval (resp_start ds) (resp_end ds) key"
  shows "table_find (published cache') key = table_find (published cache) key"
proof -
  obtain r where r: "r \<in> set (rt_regions (published cache))" "table_find (published cache) key = Some r" "Contains r key"
    using table.resolves [OF ok] by blast
  have "\<not> Intersects r (resp_start ds) (resp_end ds)"
    using replaced_inside [OF ok rep, of r key] r k by (auto simp: replaced_by_def)
  then have "r \<in> set (rt_regions (published cache'))" using new_regions [OF ok rep] r(1) by blast
  then show ?thesis using table.unaffected [OF ok ReplaceInterval_ok(1) [OF rep] r(2)] by simp
qed

lemma replace_inside:
  assumes ok: "table_ok (published cache)" and rep: "ReplaceInterval cache ds revision = (Inr True, cache')"
    and k: "in_interval (resp_start ds) (resp_end ds) key"
  shows "\<exists>d \<in> set ds. table_find (published cache') key = Some (complete_region d) \<and> Contains d key"
proof -
  have "\<exists>r \<in> complete_region ` set ds. table_find (published cache') key = Some r \<and> Contains r key"
    using Intersects_interval [OF _ k] new_regions [OF ok rep]
    by (intro table.moved [OF ReplaceInterval_ok(1) [OF rep],
          where old = "{r \<in> set (rt_regions (published cache)). \<not> Intersects r (resp_start ds) (resp_end ds)}"]) auto
  then show ?thesis by auto
qed

lemma table_ids: "table_ok t \<Longrightarrow> r \<in> set (rt_regions t) \<Longrightarrow> r' \<in> set (rt_regions t) \<Longrightarrow> r_regionId r' = r_regionId r \<Longrightarrow> r' = r"
  using RegionCatalog_ids [of "rt_regions t" "rt_regions t"] by (auto simp: table_ok_def catalog_ok_def distinct_map inj_on_def)

definition same_peer :: "RegionPeerLocation \<Rightarrow> RegionPeerLocation \<Rightarrow> bool" where
  "same_peer left right \<longleftrightarrow> pl_nodeId left = pl_nodeId right \<and> pl_host left = pl_host right \<and>
     pl_port left = pl_port right \<and> pl_storeId left = pl_storeId right \<and> pl_peerId left = pl_peerId right"

lemma SamePeers_all2: "SamePeers a b \<longleftrightarrow> list_all2 same_peer (r_peers a) (r_peers b)"
  by (auto simp: SamePeers_def same_peer_def list_all2_conv_all_nth)

lemma same_peer_fill:
  assumes "list_all2 same_peer ps qs" and "fill_peers i k ps = ps"
  shows "list_all2 same_peer ps (fill_peers i k qs)"
  using assms
proof (induction ps qs arbitrary: k rule: list_all2_induct)
  case (Cons p ps q qs)
  have "default_peer_id i k (default_store p) = p" "same_peer p q" using Cons by simp_all
  then have "same_peer p (default_peer_id i k (default_store q))"
    by (cases p) (auto simp: same_peer_def default_peer_id_def default_store_def split: if_splits)
  then show ?case using Cons by simp
qed simp

lemma SamePeers_complete:
  assumes "SamePeers r d" and "complete_region r = r" and "r_regionId d = r_regionId r"
  shows "SamePeers r (complete_region d)"
proof -
  have "r_peers (complete_region r) = r_peers r" using assms(2) by simp
  then show ?thesis using assms(1,3) same_peer_fill [of "r_peers r" "r_peers d"]
    by (simp add: SamePeers_all2 complete_region_def)
qed

lemma ValidateEpochAdvanceD:
  assumes "ValidateEpochAdvance old new" and "d \<in> set new" and "r \<in> set old" and "r_regionId r = r_regionId d"
    and "\<And>r'. r' \<in> set old \<Longrightarrow> r_regionId r' = r_regionId d \<Longrightarrow> r' = r"
  shows "epoch_advances r d"
proof -
  have "find (\<lambda>region. r_regionId region = r_regionId d) old = Some r"
  proof (cases "find (\<lambda>region. r_regionId region = r_regionId d) old")
    case None
    then show ?thesis using assms(3,4) by (auto simp: find_None_iff)
  next
    case (Some r')
    then have "r' \<in> set old" "r_regionId r' = r_regionId d" by (auto simp: find_Some_iff)
    then show ?thesis using assms(5) Some by simp
  qed
  then show ?thesis using assms(1,2) by (auto simp: ValidateEpochAdvance_def list_all_iff)
qed

lemma epoch_advances_refl: "epoch_advances r r"
  by (simp add: epoch_advances_def SamePeers_all2 same_peer_def list_all2_refl)

lemma replace_epochs:
  assumes ok: "table_ok (published cache)" and rep: "ReplaceInterval cache ds revision = (Inr True, cache')"
    and r: "r \<in> set (rt_regions (published cache))" "r' \<in> set (rt_regions (published cache'))"
    and id: "r_regionId r' = r_regionId r"
  shows "epoch_advances r r'"
proof (cases "r \<in> set (rt_regions (published cache'))")
  case True
  then show ?thesis using table_ids [OF ReplaceInterval_ok(1) [OF rep] True r(2)] id epoch_advances_refl by simp
next
  case False
  then have rr: "r \<in> set (replaced_by cache ds)" using r(1) new_regions [OF ok rep] by (auto simp: replaced_by_def)
  have "r' \<notin> set (rt_regions (published cache))" using table_ids [OF ok r(1)] id r(2) False by blast
  then obtain d where d: "d \<in> set ds" "r' = complete_region d" using r(2) new_regions [OF ok rep] by auto
  have "ValidateEpochAdvance (replaced_by cache ds) (sort_key r_startKey ds)" using rep by (rule ReplaceIntervalE)
  then have "epoch_advances r d"
    by (rule ValidateEpochAdvanceD) (use d rr id table_ids [OF ok r(1)] in \<open>auto simp: replaced_by_def\<close>)
  moreover have "complete_region r = r" using ok r(1) RegionCatalog_settled by (auto simp: table_ok_def catalog_ok_def)
  ultimately show ?thesis using SamePeers_complete [of r d] id d(2) by (auto simp: epoch_advances_def Let_def)
qed

section \<open>Lookups\<close>

lemma checked_route_iff:
  "checked_route cache found = Inr h \<longleftrightarrow> found = Some h \<and> \<not> IsInvalidated cache (r_regionId (Descriptor h))"
  by (auto simp: checked_route_def split: option.split)

lemma checked_route_Inl [simp]: "checked_route cache found = Inl e \<Longrightarrow> e = NoUsableRoute"
  by (auto simp: checked_route_def split: option.splits if_splits)

lemma checked_route_cong: "invalidated c = invalidated c' \<Longrightarrow> checked_route c found = checked_route c' found"
  by (simp add: checked_route_def IsInvalidated_def split: option.split)

lemma usable_route_iff:
  "usable_route cache key = Inr h \<longleftrightarrow>
     CacheFindKey (published cache) key = Some h \<and> \<not> IsInvalidated cache (r_regionId (Descriptor h))"
  by (simp add: usable_route_def checked_route_iff)

lemma usable_route_cong:
  "published c = published c' \<Longrightarrow> invalidated c = invalidated c' \<Longrightarrow> usable_route c key = usable_route c' key"
  by (simp add: usable_route_def checked_route_cong [of c c'])

lemma counts_simps [simp]:
  "published (count_hit c) = published c" "invalidated (count_hit c) = invalidated c" "refreshSlots (count_hit c) = refreshSlots c"
  "published (count_miss c) = published c" "invalidated (count_miss c) = invalidated c" "refreshSlots (count_miss c) = refreshSlots c"
  "published (count_refresh b c) = published c" "invalidated (count_refresh b c) = invalidated c"
  "refreshSlots (count_refresh b c) = refreshSlots c"
  by (simp_all add: count_hit_def count_miss_def count_refresh_def)

text \<open>The outcome of a replacement depends on the routes only.\<close>

definition routes :: "RegionCache \<Rightarrow> RouteTable \<times> int list" where
  "routes c = (published c, invalidated c)"

lemma routes_simps [simp]:
  "routes (count_hit c) = routes c" "routes (count_miss c) = routes c" "routes (count_refresh b c) = routes c"
  "routes (c \<lparr> metrics := m \<rparr>) = routes c" "routes (c \<lparr> refreshSlots := ks \<rparr>) = routes c"
  by (simp_all add: routes_def)

lemma ReplaceInterval_routes:
  assumes "routes c = routes c'"
  shows "fst (ReplaceInterval c ds revision) = fst (ReplaceInterval c' ds revision)"
    and "routes (snd (ReplaceInterval c ds revision)) = routes (snd (ReplaceInterval c' ds revision))"
  using assms by (auto simp: routes_def ReplaceInterval_def Let_def split: sum.split)

definition refresh_slot :: "RegionCache \<Rightarrow> string \<Rightarrow> string" where
  "refresh_slot cache key = RefreshSlotKey key (CacheFindKey (published cache) key)"

lemma RefreshAsLeader_slot: "RefreshAsLeader c slot others response = (failed, c') \<Longrightarrow> slot \<notin> set (refreshSlots c')"
  by (auto simp: RefreshAsLeader_def Let_def split: prod.splits)

text \<open>
  How a shared cache evolves under any interleaving of the steps of its users. A lookup changes counters
  only, a refresh opens and closes a slot, a replacement publishes a table and then erases invalidation
  marks, in one step or with the steps of other threads in between.
\<close>

inductive cache_evolves :: "RegionCache \<Rightarrow> RegionCache \<Rightarrow> bool" where
  ce_refl: "cache_evolves c c"
| ce_trans: "cache_evolves a b \<Longrightarrow> cache_evolves b c \<Longrightarrow> cache_evolves a c"
| ce_count: "cache_evolves c (c \<lparr> metrics := m \<rparr>)"
| ce_slots: "cache_evolves c (c \<lparr> refreshSlots := slots \<rparr>)"
| ce_invalidate: "cache_evolves c (Invalidate c regionId)"
| ce_replace: "cache_evolves c (snd (ReplaceInterval c ds revision))"
| ce_publish: "cache_evolves c (snd (ReplaceInterval c ds revision) \<lparr> invalidated := invalidated c \<rparr>)"
| ce_erase: "cache_evolves c (c \<lparr> invalidated := filter (\<lambda>i. i \<notin> set ids) (invalidated c) \<rparr>)"

lemma ce_counts:
  "cache_evolves c (count_hit c)" "cache_evolves c (count_miss c)" "cache_evolves c (count_refresh b c)"
  by (simp_all add: count_hit_def count_miss_def count_refresh_def ce_count)

text \<open>The published table stays valid and its revision does not fall.\<close>

definition newer :: "RegionCache \<Rightarrow> RegionCache \<Rightarrow> bool" where
  "newer c c' \<longleftrightarrow> (table_ok (published c) \<longrightarrow>
     table_ok (published c') \<and> rt_revision (published c) \<le> rt_revision (published c'))"

lemma newer_refl: "newer c c"
  by (simp add: newer_def)

lemma newer_trans: "newer a b \<Longrightarrow> newer b c \<Longrightarrow> newer a c"
  by (auto simp: newer_def)

lemma newer_same: "published c' = published c \<Longrightarrow> newer c c'"
  by (simp add: newer_def)

lemma ReplaceInterval_newer: "newer c (snd (ReplaceInterval c ds revision))"
  using ReplaceInterval_preserves [of c ds revision] by (cases "ReplaceInterval c ds revision") (simp add: newer_def)

lemma cache_evolves_newer: "cache_evolves c c' \<Longrightarrow> newer c c'"
proof (induction rule: cache_evolves.induct)
  case (ce_trans a b c)
  then show ?case using newer_trans by blast
next
  case (ce_publish c ds revision)
  show ?case using ReplaceInterval_newer [of c ds revision] by (simp add: newer_def)
qed (simp_all add: ReplaceInterval_newer newer_same Invalidate_def)

text \<open>
  A preorder on caches that contains the steps a call makes itself and those of the other threads contains
  whole calls. It is instantiated with the evolution of the cache and with the order on valid tables. The
  route a call returns was read from a table published during the call, and its mark was checked last.
\<close>

definition read_during ::
  "(RegionCache \<Rightarrow> RegionCache \<Rightarrow> bool) \<Rightarrow> RegionCache \<Rightarrow> string \<Rightarrow> RegionRouteHandle \<Rightarrow> RegionCache \<Rightarrow> bool" where
  "read_during le c key h c' \<longleftrightarrow> (\<exists>cs. le c cs \<and> le cs c' \<and> CacheFindKey (published cs) key = Some h) \<and>
     \<not> IsInvalidated c' (r_regionId (Descriptor h))"

locale cache_order =
  fixes le :: "RegionCache \<Rightarrow> RegionCache \<Rightarrow> bool"
  assumes refl: "le c c"
    and trans: "le a b \<Longrightarrow> le b c \<Longrightarrow> le a c"
    and count: "le c (c \<lparr> metrics := m \<rparr>)"
    and slots: "le c (c \<lparr> refreshSlots := ks \<rparr>)"
    and replace: "le c (snd (ReplaceInterval c ds revision))"
begin

lemma counts: "le c (count_hit c)" "le c (count_miss c)" "le c (count_refresh b c)"
  by (simp_all add: count_hit_def count_miss_def count_refresh_def count)

lemma then_count: "le a b \<Longrightarrow> le a (count_hit b)" "le a b \<Longrightarrow> le a (count_miss b)"
  "le a b \<Longrightarrow> le a (count_refresh x b)" "le a b \<Longrightarrow> le a (b \<lparr> metrics := m \<rparr>)"
  using trans counts count by blast+

lemma lookup_key:
  assumes "\<And>c. le c (others c)"
  shows "le c (snd (CacheLookupKey others c key))"
  using assms [of c] by (simp add: CacheLookupKey_def Let_def then_count split: option.split)

lemma lookup_region:
  assumes "\<And>c. le c (others c)"
  shows "le c (snd (CacheLookupRegion others c i))"
  using assms [of c] by (simp add: CacheLookupRegion_def Let_def then_count split: option.split)

lemma leader:
  assumes others: "\<And>p c. le c (others p c)"
  shows "le c (snd (RefreshAsLeader c slot others response))"
proof -
  define c2 where "c2 = others Refreshing (c \<lparr> refreshSlots := slot # refreshSlots c,
     metrics := (metrics c) \<lparr> cm_refreshLeaders := cm_refreshLeaders (metrics c) + 1 \<rparr> \<rparr>)"
  have c2: "le c c2" unfolding c2_def by (rule trans [OF trans [OF slots count] others])
  have close: "le c (others Closing x \<lparr> refreshSlots := ks \<rparr>)" if "le c2 x" for x ks
    using trans [OF trans [OF trans [OF c2 that] others] slots] .
  have "le c2 (snd (ReplaceInterval c2 ds revision))" for ds revision by (rule replace)
  then show ?thesis
    unfolding RefreshAsLeader_def Let_def c2_def [symmetric]
    by (auto split: option.split prod.split sum.split intro!: close then_count refl) (metis snd_conv)+
qed

lemma reread:
  assumes others: "\<And>p c. le c (others p c)" and start: "le c c0" and run: "RereadRoute c0 key others = (res, c')"
  shows "le c c' \<and> (\<forall>h. res = Inr h \<longrightarrow> read_during le c key h c')"
proof -
  define c1 where "c1 = others Rereading c0"
  have c': "c' = others Rechecking c1" "res = checked_route c' (CacheFindKey (published c1) key)"
    using run by (auto simp: RereadRoute_def Let_def c1_def)
  have "le c c1" unfolding c1_def by (rule trans [OF start others])
  moreover have "le c1 c'" unfolding c' by (rule others)
  ultimately show ?thesis using trans c'(2) by (auto simp: read_during_def checked_route_iff)
qed

lemma lookup_or_refresh:
  assumes others: "\<And>p c. le c (others p c)" and run: "LookupOrRefresh c key others response wait = (res, c')"
  shows "le c c' \<and> (\<forall>h. res = Inr h \<longrightarrow> read_during le c key h c')"
proof -
  define cc where "cc = others Checking c"
  have cc: "le c cc" unfolding cc_def by (rule others)
  show ?thesis
  proof (cases "checked_route cc (CacheFindKey (published c) key)")
    case (Inr h)
    then have "res = Inr h" "c' = count_hit cc" using run by (simp_all add: LookupOrRefresh_def Let_def cc_def)
    moreover have "IsInvalidated (count_hit cc) = IsInvalidated cc" by (simp add: IsInvalidated_def fun_eq_iff)
    ultimately show ?thesis using Inr then_count(1) [OF cc] refl [of c] unfolding read_during_def checked_route_iff by auto
  next
    case (Inl e)
    define c0 where "c0 = others Enlisting (count_miss cc)"
    define slot where "slot = RefreshSlotKey key (CacheFindKey (published c) key)"
    define w where "w = others Refreshing (c0 \<lparr> metrics := (metrics c0) \<lparr> cm_refreshWaiters := cm_refreshWaiters (metrics c0) + 1 \<rparr> \<rparr>)"
    have c0: "le c c0" unfolding c0_def by (rule trans [OF then_count(2) [OF cc] others])
    have w: "le c w" unfolding w_def by (rule trans [OF trans [OF c0 count] others])
    have l: "le c (snd (RefreshAsLeader c0 slot others response))" by (rule trans [OF c0 leader [OF others]])
    note e = run [unfolded LookupOrRefresh_def Let_def cc_def [symmetric] c0_def [symmetric] slot_def [symmetric] w_def [symmetric],
        simplified Inl]
    show ?thesis
    proof (cases "slot \<in> set (refreshSlots c0)")
      case True
      then show ?thesis using e w then_count(4) reread [OF others w, where key = key and res = res and c' = c']
        by (auto split: option.splits if_splits)
    next
      case False
      obtain failed cl where f: "RefreshAsLeader c0 slot others response = (failed, cl)" by fastforce
      have "le c cl" using l f by simp
      then show ?thesis using e False f reread [OF others, where c = c and c0 = cl and key = key and res = res and c' = c'] by (auto split: if_splits)
    qed
  qed
qed

end

interpretation evolving: cache_order cache_evolves
  by unfold_locales (rule ce_refl, rule ce_trans, assumption+, rule ce_count, rule ce_slots, rule ce_replace)

interpretation validity: cache_order newer
  by unfold_locales (rule newer_refl, rule newer_trans, assumption+, simp_all add: newer_same ReplaceInterval_newer)

lemma CacheFindKey_iff:
  assumes "table_ok t"
  shows "\<exists>h. CacheFindKey t key = Some h \<and> Descriptor h \<in> set (rt_regions t) \<and> Contains (Descriptor h) key"
  using table.resolves [OF assms, of key] by (auto simp: table_find_def)

lemma CacheFindRegion_cases:
  assumes "table_ok t"
  shows "case CacheFindRegion t i of
      Some h \<Rightarrow> Descriptor h \<in> set (rt_regions t) \<and> r_regionId (Descriptor h) = i
    | None \<Rightarrow> i \<notin> r_regionId ` set (rt_regions t)"
proof (cases "CacheFindRegion t i")
  case None
  then show ?thesis using table_find_id [OF assms] by (auto simp del: split_paired_Ex) (metis option.distinct(1))
next
  case (Some h)
  then obtain n where n: "h = (t, n)" "map_of (rt_byRegionId t) i = Some n" by (auto simp: CacheFindRegion_def)
  then have "(i, n) \<in> set (zip (map r_regionId (rt_regions t)) [0..<length (rt_regions t)])"
    using assms map_of_SomeD [OF n(2)] by (simp add: table_ok_def)
  then show ?thesis by (auto simp: Some n(1) in_set_zip)
qed

lemma CacheLookupKey_sound:
  assumes "table_ok (published c)" and "CacheLookupKey others c key = (res, c')"
  shows "\<exists>r \<in> set (rt_regions (published c)). Contains r key \<and>
    (case res of Inr h \<Rightarrow>  Descriptor h = r \<and> \<not> IsInvalidated c' (r_regionId r)
     | Inl _ \<Rightarrow> IsInvalidated c' (r_regionId r))"
proof -
  obtain h where h: "CacheFindKey (published c) key = Some h" "Descriptor h \<in> set (rt_regions (published c))"
    "Contains (Descriptor h) key" using CacheFindKey_iff [OF assms(1), of key] by blast
  then show ?thesis using assms(2)
    by (intro bexI [of _ "Descriptor h"]) (auto simp: CacheLookupKey_def Let_def IsInvalidated_def split: if_splits)
qed

lemma CacheLookupRegion_sound:
  assumes "table_ok (published c)" and "CacheLookupRegion others c i = (res, c')"
  shows "case res of
      Inr h \<Rightarrow> Descriptor h \<in> set (rt_regions (published c)) \<and> r_regionId (Descriptor h) = i \<and> \<not> IsInvalidated c' i
    | Inl _ \<Rightarrow> i \<notin> r_regionId ` set (rt_regions (published c)) \<or> IsInvalidated c' i"
  using CacheFindRegion_cases [OF assms(1), of i] assms(2)
  by (auto simp: CacheLookupRegion_def Let_def IsInvalidated_def split: option.splits if_splits)

lemma read_during_sound:
  assumes "read_during cache_evolves c key h c'" and "table_ok (published c)"
  shows "\<exists>cs. cache_evolves c cs \<and> cache_evolves cs c' \<and> Descriptor h \<in> set (rt_regions (published cs)) \<and>
    Contains (Descriptor h) key"
proof -
  obtain cs where cs: "cache_evolves c cs" "cache_evolves cs c'" "CacheFindKey (published cs) key = Some h"
    using assms(1) by (auto simp: read_during_def)
  have "table_ok (published cs)" using cache_evolves_newer [OF cs(1)] assms(2) by (simp add: newer_def)
  with CacheFindKey_iff [of "published cs" key] cs show ?thesis by auto
qed

text \<open>No other thread acts.\<close>

abbreviation no_interference :: interference where
  "no_interference \<equiv> (\<lambda>_ c. c)"

lemma NewRegionCache_ok:
  assumes "NewRegionCache regions revision = Inr c"
  shows "table_ok (published c)" and "invalidated c = []"
  using assms by (auto simp: NewRegionCache_def NewRouteTable_ok split: sum.splits)

section \<open>Properties of the cache\<close>

text \<open>The routes of the static topology, and a split of its second region at revision 2.\<close>

definition sample_cache :: RegionCache where
  "sample_cache = (case NewRegionCache sample_regions 1 of Inr c \<Rightarrow> c |
     Inl _ \<Rightarrow> \<lparr> published = \<lparr> rt_regions = [], rt_byRegionId = [], rt_revision = 0 \<rparr>, invalidated = [], refreshSlots = [], metrics = no_metrics \<rparr>)"

definition sample_split :: "RegionMetadata list" where
  "sample_split =
     [RegionMetadata 2 ''t'' [] [(sample_peer 2) \<lparr> pl_peerId := 77 \<rparr>] \<lparr> ep_version = 1, ep_confVersion = 1 \<rparr> 2 0 None,
      RegionMetadata 1 ''m'' ''t'' [sample_peer 1, sample_peer 2] \<lparr> ep_version = 2, ep_confVersion = 2 \<rparr> 2 0 None]"

lemma sample_cache: "NewRegionCache sample_regions 1 = Inr sample_cache"
proof -
  have "\<not> isl (NewRegionCache sample_regions 1)" by code_simp
  then show ?thesis by (cases "NewRegionCache sample_regions 1") (simp_all add: sample_cache_def)
qed

lemma sample_replace: "ReplaceInterval sample_cache sample_split 2 = (Inr True, snd (ReplaceInterval sample_cache sample_split 2))"
proof -
  have "(case fst (ReplaceInterval sample_cache sample_split 2) of Inr b \<Rightarrow> b | Inl _ \<Rightarrow> False)" by code_simp
  then show ?thesis by (cases "ReplaceInterval sample_cache sample_split 2") (auto split: sum.splits)
qed

text \<open>
  C20. Installing a topology response changes the routes of exactly the interval it covers: after an accepted
  response every key outside that interval resolves to the same region as before, every key inside it to one
  of the descriptors of the response that contains the key, and the table is valid at the response's
  revision, which is not below the old one.
\<close>

theorem replace_interval_routes:
  assumes "table_ok (published cache)" and "ReplaceInterval cache ds revision = (Inr True, cache')"
  shows "table_ok (published cache') \<and> rt_revision (published cache) \<le> revision \<and> rt_revision (published cache') = revision \<and>
    (if in_interval (resp_start ds) (resp_end ds) key
     then \<exists>d \<in> set ds. table_find (published cache') key = Some (complete_region d) \<and> Contains d key
     else table_find (published cache') key = table_find (published cache) key)"
  using replace_inside [OF assms] replace_outside [OF assms] ReplaceInterval_ok [OF assms(2)] by simp

theorem replace_interval_routes_witness:
  "\<exists>c'. ReplaceInterval sample_cache sample_split 2 = (Inr True, c') \<and>
     table_find (published c') ''apple'' = table_find (published sample_cache) ''apple'' \<and>
     (\<exists>d \<in> set sample_split. table_find (published c') ''zebra'' = Some (complete_region d) \<and> Contains d ''zebra'')"
proof -
  have "\<not> in_interval (resp_start sample_split) (resp_end sample_split) ''apple''"
    "in_interval (resp_start sample_split) (resp_end sample_split) ''zebra''" by code_simp+
  with replace_interval_routes [OF NewRegionCache_ok(1) [OF sample_cache] sample_replace, of "''apple''"]
    replace_interval_routes [OF NewRegionCache_ok(1) [OF sample_cache] sample_replace, of "''zebra''"] sample_replace
  show ?thesis by auto
qed

text \<open>
  C25. A cached descriptor is never replaced by an older one: when an accepted response carries a region that
  the table already had, neither version of its epoch is lower, the range version is higher when its range
  changed, and the configuration version is higher when its peers changed.
\<close>

theorem replace_never_regresses:
  assumes "table_ok (published cache)" and "ReplaceInterval cache ds revision = (Inr True, cache')"
    and "r \<in> set (rt_regions (published cache))" and "r' \<in> set (rt_regions (published cache'))"
    and "r_regionId r' = r_regionId r"
  shows "ep_version (r_epoch r) \<le> ep_version (r_epoch r') \<and> ep_confVersion (r_epoch r) \<le> ep_confVersion (r_epoch r') \<and>
    (r_startKey r' \<noteq> r_startKey r \<or> r_endKey r' \<noteq> r_endKey r \<longrightarrow> ep_version (r_epoch r) < ep_version (r_epoch r')) \<and>
    (\<not> SamePeers r r' \<longrightarrow> ep_confVersion (r_epoch r) < ep_confVersion (r_epoch r'))"
  using replace_epochs [OF assms] by (auto simp: epoch_advances_def Let_def)

theorem replace_never_regresses_witness:
  "\<exists>r r'. r \<in> set (rt_regions (published sample_cache)) \<and> r_regionId r = 1 \<and> r_regionId r' = 1 \<and>
     r' \<in> set (rt_regions (published (snd (ReplaceInterval sample_cache sample_split 2)))) \<and>
     r_endKey r' \<noteq> r_endKey r \<and> ep_version (r_epoch r) < ep_version (r_epoch r')"
proof -
  let ?r = "rt_regions (published sample_cache) ! 1"
  let ?r' = "rt_regions (published (snd (ReplaceInterval sample_cache sample_split 2))) ! 1"
  have n: "length (rt_regions (published sample_cache)) = 2"
    "length (rt_regions (published (snd (ReplaceInterval sample_cache sample_split 2)))) = 3" by code_simp+
  have e: "r_regionId ?r = 1" "r_regionId ?r' = 1" "r_endKey ?r' \<noteq> r_endKey ?r" by code_simp+
  have m: "?r \<in> set (rt_regions (published sample_cache))"
    "?r' \<in> set (rt_regions (published (snd (ReplaceInterval sample_cache sample_split 2))))" by (rule nth_mem, simp add: n)+
  have "ep_version (r_epoch ?r) < ep_version (r_epoch ?r')"
    using replace_never_regresses [OF NewRegionCache_ok(1) [OF sample_cache] sample_replace m] e by simp
  with m e show ?thesis by blast
qed

text \<open>
  C24. Lookups are sound under any interleaving with lookups, refreshes, invalidations and updates of other
  threads, between the two reads of a lookup as well. The published table stays valid and its revision never
  falls. A route that \<open>LookupKey\<close> returns is the region of the key in the table published when the call
  began, one that \<open>LookupRegion\<close> returns the region of that identifier there, one that \<open>LookupOrRefresh\<close>
  returns the region of the key in a table published during the call. None of them is marked as invalidated
  when the call ends. \<open>LookupKey\<close> throws only if the region of the key is marked then, \<open>LookupRegion\<close> only
  if there is none or it is marked.
\<close>

theorem cache_lookup_sound:
  assumes "NewRegionCache regions revision = Inr c0" and "cache_evolves c0 c" and others: "\<And>p x. cache_evolves x (others p x)"
  shows "(\<forall>res c'. CacheLookupKey (others p) c key = (res, c') \<longrightarrow>
      (\<exists>r \<in> set (rt_regions (published c)). Contains r key \<and>
        (case res of Inr h \<Rightarrow> Descriptor h = r \<and> \<not> IsInvalidated c' (r_regionId r)
         | Inl _ \<Rightarrow> IsInvalidated c' (r_regionId r)))) \<and>
    (\<forall>res c'. CacheLookupRegion (others p) c i = (res, c') \<longrightarrow>
      (case res of
         Inr h \<Rightarrow> Descriptor h \<in> set (rt_regions (published c)) \<and> r_regionId (Descriptor h) = i \<and> \<not> IsInvalidated c' i
       | Inl _ \<Rightarrow> i \<notin> r_regionId ` set (rt_regions (published c)) \<or> IsInvalidated c' i)) \<and>
    (\<forall>res c'. LookupOrRefresh c key others response wait = (res, c') \<longrightarrow>
      table_ok (published c') \<and> rt_revision (published c0) \<le> rt_revision (published c') \<and>
      (\<forall>h. res = Inr h \<longrightarrow> \<not> IsInvalidated c' (r_regionId (Descriptor h)) \<and>
         (\<exists>cs. cache_evolves c cs \<and> cache_evolves cs c' \<and> Descriptor h \<in> set (rt_regions (published cs)) \<and>
            Contains (Descriptor h) key)))"
proof -
  have valid: "table_ok (published x) \<and> rt_revision (published c0) \<le> rt_revision (published x)" if "cache_evolves c0 x" for x
    using cache_evolves_newer [OF that] NewRegionCache_ok(1) [OF assms(1)] by (simp add: newer_def)
  then have ok: "table_ok (published c)" using assms(2) by blast
  have "table_ok (published c') \<and> rt_revision (published c0) \<le> rt_revision (published c') \<and>
      (\<forall>h. res = Inr h \<longrightarrow> \<not> IsInvalidated c' (r_regionId (Descriptor h)) \<and>
         (\<exists>cs. cache_evolves c cs \<and> cache_evolves cs c' \<and> Descriptor h \<in> set (rt_regions (published cs)) \<and>
            Contains (Descriptor h) key))"
    if "LookupOrRefresh c key others response wait = (res, c')" for res c'
  proof -
    note l = evolving.lookup_or_refresh [OF others that]
    have "\<not> IsInvalidated c' (r_regionId (Descriptor h)) \<and>
         (\<exists>cs. cache_evolves c cs \<and> cache_evolves cs c' \<and> Descriptor h \<in> set (rt_regions (published cs)) \<and>
            Contains (Descriptor h) key)" if "res = Inr h" for h
    proof -
      have d: "read_during cache_evolves c key h c'" using l that by blast
      then have "\<not> IsInvalidated c' (r_regionId (Descriptor h))" by (simp add: read_during_def)
      with read_during_sound [OF d ok] show ?thesis by blast
    qed
    moreover have "cache_evolves c0 c'" using l ce_trans [OF assms(2)] by blast
    ultimately show ?thesis using valid by blast
  qed
  note refresh = this
  show ?thesis
  proof (intro conjI [OF _ conjI] allI impI)
    fix res c'
    show "CacheLookupKey (others p) c key = (res, c') \<Longrightarrow> \<exists>r \<in> set (rt_regions (published c)). Contains r key \<and>
        (case res of Inr h \<Rightarrow> Descriptor h = r \<and> \<not> IsInvalidated c' (r_regionId r)
         | Inl _ \<Rightarrow> IsInvalidated c' (r_regionId r))"
      by (rule CacheLookupKey_sound [OF ok])
  next
    fix res c'
    show "CacheLookupRegion (others p) c i = (res, c') \<Longrightarrow> (case res of
         Inr h \<Rightarrow> Descriptor h \<in> set (rt_regions (published c)) \<and> r_regionId (Descriptor h) = i \<and> \<not> IsInvalidated c' i
       | Inl _ \<Rightarrow> i \<notin> r_regionId ` set (rt_regions (published c)) \<or> IsInvalidated c' i)"
      by (rule CacheLookupRegion_sound [OF ok])
  qed (use refresh in blast)+
qed

text \<open>Another thread installs the split while a lookup of the second region is between its two reads.\<close>

theorem cache_lookup_sound_witness:
  "\<exists>h c'. CacheLookupKey (\<lambda>x. snd (ReplaceInterval x sample_split 2)) sample_cache ''zebra'' = (Inr h, c') \<and>
     Contains (Descriptor h) ''zebra'' \<and> Descriptor h \<in> set (rt_regions (published sample_cache)) \<and> rt_revision (published c') = 2"
proof -
  let ?others = "\<lambda>(_ :: sync_point) x. snd (ReplaceInterval x sample_split 2)"
  define res where "res = fst (CacheLookupKey (?others Checking) sample_cache ''zebra'')"
  define c' where "c' = snd (CacheLookupKey (?others Checking) sample_cache ''zebra'')"
  have "\<not> isl res" "rt_revision (published c') = 2" unfolding res_def c'_def by code_simp+
  then obtain h where r: "res = Inr h" by (cases res) auto
  have e: "CacheLookupKey (?others Checking) sample_cache ''zebra'' = (res, c')" by (simp add: res_def c'_def)
  have "\<exists>r \<in> set (rt_regions (published sample_cache)). Contains r ''zebra'' \<and>
        (case res of Inr h \<Rightarrow> Descriptor h = r \<and> \<not> IsInvalidated c' (r_regionId r) | Inl _ \<Rightarrow> IsInvalidated c' (r_regionId r))"
    using cache_lookup_sound [OF sample_cache ce_refl ce_replace, where ds1 = "\<lambda>_ _. sample_split" and revision1 = "\<lambda>_ _. 2"
      and p = Checking and key = "''zebra''"] e by blast
  with r e \<open>rt_revision (published c') = 2\<close> show ?thesis by auto
qed

text \<open>
  C23. A stale route heals with one refresh: when the cached route of a key is missing or invalidated, no
  other thread is refreshing it or changes the routes, and the metadata service answers with an acceptable
  response that covers the key, the lookup returns the descriptor of the response that contains the key, and
  later plain lookups find it too.
\<close>

theorem refresh_restores_routing:
  assumes ok: "table_ok (published cache)" and stale: "usable_route cache key = Inl e"
    and free: "refresh_slot cache key \<notin> set (refreshSlots cache)"
    and others: "\<And>p c. routes (others p c) = routes c"
    and idle: "\<And>p c. p \<noteq> Refreshing \<Longrightarrow> p \<noteq> Closing \<Longrightarrow> refresh_slot cache key \<notin> set (refreshSlots c) \<Longrightarrow>
      refresh_slot cache key \<notin> set (refreshSlots (others p c))"
    and rep: "fst (ReplaceInterval cache ds revision) = Inr True"
    and k: "in_interval (resp_start ds) (resp_end ds) key"
  shows "\<exists>d h c'. d \<in> set ds \<and> Contains d key \<and> Descriptor h = complete_region d \<and>
    LookupOrRefresh cache key others (Some (ds, revision)) wait = (Inr h, c') \<and>
    fst (CacheLookupKey (others p) c' key) = Inr h \<and> refresh_slot cache key \<notin> set (refreshSlots c')"
proof -
  define slot where "slot = refresh_slot cache key"
  define c0 where "c0 = others Enlisting (count_miss (others Checking cache))"
  define c1 where "c1 = others Refreshing (c0 \<lparr> refreshSlots := slot # refreshSlots c0,
     metrics := (metrics c0) \<lparr> cm_refreshLeaders := cm_refreshLeaders (metrics c0) + 1 \<rparr> \<rparr>)"
  have r0: "routes c0 = routes cache"
    by (simp add: c0_def others)
  have r1: "routes c1 = routes cache" using r0 by (simp add: c1_def others)
  obtain c2 where c2: "ReplaceInterval c1 ds revision = (Inr True, c2)"
    using ReplaceInterval_routes(1) [OF r1, of ds revision] rep by (cases "ReplaceInterval c1 ds revision") auto
  have ok1: "table_ok (published c1)" using ok r1 by (simp add: routes_def)
  obtain d h where d: "d \<in> set ds" "CacheFindKey (published c2) key = Some h" "Contains d key" "Descriptor h = complete_region d"
    using replace_inside [OF ok1 c2 k] by (auto simp: table_find_def)
  have inv: "\<not> IsInvalidated c2 (r_regionId (complete_region d))"
    using c2 d(1) by (auto elim!: ReplaceIntervalE simp: IsInvalidated_def)
  define c3 where "c3 = others Closing (count_refresh True c2) \<lparr> refreshSlots := filter (\<lambda>k. k \<noteq> slot) (refreshSlots (others Closing (count_refresh True c2))) \<rparr>"
  define c4 where "c4 = others Rereading c3"
  define c5 where "c5 = others Rechecking c4"
  have r3: "routes c3 = routes c2"
    by (simp add: c3_def others)
  then have r: "routes c4 = routes c2" "routes c5 = routes c2" by (simp_all add: c4_def c5_def others)
  have checked: "checked_route x (CacheFindKey (published y) key) = Inr h" if "routes x = routes c2" "routes y = routes c2" for x y
    using that d(2,4) inv by (simp add: checked_route_iff routes_def IsInvalidated_def)
  have miss: "checked_route (others Checking cache) (CacheFindKey (published cache) key) = Inl e"
    using stale others [of Checking cache] checked_route_cong [of "others Checking cache" cache]
    by (simp add: usable_route_def routes_def)
  have closed: "slot \<notin> set (refreshSlots c0)"
    using free idle [of Checking cache] idle [of Enlisting "count_miss (others Checking cache)"] by (simp add: c0_def slot_def)
  have "RefreshAsLeader c0 slot others (Some (ds, revision)) = (False, c3)"
    by (simp add: RefreshAsLeader_def c1_def [symmetric] c2 c3_def Let_def)
  moreover have "RereadRoute c3 key others = (Inr h, c5)"
    by (simp add: RereadRoute_def Let_def c4_def [symmetric] c5_def [symmetric] checked r)
  ultimately have "LookupOrRefresh cache key others (Some (ds, revision)) wait = (Inr h, c5)"
    using miss closed by (simp add: LookupOrRefresh_def Let_def c0_def [symmetric] refresh_slot_def [symmetric] slot_def [symmetric])
  moreover have "fst (CacheLookupKey (others p) c5 key) = Inr h"
  proof -
    have "routes (others p c5) = routes c2" using r others by simp
    from checked [OF this r(2)] show ?thesis
      by (auto simp: CacheLookupKey_def Let_def checked_route_def split: option.splits if_splits)
  qed
  moreover have "slot \<notin> set (refreshSlots c5)"
    using idle [of Rereading c3] idle [of Rechecking c4] by (simp add: c3_def c4_def c5_def slot_def)
  ultimately show ?thesis using d slot_def by blast
qed

theorem refresh_restores_routing_witness:
  "\<exists>d h c'. d \<in> set sample_split \<and> Contains d ''zebra'' \<and> Descriptor h = complete_region d \<and>
    LookupOrRefresh (Invalidate sample_cache 1) ''zebra'' no_interference (Some (sample_split, 2)) None = (Inr h, c')"
proof -
  have "table_ok (published (Invalidate sample_cache 1))"
    using NewRegionCache_ok(1) [OF sample_cache] by (simp add: Invalidate_def)
  moreover have "usable_route (Invalidate sample_cache 1) ''zebra'' = Inl NoUsableRoute"
    "refresh_slot (Invalidate sample_cache 1) ''zebra'' \<notin> set (refreshSlots (Invalidate sample_cache 1))"
    "in_interval (resp_start sample_split) (resp_end sample_split) ''zebra''" by code_simp+
  moreover have "(case fst (ReplaceInterval (Invalidate sample_cache 1) sample_split 2) of Inl _ \<Rightarrow> False | Inr b \<Rightarrow> b)" by code_simp
  then have "fst (ReplaceInterval (Invalidate sample_cache 1) sample_split 2) = Inr True" by (simp split: sum.splits)
  ultimately show ?thesis using refresh_restores_routing [of "Invalidate sample_cache 1" "''zebra''" NoUsableRoute no_interference sample_split 2 None]
    by (simp add: routes_def) blast
qed

text \<open>
  C28. A refresh that fails is contained: when the refresh function throws or its response is rejected, the
  leader rethrows, closes its slot and leaves the routes as the other threads left them; an out-of-date
  response does not touch them either.
\<close>

theorem refresh_failure_contained:
  assumes "RefreshAsLeader cache slot others response = (failed, cache')"
    and "response = None \<or> (\<exists>ds revision. response = Some (ds, revision) \<and> revision < rt_revision (published cache)) \<or> failed"
    and "\<And>p c. routes (others p c) = routes c"
  shows "routes cache' = routes cache \<and> slot \<notin> set (refreshSlots cache')"
proof -
  define c1 where "c1 = others Refreshing (cache \<lparr> refreshSlots := slot # refreshSlots cache,
     metrics := (metrics cache) \<lparr> cm_refreshLeaders := cm_refreshLeaders (metrics cache) + 1 \<rparr> \<rparr>)"
  have r1: "routes c1 = routes cache" by (simp add: c1_def assms(3))
  have stale: "fst (ReplaceInterval c1 ds revision) \<noteq> Inr True" if "revision < rt_revision (published cache)" for ds revision
    using that r1 by (auto simp: ReplaceInterval_def Let_def routes_def)
  have same: "routes c2 = routes c1" if "ReplaceInterval c1 ds revision = (res, c2)" "res \<noteq> Inr True" for ds revision res c2
    using ReplaceInterval_unchanged [OF that] by (simp add: routes_def)
  have "routes cache' = routes c1"
  proof (cases response)
    case None
    then show ?thesis using assms(1) by (auto simp: RefreshAsLeader_def c1_def [symmetric] Let_def assms(3))
  next
    case (Some p)
    obtain ds revision res c2 where p: "p = (ds, revision)" and c2: "ReplaceInterval c1 ds revision = (res, c2)"
      by (metis surj_pair)
    have "res \<noteq> Inr True"
      using assms(1,2) stale [of revision ds] c2
      by (auto simp: Some p RefreshAsLeader_def c1_def [symmetric] Let_def split: sum.splits)
    then have "routes c2 = routes c1" using same c2 by blast
    then show ?thesis using assms(1) c2
      by (auto simp: Some p RefreshAsLeader_def c1_def [symmetric] Let_def assms(3) split: sum.splits)
  qed
  then show ?thesis using r1 RefreshAsLeader_slot [OF assms(1)] by simp
qed

theorem refresh_failure_contained_witness:
  "routes (snd (RefreshAsLeader sample_cache ''region:1'' no_interference (Some (sample_split, 0)))) = routes sample_cache"
proof -
  have r: "(0 :: u64) < rt_revision (published sample_cache)" by code_simp
  have e: "RefreshAsLeader sample_cache ''region:1'' no_interference (Some (sample_split, 0)) =
    (fst (RefreshAsLeader sample_cache ''region:1'' no_interference (Some (sample_split, 0))),
     snd (RefreshAsLeader sample_cache ''region:1'' no_interference (Some (sample_split, 0))))" by simp
  show ?thesis using refresh_failure_contained [OF e] r by simp
qed

end
