(* ===== verification/ShardRouting.thy ===== *)
theory ShardRouting
  imports RegionCache
begin

text \<open>
  Routing of keys to shard storages (\<open>transaction/shard_router\<close>) and the checks a server makes on the
  region header of a request (\<open>server/region_request_validator\<close>). A router owns a list of shards, a list of
  static regions with their storages, or a shared region cache with a storage factory. A storage is a
  handle of any type; the factory and the answer of the metadata service are arguments.
\<close>

section \<open>Router\<close>

record 's ShardRouter =
  sr_shards :: "'s list"
  sr_regions :: "RegionMetadata list"
  sr_cache :: "RegionCache option"
  sr_storages :: "(int \<times> 's) list"

datatype route_error = BadRouter | NoRoute | LookupFailed lookup_error

text \<open>
  What a route resolution meets: the other threads between the two reads of the plain lookup and before the
  second attempt, and a router with no refresh function, or the environment of \<open>LookupOrRefresh\<close>.
\<close>

record refresh_env =
  env_lookup :: "RegionCache \<Rightarrow> RegionCache"
  env_retry :: "RegionCache \<Rightarrow> RegionCache"
  env_refresh :: "(interference \<times> (RegionMetadata list \<times> u64) option \<times> bool option) option"

definition no_refresh :: refresh_env where
  "no_refresh = \<lparr> env_lookup = id, env_retry = id, env_refresh = None \<rparr>"

definition ShardsRouter :: "'s list \<Rightarrow> route_error + 's ShardRouter" where
  "ShardsRouter shards = (if shards = [] then Inl BadRouter
     else Inr \<lparr> sr_shards = shards, sr_regions = [], sr_cache = None, sr_storages = [] \<rparr>)"

definition RegionsRouter :: "(RegionMetadata \<times> 's option) list \<Rightarrow> route_error + 's ShardRouter" where
  "RegionsRouter regions =
     (let sorted = sort_key (\<lambda>route. r_startKey (fst route)) regions in
      if regions = [] \<or> list_ex (\<lambda>route. snd route = None) regions then Inl BadRouter
      else case RegionCatalog (map fst sorted) of
             Inl _ \<Rightarrow> Inl BadRouter
           | Inr _ \<Rightarrow> Inr \<lparr> sr_shards = map (the \<circ> snd) sorted, sr_regions = map fst sorted, sr_cache = None, sr_storages = [] \<rparr>)"

definition CacheRouter :: "RegionCache option \<Rightarrow> bool \<Rightarrow> route_error + 's ShardRouter" where
  "CacheRouter cache hasFactory =
     (if cache = None \<or> \<not> hasFactory then Inl BadRouter
      else Inr \<lparr> sr_shards = [], sr_regions = [], sr_cache = cache, sr_storages = [] \<rparr>)"

definition ResolveHandle :: "refresh_env \<Rightarrow> RegionCache \<Rightarrow> string \<Rightarrow> (route_error + RegionRouteHandle) \<times> RegionCache" where
  "ResolveHandle refresh cache key =
     (case CacheLookupKey (env_lookup refresh) cache key of
        (Inr route, c) \<Rightarrow> (Inr route, c)
      | (Inl _, c) \<Rightarrow>
          (case env_refresh refresh of
             None \<Rightarrow> (Inl NoRoute, c)
           | Some (others, response, wait) \<Rightarrow>
               (case LookupOrRefresh (env_retry refresh c) key others response wait of
                  (Inl e, c') \<Rightarrow> (Inl (LookupFailed e), c')
                | (Inr route, c') \<Rightarrow> (Inr route, c'))))"

definition StorageFor ::
  "(RegionMetadata \<Rightarrow> 's option) \<Rightarrow> (int \<times> 's) list \<Rightarrow> RegionRouteHandle \<Rightarrow> (route_error + 's) \<times> (int \<times> 's) list" where
  "StorageFor factory storages handle =
     (let regionId = r_regionId (Descriptor handle) in
      case map_of storages regionId of
        Some storage \<Rightarrow> (Inr storage, storages)
      | None \<Rightarrow> (case factory (Descriptor handle) of
                   None \<Rightarrow> (Inl NoRoute, storages)
                 | Some storage \<Rightarrow> (Inr storage, (regionId, storage) # storages)))"

definition RouteIndexRegions :: "RegionMetadata list \<Rightarrow> string \<Rightarrow> nat option" where
  "RouteIndexRegions regions key =
     (let below = takeWhile (\<lambda>region. \<not> key < r_startKey region) regions in
      if below = [] then None else if \<not> Contains (last below) key then None else Some (length below - 1))"

text \<open>The legacy mapping by the first byte; \<open>n\<close> is the number of shards.\<close>

definition ShardIndexByByte :: "nat \<Rightarrow> string \<Rightarrow> nat" where
  "ShardIndexByByte n key =
     (case key of
        [] \<Rightarrow> 0
      | c # _ \<Rightarrow> (let shard_index = (of_char c * n) div 256 in if shard_index < n then shard_index else n - 1))"

definition RouteIndex :: "'s ShardRouter \<Rightarrow> string \<Rightarrow> nat option" where
  "RouteIndex router key =
     (if sr_regions router = [] then Some (ShardIndexByByte (length (sr_shards router)) key)
      else RouteIndexRegions (sr_regions router) key)"

definition Route ::
  "(RegionMetadata \<Rightarrow> 's option) \<Rightarrow> refresh_env \<Rightarrow> 's ShardRouter \<Rightarrow> string \<Rightarrow> (route_error + 's) \<times> 's ShardRouter" where
  "Route factory refresh router key =
     (case sr_cache router of
        Some cache \<Rightarrow>
          (case ResolveHandle refresh cache key of
             (Inl e, c) \<Rightarrow> (Inl e, router \<lparr> sr_cache := Some c \<rparr>)
           | (Inr handle, c) \<Rightarrow>
               (let (res, storages) = StorageFor factory (sr_storages router) handle
                in (res, router \<lparr> sr_cache := Some c, sr_storages := storages \<rparr>)))
      | None \<Rightarrow>
          if sr_shards router = [] then (Inl NoRoute, router)
          else case RouteIndex router key of
                 None \<Rightarrow> (Inl NoRoute, router)
               | Some index \<Rightarrow> (Inr (sr_shards router ! index), router))"

definition RouterRegionId :: "refresh_env \<Rightarrow> 's ShardRouter \<Rightarrow> string \<Rightarrow> (route_error + int) \<times> 's ShardRouter" where
  "RouterRegionId refresh router key =
     (case sr_cache router of
        Some cache \<Rightarrow>
          (case ResolveHandle refresh cache key of
             (Inl e, c) \<Rightarrow> (Inl e, router \<lparr> sr_cache := Some c \<rparr>)
           | (Inr handle, c) \<Rightarrow> (Inr (r_regionId (Descriptor handle)), router \<lparr> sr_cache := Some c \<rparr>))
      | None \<Rightarrow>
          (case RouteIndex router key of
             None \<Rightarrow> (Inl NoRoute, router)
           | Some index \<Rightarrow>
               (Inr (if sr_regions router = [] then int index else r_regionId (sr_regions router ! index)), router)))"

definition ShardId :: "refresh_env \<Rightarrow> 's ShardRouter \<Rightarrow> string \<Rightarrow> (route_error + nat) \<times> 's ShardRouter" where
  "ShardId refresh router key =
     (case sr_cache router of
        Some _ \<Rightarrow> (case RouterRegionId refresh router key of
                      (Inl e, r) \<Rightarrow> (Inl e, r)
                    | (Inr i, r) \<Rightarrow> (Inr (unat (of_int i :: u64)), r))
      | None \<Rightarrow>
          (case RouteIndex router key of None \<Rightarrow> (Inl NoRoute, router) | Some index \<Rightarrow> (Inr index, router)))"

text \<open>The walk along the table of a handle; each region's storage is created on first touch.\<close>

fun WalkRegions ::
  "(RegionMetadata \<Rightarrow> 's option) \<Rightarrow> string \<Rightarrow> RouteTable \<Rightarrow> nat list \<Rightarrow> (int \<times> 's) list \<Rightarrow>
   (route_error + (RegionMetadata \<times> 's) list) \<times> (int \<times> 's) list" where
  "WalkRegions factory endKey table [] storages = (Inr [], storages)"
| "WalkRegions factory endKey table (i # rest) storages =
     (let region = Descriptor (table, i) in
      if endKey \<noteq> [] \<and> \<not> r_startKey region < endKey then (Inr [], storages)
      else case StorageFor factory storages (table, i) of
             (Inl e, st) \<Rightarrow> (Inl e, st)
           | (Inr storage, st) \<Rightarrow>
               (case WalkRegions factory endKey table rest st of
                  (Inl e, st') \<Rightarrow> (Inl e, st')
                | (Inr found, st') \<Rightarrow> (Inr ((region, storage) # found), st')))"

definition walk_from :: "(RegionMetadata \<Rightarrow> 's option) \<Rightarrow> string \<Rightarrow> RegionRouteHandle \<Rightarrow> (int \<times> 's) list \<Rightarrow>
   (route_error + (RegionMetadata \<times> 's) list) \<times> (int \<times> 's) list" where
  "walk_from factory endKey handle storages =
     WalkRegions factory endKey (fst handle) [snd handle..<length (rt_regions (fst handle))] storages"

definition RegionsInRange ::
  "(RegionMetadata \<Rightarrow> 's option) \<Rightarrow> refresh_env \<Rightarrow> 's ShardRouter \<Rightarrow> string \<Rightarrow> string \<Rightarrow>
   (route_error + (RegionMetadata \<times> 's) list) \<times> 's ShardRouter" where
  "RegionsInRange factory refresh router startKey endKey =
     (case sr_cache router of
        Some cache \<Rightarrow>
          (case (if startKey = [] then (Inr (published cache, 0), cache) else ResolveHandle refresh cache startKey) of
             (Inl e, c) \<Rightarrow> (Inl e, router \<lparr> sr_cache := Some c \<rparr>)
           | (Inr handle, c) \<Rightarrow>
               (let (res, storages) = walk_from factory endKey handle (sr_storages router)
                in (res, router \<lparr> sr_cache := Some c, sr_storages := storages \<rparr>)))
      | None \<Rightarrow>
          (Inr (sort_key (\<lambda>route. r_startKey (fst route))
             (filter (\<lambda>(region, _). \<not> (endKey \<noteq> [] \<and> \<not> r_startKey region < endKey) \<and>
                \<not> (r_endKey region \<noteq> [] \<and> startKey \<noteq> [] \<and> r_endKey region \<le> startKey))
              (zip (sr_regions router) (sr_shards router)))), router))"

definition Shards :: "'s ShardRouter \<Rightarrow> 's list" where
  "Shards router = (case sr_cache router of Some _ \<Rightarrow> map snd (sr_storages router) | None \<Rightarrow> sr_shards router)"

section \<open>Request validation\<close>

datatype RegionErrorCode =
  RegionErrorNone | NotLeader | EpochNotMatch | RegionNotFound | PeerNotFound | KeyNotInRegion | ServerOverloaded
| RegionTimeout | RegionUnavailable | RegionStorageError | MissingHeader | ConfChangeInFlight

text \<open>
  A result is its code: the message texts are not modelled. The header of a client request, and of a Raft message with its sender; an epoch may be absent.\<close>

record RegionRequestHeader =
  rq_regionId :: u64
  rq_peerId :: u64
  rq_epoch :: "RegionEpoch option"

record RaftPeerHeader =
  rp_regionId :: u64
  rp_fromPeerId :: u64
  rp_toPeerId :: u64
  rp_epoch :: "RegionEpoch option"

definition ValidateIdentity ::
  "RegionMetadata \<Rightarrow> u64 \<Rightarrow> int \<Rightarrow> RegionRequestHeader option \<Rightarrow> bool \<Rightarrow> RegionErrorCode" where
  "ValidateIdentity descriptor localPeerId legacyRegionId header requireHeader =
     (case header of
        None \<Rightarrow>
          if requireHeader then MissingHeader
          else if legacyRegionId \<noteq> r_regionId descriptor then RegionNotFound else RegionErrorNone
      | Some h \<Rightarrow>
          if rq_regionId h \<noteq> of_int (r_regionId descriptor) \<or> legacyRegionId \<noteq> r_regionId descriptor then RegionNotFound
          else if rq_peerId h \<noteq> localPeerId then PeerNotFound
          else if rq_epoch h \<noteq> Some (r_epoch descriptor) then EpochNotMatch else RegionErrorNone)"

definition ValidateRegionRequest ::
  "RegionMetadata \<Rightarrow> u64 \<Rightarrow> int \<Rightarrow> RegionRequestHeader option \<Rightarrow> string list \<Rightarrow> bool \<Rightarrow> RegionErrorCode" where
  "ValidateRegionRequest descriptor localPeerId legacyRegionId header keys requireHeader =
     (let identity = ValidateIdentity descriptor localPeerId legacyRegionId header requireHeader in
      if identity \<noteq> RegionErrorNone then identity
      else if list_ex (\<lambda>key. \<not> Contains descriptor key) keys then KeyNotInRegion else RegionErrorNone)"

definition ValidateRaftPeerRequest ::
  "RegionMetadata \<Rightarrow> u64 \<Rightarrow> int \<Rightarrow> RaftPeerHeader option \<Rightarrow> bool \<Rightarrow> RegionErrorCode" where
  "ValidateRaftPeerRequest descriptor localPeerId legacyRegionId header requireHeader =
     (case header of
        None \<Rightarrow>
          if requireHeader then MissingHeader
          else if legacyRegionId \<noteq> r_regionId descriptor then RegionNotFound else RegionErrorNone
      | Some h \<Rightarrow>
          if rp_regionId h \<noteq> of_int (r_regionId descriptor) \<or> legacyRegionId \<noteq> r_regionId descriptor then RegionNotFound
          else if rp_toPeerId h \<noteq> localPeerId then PeerNotFound
          else if FindPeer descriptor (rp_fromPeerId h) = None then PeerNotFound
          else case rp_epoch h of
                 None \<Rightarrow> EpochNotMatch
               | Some epoch \<Rightarrow>
                   if ep_confVersion epoch \<noteq> ep_confVersion (r_epoch descriptor) then EpochNotMatch
                   else let reqVer = ep_version epoch; locVer = ep_version (r_epoch descriptor) in
                        if reqVer \<noteq> locVer \<and> reqVer + 1 \<noteq> locVer \<and> reqVer \<noteq> locVer + 1 then EpochNotMatch
                        else RegionErrorNone)"

record RegionErrorInfo =
  ei_code :: RegionErrorCode
  ei_metadataRevision :: u64
  ei_currentRegions :: "RegionDescriptor list"
  ei_leader :: "PeerDescriptor option"

definition PopulateRegionError :: "RegionErrorCode \<Rightarrow> RegionMetadata option \<Rightarrow> RegionErrorInfo" where
  "PopulateRegionError code current =
     (case current of
        None \<Rightarrow> \<lparr> ei_code = code, ei_metadataRevision = 0, ei_currentRegions = [], ei_leader = None \<rparr>
      | Some region \<Rightarrow>
          \<lparr> ei_code = code, ei_metadataRevision = r_metadataRevision region,
            ei_currentRegions = (if code = EpochNotMatch \<or> code = KeyNotInRegion then [ToProtoRegion region] else []),
            ei_leader = map_option (\<lambda>p. ToProtoPeer (p \<lparr> pl_isLearner := False \<rparr>)) (FindPeer region (r_leaderPeerId region)) \<rparr>)"

section \<open>Static routing\<close>

lemma RouteIndexRegions_contiguous:
  assumes "contiguous [] regions"
  shows "\<exists>i < length regions. RouteIndexRegions regions key = Some i \<and> Contains (regions ! i) key"
proof -
  define below where "below = takeWhile (\<lambda>region. \<not> key < r_startKey region) regions"
  obtain r where "FindByKey regions key = Inr r" using FindByKey_contiguous [OF assms, of key] by auto
  then have b: "below \<noteq> []" "Contains (last below) key"
    by (simp_all add: FindByKey_def RegionBytewiseLess_def Let_def below_def split: if_split_asm)
  have "length below - 1 < length regions"
    using b(1) length_takeWhile_le [of "\<lambda>region. \<not> key < r_startKey region" regions] unfolding below_def [symmetric]
    by (cases below) auto
  moreover have "regions ! (length below - 1) = last below"
    using last_takeWhile [of "\<lambda>region. \<not> key < r_startKey region" regions] b(1) by (simp add: below_def)
  moreover have "RouteIndexRegions regions key = Some (length below - 1)"
    using b by (simp add: RouteIndexRegions_def below_def [symmetric])
  ultimately show ?thesis using b(2) by auto
qed

lemma contiguous_map_complete: "contiguous a (map complete_region rs) = contiguous a rs"
proof (induction rs arbitrary: a)
  case (Cons r rs)
  show ?case using Cons.IH [of "r_endKey r"] by (cases "rs = []") simp_all
qed simp

lemma RegionCatalog_sorted_contiguous:
  assumes "sort_key r_startKey rs = rs" and "RegionCatalog rs = Inr cat"
  shows "contiguous [] rs"
proof -
  have "cat = map complete_region rs" using RegionCatalog_complete [OF assms(2)] unfolding assms(1) .
  with RegionCatalog_contiguous [OF assms(2)] show ?thesis by (simp add: contiguous_map_complete)
qed

lemma map_sort_key: "map f (sort_key (\<lambda>x. k (f x)) xs) = sort_key k (map f xs)"
proof -
  have ins: "map f (insort_key (\<lambda>x. k (f x)) y ys) = insort_key k (f y) (map f ys)" for y ys by (induction ys) auto
  show ?thesis by (induction xs) (simp_all add: ins)
qed

lemma RegionsRouterE:
  assumes "RegionsRouter regs = Inr router"
  obtains ps where "sr_regions router = map fst ps" "sr_shards router = map snd ps" "sr_cache router = None"
    "contiguous [] (map fst ps)" "set regs = (\<lambda>(r, s). (r, Some s)) ` set ps"
proof -
  define sr where "sr = sort_key (\<lambda>route. r_startKey (fst route)) regs"
  define ps where "ps = map (\<lambda>(r, s). (r, the s)) sr"
  from assms have st: "list_all (\<lambda>route. snd route \<noteq> None) regs" and
    r: "router = \<lparr> sr_shards = map (the \<circ> snd) sr, sr_regions = map fst sr, sr_cache = None, sr_storages = [] \<rparr>" and
    c: "\<exists>cat. RegionCatalog (map fst sr) = Inr cat"
    by (auto simp: RegionsRouter_def Let_def sr_def list_ex_iff list_all_iff split: if_split_asm sum.split_asm)
  have "map fst sr = sort_key r_startKey (map fst regs)" unfolding sr_def by (rule map_sort_key)
  then have "sorted (map r_startKey (map fst sr))" by (simp only: sorted_sort_key)
  then have "sort_key r_startKey (map fst sr) = map fst sr" by (rule sort_key_id_if_sorted)
  then have "contiguous [] (map fst sr)" using c by (elim exE) (rule RegionCatalog_sorted_contiguous)
  moreover have f: "map fst ps = map fst sr" "map snd ps = map (the \<circ> snd) sr"
    by (simp_all add: ps_def case_prod_beta comp_def)
  moreover have sr: "set sr = set regs" by (simp add: sr_def)
  have "(fst x, Some (the (snd x))) = x" if "x \<in> set sr" for x
    using st that sr by (cases x) (auto simp: list_all_iff)
  then have "(\<lambda>x. (fst x, Some (the (snd x)))) ` set sr = set sr" by simp
  then have "set regs = (\<lambda>(r, s). (r, Some s)) ` set ps"
    by (simp add: ps_def case_prod_beta image_image sr)
  moreover have "sr_regions router = map fst ps" "sr_shards router = map snd ps" "sr_cache router = None" by (simp_all add: r f)
  ultimately show thesis using that [of ps] by metis
qed

lemma Route_static:
  assumes "sr_regions router = map fst ps" "sr_shards router = map snd ps" "sr_cache router = None" "contiguous [] (map fst ps)"
  shows "\<exists>(r, s) \<in> set ps. Contains r key \<and> Route factory refresh router key = (Inr s, router)"
proof -
  have ne: "ps \<noteq> []" using assms(4) by auto
  obtain i where i: "i < length ps" "RouteIndexRegions (map fst ps) key = Some i" "Contains (fst (ps ! i)) key"
    using RouteIndexRegions_contiguous [OF assms(4), of key] by auto
  then have "Route factory refresh router key = (Inr (snd (ps ! i)), router)"
    using assms ne by (simp add: Route_def RouteIndex_def)
  moreover have "ps ! i \<in> set ps" using i(1) by simp
  ultimately show ?thesis using i(3) by (auto intro!: bexI [of _ "ps ! i"] split: prod.splits)
qed

section \<open>Ranges\<close>

definition storages_grow :: "(int \<times> 's) list \<Rightarrow> (int \<times> 's) list \<Rightarrow> bool" where
  "storages_grow st st' \<longleftrightarrow> (\<forall>i s. map_of st i = Some s \<longrightarrow> map_of st' i = Some s)"

lemma StorageFor_grow:
  assumes "StorageFor factory st h = (res, st')"
  shows "storages_grow st st' \<and> (\<forall>s. res = Inr s \<longrightarrow> map_of st' (r_regionId (Descriptor h)) = Some s)"
  using assms by (auto simp: StorageFor_def storages_grow_def Let_def split: option.splits)

lemma storages_grow_trans: "storages_grow a b \<Longrightarrow> storages_grow b c \<Longrightarrow> storages_grow a c"
  by (auto simp: storages_grow_def)

lemma WalkRegions_result:
  assumes "WalkRegions factory e t is st = (Inr found, st')"
  shows "map fst found = takeWhile (\<lambda>r. e = [] \<or> r_startKey r < e) (map (\<lambda>i. Descriptor (t, i)) is)"
    and "\<forall>(r, s) \<in> set found. map_of st' (r_regionId r) = Some s" and "storages_grow st st'"
proof -
  have "map fst found = takeWhile (\<lambda>r. e = [] \<or> r_startKey r < e) (map (\<lambda>i. Descriptor (t, i)) is) \<and>
    (\<forall>(r, s) \<in> set found. map_of st' (r_regionId r) = Some s) \<and> storages_grow st st'"
    using assms
  proof (induction "is" arbitrary: st found st')
    case Nil
    then show ?case by (simp add: storages_grow_def)
  next
    case (Cons i rest)
    show ?case
    proof (cases "e \<noteq> [] \<and> \<not> r_startKey (Descriptor (t, i)) < e")
      case True
      then show ?thesis using Cons.prems by (simp add: storages_grow_def)
    next
      case False
      obtain s st1 found1 where s: "StorageFor factory st (t, i) = (Inr s, st1)"
        and w: "WalkRegions factory e t rest st1 = (Inr found1, st')" and f: "found = (Descriptor (t, i), s) # found1"
        using Cons.prems False by (auto simp del: Descriptor.simps simp: Let_def split: prod.splits sum.splits)
      from Cons.IH [OF w] StorageFor_grow [OF s] False show ?thesis
        by (auto simp: f storages_grow_def simp del: Descriptor.simps)
    qed
  qed
  then show "map fst found = takeWhile (\<lambda>r. e = [] \<or> r_startKey r < e) (map (\<lambda>i. Descriptor (t, i)) is)"
    and "\<forall>(r, s) \<in> set found. map_of st' (r_regionId r) = Some s" and "storages_grow st st'" by blast+
qed

lemma map_Descriptor_drop: "map (\<lambda>i. Descriptor (t, i)) [n..<length (rt_regions t)] = drop n (rt_regions t)"
  by (rule nth_equalityI) simp_all

lemma drop_before:
  assumes "contiguous a rs" and "n < length rs" and "rs ! n \<noteq> r" and "r \<in> set rs" and "r \<notin> set (drop n rs)"
  shows "r_endKey r \<noteq> [] \<and> r_endKey r \<le> r_startKey (rs ! n)"
proof -
  have "r \<in> set (take n rs)" using assms(4,5) by (metis Un_iff append_take_drop_id set_append)
  then obtain xs ys where t: "take n rs = xs @ r # ys" by (auto dest: split_list)
  have "rs = xs @ r # (ys @ drop n rs)" using t append_take_drop_id [of n rs] by simp
  moreover have "rs ! n \<in> set (ys @ drop n rs)" using assms(2) by (metis Cons_nth_drop_Suc UnCI list.set_intros(1) set_append)
  ultimately show ?thesis using contiguous_order assms(1) by metis
qed

lemma sorted_wrt_takeWhile: "sorted_wrt P xs \<Longrightarrow> sorted_wrt P (takeWhile Q xs)"
  using sorted_wrt_append [of P "takeWhile Q xs" "dropWhile Q xs"] by simp

lemma takeWhile_True: "takeWhile (\<lambda>_. True) xs = xs"
  by (induction xs) simp_all

lemma in_takeWhile_sorted:
  fixes f :: "'a \<Rightarrow> 'b::preorder"
  assumes "sorted_wrt (<) (map f xs)" and "x \<in> set xs" and "f x < b"
  shows "x \<in> set (takeWhile (\<lambda>y. f y < b) xs)"
  using assms
proof (induction xs)
  case (Cons y xs)
  then have "f y < b" by (auto intro: less_trans [of "f y" "f x"])
  then show ?case using Cons by auto
qed simp

lemma table_contiguous: "table_ok t \<Longrightarrow> contiguous [] (rt_regions t)"
  using RegionCatalog_contiguous [of "rt_regions t" "rt_regions t"] by (simp add: table_ok_def catalog_ok_def)

text \<open>The regions a walk from a handle collects are those between the handle and the end of the range.\<close>

lemma walk_covers:
  assumes ok: "table_ok t" and n: "n < length (rt_regions t)"
    and w: "walk_from factory e (t, n) st = (Inr found, st')"
    and k: "r_startKey (rt_regions t ! n) \<le> key" "e = [] \<or> key < e"
  shows "\<exists>(r, s) \<in> set found. Contains r key \<and> map_of st' (r_regionId r) = Some s"
proof -
  note ct = table_contiguous [OF ok]
  have w': "WalkRegions factory e t [n..<length (rt_regions t)] st = (Inr found, st')" using w by (simp add: walk_from_def)
  note f = WalkRegions_result(1) [OF w', unfolded map_Descriptor_drop]
  obtain r where r: "r \<in> set (rt_regions t)" "Contains r key" using table.resolves [OF ok, of key] by blast
  have "r \<in> set (drop n (rt_regions t))"
  proof (rule ccontr)
    assume nd: "r \<notin> set (drop n (rt_regions t))"
    have "rt_regions t ! n \<in> set (drop n (rt_regions t))" using n by (metis Cons_nth_drop_Suc list.set_intros(1))
    then have "r_endKey r \<noteq> [] \<and> r_endKey r \<le> r_startKey (rt_regions t ! n)"
      using nd by (intro drop_before [OF ct n _ r(1) nd]) auto
    then show False using r(2) k(1) by (auto simp: Contains_def RegionBytewiseLess_def)
  qed
  moreover have "r_startKey r \<le> key" using r(2) by (auto simp: Contains_def RegionBytewiseLess_def)
  moreover have "sorted_wrt (<) (map r_startKey (drop n (rt_regions t)))"
    using contiguous_sorted [OF ct] by (simp add: drop_map [symmetric] sorted_wrt_drop)
  ultimately have "r \<in> set (map fst found)"
    using k(2) in_takeWhile_sorted [of r_startKey "drop n (rt_regions t)" r e] unfolding f by (cases "e = []") (simp_all add: takeWhile_True)
  then show ?thesis using r(2) WalkRegions_result(2) [OF w'] by force
qed

lemma walk_sound:
  assumes ok: "table_ok t" and w: "walk_from factory e (t, n) st = (Inr found, st')"
  shows "sorted_wrt (<) (map (r_startKey \<circ> fst) found)" and "\<forall>(r, s) \<in> set found. r \<in> set (rt_regions t) \<and> (e = [] \<or> r_startKey r < e)"
proof -
  note ct = table_contiguous [OF ok]
  have w': "WalkRegions factory e t [n..<length (rt_regions t)] st = (Inr found, st')" using w by (simp add: walk_from_def)
  note f = WalkRegions_result(1) [OF w', unfolded map_Descriptor_drop]
  have "sorted_wrt (<) (map r_startKey (drop n (rt_regions t)))"
    using contiguous_sorted [OF ct] by (simp add: drop_map [symmetric] sorted_wrt_drop)
  then have "sorted_wrt (<) (map r_startKey (map fst found))"
    unfolding f by (simp add: sorted_wrt_map sorted_wrt_takeWhile)
  then show "sorted_wrt (<) (map (r_startKey \<circ> fst) found)" by simp
  have "r \<in> set (rt_regions t) \<and> (e = [] \<or> r_startKey r < e)" if "(r, s) \<in> set found" for r s
  proof -
    have "r \<in> fst ` set found" using that by (rule image_eqI [rotated]) simp
    then have "r \<in> set (map fst found)" by simp
    from set_takeWhileD [OF this [unfolded f]] show ?thesis by (auto dest: in_set_dropD)
  qed
  then show "\<forall>(r, s) \<in> set found. r \<in> set (rt_regions t) \<and> (e = [] \<or> r_startKey r < e)" by blast
qed

lemma contiguous_range: "contiguous a rs \<Longrightarrow> r \<in> set rs \<Longrightarrow> r_endKey r = [] \<or> r_startKey r < r_endKey r"
proof (induction a rs rule: contiguous.induct)
  case (2 a r0 rs)
  then show ?case by (cases "rs = []") auto
qed simp

lemma walk_after:
  assumes ct: "contiguous [] rs" and n: "n < length rs" and k: "Contains (rs ! n) key" and r: "r \<in> set (drop n rs)"
  shows "r_endKey r = [] \<or> key < r_endKey r"
proof (cases "r = rs ! n")
  case True
  then show ?thesis using k by (auto simp: Contains_def RegionBytewiseLess_def)
next
  case False
  have d: "drop n rs = rs ! n # drop (Suc n) rs" using n by (simp add: Cons_nth_drop_Suc)
  then have r': "r \<in> set (drop (Suc n) rs)" using r False by simp
  have "contiguous [] (take n rs @ rs ! n # drop (Suc n) rs)" using ct d append_take_drop_id [of n rs] by simp
  from contiguous_order [OF this r'] have "key < r_startKey r" using k by (auto simp: Contains_def RegionBytewiseLess_def)
  moreover have "r \<in> set rs" using r by (rule in_set_dropD)
  ultimately show ?thesis using contiguous_range [OF ct, of r] by auto
qed

lemma CacheFindKey_Some:
  assumes "CacheFindKey t key = Some h"
  shows "fst h = t" and "snd h < length (rt_regions t)" and "Contains (Descriptor h) key"
proof -
  define below where "below = takeWhile (\<lambda>region. \<not> RegionBytewiseLess key (r_startKey region)) (rt_regions t)"
  from assms have b: "below \<noteq> []" "Contains (last below) key" "h = (t, length below - 1)"
    by (auto simp: CacheFindKey_def Let_def below_def split: if_split_asm)
  have "length below \<le> length (rt_regions t)" by (simp add: below_def length_takeWhile_le)
  then have "length below - 1 < length (rt_regions t)" using b(1) by (cases below) auto
  then show "fst h = t" "snd h < length (rt_regions t)" "Contains (Descriptor h) key"
    using b last_takeWhile [of "\<lambda>region. \<not> RegionBytewiseLess key (r_startKey region)" "rt_regions t"]
    by (auto simp: below_def [symmetric])
qed

text \<open>Other threads keep the published table valid.\<close>

definition quiet_refresh :: "refresh_env \<Rightarrow> bool" where
  "quiet_refresh refresh \<longleftrightarrow> (\<forall>x. newer x (env_lookup refresh x)) \<and> (\<forall>x. newer x (env_retry refresh x)) \<and>
     (\<forall>others response wait p x. env_refresh refresh = Some (others, response, wait) \<longrightarrow> newer x (others p x))"

lemma ResolveHandle_result:
  assumes ok: "table_ok (published cache)" and q: "quiet_refresh refresh" and h: "ResolveHandle refresh cache key = (Inr h, c)"
  shows "\<exists>t. table_ok t \<and> CacheFindKey t key = Some h"
proof (cases "CacheLookupKey (env_lookup refresh) cache key")
  case (Pair res c0)
  show ?thesis
  proof (cases res)
    case (Inr h')
    then have "h' = h" using h Pair by (simp add: ResolveHandle_def)
    then have "CacheFindKey (published cache) key = Some h"
      using Inr Pair by (auto simp: CacheLookupKey_def Let_def split: option.splits if_splits)
    with ok show ?thesis by blast
  next
    case (Inl e)
    define c1 where "c1 = env_retry refresh c0"
    obtain others response wait where r: "env_refresh refresh = Some (others, response, wait)"
      and l: "LookupOrRefresh c1 key others response wait = (Inr h, c)"
      using h Pair Inl by (auto simp: ResolveHandle_def c1_def split: option.splits prod.splits sum.splits)
    have "newer x (others p x)" for p x using q r by (simp add: quiet_refresh_def)
    from validity.lookup_or_refresh [OF this l] obtain cs where cs: "newer c1 cs" "CacheFindKey (published cs) key = Some h"
      by (auto simp: read_during_def)
    have "newer cache c0"
      using validity.lookup_key [of "env_lookup refresh" cache key] q Pair by (simp add: quiet_refresh_def)
    moreover have "newer c0 c1" using q by (simp add: quiet_refresh_def c1_def)
    ultimately have "newer cache cs" using cs(1) newer_trans by blast
    then show ?thesis using ok cs(2) by (auto simp: newer_def)
  qed
qed

lemma RegionsInRange_handle:
  assumes cache: "sr_cache router = Some cache" "table_ok (published cache)" and q: "quiet_refresh refresh"
    and r: "RegionsInRange factory refresh router startKey endKey = (Inr found, router')"
  obtains t n where "table_ok t" "n < length (rt_regions t)" "Contains (rt_regions t ! n) startKey"
    "walk_from factory endKey (t, n) (sr_storages router) = (Inr found, sr_storages router')"
proof (cases "startKey = []")
  case True
  have ct: "contiguous [] (rt_regions (published cache))" using cache(2) by (rule table_contiguous)
  then have ne: "rt_regions (published cache) \<noteq> []" by auto
  then have "Contains (rt_regions (published cache) ! 0) []"
    using ct contiguous_range [OF ct, of "rt_regions (published cache) ! 0"]
    by (cases "rt_regions (published cache)") (auto simp: Contains_def RegionBytewiseLess_def)
  moreover have "walk_from factory endKey (published cache, 0) (sr_storages router) = (Inr found, sr_storages router')"
    using r cache(1) True by (auto simp: RegionsInRange_def split: prod.splits)
  ultimately show ?thesis using that [of "published cache" 0] cache(2) ne True by simp
next
  case False
  then obtain h c where h: "ResolveHandle refresh cache startKey = (Inr h, c)"
    and w: "walk_from factory endKey h (sr_storages router) = (Inr found, sr_storages router')"
    using r cache(1) by (auto simp: RegionsInRange_def split: prod.splits sum.splits)
  from ResolveHandle_result [OF cache(2) q h] obtain t where f: "table_ok t" "CacheFindKey t startKey = Some h" by blast
  note g = CacheFindKey_Some [OF f(2)]
  show ?thesis using that [of t "snd h"] f(1) g w by (cases h) simp
qed

lemma walk_sound_drop:
  assumes w: "walk_from factory e (t, n) st = (Inr found, st')" and "(r, s) \<in> set found"
  shows "r \<in> set (drop n (rt_regions t))"
proof -
  have w': "WalkRegions factory e t [n..<length (rt_regions t)] st = (Inr found, st')" using w by (simp add: walk_from_def)
  have "r \<in> fst ` set found" using assms(2) by (rule image_eqI [rotated]) simp
  then have "r \<in> set (map fst found)" by simp
  from set_takeWhileD [OF this [unfolded WalkRegions_result(1) [OF w', unfolded map_Descriptor_drop]]] show ?thesis by blast
qed

section \<open>Properties of routing\<close>

text \<open>
  C27. Static routing is total and exact: a router built from regions and their storages routes every key,
  to the storage given with a region that contains the key.
\<close>

theorem static_routing_total:
  assumes "RegionsRouter regs = Inr router"
  shows "\<exists>region storage. (region, Some storage) \<in> set regs \<and> Contains region key \<and>
    Route factory refresh router key = (Inr storage, router)"
proof -
  obtain ps where ps: "sr_regions router = map fst ps" "sr_shards router = map snd ps" "sr_cache router = None"
    "contiguous [] (map fst ps)" "set regs = (\<lambda>(r, s). (r, Some s)) ` set ps" by (rule RegionsRouterE [OF assms])
  from Route_static [OF ps(1-4), of key factory refresh] obtain r s
    where "(r, s) \<in> set ps" "Contains r key" "Route factory refresh router key = (Inr s, router)" by auto
  then show ?thesis unfolding ps(5) by force
qed

definition sample_router :: "nat ShardRouter" where
  "sample_router = (case RegionsRouter (zip sample_regions [Some 10, Some 20]) of
     Inr r \<Rightarrow> r | Inl _ \<Rightarrow> \<lparr> sr_shards = [], sr_regions = [], sr_cache = None, sr_storages = [] \<rparr>)"

lemma sample_router: "RegionsRouter (zip sample_regions [Some 10, Some 20]) = Inr sample_router"
proof -
  have "\<not> isl (RegionsRouter (zip sample_regions [Some (10::nat), Some 20]))" by code_simp
  then show ?thesis
    by (cases "RegionsRouter (zip sample_regions [Some (10::nat), Some 20])") (simp_all add: sample_router_def)
qed

theorem static_routing_total_witness:
  "\<exists>region storage. (region, Some storage) \<in> set (zip sample_regions [Some 10, Some 20]) \<and>
     Contains region ''zebra'' \<and> Route (\<lambda>_. None) no_refresh sample_router ''zebra'' = (Inr storage, sample_router)"
  using static_routing_total [OF sample_router, of "''zebra''" "\<lambda>_. None" no_refresh] by blast

text \<open>
  C26. A range query of a router with a cache visits exactly the regions of the range, in key order: every key of the range lies in a
  returned region, whose storage is the one registered for it, and every returned region overlaps the range.
\<close>

theorem range_query_covers:
  assumes "sr_cache router = Some cache" and "table_ok (published cache)" and "quiet_refresh refresh"
    and "RegionsInRange factory refresh router startKey endKey = (Inr found, router')"
  shows "sorted_wrt (<) (map (r_startKey \<circ> fst) found) \<and>
    (\<forall>key. startKey \<le> key \<and> (endKey = [] \<or> key < endKey) \<longrightarrow>
       (\<exists>(r, s) \<in> set found. Contains r key \<and> map_of (sr_storages router') (r_regionId r) = Some s)) \<and>
    (\<forall>(r, s) \<in> set found. (endKey = [] \<or> r_startKey r < endKey) \<and> (r_endKey r = [] \<or> startKey < r_endKey r))"
proof -
  obtain t n where t: "table_ok t" "n < length (rt_regions t)" "Contains (rt_regions t ! n) startKey"
    and w: "walk_from factory endKey (t, n) (sr_storages router) = (Inr found, sr_storages router')"
    using assms by (rule RegionsInRange_handle)
  have st: "r_startKey (rt_regions t ! n) \<le> startKey" using t(3) by (auto simp: Contains_def RegionBytewiseLess_def)
  have "\<exists>(r, s) \<in> set found. Contains r key \<and> map_of (sr_storages router') (r_regionId r) = Some s"
    if "startKey \<le> key" "endKey = [] \<or> key < endKey" for key
    using walk_covers [OF t(1,2) w order.trans [OF st that(1)] that(2)] .
  moreover have "(endKey = [] \<or> r_startKey r < endKey) \<and> (r_endKey r = [] \<or> startKey < r_endKey r)" if "(r, s) \<in> set found" for r s
    using walk_sound(2) [OF t(1) w] walk_after [OF table_contiguous [OF t(1)] t(2,3) walk_sound_drop [OF w that]] that by blast
  ultimately show ?thesis using walk_sound(1) [OF t(1) w] by blast
qed

theorem range_query_covers_witness:
  "\<exists>found router'. RegionsInRange (\<lambda>r. Some (r_regionId r)) no_refresh
     \<lparr> sr_shards = [], sr_regions = [], sr_cache = Some sample_cache, sr_storages = [] \<rparr> ''c'' ''p'' = (Inr found, router') \<and>
     length found = 2 \<and> (\<exists>(r, s) \<in> set found. Contains r ''n'' \<and> map_of (sr_storages router') (r_regionId r) = Some s)"
proof -
  define router where "router = \<lparr> sr_shards = [] :: int list, sr_regions = [], sr_cache = Some sample_cache, sr_storages = [] \<rparr>"
  have "(case fst (RegionsInRange (\<lambda>r. Some (r_regionId r)) no_refresh router ''c'' ''p'') of Inl _ \<Rightarrow> False | Inr f \<Rightarrow> length f = 2)"
    unfolding router_def by code_simp
  then obtain found router' where f: "RegionsInRange (\<lambda>r. Some (r_regionId r)) no_refresh router ''c'' ''p'' = (Inr found, router')"
    "length found = 2" by (cases "RegionsInRange (\<lambda>r. Some (r_regionId r)) no_refresh router ''c'' ''p''") (auto split: sum.splits)
  have "''c'' \<le> ''n'' \<and> (''p'' = [] \<or> ''n'' < ''p'')" by code_simp
  with range_query_covers [OF _ NewRegionCache_ok(1) [OF sample_cache] _ f(1)] f show ?thesis
    unfolding router_def by (auto simp: quiet_refresh_def no_refresh_def newer_refl)
qed

text \<open>
  The legacy mapping of keys to shards stays in range and follows the order of the keys.
\<close>

theorem byte_sharding_bounds:
  assumes "0 < n"
  shows "ShardIndexByByte n key < n \<and> (key \<le> key' \<longrightarrow> ShardIndexByByte n key \<le> ShardIndexByByte n key')"
proof -
  have d: "of_char c * n div 256 < n" for c
    using assms nat_of_char_less_256 [of c] by (simp add: div_less_iff_less_mult)
  have "of_char c * n div 256 \<le> of_char c' * n div 256" if "c \<le> c'" for c c'
    using that by (intro div_le_mono mult_le_mono1) (simp add: less_eq_char_def)
  moreover have "c \<le> c'" if "c # cs \<le> c' # cs'" for c c' :: char and cs cs' using that by (auto split: if_splits)
  ultimately show ?thesis using d assms by (auto simp: ShardIndexByByte_def Let_def split: list.split)
qed

theorem byte_sharding_bounds_witness:
  "ShardIndexByByte 3 ''apple'' < 3 \<and> ShardIndexByByte 3 ''apple'' \<le> ShardIndexByByte 3 ''zebra''"
proof -
  have "''apple'' \<le> ''zebra''" by code_simp
  with byte_sharding_bounds [of 3 "''apple''" "''zebra''"] show ?thesis by simp
qed

section \<open>Properties of request validation\<close>


definition sample_header :: "RegionMetadata \<Rightarrow> RegionRequestHeader" where
  "sample_header r = \<lparr> rq_regionId = of_int (r_regionId r), rq_peerId = r_leaderPeerId r, rq_epoch = Some (r_epoch r) \<rparr>"





definition sample_raft_header :: RaftPeerHeader where
  "sample_raft_header = \<lparr> rp_regionId = 1, rp_fromPeerId = 2000001, rp_toPeerId = 2000002,
     rp_epoch = Some \<lparr> ep_version = 2, ep_confVersion = 1 \<rparr> \<rparr>"


end
