(* ===== verification/MetadataTypes.thy ===== *)
theory MetadataTypes
  imports RegionMetadata
begin

text \<open>
  The messages and the state of the metadata control plane (\<open>metadata/metadata_state_machine\<close>,
  \<open>proto/metadata_rpc.proto\<close>): stores, migrations, heartbeats, balancer configuration, scheduling operators,
  commands and their results, the published view and the state machine. Message texts of errors are not
  modelled. Enumerations of the wire format are open, so they have a constructor for unknown numbers.
\<close>

section \<open>Numbers\<close>

text \<open>\<open>static_cast<int>\<close> of a 64-bit value, \<open>static_cast<short>\<close> of a 32-bit value.\<close>

definition to_int32 :: "u64 \<Rightarrow> int" where
  "to_int32 w = sint (ucast w :: 32 word)"

definition to_short :: "u32 \<Rightarrow> int" where
  "to_short w = sint (ucast w :: 16 word)"

text \<open>A \<open>double\<close> is its IEEE 754 bit pattern; the comparisons are those the configuration checks make.\<close>

type_synonym double = u64

definition d_nan :: "double \<Rightarrow> bool" where
  "d_nan x \<longleftrightarrow> take_bit 63 x > 0x7FF0000000000000"

definition d_negative :: "double \<Rightarrow> bool" where
  "d_negative x \<longleftrightarrow> bit x 63"

definition d_le_zero :: "double \<Rightarrow> bool" where
  "d_le_zero x \<longleftrightarrow> \<not> d_nan x \<and> (d_negative x \<or> take_bit 63 x = 0)"

definition d_less_zero :: "double \<Rightarrow> bool" where
  "d_less_zero x \<longleftrightarrow> \<not> d_nan x \<and> d_negative x \<and> take_bit 63 x \<noteq> 0"

definition d_greater_one :: "double \<Rightarrow> bool" where
  "d_greater_one x \<longleftrightarrow> \<not> d_nan x \<and> \<not> d_negative x \<and> x > 0x3FF0000000000000"

section \<open>Region updates\<close>

fun set_revision :: "u64 \<Rightarrow> RegionMetadata \<Rightarrow> RegionMetadata" where
  "set_revision m (RegionMetadata i a b ps e _ l s) = RegionMetadata i a b ps e m l s"

fun set_endKey :: "string \<Rightarrow> RegionMetadata \<Rightarrow> RegionMetadata" where
  "set_endKey b (RegionMetadata i a _ ps e m l s) = RegionMetadata i a b ps e m l s"

fun set_epoch :: "RegionEpoch \<Rightarrow> RegionMetadata \<Rightarrow> RegionMetadata" where
  "set_epoch e (RegionMetadata i a b ps _ m l s) = RegionMetadata i a b ps e m l s"

fun set_splitPending :: "(string \<times> RegionMetadata) option \<Rightarrow> RegionMetadata \<Rightarrow> RegionMetadata" where
  "set_splitPending s (RegionMetadata i a b ps e m l _) = RegionMetadata i a b ps e m l s"

section \<open>Messages\<close>

record StoreDescriptor =
  sd_storeId :: u64
  sd_host :: string
  sd_port :: u32
  sd_labels :: "(string \<times> string) list"

datatype ReplicaMigrationPhase =
  MigrationNotStarted | MigrationPreparingTarget | MigrationCatchingUp | MigrationPromoted
| MigrationRetiringSource | MigrationComplete | MigrationCancelled | MigrationOther int

record ReplicaMigrationStatus =
  rm_regionId :: u64
  rm_sourcePeerId :: u64
  rm_fromStoreId :: u64
  rm_targetPeer :: "PeerDescriptor option"
  rm_phase :: ReplicaMigrationPhase
  rm_transferredBytes :: u64
  rm_logLag :: u64
  rm_mutationId :: string

record RegionSchedulingObservation =
  ro_regionId :: u64
  ro_peerId :: u64
  ro_epoch :: RegionEpoch
  ro_approximateBytes :: u64
  ro_requestCount :: u64
  ro_isLeader :: bool
  ro_topologyOperationActive :: bool
  ro_splitCandidateGeneration :: u64

record StoreHeartbeat =
  hb_storeId :: u64
  hb_sequence :: u64
  hb_observedAtMs :: u64
  hb_expiresAtMs :: u64
  hb_capacityBytes :: u64
  hb_availableBytes :: u64
  hb_requestCount :: u64
  hb_regions :: "RegionSchedulingObservation list"

record AutoBalancerConfig =
  ac_enabled :: bool
  ac_paused :: bool
  ac_version :: u64
  ac_evaluationIntervalMs :: u64
  ac_heartbeatTimeoutMs :: u64
  ac_minimumFreeBytes :: u64
  ac_maximumDiskUsedRatio :: double
  ac_replicationFactor :: u32
  ac_imbalanceThreshold :: double
  ac_splitSizeBytes :: u64
  ac_splitRequestThreshold :: u64
  ac_splitConsecutiveWindows :: u32
  ac_regionCooldownMs :: u64
  ac_maximumActiveOperators :: u32
  ac_maximumActivePerStore :: u32

datatype SchedulingOperatorType = OpMovePeer | OpSplitRegion | OpTypeOther int

datatype SchedulingOperatorPhase =
  OpPending | OpDispatching | OpWaiting | OpSucceeded | OpCancelling | OpCancelled | OpFailed | OpPhaseOther int

record SchedulingOperator =
  so_operatorId :: string
  so_type :: SchedulingOperatorType
  so_regionId :: u64
  so_sourceRevision :: u64
  so_regionEpoch :: "RegionEpoch option"
  so_sourceStoreId :: u64
  so_targetStoreId :: u64
  so_splitCandidateGeneration :: u64
  so_phase :: SchedulingOperatorPhase
  so_attempts :: u32
  so_deadlineMs :: u64
  so_lastError :: string
  so_cancelRequested :: bool
  so_irreversible :: bool
  so_createdAtMs :: u64
  so_updatedAtMs :: u64

datatype IdNamespace = IdRegion | IdPeer | IdStore | IdOther int

record OperatorUpdate =
  ou_operatorId :: string
  ou_expectedPhase :: SchedulingOperatorPhase
  ou_phase :: SchedulingOperatorPhase
  ou_attempts :: u32
  ou_lastError :: string
  ou_irreversible :: bool
  ou_updatedAtMs :: u64

datatype MetadataMutation =
  Bootstrap string "RegionDescriptor list" "StoreDescriptor list"
| ReplaceRegions "u64 list" "RegionDescriptor list"
| AllocateIds IdNamespace u64
| PutStore StoreDescriptor
| PrepareSplit u64 string RegionEpoch
| CommitSplit u64
| AckSplit u64 "u64 list"
| PrepareMovePeer u64 u64 u64 "RegionEpoch option"
| CommitMovePeer u64 u64 "RegionEpoch option"
| CancelMovePeer u64 u64
| ReportStoreHeartbeat StoreHeartbeat
| UpdateAutoBalancerConfig AutoBalancerConfig
| CreateSchedulingOperator SchedulingOperator
| UpdateSchedulingOperator OperatorUpdate
| CancelSchedulingOperator string u64
| CommandNotSet

record MetadataCommand =
  mc_mutationId :: string
  mc_expectedRevision :: u64
  mc_command :: MetadataMutation

datatype MetadataErrorCode =
  MetadataOk | MetadataNotLeader | MetadataTimeout | MetadataUnavailable | MetadataInvalidArgument
| MetadataRevisionMismatch | MetadataAlreadyBootstrapped | MetadataNotFound | MetadataCorrupt | MetadataConflict

record MetadataCommandResult =
  mr_error :: MetadataErrorCode
  mr_revision :: u64
  mr_firstAllocatedId :: u64
  mr_allocatedCount :: u64
  mr_regions :: "RegionDescriptor list"
  mr_migration :: "ReplicaMigrationStatus option"
  mr_heartbeat :: "StoreHeartbeat option"
  mr_balancerConfig :: "AutoBalancerConfig option"
  mr_operator :: "SchedulingOperator option"

record MutationRecord =
  mu_mutationId :: string
  mu_result :: MetadataCommandResult
  mu_appliedRevision :: u64

record MetadataSnapshot =
  sn_formatVersion :: u32
  sn_revision :: u64
  sn_regions :: "RegionDescriptor list"
  sn_stores :: "StoreDescriptor list"
  sn_regionIdHighWater :: u64
  sn_peerIdHighWater :: u64
  sn_storeIdHighWater :: u64
  sn_bootstrapDigest :: string
  sn_recentMutations :: "MutationRecord list"
  sn_migrations :: "ReplicaMigrationStatus list"
  sn_storeHeartbeats :: "StoreHeartbeat list"
  sn_balancerConfig :: "AutoBalancerConfig option"
  sn_schedulingOperators :: "SchedulingOperator list"

section \<open>State\<close>

record MetadataView =
  mv_revision :: u64
  mv_catalog :: "RegionMetadata list option"
  mv_stores :: "(u64, StoreDescriptor) omap"
  mv_regionIdHighWater :: u64
  mv_peerIdHighWater :: u64
  mv_storeIdHighWater :: u64
  mv_bootstrapDigest :: string
  mv_migrations :: "(u64, ReplicaMigrationStatus) omap"
  mv_storeHeartbeats :: "(u64, StoreHeartbeat) omap"
  mv_balancerConfig :: AutoBalancerConfig
  mv_schedulingOperators :: "(string, SchedulingOperator) omap"
  mv_activeOperatorByRegion :: "(u64, string) omap"

record MetadataStateMetrics =
  mt_validationRejects :: u64
  mt_dedupHits :: u64
  mt_snapshotCount :: u64
  mt_heartbeatAccepted :: u64
  mt_heartbeatIgnored :: u64
  mt_operatorAdmissions :: u64

record MetadataStateMachine =
  ms_published :: MetadataView
  ms_regions :: "RegionMetadata list"
  ms_stores :: "(u64, StoreDescriptor) omap"
  ms_revision :: u64
  ms_regionIdHighWater :: u64
  ms_peerIdHighWater :: u64
  ms_storeIdHighWater :: u64
  ms_bootstrapDigest :: string
  ms_migrations :: "(u64, ReplicaMigrationStatus) omap"
  ms_storeHeartbeats :: "(u64, StoreHeartbeat) omap"
  ms_balancerConfig :: AutoBalancerConfig
  ms_schedulingOperators :: "(string, SchedulingOperator) omap"
  ms_activeOperatorByRegion :: "(u64, string) omap"
  ms_dedup :: "(string, MutationRecord) omap"
  ms_dedupOrder :: "string list"
  ms_metrics :: MetadataStateMetrics

text \<open>What a handler does: \<open>None\<close> is a thrown exception, with the state it leaves behind.\<close>

type_synonym md_handler = "MetadataStateMachine \<Rightarrow> MetadataCommandResult option \<times> MetadataStateMachine"

end
