(* ===== verification/MetadataMachine.thy ===== *)
theory MetadataMachine
  imports MetadataTypes
begin

text \<open>
  The replicated metadata state machine (\<open>metadata/metadata_state_machine.cpp\<close>): one definition per handler,
  each a function from the state to the result and the state. A handler that throws leaves the changes it
  made before, which matters for \<open>CommitMovePeerLocked\<close> and \<open>PrepareSplitLocked\<close>. The mutex makes commands
  atomic; readers see the last published view.
\<close>

section \<open>Helpers\<close>

text \<open>The peers compared by the metadata service: the node index is not part of the comparison.\<close>

definition SameMetaPeers :: "RegionMetadata \<Rightarrow> RegionMetadata \<Rightarrow> bool" where
  "SameMetaPeers lhs rhs \<longleftrightarrow> length (r_peers lhs) = length (r_peers rhs) \<and>
     list_all2 (\<lambda>left right. pl_peerId left = pl_peerId right \<and> pl_storeId left = pl_storeId right \<and>
       pl_host left = pl_host right \<and> pl_port left = pl_port right) (r_peers lhs) (r_peers rhs)"

definition DescriptorIdsFit :: "RegionDescriptor \<Rightarrow> bool" where
  "DescriptorIdsFit descriptor \<longleftrightarrow> d_regionId descriptor > 0 \<and> d_regionId descriptor \<le> 2147483647"

definition DecodeRegions :: "RegionDescriptor list \<Rightarrow> RegionMetadata list option" where
  "DecodeRegions descriptors =
     map_all (\<lambda>d. if \<not> DescriptorIdsFit d then None else case FromProtoRegion d of Inl _ \<Rightarrow> None | Inr r \<Rightarrow> Some r) descriptors"

fun adjacent :: "RegionMetadata list \<Rightarrow> bool" where
  "adjacent (a # b # rest) \<longleftrightarrow> r_endKey a = r_startKey b \<and> adjacent (b # rest)"
| "adjacent _ \<longleftrightarrow> True"

definition CoveredInterval :: "RegionMetadata list \<Rightarrow> (string \<times> string) option" where
  "CoveredInterval regions =
     (let sorted = sort_key r_startKey regions in
      if regions = [] \<or> \<not> adjacent sorted then None else Some (r_startKey (hd sorted), r_endKey (last sorted)))"

definition SafeAdd :: "u64 \<Rightarrow> u64 \<Rightarrow> u64 option" where
  "SafeAdd value count = (if count = 0 \<or> value > UINT64_MAX - count then None else Some (value + count))"

definition DefaultAutoBalancerConfig :: AutoBalancerConfig where
  "DefaultAutoBalancerConfig = \<lparr> ac_enabled = True, ac_paused = False, ac_version = 1, ac_evaluationIntervalMs = 5000,
     ac_heartbeatTimeoutMs = 15000, ac_minimumFreeBytes = 64 * 1024 * 1024, ac_maximumDiskUsedRatio = 0x3FECCCCCCCCCCCCD,
     ac_replicationFactor = 3, ac_imbalanceThreshold = 0x3FC3333333333333, ac_splitSizeBytes = 512 * 1024 * 1024,
     ac_splitRequestThreshold = 10000, ac_splitConsecutiveWindows = 3, ac_regionCooldownMs = 60000,
     ac_maximumActiveOperators = 1, ac_maximumActivePerStore = 1 \<rparr>"

definition IsTerminal :: "SchedulingOperatorPhase \<Rightarrow> bool" where
  "IsTerminal phase \<longleftrightarrow> phase = OpSucceeded \<or> phase = OpCancelled \<or> phase = OpFailed"

definition EpochOlder :: "RegionEpoch \<Rightarrow> RegionEpoch \<Rightarrow> bool" where
  "EpochOlder lhs rhs \<longleftrightarrow> ep_version lhs < ep_version rhs \<or>
     (ep_version lhs = ep_version rhs \<and> ep_confVersion lhs < ep_confVersion rhs)"

definition ValidTransition :: "SchedulingOperatorPhase \<Rightarrow> SchedulingOperatorPhase \<Rightarrow> bool" where
  "ValidTransition from to =
     (if from = to then True
      else case from of
             OpPending \<Rightarrow> to = OpDispatching \<or> to = OpCancelling \<or> to = OpCancelled \<or> to = OpFailed
           | OpDispatching \<Rightarrow> to = OpWaiting \<or> to = OpSucceeded \<or> to = OpCancelling \<or> to = OpFailed
           | OpWaiting \<Rightarrow> to = OpDispatching \<or> to = OpSucceeded \<or> to = OpCancelling \<or> to = OpFailed
           | OpCancelling \<Rightarrow> to = OpCancelled \<or> to = OpFailed
           | _ \<Rightarrow> False)"

section \<open>Results, counters and publication\<close>

definition ok_result :: "u64 \<Rightarrow> MetadataCommandResult" where
  "ok_result revision = \<lparr> mr_error = MetadataOk, mr_revision = revision, mr_firstAllocatedId = 0, mr_allocatedCount = 0,
     mr_regions = [], mr_migration = None, mr_heartbeat = None, mr_balancerConfig = None, mr_operator = None \<rparr>"

definition Error :: "MetadataErrorCode \<Rightarrow> MetadataStateMachine \<Rightarrow> MetadataCommandResult" where
  "Error code s = (ok_result (ms_revision s)) \<lparr> mr_error := code \<rparr>"

definition count_reject :: "MetadataStateMachine \<Rightarrow> MetadataStateMachine" where
  "count_reject s = s \<lparr> ms_metrics := (ms_metrics s) \<lparr> mt_validationRejects := mt_validationRejects (ms_metrics s) + 1 \<rparr> \<rparr>"

definition rejected :: "MetadataErrorCode \<Rightarrow> md_handler" where
  "rejected code s = (Some (Error code s), count_reject s)"

definition refused :: "MetadataErrorCode \<Rightarrow> md_handler" where
  "refused code s = (Some (Error code s), s)"

definition thrown :: md_handler where
  "thrown s = (None, s)"

definition current_view :: "RegionMetadata list option \<Rightarrow> MetadataStateMachine \<Rightarrow> MetadataView" where
  "current_view catalog s = \<lparr> mv_revision = ms_revision s, mv_catalog = catalog, mv_stores = ms_stores s,
     mv_regionIdHighWater = ms_regionIdHighWater s, mv_peerIdHighWater = ms_peerIdHighWater s,
     mv_storeIdHighWater = ms_storeIdHighWater s, mv_bootstrapDigest = ms_bootstrapDigest s, mv_migrations = ms_migrations s,
     mv_storeHeartbeats = ms_storeHeartbeats s, mv_balancerConfig = ms_balancerConfig s,
     mv_schedulingOperators = ms_schedulingOperators s, mv_activeOperatorByRegion = ms_activeOperatorByRegion s \<rparr>"

text \<open>Publication validates the regions again; \<open>None\<close> when that throws.\<close>

definition PublishLocked :: "MetadataStateMachine \<Rightarrow> MetadataStateMachine option" where
  "PublishLocked s =
     (if ms_regions s = [] then Some (s \<lparr> ms_published := current_view None s \<rparr>)
      else case RegionCatalog (ms_regions s) of
             Inl _ \<Rightarrow> None
           | Inr catalog \<Rightarrow> Some (s \<lparr> ms_published := current_view (Some catalog) s \<rparr>))"

text \<open>Publish, then return the result computed from the published state.\<close>

definition publish_and :: "(MetadataStateMachine \<Rightarrow> MetadataCommandResult) \<Rightarrow> md_handler" where
  "publish_and result s = (case PublishLocked s of None \<Rightarrow> (None, s) | Some s' \<Rightarrow> (Some (result s'), s'))"

definition RecomputeHighWaterLocked :: "MetadataStateMachine \<Rightarrow> MetadataStateMachine" where
  "RecomputeHighWaterLocked s = s \<lparr>
     ms_regionIdHighWater := fold (\<lambda>region h. max h (of_int (r_regionId region))) (ms_regions s) (ms_regionIdHighWater s),
     ms_peerIdHighWater := fold (\<lambda>region h. fold (\<lambda>peer h. max h (pl_peerId peer)) (r_peers region) h) (ms_regions s) (ms_peerIdHighWater s),
     ms_storeIdHighWater := fold (\<lambda>store h. max h (fst store)) (ms_stores s)
       (fold (\<lambda>region h. fold (\<lambda>peer h. max h (pl_storeId peer)) (r_peers region) h) (ms_regions s) (ms_storeIdHighWater s)) \<rparr>"

definition restamp :: "MetadataStateMachine \<Rightarrow> MetadataStateMachine" where
  "restamp s = s \<lparr> ms_regions := map (set_revision (ms_revision s)) (ms_regions s) \<rparr>"

definition find_region :: "u64 \<Rightarrow> MetadataStateMachine \<Rightarrow> RegionMetadata option" where
  "find_region regionId s = find (\<lambda>region. of_int (r_regionId region) = regionId) (ms_regions s)"

section \<open>Topology\<close>

definition valid_store :: "StoreDescriptor \<Rightarrow> bool" where
  "valid_store store \<longleftrightarrow> \<not> (sd_storeId store = 0 \<or> sd_host store = [] \<or> sd_port store = 0 \<or> sd_port store > 65535)"

fun collect_stores :: "(u64, StoreDescriptor) omap \<Rightarrow> StoreDescriptor list \<Rightarrow> (u64, StoreDescriptor) omap option" where
  "collect_stores stores [] = Some stores"
| "collect_stores stores (store # rest) =
     (if \<not> valid_store store \<or> map_of stores (sd_storeId store) \<noteq> None then None
      else collect_stores (om_put (sd_storeId store) store stores) rest)"

definition peer_on_store :: "(u64, StoreDescriptor) omap \<Rightarrow> RegionPeerLocation \<Rightarrow> bool" where
  "peer_on_store stores peer \<longleftrightarrow>
     (case map_of stores (pl_storeId peer) of
        None \<Rightarrow> False | Some store \<Rightarrow> sd_host store = pl_host peer \<and> sd_port store = of_int (pl_port peer))"

definition peers_on_stores :: "(u64, StoreDescriptor) omap \<Rightarrow> RegionMetadata list \<Rightarrow> bool" where
  "peers_on_stores stores regions \<longleftrightarrow> list_all (\<lambda>region. list_all (peer_on_store stores) (r_peers region)) regions"

definition BootstrapLocked :: "u64 \<Rightarrow> string \<Rightarrow> RegionDescriptor list \<Rightarrow> StoreDescriptor list \<Rightarrow> md_handler" where
  "BootstrapLocked expectedRevision configDigest descriptors storeList s =
     (if ms_revision s \<noteq> 0 \<or> ms_regions s \<noteq> [] then rejected MetadataAlreadyBootstrapped s
      else if expectedRevision \<noteq> 0 \<or> configDigest = [] then rejected MetadataInvalidArgument s
      else case DecodeRegions descriptors of
             None \<Rightarrow> thrown s
           | Some decoded \<Rightarrow>
               (case RegionCatalog (map (set_revision 1) decoded) of
                  Inl _ \<Rightarrow> thrown s
                | Inr validated \<Rightarrow>
                    (case collect_stores [] storeList of
                       None \<Rightarrow> thrown s
                     | Some stores \<Rightarrow>
                         if \<not> peers_on_stores stores validated then thrown s
                         else publish_and (\<lambda>s'. ok_result (ms_revision s'))
                           (RecomputeHighWaterLocked (s \<lparr> ms_revision := 1, ms_bootstrapDigest := configDigest, ms_stores := stores,
                              ms_regions := map (set_revision 1) validated \<rparr>)))))"

fun take_removed :: "u64 list \<Rightarrow> RegionMetadata list \<Rightarrow> RegionMetadata list \<times> RegionMetadata list \<times> u64 list" where
  "take_removed ids [] = ([], [], ids)"
| "take_removed ids (region # rest) =
     (if of_int (r_regionId region) \<in> set ids
      then let (removed, retained, left) = take_removed (removeAll (of_int (r_regionId region)) ids) rest
           in (region # removed, retained, left)
      else let (removed, retained, left) = take_removed ids rest in (removed, region # retained, left))"

definition replacement_advances :: "RegionMetadata list \<Rightarrow> RegionMetadata \<Rightarrow> bool" where
  "replacement_advances removed newRegion =
     (case find (\<lambda>value. r_regionId value = r_regionId newRegion) removed of
        None \<Rightarrow> fold (\<lambda>old m. max m (ep_version (r_epoch old))) removed 0 < ep_version (r_epoch newRegion)
      | Some old \<Rightarrow>
          (let rangeChanged = (r_startKey old \<noteq> r_startKey newRegion \<or> r_endKey old \<noteq> r_endKey newRegion);
               peersChanged = (\<not> SameMetaPeers old newRegion)
           in \<not> ((rangeChanged \<and> ep_version (r_epoch newRegion) \<le> ep_version (r_epoch old)) \<or>
                 (\<not> rangeChanged \<and> ep_version (r_epoch newRegion) < ep_version (r_epoch old)) \<or>
                 (peersChanged \<and> ep_confVersion (r_epoch newRegion) \<le> ep_confVersion (r_epoch old)) \<or>
                 (\<not> peersChanged \<and> ep_confVersion (r_epoch newRegion) < ep_confVersion (r_epoch old)))))"

definition ReplaceRegionsLocked :: "u64 \<Rightarrow> u64 list \<Rightarrow> RegionDescriptor list \<Rightarrow> md_handler" where
  "ReplaceRegionsLocked expectedRevision removeIds addRegions s =
     (if ms_revision s = 0 then rejected MetadataInvalidArgument s
      else if expectedRevision \<noteq> ms_revision s then rejected MetadataRevisionMismatch s
      else if removeIds = [] \<or> addRegions = [] \<or> \<not> distinct removeIds then thrown s
      else let (removed, retained, left) = take_removed removeIds (ms_regions s) in
           if left \<noteq> [] then thrown s
           else case DecodeRegions addRegions of
                  None \<Rightarrow> thrown s
                | Some decoded \<Rightarrow>
                    (let added = map (set_revision (ms_revision s + 1)) decoded in
                     if CoveredInterval removed = None \<or> CoveredInterval added = None \<or>
                        CoveredInterval removed \<noteq> CoveredInterval added \<or> \<not> list_all (replacement_advances removed) added
                     then thrown s
                     else case RegionCatalog (retained @ added) of
                            Inl _ \<Rightarrow> thrown s
                          | Inr validated \<Rightarrow>
                              publish_and (\<lambda>s'. ok_result (ms_revision s'))
                                (RecomputeHighWaterLocked (restamp (s \<lparr> ms_revision := ms_revision s + 1, ms_regions := validated \<rparr>)))))"

text \<open>The child's peers mirror the parent's, with identifiers from the durable mark; \<open>None\<close> when it overflows.\<close>

fun AllocatePeers :: "RegionPeerLocation list \<Rightarrow> u64 \<Rightarrow> RegionPeerLocation list option \<times> u64" where
  "AllocatePeers [] highWater = (Some [], highWater)"
| "AllocatePeers (peer # rest) highWater =
     (case SafeAdd highWater 1 of
        None \<Rightarrow> (None, highWater)
      | Some newId \<Rightarrow>
          (case AllocatePeers rest newId of
             (None, h) \<Rightarrow> (None, h)
           | (Some ps, h) \<Rightarrow> (Some (peer \<lparr> pl_peerId := newId \<rparr> # ps), h)))"

definition PrepareSplitLocked :: "u64 \<Rightarrow> u64 \<Rightarrow> string \<Rightarrow> RegionEpoch \<Rightarrow> md_handler" where
  "PrepareSplitLocked expectedRevision regionId splitKey expectedEpoch s =
     (if ms_revision s = 0 \<or> expectedRevision \<noteq> ms_revision s
      then rejected (if expectedRevision \<noteq> ms_revision s \<and> ms_revision s \<noteq> 0 then MetadataRevisionMismatch else MetadataInvalidArgument) s
      else case find (\<lambda>region. r_regionId region = to_int32 regionId) (rev (ms_regions s)) of
             None \<Rightarrow> thrown s
           | Some parent \<Rightarrow>
               if r_splitPending parent \<noteq> None then thrown s
               else if r_epoch parent \<noteq> expectedEpoch then refused MetadataRevisionMismatch s
               else if \<not> r_startKey parent < splitKey \<or> (r_endKey parent \<noteq> [] \<and> \<not> splitKey < r_endKey parent) then thrown s
               else case SafeAdd (ms_regionIdHighWater s) 1 of
                      None \<Rightarrow> thrown s
                    | Some childId \<Rightarrow>
                        (let s1 = s \<lparr> ms_regionIdHighWater := childId \<rparr>;
                             (peers, h) = AllocatePeers (r_peers parent) (ms_peerIdHighWater s1);
                             s2 = s1 \<lparr> ms_peerIdHighWater := h \<rparr>
                         in case peers of
                              None \<Rightarrow> thrown s2
                            | Some ps \<Rightarrow>
                                (let child = RegionMetadata (to_int32 childId) splitKey (r_endKey parent) ps
                                       \<lparr> ep_version = 1, ep_confVersion = 1 \<rparr> 1 (pl_peerId (hd ps)) None;
                                     marked = set_splitPending (Some (splitKey, child)) parent
                                 in publish_and (\<lambda>s'. (ok_result (ms_revision s')) \<lparr> mr_regions := [ToProtoRegion marked] \<rparr>)
                                      (RecomputeHighWaterLocked (s2 \<lparr> ms_revision := ms_revision s2 + 1,
                                         ms_regions := map (\<lambda>region. if r_regionId region = r_regionId marked then marked else region)
                                           (ms_regions s2) \<rparr>)))))"

definition CommitSplitLocked :: "u64 \<Rightarrow> u64 \<Rightarrow> md_handler" where
  "CommitSplitLocked expectedRevision regionId s =
     (if ms_revision s = 0 \<or> expectedRevision \<noteq> ms_revision s then rejected MetadataRevisionMismatch s
      else case find (\<lambda>region. r_regionId region = to_int32 regionId) (rev (ms_regions s)) of
             None \<Rightarrow> thrown s
           | Some parent \<Rightarrow>
               (case r_splitPending parent of
                  None \<Rightarrow> thrown s
                | Some (splitKey, prepared) \<Rightarrow>
                    (let shrunken = set_epoch ((r_epoch parent) \<lparr> ep_version := ep_version (r_epoch parent) + 1 \<rparr>)
                           (set_endKey splitKey (set_splitPending None parent));
                         child = set_revision (ms_revision s + 1) (set_endKey (r_endKey parent) prepared)
                     in case RegionCatalog (map (\<lambda>region. if r_regionId region = r_regionId shrunken then shrunken else region)
                               (ms_regions s) @ [child]) of
                          Inl _ \<Rightarrow> thrown s
                        | Inr validated \<Rightarrow>
                            publish_and (\<lambda>s'. (ok_result (ms_revision s')) \<lparr> mr_regions := map ToProtoRegion
                                (filter (\<lambda>region. r_regionId region = r_regionId shrunken \<or> r_regionId region = r_regionId child) (ms_regions s')) \<rparr>)
                              (RecomputeHighWaterLocked (restamp (s \<lparr> ms_revision := ms_revision s + 1, ms_regions := validated \<rparr>))))))"

definition AckSplitLocked :: "u64 \<Rightarrow> u64 list \<Rightarrow> md_handler" where
  "AckSplitLocked expectedRevision children s =
     (if ms_revision s = 0 \<or> expectedRevision \<noteq> ms_revision s then rejected MetadataRevisionMismatch s
      else if list_ex (\<lambda>childId. \<not> list_ex (\<lambda>region. of_int (r_regionId region) = childId) (ms_regions s)) children then thrown s
      else (Some (ok_result (ms_revision s)), s))"

section \<open>Replica moves\<close>

definition target_peer :: "ReplicaMigrationStatus \<Rightarrow> PeerDescriptor" where
  "target_peer m = (case rm_targetPeer m of Some p \<Rightarrow> p
     | None \<Rightarrow> \<lparr> pd_peerId = 0, pd_storeId = 0, pd_host = [], pd_port = 0, pd_isLearner = False \<rparr>)"

definition PrepareMovePeerLocked :: "string \<Rightarrow> u64 \<Rightarrow> u64 \<Rightarrow> u64 \<Rightarrow> u64 \<Rightarrow> RegionEpoch option \<Rightarrow> md_handler" where
  "PrepareMovePeerLocked mutationId expectedRevision regionId fromStore toStore expectedEpoch s =
     (if ms_revision s = 0 \<or> expectedRevision \<noteq> ms_revision s then rejected MetadataRevisionMismatch s
      else case find_region regionId s of
             None \<Rightarrow> thrown s
           | Some region \<Rightarrow>
               if map_of (ms_migrations s) regionId \<noteq> None then thrown s
               else if expectedEpoch \<noteq> Some (r_epoch region) then refused MetadataRevisionMismatch s
               else case find (\<lambda>peer. pl_storeId peer = fromStore) (r_peers region) of
                      None \<Rightarrow> thrown s
                    | Some source \<Rightarrow>
                        if list_ex (\<lambda>peer. pl_storeId peer = toStore) (r_peers region) then thrown s
                        else case map_of (ms_stores s) toStore of
                               None \<Rightarrow> thrown s
                             | Some targetStore \<Rightarrow>
                                 (case SafeAdd (ms_peerIdHighWater s) 1 of
                                    None \<Rightarrow> thrown s
                                  | Some newPeerId \<Rightarrow>
                                      (let status = \<lparr> rm_regionId = regionId, rm_sourcePeerId = pl_peerId source, rm_fromStoreId = fromStore,
                                             rm_targetPeer = Some \<lparr> pd_peerId = newPeerId, pd_storeId = toStore, pd_host = sd_host targetStore,
                                               pd_port = sd_port targetStore, pd_isLearner = True \<rparr>,
                                             rm_phase = MigrationPreparingTarget, rm_transferredBytes = 0, rm_logLag = 0, rm_mutationId = mutationId \<rparr>;
                                           prepared = set_peers (r_peers region @ [\<lparr> pl_nodeId = to_int32 (toStore - 1), pl_host = sd_host targetStore,
                                               pl_port = to_short (sd_port targetStore), pl_storeId = toStore, pl_peerId = newPeerId, pl_isLearner = True \<rparr>])
                                             (set_epoch ((r_epoch region) \<lparr> ep_confVersion := ep_confVersion (r_epoch region) + 1 \<rparr>)
                                               (set_revision (ms_revision s + 1) region))
                                       in publish_and (\<lambda>s'. (ok_result (ms_revision s')) \<lparr> mr_migration := Some status, mr_regions := [ToProtoRegion prepared] \<rparr>)
                                            (restamp (s \<lparr> ms_peerIdHighWater := newPeerId, ms_migrations := om_put regionId status (ms_migrations s),
                                               ms_revision := ms_revision s + 1 \<rparr>)))))"

text \<open>The first peer and the first region that match are the ones the code assigns to.\<close>

fun replace_first :: "('a \<Rightarrow> bool) \<Rightarrow> ('a \<Rightarrow> 'a) \<Rightarrow> 'a list \<Rightarrow> 'a list" where
  "replace_first P f [] = []"
| "replace_first P f (x # xs) = (if P x then f x # xs else x # replace_first P f xs)"

definition moved_region :: "ReplicaMigrationStatus \<Rightarrow> RegionMetadata \<Rightarrow> RegionMetadata" where
  "moved_region migration region =
     (let target = target_peer migration;
          newPeer = \<lparr> pl_nodeId = to_int32 (pd_storeId target - 1), pl_host = pd_host target, pl_port = to_short (pd_port target),
                      pl_storeId = pd_storeId target, pl_peerId = pd_peerId target, pl_isLearner = False \<rparr>;
          r1 = set_peers (replace_first (\<lambda>peer. pl_peerId peer = rm_sourcePeerId migration) (\<lambda>_. newPeer) (r_peers region)) region;
          r2 = (if r_leaderPeerId region = rm_sourcePeerId migration then set_leader (pd_peerId target) r1 else r1)
      in set_epoch ((r_epoch region) \<lparr> ep_confVersion := ep_confVersion (r_epoch region) + 3 \<rparr>) r2)"

definition CommitMovePeerLocked :: "u64 \<Rightarrow> u64 \<Rightarrow> u64 \<Rightarrow> RegionEpoch option \<Rightarrow> md_handler" where
  "CommitMovePeerLocked expectedRevision regionId newPeerId expectedEpoch s =
     (if ms_revision s = 0 \<or> expectedRevision \<noteq> ms_revision s then rejected MetadataRevisionMismatch s
      else case map_of (ms_migrations s) regionId of
             None \<Rightarrow> thrown s
           | Some migration \<Rightarrow>
               if pd_peerId (target_peer migration) \<noteq> newPeerId then thrown s
               else case find_region regionId s of
                      None \<Rightarrow> thrown s
                    | Some region \<Rightarrow>
                        if expectedEpoch \<noteq> Some (r_epoch region) then refused MetadataRevisionMismatch s
                        else if \<not> list_ex (\<lambda>peer. pl_peerId peer = rm_sourcePeerId migration) (r_peers region) then thrown s
                        else let completed = migration \<lparr> rm_targetPeer := Some ((target_peer migration) \<lparr> pd_isLearner := False \<rparr>),
                                   rm_phase := MigrationComplete \<rparr>
                             in publish_and (\<lambda>s'. (ok_result (ms_revision s')) \<lparr> mr_migration := Some completed,
                                    mr_regions := map ToProtoRegion (case find_region regionId s' of None \<Rightarrow> [] | Some r \<Rightarrow> [r]) \<rparr>)
                                  (restamp (s \<lparr> ms_regions := replace_first (\<lambda>value. of_int (r_regionId value) = regionId) (moved_region migration) (ms_regions s),
                                     ms_revision := ms_revision s + 1, ms_migrations := om_del regionId (ms_migrations s) \<rparr>)))"

definition CancelMovePeerLocked :: "u64 \<Rightarrow> u64 \<Rightarrow> u64 \<Rightarrow> md_handler" where
  "CancelMovePeerLocked expectedRevision regionId newPeerId s =
     (if ms_revision s = 0 \<or> expectedRevision \<noteq> ms_revision s then rejected MetadataRevisionMismatch s
      else case map_of (ms_migrations s) regionId of
             None \<Rightarrow> thrown s
           | Some migration \<Rightarrow>
               if pd_peerId (target_peer migration) \<noteq> newPeerId then thrown s
               else publish_and (\<lambda>s'. (ok_result (ms_revision s')) \<lparr> mr_migration := Some (migration \<lparr> rm_phase := MigrationCancelled \<rparr>) \<rparr>)
                      (restamp (s \<lparr> ms_migrations := om_del regionId (ms_migrations s), ms_revision := ms_revision s + 1 \<rparr>)))"

section \<open>Heartbeats and balancer configuration\<close>

text \<open>
  The observations of a heartbeat, each once; one with an older epoch than the previous heartbeat had keeps the
  previous observation. \<open>None\<close> for an invalid or repeated one.
\<close>

fun merge_observations ::
  "(u64 \<times> RegionSchedulingObservation) list \<Rightarrow> u64 list \<Rightarrow> RegionSchedulingObservation list \<Rightarrow> RegionSchedulingObservation list option" where
  "merge_observations previous seen [] = Some []"
| "merge_observations previous seen (observation # rest) =
     (if ro_regionId observation = 0 \<or> ro_peerId observation = 0 \<or> ep_version (ro_epoch observation) = 0 \<or>
         ep_confVersion (ro_epoch observation) = 0 \<or> ro_regionId observation \<in> set seen then None
      else case merge_observations previous (ro_regionId observation # seen) rest of
             None \<Rightarrow> None
           | Some merged \<Rightarrow>
               Some ((case map_of previous (ro_regionId observation) of
                        Some old \<Rightarrow> if EpochOlder (ro_epoch observation) (ro_epoch old) then old else observation
                      | None \<Rightarrow> observation) # merged))"

definition ReportStoreHeartbeatLocked :: "u64 \<Rightarrow> StoreHeartbeat \<Rightarrow> md_handler" where
  "ReportStoreHeartbeatLocked expectedRevision heartbeat s =
     (if ms_revision s = 0 then refused MetadataInvalidArgument s
      else if expectedRevision \<noteq> 0 \<and> expectedRevision \<noteq> ms_revision s then refused MetadataRevisionMismatch s
      else if hb_storeId heartbeat = 0 \<or> hb_sequence heartbeat = 0 \<or> hb_observedAtMs heartbeat = 0 \<or>
              hb_expiresAtMs heartbeat \<le> hb_observedAtMs heartbeat \<or> hb_capacityBytes heartbeat = 0 \<or>
              hb_availableBytes heartbeat > hb_capacityBytes heartbeat then thrown s
      else if map_of (ms_stores s) (hb_storeId heartbeat) = None then thrown s
      else let previous = map_of (ms_storeHeartbeats s) (hb_storeId heartbeat) in
           if (case previous of Some p \<Rightarrow> hb_sequence heartbeat \<le> hb_sequence p | None \<Rightarrow> False)
           then (Some ((ok_result (ms_revision s)) \<lparr> mr_heartbeat := previous \<rparr>),
                 s \<lparr> ms_metrics := (ms_metrics s) \<lparr> mt_heartbeatIgnored := mt_heartbeatIgnored (ms_metrics s) + 1 \<rparr> \<rparr>)
           else case merge_observations
                       (case previous of Some p \<Rightarrow> map (\<lambda>o'. (ro_regionId o', o')) (hb_regions p) | None \<Rightarrow> []) [] (hb_regions heartbeat) of
                  None \<Rightarrow> thrown s
                | Some regions \<Rightarrow>
                    (let merged = heartbeat \<lparr> hb_regions := regions \<rparr> in
                     publish_and (\<lambda>s'. (ok_result (ms_revision s')) \<lparr> mr_heartbeat := Some merged \<rparr>)
                       (s \<lparr> ms_storeHeartbeats := om_put (hb_storeId heartbeat) merged (ms_storeHeartbeats s),
                            ms_metrics := (ms_metrics s) \<lparr> mt_heartbeatAccepted := mt_heartbeatAccepted (ms_metrics s) + 1 \<rparr> \<rparr>)))"

definition UpdateAutoBalancerConfigLocked :: "u64 \<Rightarrow> AutoBalancerConfig \<Rightarrow> md_handler" where
  "UpdateAutoBalancerConfigLocked expectedRevision requested s =
     (if ms_revision s = 0 then refused MetadataInvalidArgument s
      else if expectedRevision \<noteq> 0 \<and> expectedRevision \<noteq> ms_revision s then refused MetadataRevisionMismatch s
      else let config = (if ac_version requested = 0 then requested \<lparr> ac_version := ac_version (ms_balancerConfig s) + 1 \<rparr> else requested) in
           if ac_version config \<le> ac_version (ms_balancerConfig s) \<or> ac_evaluationIntervalMs config = 0 \<or>
              ac_heartbeatTimeoutMs config < ac_evaluationIntervalMs config \<or> d_le_zero (ac_maximumDiskUsedRatio config) \<or>
              d_greater_one (ac_maximumDiskUsedRatio config) \<or> ac_replicationFactor config = 0 \<or>
              d_less_zero (ac_imbalanceThreshold config) \<or> d_greater_one (ac_imbalanceThreshold config) \<or>
              ac_splitConsecutiveWindows config = 0 \<or> ac_maximumActiveOperators config = 0 \<or> ac_maximumActivePerStore config = 0 \<or>
              ac_maximumActivePerStore config > ac_maximumActiveOperators config then thrown s
           else publish_and (\<lambda>s'. (ok_result (ms_revision s')) \<lparr> mr_balancerConfig := Some config \<rparr>)
                  (s \<lparr> ms_balancerConfig := config \<rparr>))"

section \<open>Scheduling operators\<close>

text \<open>The number of active operators that use a store, in the 32-bit counter of the code.\<close>

definition active_on_store :: "MetadataStateMachine \<Rightarrow> u64 \<Rightarrow> u32" where
  "active_on_store s storeId =
     of_nat (length (filter (\<lambda>(_, active). \<not> IsTerminal (so_phase active) \<and> so_sourceStoreId active = storeId) (ms_schedulingOperators s)) +
             length (filter (\<lambda>(_, active). \<not> IsTerminal (so_phase active) \<and> so_targetStoreId active = storeId) (ms_schedulingOperators s)))"

text \<open>The check of the work an operator asks for: \<open>None\<close> throws, otherwise whether there is a conflict.\<close>

definition operator_work_conflict :: "MetadataStateMachine \<Rightarrow> RegionMetadata \<Rightarrow> SchedulingOperator \<Rightarrow> bool option" where
  "operator_work_conflict s region requested =
     (case so_type requested of
        OpMovePeer \<Rightarrow>
          if so_sourceStoreId requested = 0 \<or> so_targetStoreId requested = 0 \<or> so_sourceStoreId requested = so_targetStoreId requested
          then None
          else Some (\<not> list_ex (\<lambda>peer. pl_storeId peer = so_sourceStoreId requested) (r_peers region) \<or>
                     list_ex (\<lambda>peer. pl_storeId peer = so_targetStoreId requested) (r_peers region) \<or>
                     (case map_of (ms_storeHeartbeats s) (so_targetStoreId requested) of
                        None \<Rightarrow> True
                      | Some h \<Rightarrow> hb_expiresAtMs h \<le> so_createdAtMs requested \<or>
                          hb_availableBytes h < ac_minimumFreeBytes (ms_balancerConfig s)))
      | OpSplitRegion \<Rightarrow> if so_splitCandidateGeneration requested = 0 then None else Some False
      | OpTypeOther _ \<Rightarrow> None)"

definition CreateSchedulingOperatorLocked :: "u64 \<Rightarrow> SchedulingOperator \<Rightarrow> md_handler" where
  "CreateSchedulingOperatorLocked expectedRevision requested s =
     (if ms_revision s = 0 \<or> expectedRevision \<noteq> ms_revision s then refused MetadataRevisionMismatch s
      else if so_operatorId requested = [] \<or> so_regionId requested = 0 \<or> so_sourceRevision requested \<noteq> ms_revision s \<or>
              so_phase requested \<noteq> OpPending \<or> so_createdAtMs requested = 0 \<or> so_updatedAtMs requested < so_createdAtMs requested \<or>
              so_deadlineMs requested \<le> so_createdAtMs requested then thrown s
      else case map_of (ms_schedulingOperators s) (so_operatorId requested) of
             Some existing \<Rightarrow>
               if so_regionId existing \<noteq> so_regionId requested \<or> so_type existing \<noteq> so_type requested then refused MetadataConflict s
               else (Some ((ok_result (ms_revision s)) \<lparr> mr_operator := Some existing \<rparr>), s)
           | None \<Rightarrow>
               if \<not> ac_enabled (ms_balancerConfig s) \<or> ac_paused (ms_balancerConfig s) then refused MetadataConflict s
               else if map_of (ms_activeOperatorByRegion s) (so_regionId requested) \<noteq> None then refused MetadataConflict s
               else case find_region (so_regionId requested) s of
                      None \<Rightarrow> thrown s
                    | Some region \<Rightarrow>
                        if so_regionEpoch requested \<noteq> Some (r_epoch region) then refused MetadataRevisionMismatch s
                        else if unat (ac_maximumActiveOperators (ms_balancerConfig s)) \<le> length (ms_activeOperatorByRegion s)
                        then refused MetadataConflict s
                        else case operator_work_conflict s region requested of
                               None \<Rightarrow> thrown s
                             | Some conflict \<Rightarrow>
                                 if conflict then refused MetadataConflict s
                                 else if (so_sourceStoreId requested \<noteq> 0 \<and>
                                           ac_maximumActivePerStore (ms_balancerConfig s) \<le> active_on_store s (so_sourceStoreId requested)) \<or>
                                         (so_targetStoreId requested \<noteq> 0 \<and>
                                           ac_maximumActivePerStore (ms_balancerConfig s) \<le> active_on_store s (so_targetStoreId requested))
                                 then refused MetadataConflict s
                                 else publish_and (\<lambda>s'. (ok_result (ms_revision s')) \<lparr> mr_operator := Some requested \<rparr>)
                                        (s \<lparr> ms_schedulingOperators := om_put (so_operatorId requested) requested (ms_schedulingOperators s),
                                             ms_activeOperatorByRegion := om_put (so_regionId requested) (so_operatorId requested) (ms_activeOperatorByRegion s),
                                             ms_metrics := (ms_metrics s) \<lparr> mt_operatorAdmissions := mt_operatorAdmissions (ms_metrics s) + 1 \<rparr> \<rparr>))"

definition UpdateSchedulingOperatorLocked :: "u64 \<Rightarrow> OperatorUpdate \<Rightarrow> md_handler" where
  "UpdateSchedulingOperatorLocked expectedRevision update s =
     (if expectedRevision \<noteq> 0 \<and> expectedRevision \<noteq> ms_revision s then refused MetadataRevisionMismatch s
      else case map_of (ms_schedulingOperators s) (ou_operatorId update) of
             None \<Rightarrow> refused MetadataNotFound s
           | Some current \<Rightarrow>
               if so_phase current \<noteq> ou_expectedPhase update then refused MetadataConflict s
               else if \<not> ValidTransition (so_phase current) (ou_phase update) \<or> ou_attempts update < so_attempts current \<or>
                       ou_updatedAtMs update < so_updatedAtMs current then refused MetadataConflict s
               else let changed = current \<lparr> so_phase := ou_phase update, so_attempts := ou_attempts update, so_lastError := ou_lastError update,
                          so_irreversible := (so_irreversible current \<or> ou_irreversible update), so_updatedAtMs := ou_updatedAtMs update \<rparr>
                    in publish_and (\<lambda>s'. (ok_result (ms_revision s')) \<lparr> mr_operator := Some changed \<rparr>)
                         (s \<lparr> ms_schedulingOperators := om_put (ou_operatorId update) changed (ms_schedulingOperators s),
                              ms_activeOperatorByRegion := (if IsTerminal (so_phase changed)
                                then om_del (so_regionId changed) (ms_activeOperatorByRegion s) else ms_activeOperatorByRegion s) \<rparr>))"

definition CancelSchedulingOperatorLocked :: "u64 \<Rightarrow> string \<Rightarrow> u64 \<Rightarrow> md_handler" where
  "CancelSchedulingOperatorLocked expectedRevision operatorId updatedAtMs s =
     (if expectedRevision \<noteq> 0 \<and> expectedRevision \<noteq> ms_revision s then refused MetadataRevisionMismatch s
      else case map_of (ms_schedulingOperators s) operatorId of
             None \<Rightarrow> refused MetadataNotFound s
           | Some current \<Rightarrow>
               if IsTerminal (so_phase current) then (Some ((ok_result (ms_revision s)) \<lparr> mr_operator := Some current \<rparr>), s)
               else if so_irreversible current then refused MetadataConflict s
               else let changed = current \<lparr> so_cancelRequested := True, so_updatedAtMs := max (so_updatedAtMs current) updatedAtMs,
                          so_phase := (if so_phase current = OpPending then OpCancelled else OpCancelling) \<rparr>
                    in publish_and (\<lambda>s'. (ok_result (ms_revision s')) \<lparr> mr_operator := Some changed \<rparr>)
                         (s \<lparr> ms_schedulingOperators := om_put operatorId changed (ms_schedulingOperators s),
                              ms_activeOperatorByRegion := (if so_phase current = OpPending
                                then om_del (so_regionId current) (ms_activeOperatorByRegion s) else ms_activeOperatorByRegion s) \<rparr>))"

section \<open>Identifiers and stores\<close>

definition high_water :: "IdNamespace \<Rightarrow> MetadataStateMachine \<Rightarrow> u64 option" where
  "high_water ns s = (case ns of IdRegion \<Rightarrow> Some (ms_regionIdHighWater s) | IdPeer \<Rightarrow> Some (ms_peerIdHighWater s)
     | IdStore \<Rightarrow> Some (ms_storeIdHighWater s) | IdOther _ \<Rightarrow> None)"

definition set_high_water :: "IdNamespace \<Rightarrow> u64 \<Rightarrow> MetadataStateMachine \<Rightarrow> MetadataStateMachine" where
  "set_high_water ns h s = (case ns of IdRegion \<Rightarrow> s \<lparr> ms_regionIdHighWater := h \<rparr> | IdPeer \<Rightarrow> s \<lparr> ms_peerIdHighWater := h \<rparr>
     | IdStore \<Rightarrow> s \<lparr> ms_storeIdHighWater := h \<rparr> | IdOther _ \<Rightarrow> s)"

definition AllocateIdsLocked :: "u64 \<Rightarrow> IdNamespace \<Rightarrow> u64 \<Rightarrow> md_handler" where
  "AllocateIdsLocked expectedRevision ns count s =
     (if ms_revision s = 0 then refused MetadataInvalidArgument s
      else if expectedRevision \<noteq> ms_revision s then rejected MetadataRevisionMismatch s
      else case high_water ns s of
             None \<Rightarrow> thrown s
           | Some h \<Rightarrow>
               (case SafeAdd h count of
                  None \<Rightarrow> thrown s
                | Some h' \<Rightarrow>
                    publish_and (\<lambda>s'. (ok_result (ms_revision s')) \<lparr> mr_firstAllocatedId := h + 1, mr_allocatedCount := count \<rparr>)
                      ((set_high_water ns h' s) \<lparr> ms_revision := ms_revision s + 1 \<rparr>)))"

definition PutStoreLocked :: "u64 \<Rightarrow> StoreDescriptor \<Rightarrow> md_handler" where
  "PutStoreLocked expectedRevision store s =
     (if ms_revision s = 0 \<or> expectedRevision \<noteq> ms_revision s then rejected MetadataRevisionMismatch s
      else if \<not> valid_store store then thrown s
      else publish_and (\<lambda>s'. ok_result (ms_revision s'))
             (s \<lparr> ms_stores := om_put (sd_storeId store) store (ms_stores s),
                  ms_storeIdHighWater := max (ms_storeIdHighWater s) (sd_storeId store), ms_revision := ms_revision s + 1 \<rparr>))"

section \<open>Commands\<close>

definition run_handler :: "MetadataCommand \<Rightarrow> md_handler" where
  "run_handler command =
     (let expected = mc_expectedRevision command in
      case mc_command command of
        Bootstrap digest regions stores \<Rightarrow> BootstrapLocked expected digest regions stores
      | ReplaceRegions ids regions \<Rightarrow> ReplaceRegionsLocked expected ids regions
      | AllocateIds ns count \<Rightarrow> AllocateIdsLocked expected ns count
      | PutStore store \<Rightarrow> PutStoreLocked expected store
      | PrepareSplit regionId key epoch \<Rightarrow> PrepareSplitLocked expected regionId key epoch
      | CommitSplit regionId \<Rightarrow> CommitSplitLocked expected regionId
      | AckSplit parent children \<Rightarrow> AckSplitLocked expected children
      | PrepareMovePeer regionId from to epoch \<Rightarrow> PrepareMovePeerLocked (mc_mutationId command) expected regionId from to epoch
      | CommitMovePeer regionId peer epoch \<Rightarrow> CommitMovePeerLocked expected regionId peer epoch
      | CancelMovePeer regionId peer \<Rightarrow> CancelMovePeerLocked expected regionId peer
      | ReportStoreHeartbeat heartbeat \<Rightarrow> ReportStoreHeartbeatLocked expected heartbeat
      | UpdateAutoBalancerConfig config \<Rightarrow> UpdateAutoBalancerConfigLocked expected config
      | CreateSchedulingOperator requested \<Rightarrow> CreateSchedulingOperatorLocked expected requested
      | UpdateSchedulingOperator update \<Rightarrow> UpdateSchedulingOperatorLocked expected update
      | CancelSchedulingOperator operatorId ms \<Rightarrow> CancelSchedulingOperatorLocked expected operatorId ms
      | CommandNotSet \<Rightarrow> rejected MetadataInvalidArgument)"

text \<open>An exception becomes an invalid argument; the state is the one the handler left.\<close>

definition ApplyLocked :: "MetadataCommand \<Rightarrow> MetadataStateMachine \<Rightarrow> MetadataCommandResult \<times> MetadataStateMachine" where
  "ApplyLocked command s =
     (case run_handler command s of
        (Some result, s') \<Rightarrow> (result, s')
      | (None, s') \<Rightarrow> (Error MetadataInvalidArgument s', count_reject s'))"

definition kDedupRetention :: nat where
  "kDedupRetention = 4096"

function TrimDedup :: "(string, MutationRecord) omap \<Rightarrow> string list \<Rightarrow> (string, MutationRecord) omap \<times> string list" where
  "TrimDedup dedup order =
     (if kDedupRetention < length order then TrimDedup (om_del (hd order) dedup) (tl order) else (dedup, order))"
  by pat_completeness auto
termination by (relation "measure (\<lambda>(_, order). length order)") auto

declare TrimDedup.simps [simp del]

definition RecordResultLocked :: "string \<Rightarrow> MetadataCommandResult \<Rightarrow> MetadataStateMachine \<Rightarrow> MetadataStateMachine" where
  "RecordResultLocked mutationId result s =
     (let record = \<lparr> mu_mutationId = mutationId, mu_result = result, mu_appliedRevision = ms_revision s \<rparr>;
          (dedup, order) = TrimDedup (om_put mutationId record (ms_dedup s)) (ms_dedupOrder s @ [mutationId])
      in s \<lparr> ms_dedup := dedup, ms_dedupOrder := order \<rparr>)"

definition MetadataApply :: "MetadataCommand \<Rightarrow> MetadataStateMachine \<Rightarrow> MetadataCommandResult \<times> MetadataStateMachine" where
  "MetadataApply command s =
     (if mc_mutationId command = [] then (Error MetadataInvalidArgument s, count_reject s)
      else case map_of (ms_dedup s) (mc_mutationId command) of
             Some duplicate \<Rightarrow>
               (mu_result duplicate, s \<lparr> ms_metrics := (ms_metrics s) \<lparr> mt_dedupHits := mt_dedupHits (ms_metrics s) + 1 \<rparr> \<rparr>)
           | None \<Rightarrow> (let (result, s') = ApplyLocked command s in (result, RecordResultLocked (mc_mutationId command) result s')))"

definition NewMetadataStateMachine :: MetadataStateMachine where
  "NewMetadataStateMachine =
     (let view = \<lparr> mv_revision = 0, mv_catalog = None, mv_stores = [], mv_regionIdHighWater = 0, mv_peerIdHighWater = 0,
            mv_storeIdHighWater = 0, mv_bootstrapDigest = [], mv_migrations = [], mv_storeHeartbeats = [],
            mv_balancerConfig = \<lparr> ac_enabled = False, ac_paused = False, ac_version = 0, ac_evaluationIntervalMs = 0,
              ac_heartbeatTimeoutMs = 0, ac_minimumFreeBytes = 0, ac_maximumDiskUsedRatio = 0, ac_replicationFactor = 0,
              ac_imbalanceThreshold = 0, ac_splitSizeBytes = 0, ac_splitRequestThreshold = 0, ac_splitConsecutiveWindows = 0,
              ac_regionCooldownMs = 0, ac_maximumActiveOperators = 0, ac_maximumActivePerStore = 0 \<rparr>,
            mv_schedulingOperators = [], mv_activeOperatorByRegion = [] \<rparr>
      in \<lparr> ms_published = view, ms_regions = [], ms_stores = [], ms_revision = 0, ms_regionIdHighWater = 0, ms_peerIdHighWater = 0,
           ms_storeIdHighWater = 0, ms_bootstrapDigest = [], ms_migrations = [], ms_storeHeartbeats = [],
           ms_balancerConfig = DefaultAutoBalancerConfig, ms_schedulingOperators = [], ms_activeOperatorByRegion = [],
           ms_dedup = [], ms_dedupOrder = [],
           ms_metrics = \<lparr> mt_validationRejects = 0, mt_dedupHits = 0, mt_snapshotCount = 0, mt_heartbeatAccepted = 0,
             mt_heartbeatIgnored = 0, mt_operatorAdmissions = 0 \<rparr> \<rparr>)"

section \<open>Reads\<close>

definition MetaLookupKey :: "MetadataStateMachine \<Rightarrow> string \<Rightarrow> RegionMetadata option" where
  "MetaLookupKey s key =
     (case mv_catalog (ms_published s) of
        None \<Rightarrow> None
      | Some catalog \<Rightarrow> (case FindByKey catalog key of Inl _ \<Rightarrow> None | Inr region \<Rightarrow> Some region))"

definition MetaLookupRegion :: "MetadataStateMachine \<Rightarrow> u64 \<Rightarrow> RegionMetadata option" where
  "MetaLookupRegion s regionId =
     (case mv_catalog (ms_published s) of
        None \<Rightarrow> None
      | Some catalog \<Rightarrow>
          if regionId > 2147483647 then None
          else (case FindById catalog (uint regionId) of Inl _ \<Rightarrow> None | Inr region \<Rightarrow> Some region))"

definition LookupMigration :: "MetadataStateMachine \<Rightarrow> u64 \<Rightarrow> ReplicaMigrationStatus option" where
  "LookupMigration s regionId = map_of (mv_migrations (ms_published s)) regionId"

definition LookupSchedulingOperator :: "MetadataStateMachine \<Rightarrow> string \<Rightarrow> SchedulingOperator option" where
  "LookupSchedulingOperator s operatorId = map_of (mv_schedulingOperators (ms_published s)) operatorId"

definition MetaScan :: "MetadataStateMachine \<Rightarrow> string \<Rightarrow> nat \<Rightarrow> RegionMetadata list" where
  "MetaScan s startKey limit =
     (case mv_catalog (ms_published s) of
        None \<Rightarrow> []
      | Some catalog \<Rightarrow>
          take limit (dropWhile (\<lambda>region. \<not> (Contains region startKey \<or> \<not> RegionBytewiseLess (r_startKey region) startKey)) catalog))"

section \<open>Snapshots\<close>

definition kSnapshotFormatVersion :: u32 where
  "kSnapshotFormatVersion = 1"

text \<open>
  \<open>serialize\<close> and \<open>parse\<close> are the generated message functions. The containers are kept sorted, so the entries
  come out in the order the code sorts them into. \<open>None\<close> is the exception for a message that does not serialize.
\<close>

definition SnapshotMessage :: "MetadataStateMachine \<Rightarrow> MetadataSnapshot" where
  "SnapshotMessage s = \<lparr> sn_formatVersion = kSnapshotFormatVersion, sn_revision = ms_revision s,
     sn_regions = map ToProtoRegion (ms_regions s), sn_stores = map snd (ms_stores s),
     sn_regionIdHighWater = ms_regionIdHighWater s, sn_peerIdHighWater = ms_peerIdHighWater s,
     sn_storeIdHighWater = ms_storeIdHighWater s, sn_bootstrapDigest = ms_bootstrapDigest s,
     sn_recentMutations = List.map_filter (map_of (ms_dedup s)) (ms_dedupOrder s),
     sn_migrations = map snd (ms_migrations s), sn_storeHeartbeats = map snd (ms_storeHeartbeats s),
     sn_balancerConfig = Some (ms_balancerConfig s), sn_schedulingOperators = map snd (ms_schedulingOperators s) \<rparr>"

definition MetadataSnapshotBytes ::
  "(MetadataSnapshot \<Rightarrow> string option) \<Rightarrow> MetadataStateMachine \<Rightarrow> string option \<times> MetadataStateMachine" where
  "MetadataSnapshotBytes serialize s =
     (case serialize (SnapshotMessage s) of
        None \<Rightarrow> (None, s)
      | Some bytes \<Rightarrow>
          (Some bytes, s \<lparr> ms_metrics := (ms_metrics s) \<lparr> mt_snapshotCount := mt_snapshotCount (ms_metrics s) + 1 \<rparr> \<rparr>))"

text \<open>A repeated field read into a map, refusing invalid and repeated entries.\<close>

fun collect :: "('a \<Rightarrow> bool) \<Rightarrow> ('a \<Rightarrow> 'k::linorder) \<Rightarrow> ('k, 'a) omap \<Rightarrow> 'a list \<Rightarrow> ('k, 'a) omap option" where
  "collect valid key m [] = Some m"
| "collect valid key m (x # xs) =
     (if \<not> valid x \<or> map_of m (key x) \<noteq> None then None else collect valid key (om_put (key x) x m) xs)"

fun collect_active :: "(u64, string) omap \<Rightarrow> SchedulingOperator list \<Rightarrow> (u64, string) omap option" where
  "collect_active m [] = Some m"
| "collect_active m (op # ops) =
     (if IsTerminal (so_phase op) then collect_active m ops
      else if map_of m (so_regionId op) \<noteq> None then None
      else collect_active (om_put (so_regionId op) (so_operatorId op) m) ops)"

definition snapshot_config_ok :: "AutoBalancerConfig \<Rightarrow> bool" where
  "snapshot_config_ok config \<longleftrightarrow> \<not> (ac_version config = 0 \<or> ac_evaluationIntervalMs config = 0 \<or>
     ac_heartbeatTimeoutMs config < ac_evaluationIntervalMs config \<or> ac_replicationFactor config = 0 \<or>
     ac_maximumActiveOperators config = 0 \<or> ac_maximumActivePerStore config = 0 \<or>
     ac_maximumActivePerStore config > ac_maximumActiveOperators config)"

text \<open>The state a snapshot decodes to, \<open>None\<close> when a check throws; \<open>s\<close> gives the counters and the old view.\<close>

definition RestoreState :: "MetadataSnapshot \<Rightarrow> MetadataStateMachine \<Rightarrow> MetadataStateMachine option" where
  "RestoreState snapshot s =
     (case DecodeRegions (sn_regions snapshot) of
        None \<Rightarrow> None
      | Some regions \<Rightarrow>
          if (sn_revision snapshot = 0 \<and> regions \<noteq> []) \<or> (sn_revision snapshot > 0 \<and> isl (RegionCatalog regions)) then None
          else case collect_stores [] (sn_stores snapshot) of
                 None \<Rightarrow> None
               | Some stores \<Rightarrow>
                   if (sn_revision snapshot > 0 \<and> sn_bootstrapDigest snapshot = []) \<or> \<not> peers_on_stores stores regions then None
                   else case collect (\<lambda>r. mu_mutationId r \<noteq> []) mu_mutationId [] (sn_recentMutations snapshot) of
                          None \<Rightarrow> None
                        | Some dedup \<Rightarrow>
                   (case collect (\<lambda>m. \<not> (rm_regionId m = 0 \<or> rm_sourcePeerId m = 0 \<or> rm_targetPeer m = None \<or> pd_peerId (target_peer m) = 0))
                           rm_regionId [] (sn_migrations snapshot) of
                      None \<Rightarrow> None
                    | Some migrations \<Rightarrow>
                   (case collect (\<lambda>h. \<not> (hb_storeId h = 0 \<or> hb_sequence h = 0 \<or> hb_expiresAtMs h \<le> hb_observedAtMs h \<or>
                             map_of stores (hb_storeId h) = None)) hb_storeId [] (sn_storeHeartbeats snapshot) of
                      None \<Rightarrow> None
                    | Some heartbeats \<Rightarrow>
                   (let config = (case sn_balancerConfig snapshot of Some c \<Rightarrow> c | None \<Rightarrow> DefaultAutoBalancerConfig) in
                    if \<not> snapshot_config_ok config then None
                    else case collect (\<lambda>o'. \<not> (so_operatorId o' = [] \<or> so_regionId o' = 0 \<or> so_sourceRevision o' > sn_revision snapshot))
                                so_operatorId [] (sn_schedulingOperators snapshot) of
                           None \<Rightarrow> None
                         | Some operators \<Rightarrow>
                   (case collect_active [] (sn_schedulingOperators snapshot) of
                      None \<Rightarrow> None
                    | Some active \<Rightarrow>
                        Some (RecomputeHighWaterLocked (s \<lparr> ms_regions := regions, ms_stores := stores, ms_revision := sn_revision snapshot,
                          ms_regionIdHighWater := sn_regionIdHighWater snapshot, ms_peerIdHighWater := sn_peerIdHighWater snapshot,
                          ms_storeIdHighWater := sn_storeIdHighWater snapshot, ms_bootstrapDigest := sn_bootstrapDigest snapshot,
                          ms_dedup := dedup, ms_dedupOrder := map mu_mutationId (sn_recentMutations snapshot), ms_migrations := migrations,
                          ms_storeHeartbeats := heartbeats, ms_balancerConfig := config, ms_schedulingOperators := operators,
                          ms_activeOperatorByRegion := active \<rparr>)))))))"

definition MetadataRestore :: "(string \<Rightarrow> MetadataSnapshot option) \<Rightarrow> string \<Rightarrow> MetadataStateMachine \<Rightarrow> bool \<times> MetadataStateMachine" where
  "MetadataRestore parse bytes s =
     (case parse bytes of
        None \<Rightarrow> (False, s)
      | Some snapshot \<Rightarrow>
          if sn_formatVersion snapshot \<noteq> kSnapshotFormatVersion then (False, s)
          else case RestoreState snapshot s of
                 None \<Rightarrow> (False, s)
               | Some s' \<Rightarrow> (case PublishLocked s' of None \<Rightarrow> (False, s') | Some s'' \<Rightarrow> (True, s'')))"

end
