(* ===== verification/MetadataHandlers.thy ===== *)
theory MetadataHandlers
  imports MetadataMachine
begin

text \<open>
  What the handlers of the metadata state machine have in common: identifiers only grow, finished operators keep
  their phase, the mutation records are untouched, and the published view changes only with a successful result.
\<close>

section \<open>What every handler keeps\<close>

definition terminal_kept :: "MetadataStateMachine \<Rightarrow> MetadataStateMachine \<Rightarrow> bool" where
  "terminal_kept s t \<longleftrightarrow> (\<forall>i op. map_of (ms_schedulingOperators s) i = Some op \<and> IsTerminal (so_phase op) \<longrightarrow>
     (\<exists>op'. map_of (ms_schedulingOperators t) i = Some op' \<and> so_phase op' = so_phase op))"

definition md_frame :: "MetadataStateMachine \<Rightarrow> MetadataStateMachine \<Rightarrow> bool" where
  "md_frame s t \<longleftrightarrow> (ms_regions s \<noteq> [] \<longrightarrow> ms_regions t \<noteq> []) \<and> ms_regionIdHighWater s \<le> ms_regionIdHighWater t \<and>
     ms_peerIdHighWater s \<le> ms_peerIdHighWater t \<and> ms_storeIdHighWater s \<le> ms_storeIdHighWater t \<and> terminal_kept s t \<and>
     ms_dedup t = ms_dedup s \<and> ms_dedupOrder t = ms_dedupOrder s"

text \<open>A handler keeps the frame, and changes the published view only by publishing and reporting success.\<close>

definition handled :: "MetadataStateMachine \<Rightarrow> MetadataCommandResult option \<times> MetadataStateMachine \<Rightarrow> bool" where
  "handled s r \<longleftrightarrow> md_frame s (snd r) \<and>
     ((ms_published (snd r) = ms_published s \<and> (ms_regions (snd r) = [] \<longleftrightarrow> ms_regions s = [])) \<or>
      (\<exists>t result. PublishLocked t = Some (snd r) \<and> fst r = Some result \<and> mr_error result = MetadataOk))"

lemma terminal_kept_refl [simp]: "ms_schedulingOperators t = ms_schedulingOperators s \<Longrightarrow> terminal_kept s t"
  by (simp add: terminal_kept_def)

lemma md_frame_refl [simp]: "md_frame s s"
  by (simp add: md_frame_def)

lemma terminal_kept_trans: "terminal_kept a b \<Longrightarrow> terminal_kept b c \<Longrightarrow> terminal_kept a c"
  unfolding terminal_kept_def by fastforce

lemma md_frame_trans: "md_frame a b \<Longrightarrow> md_frame b c \<Longrightarrow> md_frame a c"
  unfolding md_frame_def by (auto intro: terminal_kept_trans)

lemma md_frame_count [simp]: "md_frame s (count_reject s)"
  by (simp add: md_frame_def count_reject_def)

lemma PublishLocked_Some:
  assumes "PublishLocked t = Some t'"
  obtains c where "t' = t \<lparr> ms_published := current_view c t \<rparr>" and "c = None \<longleftrightarrow> ms_regions t = []"
    and "\<And>catalog. c = Some catalog \<Longrightarrow> RegionCatalog (ms_regions t) = Inr catalog"
  using assms by (auto simp: PublishLocked_def split: if_split_asm sum.split_asm)

lemma handled_rejected [simp]: "handled s (rejected code s)"
  by (simp add: handled_def rejected_def) (simp add: count_reject_def)

lemma handled_refused [simp]: "handled s (refused code s)" "handled s (thrown s)" "handled s (Some r, s)"
  by (simp_all add: handled_def refused_def thrown_def)

lemma handled_publish:
  assumes "md_frame s t" and "ms_published t = ms_published s" and "ms_regions t = [] \<longleftrightarrow> ms_regions s = []"
    and "\<And>x. mr_error (f x) = MetadataOk"
  shows "handled s (publish_and f t)"
proof (cases "PublishLocked t")
  case None
  then show ?thesis using assms by (simp add: handled_def publish_and_def)
next
  case (Some t')
  then obtain c where t': "t' = t \<lparr> ms_published := current_view c t \<rparr>" by (rule PublishLocked_Some)
  have "md_frame s t'" using assms(1) unfolding t' by (simp add: md_frame_def terminal_kept_def)
  then show ?thesis using assms(4) Some by (auto simp: handled_def publish_and_def)
qed

lemma handled_publish':
  assumes "md_frame s t" and "ms_published t = ms_published s" and "RegionCatalog (ms_regions t) = Inr c"
    and "\<And>x. mr_error (f x) = MetadataOk"
  shows "handled s (publish_and f t)"
proof -
  have "PublishLocked t = Some (t \<lparr> ms_published := current_view (Some c) t \<rparr>)"
    using assms(3) by (auto simp: PublishLocked_def RegionCatalog_def)
  moreover have "md_frame s (t \<lparr> ms_published := current_view (Some c) t \<rparr>)"
    using assms(1) by (simp add: md_frame_def terminal_kept_def)
  ultimately show ?thesis using assms(4) by (auto simp: handled_def publish_and_def)
qed

lemma fold_max_ge: "h \<le> fold (\<lambda>x h. max h (f x)) xs (h :: 'a :: linorder)"
  by (induction xs arbitrary: h) (simp_all, meson max.cobounded1 order.trans)

lemma fold_fold_max_ge: "h \<le> fold (\<lambda>y h. fold (\<lambda>x h. max h (f x)) (g y) h) ys (h :: 'a :: linorder)"
proof (induction ys arbitrary: h)
  case (Cons y ys)
  show ?case using order.trans [OF fold_max_ge [of h f "g y"] Cons.IH] by simp
qed simp

lemma frame_recompute: "md_frame s (RecomputeHighWaterLocked s)"
  by (simp add: md_frame_def RecomputeHighWaterLocked_def fold_max_ge fold_fold_max_ge terminal_kept_def
      order.trans [OF fold_fold_max_ge fold_max_ge])

lemma recompute_simps [simp]:
  "ms_published (RecomputeHighWaterLocked s) = ms_published s" "ms_regions (RecomputeHighWaterLocked s) = ms_regions s"
  "ms_revision (RecomputeHighWaterLocked s) = ms_revision s" "ms_stores (RecomputeHighWaterLocked s) = ms_stores s"
  by (simp_all add: RecomputeHighWaterLocked_def)

lemma restamp_simps [simp]:
  "ms_published (restamp s) = ms_published s" "ms_regions (restamp s) = map (set_revision (ms_revision s)) (ms_regions s)"
  "ms_revision (restamp s) = ms_revision s"
  by (simp_all add: restamp_def)

lemma frame_restamp: "md_frame s (restamp s)"
  by (simp add: md_frame_def restamp_def terminal_kept_def)

lemma set_simps_meta [simp]:
  "r_regionId (set_revision m r) = r_regionId r" "r_startKey (set_revision m r) = r_startKey r" "r_endKey (set_revision m r) = r_endKey r"
  "r_peers (set_revision m r) = r_peers r" "r_epoch (set_revision m r) = r_epoch r" "r_metadataRevision (set_revision m r) = m"
  "r_leaderPeerId (set_revision m r) = r_leaderPeerId r" "r_splitPending (set_revision m r) = r_splitPending r"
  "r_regionId (set_endKey b r) = r_regionId r" "r_startKey (set_endKey b r) = r_startKey r" "r_endKey (set_endKey b r) = b"
  "r_peers (set_endKey b r) = r_peers r" "r_epoch (set_endKey b r) = r_epoch r" "r_metadataRevision (set_endKey b r) = r_metadataRevision r"
  "r_leaderPeerId (set_endKey b r) = r_leaderPeerId r" "r_splitPending (set_endKey b r) = r_splitPending r"
  "r_regionId (set_epoch e r) = r_regionId r" "r_startKey (set_epoch e r) = r_startKey r" "r_endKey (set_epoch e r) = r_endKey r"
  "r_peers (set_epoch e r) = r_peers r" "r_epoch (set_epoch e r) = e" "r_metadataRevision (set_epoch e r) = r_metadataRevision r"
  "r_leaderPeerId (set_epoch e r) = r_leaderPeerId r" "r_splitPending (set_epoch e r) = r_splitPending r"
  "r_regionId (set_splitPending p r) = r_regionId r" "r_startKey (set_splitPending p r) = r_startKey r"
  "r_endKey (set_splitPending p r) = r_endKey r" "r_peers (set_splitPending p r) = r_peers r" "r_epoch (set_splitPending p r) = r_epoch r"
  "r_metadataRevision (set_splitPending p r) = r_metadataRevision r" "r_leaderPeerId (set_splitPending p r) = r_leaderPeerId r"
  "r_splitPending (set_splitPending p r) = p"
  by (cases r; simp)+

section \<open>The handlers, one by one\<close>

lemma ok_result_error [simp]: "mr_error (ok_result r) = MetadataOk"
  by (simp add: ok_result_def)

lemma RegionCatalog_revision:
  assumes "RegionCatalog (map (set_revision m) rs) = Inr cat"
  shows "map (set_revision m) cat = cat"
proof -
  have "r_metadataRevision r = m" if "r \<in> set cat" for r
    using RegionCatalog_complete [OF assms] that by auto
  then have "set_revision m r = r" if "r \<in> set cat" for r using that by (cases r) force
  then show ?thesis by (simp add: map_idI)
qed

lemma RegionCatalog_nonempty: "RegionCatalog rs = Inr cat \<Longrightarrow> cat \<noteq> []"
  using RegionCatalog_contiguous by fastforce

lemma handled_Bootstrap: "handled s (BootstrapLocked e d ds sl s)"
proof (cases "ms_revision s \<noteq> 0 \<or> ms_regions s \<noteq> [] \<or> e \<noteq> 0 \<or> d = []")
  case True
  then show ?thesis by (auto simp: BootstrapLocked_def)
next
  case False
  have step: "handled s (publish_and (\<lambda>s'. ok_result (ms_revision s')) (RecomputeHighWaterLocked
      (s \<lparr> ms_revision := 1, ms_bootstrapDigest := d, ms_stores := stores, ms_regions := map (set_revision 1) v \<rparr>)))"
    if "RegionCatalog (map (set_revision 1) decoded) = Inr v" for stores v decoded
  proof (rule handled_publish')
    show "md_frame s (RecomputeHighWaterLocked
        (s \<lparr> ms_revision := 1, ms_bootstrapDigest := d, ms_stores := stores, ms_regions := map (set_revision 1) v \<rparr>))"
      using False by (intro md_frame_trans [OF _ frame_recompute]) (simp add: md_frame_def)
  qed (use RegionCatalog_again [OF that] RegionCatalog_revision [OF that] in simp_all)
  then show ?thesis using False by (auto simp: BootstrapLocked_def split: option.split sum.split)
qed

lemma CoveredInterval_nonempty: "CoveredInterval rs \<noteq> None \<Longrightarrow> rs \<noteq> []"
  by (auto simp: CoveredInterval_def)

lemma frame_regions:
  "ms_regions s \<noteq> [] \<Longrightarrow> rs \<noteq> [] \<Longrightarrow> md_frame s (RecomputeHighWaterLocked (restamp (s \<lparr> ms_revision := v, ms_regions := rs \<rparr>)))"
  by (rule md_frame_trans [OF md_frame_trans [OF _ frame_restamp] frame_recompute]) (simp add: md_frame_def)

lemma take_removed_nonempty: "take_removed ids rs = (removed, retained, left) \<Longrightarrow> removed \<noteq> [] \<Longrightarrow> rs \<noteq> []"
  by (cases rs) auto

lemma handled_ReplaceRegions: "handled s (ReplaceRegionsLocked e ids ds s)"
proof -
  have "handled s (publish_and (\<lambda>s'. ok_result (ms_revision s')) (RecomputeHighWaterLocked (restamp
      (s \<lparr> ms_revision := ms_revision s + 1, ms_regions := v \<rparr>))))"
    if "take_removed ids (ms_regions s) = (removed, retained, left)" "CoveredInterval removed \<noteq> None" "RegionCatalog rs = Inr v"
    for removed retained left rs v
    using take_removed_nonempty [OF that(1)] CoveredInterval_nonempty [OF that(2)] RegionCatalog_nonempty [OF that(3)]
    by (intro handled_publish frame_regions) auto
  then show ?thesis
    unfolding ReplaceRegionsLocked_def Let_def by (auto split: option.split sum.split prod.split)
qed

lemma SafeAdd_Some:
  assumes "SafeAdd v n = Some w"
  shows "uint w = uint v + uint n" and "v < w"
proof -
  have a: "n \<noteq> 0" "v \<le> UINT64_MAX - n" "w = v + n" using assms by (auto simp: SafeAdd_def not_less split: if_split_asm)
  have "uint v \<le> uint (UINT64_MAX - n)" using a(2) by (simp add: word_le_def)
  moreover have "uint UINT64_MAX = 18446744073709551615" by (simp add: unsigned_minus_1_eq_mask mask_eq_exp_minus_1)
  then have "uint (UINT64_MAX - n) = 18446744073709551615 - uint n" using uint_lt2p [of n]
    by (subst uint_sub_lem [THEN iffD1]) (simp_all add: word_le_def [symmetric])
  ultimately have "uint v + uint n < 2 ^ 64" by simp
  then show "uint w = uint v + uint n" unfolding a(3) by (subst uint_add_lem [THEN iffD1]) simp_all
  moreover have "0 < uint n" using a(1) by (simp add: word_neq_0_conv word_less_def)
  ultimately show "v < w" by (simp add: word_less_def)
qed

lemma AllocatePeers_mono: "AllocatePeers ps h = (r, h') \<Longrightarrow> h \<le> h'"
proof (induction ps arbitrary: h r h')
  case (Cons p ps)
  show ?case
  proof (cases "SafeAdd h 1")
    case None
    then show ?thesis using Cons.prems by simp
  next
    case (Some w)
    obtain r1 h1 where a: "AllocatePeers ps w = (r1, h1)" by (cases "AllocatePeers ps w")
    then have "h1 = h'" using Cons.prems Some by (auto split: option.split_asm)
    then show ?thesis using Cons.IH [OF a] SafeAdd_Some(2) [OF Some] by simp
  qed
qed simp

lemma frame_split:
  assumes "ms_regions s \<noteq> []" and "ms_regionIdHighWater s \<le> c" and "ms_peerIdHighWater s \<le> h" and "rs \<noteq> []"
  shows "md_frame s (RecomputeHighWaterLocked (s \<lparr> ms_regionIdHighWater := c, ms_peerIdHighWater := h, ms_revision := v, ms_regions := rs \<rparr>))"
  by (rule md_frame_trans [OF _ frame_recompute]) (use assms in \<open>simp add: md_frame_def\<close>)

lemma handled_thrown: "md_frame s t \<Longrightarrow> ms_published t = ms_published s \<Longrightarrow> ms_regions t = ms_regions s \<Longrightarrow> handled s (thrown t)"
  by (simp add: handled_def thrown_def)

lemma handled_PrepareSplit: "handled s (PrepareSplitLocked e i k ep s)"
proof (cases "ms_revision s = 0 \<or> e \<noteq> ms_revision s")
  case True
  then show ?thesis by (simp add: PrepareSplitLocked_def)
next
  case False
  show ?thesis
  proof (cases "find (\<lambda>region. r_regionId region = to_int32 i) (rev (ms_regions s))")
    case None
    then show ?thesis using False by (simp add: PrepareSplitLocked_def)
  next
    case (Some p)
    then have ne: "ms_regions s \<noteq> []" by auto
    show ?thesis
    proof (cases "SafeAdd (ms_regionIdHighWater s) 1")
      case None
      then show ?thesis using False Some by (simp add: PrepareSplitLocked_def)
    next
      case (Some c)
      obtain ps h where a: "AllocatePeers (r_peers p) (ms_peerIdHighWater s) = (ps, h)" by (cases "AllocatePeers (r_peers p) (ms_peerIdHighWater s)")
      have hw: "ms_regionIdHighWater s \<le> c" "ms_peerIdHighWater s \<le> h"
        using SafeAdd_Some(2) [OF Some] AllocatePeers_mono [OF a] by simp_all
      have "handled s (thrown (s \<lparr> ms_regionIdHighWater := c, ms_peerIdHighWater := h \<rparr>))"
        using hw by (intro handled_thrown) (simp_all add: md_frame_def)
      moreover have "handled s (publish_and (\<lambda>s'. (ok_result (ms_revision s')) \<lparr> mr_regions := x \<rparr>)
          (RecomputeHighWaterLocked (s \<lparr> ms_regionIdHighWater := c, ms_peerIdHighWater := h, ms_revision := v, ms_regions := map f (ms_regions s) \<rparr>)))"
        for x v f using ne hw by (intro handled_publish frame_split) simp_all
      ultimately show ?thesis
        using False Some a \<open>find _ _ = Some p\<close> by (auto simp: PrepareSplitLocked_def Let_def split: option.split)
    qed
  qed
qed

lemma handled_CommitSplit: "handled s (CommitSplitLocked e i s)"
proof -
  have "handled s (publish_and f (RecomputeHighWaterLocked (restamp (s \<lparr> ms_revision := v, ms_regions := c \<rparr>))))"
    if "find P (rev (ms_regions s)) = Some p" "RegionCatalog rs = Inr c" "\<And>x. mr_error (f x) = MetadataOk" for f v c P p rs
  proof (rule handled_publish)
    have "ms_regions s \<noteq> []" using that(1) by auto
    then show "md_frame s (RecomputeHighWaterLocked (restamp (s \<lparr> ms_revision := v, ms_regions := c \<rparr>)))"
      "ms_regions (RecomputeHighWaterLocked (restamp (s \<lparr> ms_revision := v, ms_regions := c \<rparr>))) = [] \<longleftrightarrow> ms_regions s = []"
      using RegionCatalog_nonempty [OF that(2)] by (simp_all add: frame_regions)
  qed (use that(3) in simp_all)
  then show ?thesis by (auto simp: CommitSplitLocked_def Let_def split: option.split sum.split)
qed

lemma handled_AckSplit: "handled s (AckSplitLocked e cs s)"
  by (simp add: AckSplitLocked_def)

lemma handled_PrepareMovePeer: "handled s (PrepareMovePeerLocked m e i f t ep s)"
proof -
  have "handled s (publish_and g (restamp (s \<lparr> ms_peerIdHighWater := p, ms_migrations := ms, ms_revision := v \<rparr>)))"
    if "SafeAdd (ms_peerIdHighWater s) 1 = Some p" "\<And>x. mr_error (g x) = MetadataOk" for g p ms v
    using SafeAdd_Some(2) [OF that(1)] that(2)
    by (intro handled_publish md_frame_trans [OF _ frame_restamp]) (simp_all add: md_frame_def)
  then show ?thesis by (auto simp: PrepareMovePeerLocked_def Let_def split: option.split)
qed

lemma replace_first_Nil [simp]: "replace_first P f xs = [] \<longleftrightarrow> xs = []"
  by (cases xs) auto

lemma handled_CommitMovePeer: "handled s (CommitMovePeerLocked e i p ep s)"
proof -
  have "handled s (publish_and g (restamp (s \<lparr> ms_regions := replace_first P f (ms_regions s), ms_revision := v, ms_migrations := ms \<rparr>)))"
    if "\<And>x. mr_error (g x) = MetadataOk" for g P f v ms
    using that by (intro handled_publish md_frame_trans [OF _ frame_restamp]) (simp_all add: md_frame_def)
  then show ?thesis by (auto simp: CommitMovePeerLocked_def Let_def split: option.split)
qed

lemma handled_CancelMovePeer: "handled s (CancelMovePeerLocked e i p s)"
proof -
  have "handled s (publish_and g (restamp (s \<lparr> ms_migrations := ms, ms_revision := v \<rparr>)))"
    if "\<And>x. mr_error (g x) = MetadataOk" for g v ms
    using that by (intro handled_publish md_frame_trans [OF _ frame_restamp]) (simp_all add: md_frame_def)
  then show ?thesis by (auto simp: CancelMovePeerLocked_def split: option.split)
qed

lemma handled_ReportStoreHeartbeat: "handled s (ReportStoreHeartbeatLocked e hb s)"
proof -
  have "handled s (Some r, s \<lparr> ms_metrics := m \<rparr>)" for r m
    by (simp add: handled_def md_frame_def)
  moreover have "handled s (publish_and g (s \<lparr> ms_storeHeartbeats := hs, ms_metrics := m \<rparr>))"
    if "\<And>x. mr_error (g x) = MetadataOk" for g hs m
    using that by (intro handled_publish) (simp_all add: md_frame_def)
  ultimately show ?thesis
    unfolding ReportStoreHeartbeatLocked_def Let_def by (auto split: option.split)
qed

lemma handled_UpdateAutoBalancerConfig: "handled s (UpdateAutoBalancerConfigLocked e c s)"
proof -
  have "handled s (publish_and g (s \<lparr> ms_balancerConfig := c' \<rparr>))" if "\<And>x. mr_error (g x) = MetadataOk" for g c'
    using that by (intro handled_publish) (simp_all add: md_frame_def)
  then show ?thesis unfolding UpdateAutoBalancerConfigLocked_def Let_def by simp
qed

lemma handled_operator:
  assumes "\<And>op. map_of (ms_schedulingOperators s) i = Some op \<Longrightarrow> IsTerminal (so_phase op) \<Longrightarrow> so_phase op' = so_phase op"
    and "\<And>x. mr_error (g x) = MetadataOk"
  shows "handled s (publish_and g (s \<lparr> ms_schedulingOperators := om_put i op' (ms_schedulingOperators s), ms_activeOperatorByRegion := a \<rparr>))"
    and "handled s (publish_and g (s \<lparr> ms_schedulingOperators := om_put i op' (ms_schedulingOperators s), ms_activeOperatorByRegion := a, ms_metrics := m \<rparr>))"
  using assms by (intro handled_publish; auto simp: md_frame_def terminal_kept_def)+

lemma handled_CreateSchedulingOperator: "handled s (CreateSchedulingOperatorLocked e r s)"
proof -
  have "handled s (publish_and g (s \<lparr> ms_schedulingOperators := om_put (so_operatorId r) r (ms_schedulingOperators s),
      ms_activeOperatorByRegion := a, ms_metrics := m \<rparr>))"
    if "map_of (ms_schedulingOperators s) (so_operatorId r) = None" "\<And>x. mr_error (g x) = MetadataOk" for g a m
    using that by (intro handled_operator(2)) auto
  then show ?thesis unfolding CreateSchedulingOperatorLocked_def by (simp split: option.split)
qed

lemma ValidTransition_terminal: "ValidTransition from to \<Longrightarrow> IsTerminal from \<Longrightarrow> to = from"
  by (auto simp: ValidTransition_def IsTerminal_def split: if_split_asm)

lemma handled_UpdateSchedulingOperator: "handled s (UpdateSchedulingOperatorLocked e u s)"
proof -
  have "handled s (publish_and g (s \<lparr> ms_schedulingOperators := om_put (ou_operatorId u) op' (ms_schedulingOperators s), ms_activeOperatorByRegion := a \<rparr>))"
    if "map_of (ms_schedulingOperators s) (ou_operatorId u) = Some op" "ValidTransition (so_phase op) (so_phase op')"
      "\<And>x. mr_error (g x) = MetadataOk" for g op op' a
    using that by (intro handled_operator(1)) (auto dest: ValidTransition_terminal)
  then show ?thesis unfolding UpdateSchedulingOperatorLocked_def Let_def by (simp split: option.split)
qed

lemma handled_CancelSchedulingOperator: "handled s (CancelSchedulingOperatorLocked e i m s)"
proof -
  have "handled s (publish_and g (s \<lparr> ms_schedulingOperators := om_put i op' (ms_schedulingOperators s), ms_activeOperatorByRegion := a \<rparr>))"
    if "map_of (ms_schedulingOperators s) i = Some op" "\<not> IsTerminal (so_phase op)" "\<And>x. mr_error (g x) = MetadataOk" for g op op' a
    using that by (intro handled_operator(1)) auto
  then show ?thesis unfolding CancelSchedulingOperatorLocked_def Let_def by (simp split: option.split)
qed

lemma handled_AllocateIds: "handled s (AllocateIdsLocked e ns n s)"
proof -
  have "handled s (publish_and g ((set_high_water ns h' s) \<lparr> ms_revision := v \<rparr>))"
    if "high_water ns s = Some h" "SafeAdd h n = Some h'" "\<And>x. mr_error (g x) = MetadataOk" for g h h' v
    using that(1,3) SafeAdd_Some(2) [OF that(2)]
    by (intro handled_publish) (auto simp: md_frame_def set_high_water_def high_water_def split: IdNamespace.split_asm)
  then show ?thesis unfolding AllocateIdsLocked_def by (simp split: option.split)
qed

lemma handled_PutStore: "handled s (PutStoreLocked e st s)"
proof -
  have "handled s (publish_and g (s \<lparr> ms_stores := ss, ms_storeIdHighWater := max (ms_storeIdHighWater s) h, ms_revision := v \<rparr>))"
    if "\<And>x. mr_error (g x) = MetadataOk" for g ss h v
    using that by (intro handled_publish) (simp_all add: md_frame_def)
  then show ?thesis unfolding PutStoreLocked_def by simp
qed

lemmas handlers = handled_Bootstrap handled_ReplaceRegions handled_PrepareSplit handled_CommitSplit handled_AckSplit
  handled_PrepareMovePeer handled_CommitMovePeer handled_CancelMovePeer handled_ReportStoreHeartbeat
  handled_UpdateAutoBalancerConfig handled_CreateSchedulingOperator handled_UpdateSchedulingOperator
  handled_CancelSchedulingOperator handled_AllocateIds handled_PutStore

lemma handled_run: "handled s (run_handler c s)"
  unfolding run_handler_def Let_def by (cases "mc_command c") (simp_all add: handlers)

section \<open>Commands\<close>

definition only_counters :: "MetadataStateMachine \<Rightarrow> MetadataStateMachine \<Rightarrow> bool" where
  "only_counters s t \<longleftrightarrow> (\<exists>m. t = s \<lparr> ms_metrics := m \<rparr>)"

lemma MetadataApply_cases:
  assumes "MetadataApply c s = (r, s')"
  obtains (refused) "mc_mutationId c = []" "mr_error r = MetadataInvalidArgument" "only_counters s s'"
  | (duplicate) rec where "mc_mutationId c \<noteq> []" "map_of (ms_dedup s) (mc_mutationId c) = Some rec" "r = mu_result rec" "only_counters s s'"
  | (fresh) t where "mc_mutationId c \<noteq> []" "map_of (ms_dedup s) (mc_mutationId c) = None"
      "ApplyLocked c s = (r, t)" "s' = RecordResultLocked (mc_mutationId c) r t"
proof (cases "mc_mutationId c = []")
  case True
  then have "r = Error MetadataInvalidArgument s" "s' = count_reject s" using assms by (simp_all add: MetadataApply_def)
  then show thesis using True by (intro refused) (auto simp: Error_def only_counters_def count_reject_def)
next
  case False
  show thesis
  proof (cases "map_of (ms_dedup s) (mc_mutationId c)")
    case (Some rec)
    then have "r = mu_result rec" "only_counters s s'" using assms False by (auto simp: MetadataApply_def only_counters_def)
    then show thesis by (rule duplicate [OF False Some])
  next
    case None
    obtain r' t where t: "ApplyLocked c s = (r', t)" by (cases "ApplyLocked c s")
    then have "r = r'" "s' = RecordResultLocked (mc_mutationId c) r t" using assms False None by (auto simp: MetadataApply_def)
    then show thesis using t by (intro fresh [OF False None]) simp_all
  qed
qed

lemma ApplyLocked_handled:
  assumes "ApplyLocked c s = (r, t)"
  shows "md_frame s t" and "(ms_published t = ms_published s \<and> (ms_regions t = [] \<longleftrightarrow> ms_regions s = [])) \<or>
    (\<exists>u. PublishLocked u = Some t \<and> mr_error r = MetadataOk)"
proof -
  obtain res u where u: "run_handler c s = (res, u)" by (cases "run_handler c s")
  have h: "handled s (res, u)" using handled_run [of s c] u by simp
  have t: "t = u \<and> res = Some r \<or> t = count_reject u \<and> res = None \<and> mr_error r = MetadataInvalidArgument"
    using assms u by (auto simp: ApplyLocked_def Error_def split: option.split_asm)
  then show "md_frame s t" using h by (auto simp: handled_def intro: md_frame_trans)
  show "(ms_published t = ms_published s \<and> (ms_regions t = [] \<longleftrightarrow> ms_regions s = [])) \<or>
      (\<exists>u. PublishLocked u = Some t \<and> mr_error r = MetadataOk)"
    using h t by (auto simp: handled_def count_reject_def)
qed

lemma RecordResult_simps [simp]:
  "ms_published (RecordResultLocked i r s) = ms_published s" "ms_regions (RecordResultLocked i r s) = ms_regions s"
  "ms_regionIdHighWater (RecordResultLocked i r s) = ms_regionIdHighWater s"
  "ms_peerIdHighWater (RecordResultLocked i r s) = ms_peerIdHighWater s"
  "ms_storeIdHighWater (RecordResultLocked i r s) = ms_storeIdHighWater s"
  "ms_schedulingOperators (RecordResultLocked i r s) = ms_schedulingOperators s"
  by (simp_all add: RecordResultLocked_def Let_def split: prod.split)

section \<open>Mutation records\<close>

definition dedup_ok :: "MetadataStateMachine \<Rightarrow> bool" where
  "dedup_ok s \<longleftrightarrow> distinct (ms_dedupOrder s) \<and> set (ms_dedupOrder s) = dom (map_of (ms_dedup s))"

text \<open>Trimming drops from the front and keeps what is within the retention bound.\<close>

lemma TrimDedup_step: "kDedupRetention < length order \<Longrightarrow> TrimDedup dedup order = TrimDedup (om_del (hd order) dedup) (tl order)"
  by (subst TrimDedup.simps) simp

lemma TrimDedup_stop: "\<not> kDedupRetention < length order \<Longrightarrow> TrimDedup dedup order = (dedup, order)"
  by (subst TrimDedup.simps) simp

lemma TrimDedup_ok:
  "distinct order \<Longrightarrow> set order = dom (map_of dedup) \<Longrightarrow> TrimDedup dedup order = (dedup', order') \<Longrightarrow>
   distinct order' \<and> set order' = dom (map_of dedup')"
proof (induction order arbitrary: dedup)
  case (Cons x xs)
  show ?case
  proof (cases "kDedupRetention < length (x # xs)")
    case True
    have "dom (map_of (om_del x dedup)) = dom (map_of dedup) - {x}" by (simp add: dom_fun_upd)
    then have d: "set xs = dom (map_of (om_del x dedup))" using Cons.prems(1,2) by auto
    have "TrimDedup (om_del x dedup) xs = (dedup', order')" using Cons.prems(3) TrimDedup_step [OF True, of dedup] by simp
    from Cons.IH [OF _ d this] Cons.prems(1) show ?thesis by simp
  next
    case False
    from Cons.prems(3) have "dedup' = dedup" "order' = x # xs" unfolding TrimDedup_stop [OF False] by auto
    then show ?thesis using Cons.prems(1,2) by simp
  qed
qed (simp add: TrimDedup_stop)

lemma TrimDedup_keeps:
  "distinct (pre @ i # post) \<Longrightarrow> length post < kDedupRetention \<Longrightarrow> TrimDedup dedup (pre @ i # post) = (dedup', order') \<Longrightarrow>
   (\<exists>pre'. order' = pre' @ i # post) \<and> map_of dedup' i = map_of dedup i"
proof (induction pre arbitrary: dedup)
  case Nil
  then show ?case by (auto simp: TrimDedup_stop)
next
  case (Cons x pre)
  show ?case
  proof (cases "kDedupRetention < length ((x # pre) @ i # post)")
    case True
    have "TrimDedup (om_del x dedup) (pre @ i # post) = (dedup', order')" using Cons.prems(3) TrimDedup_step [OF True, of dedup] by simp
    from Cons.IH [OF _ Cons.prems(2) this] Cons.prems(1) show ?thesis by auto
  next
    case False
    from Cons.prems(3) have "dedup' = dedup" "order' = (x # pre) @ i # post" unfolding TrimDedup_stop [OF False] by auto
    then show ?thesis by blast
  qed
qed

lemma RecordResult_ok:
  assumes "dedup_ok s" and "map_of (ms_dedup s) i = None"
  shows "dedup_ok (RecordResultLocked i r s)"
proof -
  define x where "x = \<lparr> mu_mutationId = i, mu_result = r, mu_appliedRevision = ms_revision s \<rparr>"
  obtain d order where t: "TrimDedup (om_put i x (ms_dedup s)) (ms_dedupOrder s @ [i]) = (d, order)"
    by (cases "TrimDedup (om_put i x (ms_dedup s)) (ms_dedupOrder s @ [i])")
  have "i \<notin> set (ms_dedupOrder s)" using assms by (simp add: dedup_ok_def dom_def)
  then have "distinct (ms_dedupOrder s @ [i])" using assms(1) by (simp add: dedup_ok_def)
  moreover have "set (ms_dedupOrder s @ [i]) = dom (map_of (om_put i x (ms_dedup s)))"
    using assms(1) by (simp add: dedup_ok_def)
  ultimately have "distinct order \<and> set order = dom (map_of d)" using t by (rule TrimDedup_ok)
  moreover have "ms_dedup (RecordResultLocked i r s) = d" "ms_dedupOrder (RecordResultLocked i r s) = order"
    by (simp_all add: RecordResultLocked_def x_def [symmetric] t)
  ultimately show ?thesis by (simp add: dedup_ok_def)
qed

text \<open>The record of a mutation with at most \<open>k\<close> younger ones.\<close>

definition remembers :: "nat \<Rightarrow> string \<Rightarrow> MetadataCommandResult \<Rightarrow> MetadataStateMachine \<Rightarrow> bool" where
  "remembers k i r s \<longleftrightarrow> dedup_ok s \<and>
     (\<exists>pre post rec. ms_dedupOrder s = pre @ i # post \<and> length post \<le> k \<and> map_of (ms_dedup s) i = Some rec \<and> mu_result rec = r)"

lemma remembers_cong: "ms_dedup t = ms_dedup s \<Longrightarrow> ms_dedupOrder t = ms_dedupOrder s \<Longrightarrow> remembers k i r t = remembers k i r s"
  by (simp only: remembers_def dedup_ok_def)

lemma remembers_counters: "only_counters s t \<Longrightarrow> remembers k i r t = remembers k i r s"
  unfolding only_counters_def by (elim exE) (rule remembers_cong, simp_all)

lemma remembers_mono: "remembers k i r s \<Longrightarrow> k \<le> k' \<Longrightarrow> remembers k' i r s"
  unfolding remembers_def by (elim conjE exE, intro conjI exI) (assumption | erule order.trans)+

lemma remembers_frame: "md_frame s t \<Longrightarrow> remembers k i r t = remembers k i r s"
  unfolding md_frame_def by (rule remembers_cong) simp_all

lemma remembers_record:
  assumes "remembers k i r s" and "Suc k < kDedupRetention" and "map_of (ms_dedup s) j = None"
  shows "remembers (Suc k) i r (RecordResultLocked j r' s)"
proof -
  obtain pre post rec where p: "ms_dedupOrder s = pre @ i # post" "length post \<le> k" "map_of (ms_dedup s) i = Some rec" "mu_result rec = r"
    and ok: "dedup_ok s" using assms(1) by (auto simp: remembers_def)
  define x where "x = \<lparr> mu_mutationId = j, mu_result = r', mu_appliedRevision = ms_revision s \<rparr>"
  obtain d order where t: "TrimDedup (om_put j x (ms_dedup s)) (ms_dedupOrder s @ [j]) = (d, order)"
    by (cases "TrimDedup (om_put j x (ms_dedup s)) (ms_dedupOrder s @ [j])")
  have "distinct (ms_dedupOrder s @ [j])" using ok assms(3) by (auto simp: dedup_ok_def dom_def)
  then have k: "(\<exists>pre'. order = pre' @ i # (post @ [j])) \<and> map_of d i = map_of (om_put j x (ms_dedup s)) i"
    using t p(1,2) assms(2) by (intro TrimDedup_keeps [of pre i "post @ [j]"]) simp_all
  then obtain pre' where o: "order = pre' @ i # (post @ [j])" by blast
  have "i \<noteq> j" using p(3) assms(3) by auto
  then have "map_of d i = Some rec" using k p(3) by simp
  moreover have e: "ms_dedup (RecordResultLocked j r' s) = d" "ms_dedupOrder (RecordResultLocked j r' s) = order"
    by (simp_all add: RecordResultLocked_def x_def [symmetric] t)
  moreover have "length (post @ [j]) \<le> Suc k" using p(2) by simp
  ultimately show ?thesis using RecordResult_ok [OF ok assms(3), of r'] o p(4)
    unfolding remembers_def e by blast
qed

lemma remembers_apply:
  assumes "remembers k i r s" and "Suc k < kDedupRetention"
  shows "remembers (Suc k) i r (snd (MetadataApply c s))"
proof (cases "MetadataApply c s")
  case (Pair r' s')
  then show ?thesis
  proof (cases rule: MetadataApply_cases)
    case refused
    then show ?thesis using remembers_mono [OF assms(1), of "Suc k"] Pair by (simp add: remembers_counters)
  next
    case (duplicate rec)
    then show ?thesis using remembers_mono [OF assms(1), of "Suc k"] Pair by (simp add: remembers_counters)
  next
    case (fresh t)
    have "md_frame s t" using ApplyLocked_handled(1) [OF fresh(3)] .
    then have "remembers k i r t" using remembers_frame assms(1) by blast
    moreover have "map_of (ms_dedup t) (mc_mutationId c) = None" using \<open>md_frame s t\<close> fresh(2) by (simp add: md_frame_def)
    ultimately show ?thesis using remembers_record assms(2) Pair fresh(4) by simp
  qed
qed

definition run_commands :: "MetadataCommand list \<Rightarrow> MetadataStateMachine \<Rightarrow> MetadataStateMachine" where
  "run_commands cs s = fold (\<lambda>c s. snd (MetadataApply c s)) cs s"

lemma remembers_run: "remembers k i r s \<Longrightarrow> k + length cs < kDedupRetention \<Longrightarrow> remembers (k + length cs) i r (run_commands cs s)"
proof (induction cs arbitrary: k s)
  case (Cons c cs)
  have "remembers (Suc k) i r (snd (MetadataApply c s))" using Cons.prems by (intro remembers_apply) auto
  from Cons.IH [OF this] Cons.prems show ?case by (simp add: run_commands_def)
qed (simp add: run_commands_def)

end
