(* ===== verification/MetadataProperties.thy ===== *)
theory MetadataProperties
  imports MetadataHandlers
begin

text \<open>
  Reachable states of the metadata service, its invariant, and its properties: total routing, invisible failures,
  idempotent retries, disjoint identifiers, finished operators, and two-phase splits.
\<close>

section \<open>Reachable states\<close>

inductive md_reach :: "MetadataStateMachine \<Rightarrow> bool" where
  md_new: "md_reach NewMetadataStateMachine"
| md_apply: "md_reach s \<Longrightarrow> md_reach (snd (MetadataApply c s))"
| md_snapshot: "md_reach s \<Longrightarrow> md_reach (snd (MetadataSnapshotBytes serialize s))"
| md_restore: "md_reach s \<Longrightarrow> md_reach (snd (MetadataRestore parse bytes s))"

text \<open>The published catalog is valid, there is one as soon as there are regions, and the mutation records are consistent.\<close>

definition md_inv :: "MetadataStateMachine \<Rightarrow> bool" where
  "md_inv s \<longleftrightarrow> (\<forall>catalog. mv_catalog (ms_published s) = Some catalog \<longrightarrow> catalog_ok catalog) \<and>
     (mv_catalog (ms_published s) = None \<longleftrightarrow> ms_regions s = []) \<and> dedup_ok s"

lemma published_ok:
  assumes "PublishLocked u = Some t"
  shows "\<forall>catalog. mv_catalog (ms_published t) = Some catalog \<longrightarrow> catalog_ok catalog"
    and "mv_catalog (ms_published t) = None \<longleftrightarrow> ms_regions t = []"
  using assms
  by (auto simp: PublishLocked_def current_view_def catalog_ok_def RegionCatalog_again split: if_split_asm sum.split_asm)

lemma md_inv_cong:
  "ms_published t = ms_published s \<Longrightarrow> (ms_regions t = [] \<longleftrightarrow> ms_regions s = []) \<Longrightarrow> ms_dedup t = ms_dedup s \<Longrightarrow>
   ms_dedupOrder t = ms_dedupOrder s \<Longrightarrow> md_inv t = md_inv s"
  by (simp only: md_inv_def dedup_ok_def)

lemma md_inv_counters: "only_counters s t \<Longrightarrow> md_inv t = md_inv s"
  unfolding only_counters_def by (elim exE) (rule md_inv_cong, simp_all)

lemma md_inv_record:
  assumes "md_inv s" and "map_of (ms_dedup s) i = None"
  shows "md_inv (RecordResultLocked i r s)"
  using assms RecordResult_ok [of s i r] by (simp add: md_inv_def)

lemma md_inv_locked:
  assumes "md_inv s" and "ApplyLocked c s = (r, t)"
  shows "md_inv t"
proof -
  note h = ApplyLocked_handled [OF assms(2)]
  have d: "ms_dedup t = ms_dedup s" "ms_dedupOrder t = ms_dedupOrder s" using h(1) by (simp_all add: md_frame_def)
  from h(2) show ?thesis
  proof
    assume "ms_published t = ms_published s \<and> (ms_regions t = [] \<longleftrightarrow> ms_regions s = [])"
    then show ?thesis using assms(1) md_inv_cong [of t s] d by blast
  next
    assume "\<exists>u. PublishLocked u = Some t \<and> mr_error r = MetadataOk"
    then obtain u where "PublishLocked u = Some t" by blast
    with published_ok [OF this] show ?thesis using assms(1) d by (simp add: md_inv_def dedup_ok_def)
  qed
qed

lemma md_inv_apply: "md_inv s \<Longrightarrow> md_inv (snd (MetadataApply c s))"
proof (cases "MetadataApply c s")
  case (Pair r s')
  assume inv: "md_inv s"
  from Pair show ?thesis
  proof (cases rule: MetadataApply_cases)
    case refused
    then show ?thesis using inv Pair by (simp add: md_inv_counters)
  next
    case (duplicate rec)
    then show ?thesis using inv Pair by (simp add: md_inv_counters)
  next
    case (fresh t)
    have "map_of (ms_dedup t) (mc_mutationId c) = None"
      using ApplyLocked_handled(1) [OF fresh(3)] fresh(2) by (simp add: md_frame_def)
    then show ?thesis using md_inv_record [OF md_inv_locked [OF inv fresh(3)]] Pair fresh(4) by simp
  qed
qed

lemma collect_keys:
  "collect valid key m xs = Some m' \<Longrightarrow>
   distinct (map key xs) \<and> set (map key xs) \<inter> dom (map_of m) = {} \<and> dom (map_of m') = dom (map_of m) \<union> set (map key xs)"
proof (induction xs arbitrary: m)
  case (Cons x xs)
  then have n: "map_of m (key x) = None" and c: "collect valid key (om_put (key x) x m) xs = Some m'"
    by (auto split: if_split_asm)
  from Cons.IH [OF c] n show ?case by (auto simp: dom_def)
qed simp

lemma RestoreStateE:
  assumes "RestoreState snapshot s = Some t"
  obtains dedup where "ms_published t = ms_published s" "ms_regions t = [] \<or> (\<exists>c. RegionCatalog (ms_regions t) = Inr c)"
    "collect (\<lambda>r. mu_mutationId r \<noteq> []) mu_mutationId [] (sn_recentMutations snapshot) = Some dedup"
    "ms_dedup t = dedup" "ms_dedupOrder t = map mu_mutationId (sn_recentMutations snapshot)"
proof -
  obtain regions where r: "DecodeRegions (sn_regions snapshot) = Some regions"
    using assms by (cases "DecodeRegions (sn_regions snapshot)") (simp_all add: RestoreState_def)
  have g: "\<not> ((sn_revision snapshot = 0 \<and> regions \<noteq> []) \<or> (sn_revision snapshot > 0 \<and> isl (RegionCatalog regions)))"
  proof
    assume "(sn_revision snapshot = 0 \<and> regions \<noteq> []) \<or> (sn_revision snapshot > 0 \<and> isl (RegionCatalog regions))"
    then show False using assms r unfolding RestoreState_def by simp
  qed
  obtain stores where st: "collect_stores [] (sn_stores snapshot) = Some stores"
    using assms r g by (cases "collect_stores [] (sn_stores snapshot)") (simp_all add: RestoreState_def)
  obtain dedup where d: "collect (\<lambda>r. mu_mutationId r \<noteq> []) mu_mutationId [] (sn_recentMutations snapshot) = Some dedup"
    using assms r g st
    by (cases "collect (\<lambda>r. mu_mutationId r \<noteq> []) mu_mutationId [] (sn_recentMutations snapshot)") (simp_all add: RestoreState_def split: if_split_asm)
  have t: "ms_published t = ms_published s" "ms_regions t = regions" "ms_dedup t = dedup"
    "ms_dedupOrder t = map mu_mutationId (sn_recentMutations snapshot)"
    using assms r g st d
    by (auto simp: RestoreState_def Let_def RecomputeHighWaterLocked_def split: if_split_asm option.split_asm)
  have "regions = [] \<or> (\<exists>c. RegionCatalog regions = Inr c)"
    using g by (cases "RegionCatalog regions") (auto simp: word_neq_0_conv)
  then show thesis using that [of dedup] t d by simp
qed

lemma md_inv_restore: "md_inv s \<Longrightarrow> md_inv (snd (MetadataRestore parse bytes s))"
proof (cases "parse bytes")
  case (Some snapshot)
  assume inv: "md_inv s"
  show ?thesis
  proof (cases "sn_formatVersion snapshot \<noteq> kSnapshotFormatVersion \<or> RestoreState snapshot s = None")
    case True
    then show ?thesis using inv Some by (auto simp: MetadataRestore_def)
  next
    case False
    then obtain t where t: "RestoreState snapshot s = Some t" by auto
    then obtain dedup where f: "ms_regions t = [] \<or> (\<exists>c. RegionCatalog (ms_regions t) = Inr c)"
      "collect (\<lambda>r. mu_mutationId r \<noteq> []) mu_mutationId [] (sn_recentMutations snapshot) = Some dedup"
      "ms_dedup t = dedup" "ms_dedupOrder t = map mu_mutationId (sn_recentMutations snapshot)" by (rule RestoreStateE)
    have "PublishLocked t \<noteq> None" using f(1) by (auto simp: PublishLocked_def)
    then obtain u where u: "PublishLocked t = Some u" by blast
    then obtain c where "u = t \<lparr> ms_published := current_view c t \<rparr>" by (rule PublishLocked_Some)
    then have "dedup_ok u" using collect_keys [OF f(2)] f(3,4) by (simp add: dedup_ok_def)
    then have "md_inv u" using published_ok [OF u] by (simp add: md_inv_def)
    then show ?thesis using False Some t u by (simp add: MetadataRestore_def)
  qed
qed (simp add: MetadataRestore_def)

lemma md_reach_inv: "md_reach s \<Longrightarrow> md_inv s"
proof (induction rule: md_reach.induct)
  case md_new
  then show ?case by (simp add: md_inv_def NewMetadataStateMachine_def dedup_ok_def)
next
  case (md_snapshot s serialize)
  then show ?case
    by (cases "serialize (SnapshotMessage s)") (simp_all add: MetadataSnapshotBytes_def md_inv_def dedup_ok_def)
qed (simp_all add: md_inv_apply md_inv_restore)

text \<open>A bootstrapped state machine is a directory of regions.\<close>

definition md_bootstrapped :: "MetadataStateMachine \<Rightarrow> bool" where
  "md_bootstrapped s \<longleftrightarrow> md_inv s \<and> ms_regions s \<noteq> []"

definition md_entries :: "MetadataStateMachine \<Rightarrow> RegionMetadata set" where
  "md_entries s = (case mv_catalog (ms_published s) of None \<Rightarrow> {} | Some catalog \<Rightarrow> set catalog)"

interpretation metadata: region_directory md_bootstrapped md_entries MetaLookupKey
proof
  fix s key
  assume "md_bootstrapped s"
  then obtain catalog where c: "mv_catalog (ms_published s) = Some catalog" "catalog_ok catalog"
    by (auto simp: md_bootstrapped_def md_inv_def)
  then show "\<exists>r \<in> md_entries s. MetaLookupKey s key = Some r \<and> Contains r key"
    using catalog.resolves [OF c(2), of key] by (simp add: md_entries_def MetaLookupKey_def catalog_find_def)
next
  fix s r r' key
  assume "md_bootstrapped s" and r: "r \<in> md_entries s" "r' \<in> md_entries s" "Contains r key" "Contains r' key"
  then obtain catalog where c: "mv_catalog (ms_published s) = Some catalog" "catalog_ok catalog"
    by (auto simp: md_bootstrapped_def md_inv_def)
  then show "r' = r" using catalog.disjoint [OF c(2), of r r' key] r by (simp add: md_entries_def)
qed

lemma md_bootstrapped_apply: "md_bootstrapped s \<Longrightarrow> md_bootstrapped (snd (MetadataApply c s))"
proof (cases "MetadataApply c s")
  case (Pair r s')
  assume b: "md_bootstrapped s"
  from Pair have "ms_regions s' \<noteq> []"
  proof (cases rule: MetadataApply_cases)
    case (fresh t)
    then show ?thesis using ApplyLocked_handled(1) [OF fresh(3)] b by (simp add: md_frame_def md_bootstrapped_def)
  qed (use b in \<open>auto simp: only_counters_def md_bootstrapped_def\<close>)
  then show ?thesis using b md_inv_apply [of s c] Pair by (simp add: md_bootstrapped_def)
qed

lemma record_remembers:
  assumes "dedup_ok s" and "map_of (ms_dedup s) i = None"
  shows "remembers 0 i r (RecordResultLocked i r s)"
proof -
  define x where "x = \<lparr> mu_mutationId = i, mu_result = r, mu_appliedRevision = ms_revision s \<rparr>"
  obtain d order where t: "TrimDedup (om_put i x (ms_dedup s)) (ms_dedupOrder s @ [i]) = (d, order)"
    by (cases "TrimDedup (om_put i x (ms_dedup s)) (ms_dedupOrder s @ [i])")
  have "i \<notin> set (ms_dedupOrder s)" using assms by (simp add: dedup_ok_def dom_def)
  then have "(\<exists>pre'. order = pre' @ i # []) \<and> map_of d i = map_of (om_put i x (ms_dedup s)) i"
    using t assms(1) by (intro TrimDedup_keeps [of "ms_dedupOrder s" i "[]"]) (simp_all add: dedup_ok_def kDedupRetention_def)
  then obtain pre where p: "order = pre @ i # []" "map_of d i = Some x" by auto
  have e: "ms_dedup (RecordResultLocked i r s) = d" "ms_dedupOrder (RecordResultLocked i r s) = order"
    by (simp_all add: RecordResultLocked_def x_def [symmetric] t)
  have "length ([] :: string list) \<le> 0" "mu_result x = r" by (simp_all add: x_def)
  with p RecordResult_ok [OF assms, of r] show ?thesis unfolding remembers_def e by blast
qed

section \<open>A sample cluster\<close>

definition meta_peer :: "int \<Rightarrow> u64 \<Rightarrow> RegionPeerLocation" where
  "meta_peer n i = \<lparr> pl_nodeId = n, pl_host = ''node'', pl_port = 7000 + n, pl_storeId = of_int n + 1, pl_peerId = i, pl_isLearner = False \<rparr>"

definition meta_regions :: "RegionMetadata list" where
  "meta_regions =
     [RegionMetadata 1 [] ''m'' [meta_peer 0 11, meta_peer 1 12] \<lparr> ep_version = 1, ep_confVersion = 1 \<rparr> 1 11 None,
      RegionMetadata 2 ''m'' [] [meta_peer 1 21, meta_peer 2 22] \<lparr> ep_version = 1, ep_confVersion = 1 \<rparr> 1 21 None]"

definition meta_store :: "u64 \<Rightarrow> u32 \<Rightarrow> StoreDescriptor" where
  "meta_store i port = \<lparr> sd_storeId = i, sd_host = ''node'', sd_port = port, sd_labels = [] \<rparr>"

definition meta_boot :: MetadataCommand where
  "meta_boot = \<lparr> mc_mutationId = ''boot'', mc_expectedRevision = 0, mc_command = Bootstrap ''digest'' (map ToProtoRegion meta_regions)
     [meta_store 1 7000, meta_store 2 7001, meta_store 3 7002] \<rparr>"

definition meta_cmd :: "string \<Rightarrow> u64 \<Rightarrow> MetadataMutation \<Rightarrow> MetadataCommand" where
  "meta_cmd i revision command = \<lparr> mc_mutationId = i, mc_expectedRevision = revision, mc_command = command \<rparr>"

definition meta_cluster :: MetadataStateMachine where
  "meta_cluster = snd (MetadataApply meta_boot NewMetadataStateMachine)"

lemma meta_cluster_reach: "md_reach meta_cluster"
  unfolding meta_cluster_def by (intro md_reach.intros)

lemma meta_cluster_regions: "length (ms_regions meta_cluster) = 2"
  by code_simp

lemma meta_cluster_bootstrapped: "md_bootstrapped meta_cluster"
  using md_reach_inv [OF meta_cluster_reach] meta_cluster_regions by (auto simp: md_bootstrapped_def)

section \<open>Properties of the metadata service\<close>

text \<open>
  C9. Routing never has a gap: in every state that commands, snapshots and restores reach, once there are regions, the
  published view resolves every key to the one published region that contains it, and this stays so under every further
  command, whether it succeeds or not.
\<close>

theorem metadata_routes_every_key:
  assumes "md_reach s" and "ms_regions s \<noteq> []"
  shows "\<exists>r \<in> md_entries (snd (MetadataApply c s)). MetaLookupKey (snd (MetadataApply c s)) key = Some r \<and> Contains r key \<and>
    (\<forall>r' \<in> md_entries (snd (MetadataApply c s)). Contains r' key \<longrightarrow> r' = r)"
proof -
  have b: "md_bootstrapped (snd (MetadataApply c s))"
    using md_bootstrapped_apply md_reach_inv [OF assms(1)] assms(2) by (simp add: md_bootstrapped_def)
  from metadata.resolves [OF b, of key] metadata.disjoint [OF b] show ?thesis by blast
qed

theorem metadata_routes_every_key_witness:
  "\<exists>r. MetaLookupKey (snd (MetadataApply (meta_cmd ''x'' 9 CommandNotSet) meta_cluster)) ''zebra'' = Some r \<and> Contains r ''zebra''"
proof -
  have "ms_regions meta_cluster \<noteq> []" using meta_cluster_regions by auto
  from metadata_routes_every_key [OF meta_cluster_reach this, of "meta_cmd ''x'' 9 CommandNotSet" "''zebra''"] show ?thesis by blast
qed

text \<open>
  C33. Readers never see a failed command: a command that does not succeed leaves the published view exactly as it was.
\<close>

theorem failed_command_invisible:
  assumes "MetadataApply c s = (r, s')" and "mr_error r \<noteq> MetadataOk"
  shows "ms_published s' = ms_published s"
  using assms(1)
proof (cases rule: MetadataApply_cases)
  case (fresh t)
  then show ?thesis using ApplyLocked_handled(2) [OF fresh(3)] assms(2) by auto
qed (auto simp: only_counters_def)

theorem failed_command_invisible_witness:
  "ms_published (snd (MetadataApply (meta_cmd ''late'' 7 (CommitSplit 1)) meta_cluster)) = ms_published meta_cluster"
proof -
  have e: "mr_error (fst (MetadataApply (meta_cmd ''late'' 7 (CommitSplit 1)) meta_cluster)) \<noteq> MetadataOk" by code_simp
  show ?thesis by (rule failed_command_invisible [OF _ e]) simp
qed

text \<open>
  C32. A retried mutation takes effect once: after a new mutation, and fewer than 4096 further commands, any command with
  the same mutation identifier returns the recorded result and changes nothing but a counter.
\<close>

theorem retry_is_idempotent:
  assumes "md_reach s" and "mc_mutationId c \<noteq> []" and "map_of (ms_dedup s) (mc_mutationId c) = None"
    and "MetadataApply c s = (r, s1)" and "length cs < 4096" and "mc_mutationId c' = mc_mutationId c"
  shows "\<exists>s2. MetadataApply c' (run_commands cs s1) = (r, s2) \<and> only_counters (run_commands cs s1) s2"
proof -
  from assms(4) obtain t where t: "ApplyLocked c s = (r, t)" "s1 = RecordResultLocked (mc_mutationId c) r t"
    by (cases rule: MetadataApply_cases) (use assms(2,3) in auto)
  have f: "md_frame s t" using ApplyLocked_handled(1) [OF t(1)] .
  have "dedup_ok t" "map_of (ms_dedup t) (mc_mutationId c) = None"
    using md_reach_inv [OF assms(1)] assms(3) f by (simp_all add: md_inv_def dedup_ok_def md_frame_def)
  then have "remembers 0 (mc_mutationId c) r s1" unfolding t(2) by (rule record_remembers)
  from remembers_run [OF this, of cs] assms(5)
  have "remembers (length cs) (mc_mutationId c) r (run_commands cs s1)" by (simp add: kDedupRetention_def)
  then obtain rec where "map_of (ms_dedup (run_commands cs s1)) (mc_mutationId c') = Some rec" "mu_result rec = r"
    unfolding remembers_def assms(6) by blast
  then show ?thesis using assms(2,6) by (auto simp: MetadataApply_def only_counters_def)
qed

theorem retry_is_idempotent_witness:
  "\<exists>r s2. MetadataApply (meta_cmd ''a'' 1 (AllocateIds IdPeer 5)) meta_cluster = (r, s2) \<and> mr_error r = MetadataOk \<and>
     (\<exists>s4. MetadataApply (meta_cmd ''a'' 9 (CommitSplit 1)) (run_commands [meta_cmd ''b'' 2 (AllocateIds IdPeer 1)] s2) = (r, s4))"
proof -
  define r where "r = fst (MetadataApply (meta_cmd ''a'' 1 (AllocateIds IdPeer 5)) meta_cluster)"
  define s2 where "s2 = snd (MetadataApply (meta_cmd ''a'' 1 (AllocateIds IdPeer 5)) meta_cluster)"
  have e: "MetadataApply (meta_cmd ''a'' 1 (AllocateIds IdPeer 5)) meta_cluster = (r, s2)" by (simp add: r_def s2_def)
  have ok: "mr_error r = MetadataOk" unfolding r_def by code_simp
  have n: "map_of (ms_dedup meta_cluster) (mc_mutationId (meta_cmd ''a'' 1 (AllocateIds IdPeer 5))) = None" by code_simp
  have "\<exists>s4. MetadataApply (meta_cmd ''a'' 9 (CommitSplit 1)) (run_commands [meta_cmd ''b'' 2 (AllocateIds IdPeer 1)] s2) = (r, s4) \<and>
    only_counters (run_commands [meta_cmd ''b'' 2 (AllocateIds IdPeer 1)] s2) s4"
    by (rule retry_is_idempotent [OF meta_cluster_reach _ n e]) (simp_all add: meta_cmd_def)
  with e ok show ?thesis by blast
qed

section \<open>Identifiers and operators over a run\<close>

text \<open>What a command keeps of the part of the frame that does not concern the mutation records.\<close>

definition md_grows :: "MetadataStateMachine \<Rightarrow> MetadataStateMachine \<Rightarrow> bool" where
  "md_grows s t \<longleftrightarrow> ms_regionIdHighWater s \<le> ms_regionIdHighWater t \<and> ms_peerIdHighWater s \<le> ms_peerIdHighWater t \<and>
     ms_storeIdHighWater s \<le> ms_storeIdHighWater t \<and> terminal_kept s t"

lemma md_grows_trans: "md_grows a b \<Longrightarrow> md_grows b c \<Longrightarrow> md_grows a c"
  unfolding md_grows_def by (auto intro: terminal_kept_trans)

lemma md_grows_apply: "md_grows s (snd (MetadataApply c s))"
proof (cases "MetadataApply c s")
  case (Pair r s')
  have "md_grows s s'" using Pair
  proof (cases rule: MetadataApply_cases)
    case (fresh t)
    then show ?thesis using ApplyLocked_handled(1) [OF fresh(3)] by (simp add: md_frame_def md_grows_def terminal_kept_def)
  qed (auto simp: only_counters_def md_grows_def)
  then show ?thesis using Pair by simp
qed

lemma md_grows_run: "md_grows s (run_commands cs s)"
proof (induction cs arbitrary: s)
  case Nil
  then show ?case by (simp add: run_commands_def md_grows_def)
next
  case (Cons c cs)
  show ?case using md_grows_trans [OF md_grows_apply [of s c] Cons.IH] by (simp add: run_commands_def)
qed

lemma high_water_grows: "md_grows s t \<Longrightarrow> high_water ns s = Some h \<Longrightarrow> \<exists>h'. high_water ns t = Some h' \<and> h \<le> h'"
  by (cases ns) (auto simp: md_grows_def high_water_def)

lemma AllocateIds_result:
  assumes "MetadataApply c s = (r, s')" and "mc_command c = AllocateIds ns n" and "mr_error r = MetadataOk"
    and "map_of (ms_dedup s) (mc_mutationId c) = None"
  obtains h h' where "high_water ns s = Some h" "SafeAdd h n = Some h'" "mr_firstAllocatedId r = h + 1" "mr_allocatedCount r = n"
    "high_water ns s' = Some h'"
  using assms(1)
proof (cases rule: MetadataApply_cases)
  case (fresh t)
  obtain res u where u: "AllocateIdsLocked (mc_expectedRevision c) ns n s = (res, u)"
    by (cases "AllocateIdsLocked (mc_expectedRevision c) ns n s")
  then have a: "res = Some r" "t = u"
    using fresh(3) assms(2,3) by (auto simp: ApplyLocked_def run_handler_def Error_def split: option.split_asm)
  have g: "ms_revision s \<noteq> 0" "mc_expectedRevision c = ms_revision s"
    using u a(1) assms(3) by (auto simp: AllocateIdsLocked_def refused_def rejected_def Error_def split: if_split_asm)
  obtain h where h: "high_water ns s = Some h"
    using u a(1) g by (cases "high_water ns s") (auto simp: AllocateIdsLocked_def thrown_def)
  obtain h' where h': "SafeAdd h n = Some h'"
    using u a(1) g h by (cases "SafeAdd h n") (auto simp: AllocateIdsLocked_def thrown_def)
  have "publish_and (\<lambda>s'. (ok_result (ms_revision s')) \<lparr> mr_firstAllocatedId := h + 1, mr_allocatedCount := n \<rparr>)
      ((set_high_water ns h' s) \<lparr> ms_revision := ms_revision s + 1 \<rparr>) = (Some r, t)"
    using u a g h h' by (simp add: AllocateIdsLocked_def)
  then obtain p where p: "PublishLocked ((set_high_water ns h' s) \<lparr> ms_revision := ms_revision s + 1 \<rparr>) = Some t"
    and r: "r = (ok_result p) \<lparr> mr_firstAllocatedId := h + 1, mr_allocatedCount := n \<rparr>"
    by (auto simp: publish_and_def split: option.split_asm)
  from p have "high_water ns t = Some h'"
    by (rule PublishLocked_Some) (use h in \<open>simp add: high_water_def set_high_water_def split: IdNamespace.splits\<close>)
  then have "high_water ns s' = Some h'" by (simp add: fresh(4) high_water_def split: IdNamespace.splits)
  then show thesis using that [of h h'] h h' r by simp
qed (use assms(3,4) in auto)

text \<open>
  C34. Identifiers are never handed out twice: of two allocations in one namespace, with any commands between them, the
  second range lies entirely above the first, and no range wraps around the 64-bit counter.
\<close>

theorem allocated_ids_disjoint:
  assumes "MetadataApply c s = (r, s1)" and "mc_command c = AllocateIds ns n" and "mr_error r = MetadataOk"
    and "map_of (ms_dedup s) (mc_mutationId c) = None"
    and "MetadataApply c2 (run_commands cs s1) = (r2, s2)" and "mc_command c2 = AllocateIds ns n2" and "mr_error r2 = MetadataOk"
    and "map_of (ms_dedup (run_commands cs s1)) (mc_mutationId c2) = None"
  shows "uint (mr_firstAllocatedId r) + uint (mr_allocatedCount r) \<le> uint (mr_firstAllocatedId r2) \<and>
    uint (mr_firstAllocatedId r2) + uint (mr_allocatedCount r2) \<le> 2 ^ 64 \<and> 0 < mr_allocatedCount r2"
proof -
  obtain h h' where h: "high_water ns s = Some h" "SafeAdd h n = Some h'" "mr_firstAllocatedId r = h + 1" "mr_allocatedCount r = n"
    "high_water ns s1 = Some h'" using assms(1-4) by (rule AllocateIds_result)
  obtain k k' where k: "high_water ns (run_commands cs s1) = Some k" "SafeAdd k n2 = Some k'" "mr_firstAllocatedId r2 = k + 1"
    "mr_allocatedCount r2 = n2" using assms(5-8) by (rule AllocateIds_result)
  have "h' \<le> k" using high_water_grows [OF md_grows_run h(5), of cs] k(1) by auto
  then have le: "uint h' \<le> uint k" by (simp add: word_le_def)
  have n: "uint h' = uint h + uint n" "uint k' = uint k + uint n2" "uint k < uint k'"
    using SafeAdd_Some [OF h(2)] SafeAdd_Some [OF k(2)] by (simp_all add: word_less_def)
  have f: "uint (w + 1) = uint w + 1" if "SafeAdd w m = Some w'" for w m w' :: u64
    using SafeAdd_Some(2) [OF that] uint_lt2p [of w'] by (simp add: word_less_def uint_word_ariths)
  have "uint (h + 1) = uint h + 1" "uint (k + 1) = uint k + 1" using f [OF h(2)] f [OF k(2)] .
  moreover have "uint k' < 2 ^ 64" using uint_lt2p [of k'] by simp
  moreover have "n2 \<noteq> 0" using n by auto
  ultimately show ?thesis using h(3,4) k(3,4) n le by (simp add: word_neq_0_conv)
qed

theorem allocated_ids_disjoint_witness:
  "uint (mr_firstAllocatedId (fst (MetadataApply (meta_cmd ''a'' 1 (AllocateIds IdPeer 5)) meta_cluster))) + 5 \<le>
   uint (mr_firstAllocatedId (fst (MetadataApply (meta_cmd ''b'' 2 (AllocateIds IdPeer 3))
     (snd (MetadataApply (meta_cmd ''a'' 1 (AllocateIds IdPeer 5)) meta_cluster)))))"
proof -
  let ?a = "meta_cmd ''a'' 1 (AllocateIds IdPeer 5)" let ?b = "meta_cmd ''b'' 2 (AllocateIds IdPeer 3)"
  let ?s = "snd (MetadataApply ?a meta_cluster)"
  have ok: "mr_error (fst (MetadataApply ?a meta_cluster)) = MetadataOk" "mr_error (fst (MetadataApply ?b ?s)) = MetadataOk"
    "map_of (ms_dedup meta_cluster) (mc_mutationId ?a) = None" "map_of (ms_dedup ?s) (mc_mutationId ?b) = None"
    "mr_allocatedCount (fst (MetadataApply ?a meta_cluster)) = 5" by code_simp+
  have r: "run_commands [] x = x" for x by (simp add: run_commands_def)
  from allocated_ids_disjoint [of ?a meta_cluster "fst (MetadataApply ?a meta_cluster)" ?s IdPeer 5 ?b "[]"
      "fst (MetadataApply ?b ?s)" "snd (MetadataApply ?b ?s)" 3]
  show ?thesis using ok by (simp add: r meta_cmd_def)
qed

text \<open>
  C35. A finished scheduling operator stays finished: once an operator has succeeded, failed or been cancelled, no sequence
  of commands changes its phase or forgets it.
\<close>

theorem finished_operator_is_final:
  assumes "map_of (ms_schedulingOperators s) i = Some op" and "IsTerminal (so_phase op)"
  shows "\<exists>op'. map_of (ms_schedulingOperators (run_commands cs s)) i = Some op' \<and> so_phase op' = so_phase op"
  using md_grows_run [of s cs] assms unfolding md_grows_def terminal_kept_def by blast

definition meta_split_op :: "string \<Rightarrow> SchedulingOperator" where
  "meta_split_op i = \<lparr> so_operatorId = i, so_type = OpSplitRegion, so_regionId = 1, so_sourceRevision = 1,
     so_regionEpoch = Some \<lparr> ep_version = 1, ep_confVersion = 1 \<rparr>, so_sourceStoreId = 0, so_targetStoreId = 0,
     so_splitCandidateGeneration = 1, so_phase = OpPending, so_attempts = 0, so_deadlineMs = 9, so_lastError = [],
     so_cancelRequested = False, so_irreversible = False, so_createdAtMs = 1, so_updatedAtMs = 1 \<rparr>"

definition meta_cancelled :: MetadataStateMachine where
  "meta_cancelled = run_commands [meta_cmd ''c1'' 1 (CreateSchedulingOperator (meta_split_op ''A'')),
     meta_cmd ''c2'' 1 (CancelSchedulingOperator ''A'' 2)] meta_cluster"

theorem finished_operator_is_final_witness:
  "\<exists>op'. map_of (ms_schedulingOperators (run_commands [meta_cmd ''c3'' 1 (CancelSchedulingOperator ''A'' 3)] meta_cancelled)) ''A'' = Some op' \<and>
     so_phase op' = OpCancelled"
proof -
  have "(case map_of (ms_schedulingOperators meta_cancelled) ''A'' of None \<Rightarrow> False | Some op \<Rightarrow> so_phase op = OpCancelled)" by code_simp
  then obtain op where op: "map_of (ms_schedulingOperators meta_cancelled) ''A'' = Some op" "so_phase op = OpCancelled"
    by (cases "map_of (ms_schedulingOperators meta_cancelled) ''A''") simp_all
  then have "IsTerminal (so_phase op)" by (simp add: IsTerminal_def)
  from finished_operator_is_final [OF op(1) this] op(2) show ?thesis by simp
qed

section \<open>Two defects\<close>

text \<open>
  An update that repeats the final phase of a finished operator releases the region of another, active operator: two
  operators then run on the region, and the snapshot of this state cannot be restored.
\<close>

definition meta_repeat :: "string \<Rightarrow> OperatorUpdate" where
  "meta_repeat i = \<lparr> ou_operatorId = i, ou_expectedPhase = OpCancelled, ou_phase = OpCancelled, ou_attempts = 0, ou_lastError = [],
     ou_irreversible = False, ou_updatedAtMs = 5 \<rparr>"

definition meta_two_active :: MetadataStateMachine where
  "meta_two_active = run_commands [meta_cmd ''c3'' 1 (CreateSchedulingOperator (meta_split_op ''B'')),
     meta_cmd ''c4'' 0 (UpdateSchedulingOperator (meta_repeat ''A'')),
     meta_cmd ''c5'' 1 (CreateSchedulingOperator (meta_split_op ''C''))] meta_cancelled"

lemma repeated_final_update_admits_second_operator:
  "length (filter (\<lambda>(_, op). so_regionId op = 1 \<and> so_phase op = OpPending) (ms_schedulingOperators meta_two_active)) = 2 \<and>
   RestoreState (SnapshotMessage meta_two_active) NewMetadataStateMachine = None"
  by code_simp

text \<open>
  A move to a store whose port does not fit a \<open>short\<close> is committed to the internal regions before validation rejects it: the
  command reports an error, and from then on every command that publishes fails.
\<close>

definition meta_wedged :: MetadataStateMachine where
  "meta_wedged = run_commands [meta_cmd ''p'' 1 (PutStore (meta_store 9 40000)),
     meta_cmd ''m1'' 2 (PrepareMovePeer 1 1 9 (Some \<lparr> ep_version = 1, ep_confVersion = 1 \<rparr>)),
     meta_cmd ''m2'' 3 (CommitMovePeer 1 23 (Some \<lparr> ep_version = 1, ep_confVersion = 1 \<rparr>))] meta_cluster"

lemma rejected_move_wedges_the_service:
  "ms_revision meta_wedged = 4 \<and> mv_revision (ms_published meta_wedged) = 3 \<and>
   mr_error (fst (MetadataApply (meta_cmd ''next'' 4 (AllocateIds IdPeer 1)) meta_wedged)) = MetadataInvalidArgument"
  by code_simp

section \<open>Splitting a region\<close>

lemma publish_and_Some:
  assumes "publish_and f t = (Some r, s')"
  shows "PublishLocked t = Some s'" and "r = f s'"
  using assms by (auto simp: publish_and_def split: option.split_asm)

lemma not_thrown [simp]: "thrown s \<noteq> (Some r, s')"
  by (simp add: thrown_def)

lemma not_ok:
  "rejected code s = (Some r, s') \<Longrightarrow> code \<noteq> MetadataOk \<Longrightarrow> mr_error r \<noteq> MetadataOk"
  "refused code s = (Some r, s') \<Longrightarrow> code \<noteq> MetadataOk \<Longrightarrow> mr_error r \<noteq> MetadataOk"
  by (auto simp: rejected_def refused_def Error_def)

lemma PublishLocked_catalog:
  assumes "PublishLocked t = Some s'" and "ms_regions t \<noteq> []"
  shows "\<exists>c. RegionCatalog (ms_regions t) = Inr c \<and> s' = t \<lparr> ms_published := current_view (Some c) t \<rparr>"
  using assms by (auto simp: PublishLocked_def split: sum.split_asm)

lemma find_rev_Some: "find P (rev xs) = Some x \<Longrightarrow> x \<in> set xs \<and> P x"
  by (auto simp: find_Some_iff) (metis length_rev nth_mem set_rev)

lemma PrepareSplit_OK:
  assumes "PrepareSplitLocked e i k ep s = (Some r, s')" and "mr_error r = MetadataOk"
  obtains parent child t where "parent \<in> set (ms_regions s)" "r_regionId parent = to_int32 i" "r_startKey parent < k"
    "r_endKey parent = [] \<or> k < r_endKey parent" "r_regionId child = to_int32 (ms_regionIdHighWater s + 1)" "r_startKey child = k"
    "r_epoch child = \<lparr> ep_version = 1, ep_confVersion = 1 \<rparr>"
    "ms_regions s' = map (\<lambda>region. if r_regionId region = r_regionId parent then set_splitPending (Some (k, child)) parent else region) (ms_regions s)"
proof -
  have g: "\<not> (ms_revision s = 0 \<or> e \<noteq> ms_revision s)"
  proof
    assume "ms_revision s = 0 \<or> e \<noteq> ms_revision s"
    then show False using assms by (auto simp: PrepareSplitLocked_def rejected_def Error_def split: if_split_asm)
  qed
  obtain parent where p: "find (\<lambda>region. r_regionId region = to_int32 i) (rev (ms_regions s)) = Some parent"
    using assms(1) g by (cases "find (\<lambda>region. r_regionId region = to_int32 i) (rev (ms_regions s))") (auto simp: PrepareSplitLocked_def)
  have c1: "r_splitPending parent = None" using assms g p by (cases "r_splitPending parent") (simp_all add: PrepareSplitLocked_def)
  have c2: "r_epoch parent = ep"
  proof (rule ccontr)
    assume "r_epoch parent \<noteq> ep"
    then show False using assms g p c1 by (auto simp: PrepareSplitLocked_def refused_def Error_def)
  qed
  have c3: "r_startKey parent < k \<and> (r_endKey parent = [] \<or> k < r_endKey parent)"
  proof (rule ccontr)
    assume "\<not> (r_startKey parent < k \<and> (r_endKey parent = [] \<or> k < r_endKey parent))"
    then show False using assms(1) g p c1 c2 by (simp add: PrepareSplitLocked_def)
  qed
  note c = c1 c2 c3
  obtain cid where cid: "SafeAdd (ms_regionIdHighWater s) 1 = Some cid"
    using assms(1) g p c by (cases "SafeAdd (ms_regionIdHighWater s) 1") (auto simp: PrepareSplitLocked_def)
  obtain ps h where a: "AllocatePeers (r_peers parent) (ms_peerIdHighWater s) = (Some ps, h)"
    using assms(1) g p c cid
    by (cases "AllocatePeers (r_peers parent) (ms_peerIdHighWater s)"; cases "fst (AllocatePeers (r_peers parent) (ms_peerIdHighWater s))")
      (auto simp: PrepareSplitLocked_def)
  define child where "child = RegionMetadata (to_int32 cid) k (r_endKey parent) ps \<lparr> ep_version = 1, ep_confVersion = 1 \<rparr> 1 (pl_peerId (hd ps)) None"
  define t where "t = RecomputeHighWaterLocked (s \<lparr> ms_regionIdHighWater := cid, ms_peerIdHighWater := h, ms_revision := ms_revision s + 1,
      ms_regions := map (\<lambda>region. if r_regionId region = r_regionId parent then set_splitPending (Some (k, child)) parent else region) (ms_regions s) \<rparr>)"
  have "PrepareSplitLocked e i k ep s =
      publish_and (\<lambda>s'. (ok_result (ms_revision s')) \<lparr> mr_regions := [ToProtoRegion (set_splitPending (Some (k, child)) parent)] \<rparr>) t"
    using g p c cid a by (cases "r_endKey parent = []") (simp_all add: PrepareSplitLocked_def Let_def child_def t_def cong: if_cong)
  then have "PublishLocked t = Some s'" using assms(1) publish_and_Some(1) by metis
  then have "ms_regions s' = ms_regions t" by (rule PublishLocked_Some) simp
  moreover have "cid = ms_regionIdHighWater s + 1" using cid by (auto simp: SafeAdd_def split: if_split_asm)
  ultimately show thesis using that [of parent child] find_rev_Some [OF p] c by (simp add: child_def t_def)
qed

lemma CommitSplit_OK:
  assumes "CommitSplitLocked e i s = (Some r, s')" and "mr_error r = MetadataOk"
  obtains parent k prepared catalog where "parent \<in> set (ms_regions s)" "r_regionId parent = to_int32 i"
    "r_splitPending parent = Some (k, prepared)" "mv_catalog (ms_published s') = Some catalog" "catalog_ok catalog"
    "set catalog = (\<lambda>x. complete_region (set_revision (ms_revision s + 1) (complete_region x))) `
       (set (map (\<lambda>region. if r_regionId region = r_regionId parent
              then set_epoch ((r_epoch parent) \<lparr> ep_version := ep_version (r_epoch parent) + 1 \<rparr>) (set_endKey k (set_splitPending None parent))
              else region) (ms_regions s)) \<union> {set_revision (ms_revision s + 1) (set_endKey (r_endKey parent) prepared)})"
proof -
  have g: "\<not> (ms_revision s = 0 \<or> e \<noteq> ms_revision s)"
  proof
    assume "ms_revision s = 0 \<or> e \<noteq> ms_revision s"
    then show False using assms by (auto simp: CommitSplitLocked_def rejected_def Error_def)
  qed
  obtain parent where p: "find (\<lambda>region. r_regionId region = to_int32 i) (rev (ms_regions s)) = Some parent"
    using assms(1) g by (cases "find (\<lambda>region. r_regionId region = to_int32 i) (rev (ms_regions s))") (auto simp: CommitSplitLocked_def)
  obtain k prepared where k: "r_splitPending parent = Some (k, prepared)"
    using assms(1) g p by (cases "r_splitPending parent") (auto simp: CommitSplitLocked_def)
  define xs where "xs = map (\<lambda>region. if r_regionId region = r_regionId parent
      then set_epoch ((r_epoch parent) \<lparr> ep_version := ep_version (r_epoch parent) + 1 \<rparr>) (set_endKey k (set_splitPending None parent))
      else region) (ms_regions s) @ [set_revision (ms_revision s + 1) (set_endKey (r_endKey parent) prepared)]"
  obtain v where v: "RegionCatalog xs = Inr v"
    using assms(1) g p k by (cases "RegionCatalog xs") (auto simp: CommitSplitLocked_def Let_def xs_def)
  define t where "t = RecomputeHighWaterLocked (restamp (s \<lparr> ms_revision := ms_revision s + 1, ms_regions := v \<rparr>))"
  have pub: "PublishLocked t = Some s'"
    using assms(1) g p k v by (auto simp: CommitSplitLocked_def Let_def xs_def [symmetric] t_def dest: publish_and_Some(1))
  have reg: "ms_regions t = map (set_revision (ms_revision s + 1)) v" by (simp add: t_def)
  then have "ms_regions t \<noteq> []" using RegionCatalog_nonempty [OF v] by simp
  from PublishLocked_catalog [OF pub this] obtain catalog where s': "s' = t \<lparr> ms_published := current_view (Some catalog) t \<rparr>"
    and cat: "RegionCatalog (map (set_revision (ms_revision s + 1)) v) = Inr catalog" using reg by auto
  from RegionCatalog_complete [OF cat] RegionCatalog_complete [OF v] RegionCatalog_again [OF cat]
  have "set catalog = (\<lambda>x. complete_region (set_revision (ms_revision s + 1) (complete_region x))) ` set xs" "catalog_ok catalog"
    by (simp_all add: image_image catalog_ok_def)
  then show thesis using that [of parent k prepared catalog] find_rev_Some [OF p] k
    by (simp add: s' current_view_def xs_def)
qed

text \<open>
  C8. A split moves exactly the upper half of the region: after both phases have succeeded, a key below the split key that
  the region served still resolves to it, with the next range version; a key from the split key on resolves to the child,
  whose identifier is the next one; every other key resolves to its region with range and epoch unchanged.
\<close>

theorem split_moves_upper_half:
  assumes "catalog_ok (ms_regions s)"
    and "PrepareSplitLocked (ms_revision s) i k ep s = (Some r1, s1)" and "mr_error r1 = MetadataOk"
    and "CommitSplitLocked (ms_revision s1) i s1 = (Some r2, s2)" and "mr_error r2 = MetadataOk"
    and "catalog_find (ms_regions s) key = Some r"
  shows "\<exists>r'. MetaLookupKey s2 key = Some r' \<and> Contains r' key \<and>
    (if r_regionId r \<noteq> to_int32 i
     then r_regionId r' = r_regionId r \<and> r_startKey r' = r_startKey r \<and> r_endKey r' = r_endKey r \<and> r_epoch r' = r_epoch r
     else if key < k
     then r_regionId r' = r_regionId r \<and> r_startKey r' = r_startKey r \<and> r_endKey r' = k \<and>
          r_epoch r' = (r_epoch r) \<lparr> ep_version := ep_version (r_epoch r) + 1 \<rparr>
     else r_regionId r' = to_int32 (ms_regionIdHighWater s + 1) \<and> r_startKey r' = k \<and> r_endKey r' = r_endKey r \<and>
          r_epoch r' = \<lparr> ep_version = 1, ep_confVersion = 1 \<rparr>)"
proof -
  obtain parent child where p: "parent \<in> set (ms_regions s)" "r_regionId parent = to_int32 i" "r_startKey parent < k"
    "r_endKey parent = [] \<or> k < r_endKey parent"
    and child: "r_regionId child = to_int32 (ms_regionIdHighWater s + 1)" "r_startKey child = k" "r_epoch child = \<lparr> ep_version = 1, ep_confVersion = 1 \<rparr>"
    and regs: "ms_regions s1 = map (\<lambda>region. if r_regionId region = r_regionId parent then set_splitPending (Some (k, child)) parent else region) (ms_regions s)"
    using assms(2,3) by (rule PrepareSplit_OK) blast
  obtain parent1 k1 prepared catalog where q: "parent1 \<in> set (ms_regions s1)" "r_regionId parent1 = to_int32 i"
    "r_splitPending parent1 = Some (k1, prepared)" "mv_catalog (ms_published s2) = Some catalog" "catalog_ok catalog"
    and cat: "set catalog = (\<lambda>x. complete_region (set_revision (ms_revision s1 + 1) (complete_region x))) `
       (set (map (\<lambda>region. if r_regionId region = r_regionId parent1
              then set_epoch ((r_epoch parent1) \<lparr> ep_version := ep_version (r_epoch parent1) + 1 \<rparr>) (set_endKey k1 (set_splitPending None parent1))
              else region) (ms_regions s1)) \<union> {set_revision (ms_revision s1 + 1) (set_endKey (r_endKey parent1) prepared)})"
    using assms(4,5) by (rule CommitSplit_OK)
  have "parent1 = set_splitPending (Some (k, child)) parent" using q(1,2) p(2) regs by (auto split: if_split_asm)
  then have p1: "k1 = k" "prepared = child" "r_endKey parent1 = r_endKey parent" "r_startKey parent1 = r_startKey parent"
    "r_epoch parent1 = r_epoch parent" "r_regionId parent1 = r_regionId parent" "parent1 \<in> set (ms_regions s1)" using q by simp_all
  have r: "r \<in> set (ms_regions s)" "Contains r key" using assms(1,6) by (simp_all add: catalog.resolve_iff)
  have look: "MetaLookupKey s2 key = Some r'" if "r' \<in> set catalog" "Contains r' key" for r'
  proof -
    have "catalog_find catalog key = Some r'" using that q(5) by (simp add: catalog.resolve_iff)
    then show ?thesis using q(4) by (simp add: MetaLookupKey_def catalog_find_def)
  qed
  define f where "f = (\<lambda>x. complete_region (set_revision (ms_revision s1 + 1) (complete_region x)))"
  have f: "Contains (f x) key = Contains x key" "r_regionId (f x) = r_regionId x" "r_startKey (f x) = r_startKey x"
    "r_endKey (f x) = r_endKey x" "r_epoch (f x) = r_epoch x" for x by (simp_all add: f_def Contains_def)
  show ?thesis
  proof (cases "r_regionId r = to_int32 i")
    case False
    then have "r \<in> set (ms_regions s1)" using r(1) p(2) regs by auto
    then have "f r \<in> set catalog" unfolding cat f_def [symmetric] using False q(2) by force
    then show ?thesis using look [of "f r"] f r(2) False by (intro exI [of _ "f r"]) simp
  next
    case True
    have "r = parent"
      using RegionCatalog_ids [of "ms_regions s" "ms_regions s"] assms(1) r(1) p True
      by (auto simp: catalog_ok_def distinct_map inj_on_def)
    show ?thesis
    proof (cases "key < k")
      case lt: True
      define y where "y = set_epoch ((r_epoch parent1) \<lparr> ep_version := ep_version (r_epoch parent1) + 1 \<rparr>) (set_endKey k1 (set_splitPending None parent1))"
      have "y \<in> (\<lambda>region. if r_regionId region = r_regionId parent1 then y else region) ` set (ms_regions s1)"
        by (rule image_eqI [OF _ p1(7)]) simp
      then have "f y \<in> set catalog" unfolding cat f_def [symmetric] y_def [symmetric] by simp
      moreover have "Contains y key" using r(2) lt p1 \<open>r = parent\<close> by (auto simp: y_def Contains_def RegionBytewiseLess_def)
      ultimately show ?thesis using look [of "f y"] f [of y] True lt p1 \<open>r = parent\<close> by (intro exI [of _ "f y"]) (simp add: y_def)
    next
      case ge: False
      define y where "y = set_revision (ms_revision s1 + 1) (set_endKey (r_endKey parent1) prepared)"
      have "f y \<in> set catalog" unfolding cat f_def [symmetric] y_def [symmetric] by simp
      moreover have "Contains y key"
        using r(2) ge p1 child \<open>r = parent\<close> by (auto simp: y_def Contains_def RegionBytewiseLess_def)
      ultimately show ?thesis using look [of "f y"] f [of y] True ge p1 child \<open>r = parent\<close> by (intro exI [of _ "f y"]) (simp add: y_def)
    qed
  qed
qed

definition meta_prepared :: MetadataStateMachine where
  "meta_prepared = snd (PrepareSplitLocked 1 2 ''t'' \<lparr> ep_version = 1, ep_confVersion = 1 \<rparr> meta_cluster)"

definition meta_split :: MetadataStateMachine where
  "meta_split = snd (CommitSplitLocked 2 2 meta_prepared)"

theorem split_moves_upper_half_witness:
  "\<exists>r'. MetaLookupKey meta_split ''zebra'' = Some r' \<and> Contains r' ''zebra'' \<and> r_startKey r' = ''t'' \<and>
     r_epoch r' = \<lparr> ep_version = 1, ep_confVersion = 1 \<rparr>"
proof -
  have "(case RegionCatalog (ms_regions meta_cluster) of Inl _ \<Rightarrow> False | Inr c \<Rightarrow> c = ms_regions meta_cluster)" by code_simp
  then have cat: "catalog_ok (ms_regions meta_cluster)" by (simp add: catalog_ok_def split: sum.splits)
  have "(case PrepareSplitLocked 1 2 ''t'' \<lparr> ep_version = 1, ep_confVersion = 1 \<rparr> meta_cluster of (None, _) \<Rightarrow> False | (Some r, _) \<Rightarrow> mr_error r = MetadataOk)"
    by code_simp
  then obtain r1 where p: "PrepareSplitLocked 1 2 ''t'' \<lparr> ep_version = 1, ep_confVersion = 1 \<rparr> meta_cluster = (Some r1, meta_prepared)"
    "mr_error r1 = MetadataOk" by (auto simp: meta_prepared_def split: prod.splits option.splits)
  have "(case CommitSplitLocked 2 2 meta_prepared of (None, _) \<Rightarrow> False | (Some r, _) \<Rightarrow> mr_error r = MetadataOk)" by code_simp
  then obtain r2 where q: "CommitSplitLocked 2 2 meta_prepared = (Some r2, meta_split)" "mr_error r2 = MetadataOk"
    by (auto simp: meta_split_def split: prod.splits option.splits)
  have v: "ms_revision meta_cluster = 1" "ms_revision meta_prepared = 2" "to_int32 2 = 2" "\<not> ''zebra'' < ''t''" by code_simp+
  have "(case catalog_find (ms_regions meta_cluster) ''zebra'' of None \<Rightarrow> False | Some r \<Rightarrow> r_regionId r = 2)" by code_simp
  then obtain r where r: "catalog_find (ms_regions meta_cluster) ''zebra'' = Some r" "r_regionId r = 2" by (auto split: option.splits)
  from split_moves_upper_half [OF cat _ p(2) _ q(2) r(1), of 2 "''t''" "\<lparr> ep_version = 1, ep_confVersion = 1 \<rparr>"] p(1) q(1) r(2) v
  show ?thesis by auto
qed

end
