(* ===== verification/RaftCodec.thy ===== *)
theory RaftCodec
  imports StrataPrelude
begin

text \<open>
  The byte formats around the Raft log: the command envelopes \<open>Op\<close> and \<open>TxnOpPayload\<close>
  (\<open>common/include/util.h\<close>), and the durable Raft state, encoded by the helpers at the head of \<open>raft/raft.cpp\<close>
  and read back by \<open>Raft::readPersist\<close>. Integers are written as the bytes of a little-endian machine. A \<open>size_t\<close> is
  a natural number; the one sum that can exceed 64 bits on a damaged file, the end of a command in \<open>readPersist\<close>,
  is taken modulo \<open>2 ^ 64\<close>.
\<close>

section \<open>Integers as bytes\<close>

fun le_bytes :: "nat \<Rightarrow> nat \<Rightarrow> string" where
  "le_bytes 0 v = []"
| "le_bytes (Suc n) v = char_of (v mod 256) # le_bytes n (v div 256)"

fun le_val :: "string \<Rightarrow> nat" where
  "le_val [] = 0"
| "le_val (c # cs) = of_char c + 256 * le_val cs"

lemma length_le_bytes [simp]: "length (le_bytes n v) = n"
  by (induction n arbitrary: v) simp_all

lemma le_val_le_bytes: "le_val (le_bytes n v) = v mod 256 ^ n"
  by (induction n arbitrary: v) (simp_all add: mod_mult2_eq)

lemma le_val_le_bytes_id [simp]: "v < 256 ^ n \<Longrightarrow> le_val (le_bytes n v) = v"
  by (simp add: le_val_le_bytes)

definition int32_bytes :: "int \<Rightarrow> string" where
  "int32_bytes v = le_bytes 4 (nat (v mod 2 ^ 32))"

definition int32_val :: "string \<Rightarrow> int" where
  "int32_val bs = signed_take_bit 31 (int (le_val bs))"

definition int32_range :: "int \<Rightarrow> bool" where
  "int32_range v \<longleftrightarrow> - (2 ^ 31) \<le> v \<and> v < 2 ^ 31"

lemma length_int32_bytes [simp]: "length (int32_bytes v) = 4"
  by (simp add: int32_bytes_def)

lemma int32_val_bytes [simp]: "int32_range v \<Longrightarrow> int32_val (int32_bytes v) = v"
proof -
  assume r: "int32_range v"
  have b: "nat (v mod 2 ^ 32) < 256 ^ 4" by (simp add: nat_less_iff)
  have "int (nat (v mod 2 ^ 32)) = take_bit 32 v" by (simp add: take_bit_eq_mod)
  then have "int32_val (int32_bytes v) = signed_take_bit 31 (take_bit 32 v)"
    using b by (simp add: int32_val_def int32_bytes_def)
  also have "\<dots> = signed_take_bit 31 v" by (simp add: signed_take_bit_take_bit)
  also have "\<dots> = v" using r by (simp add: int32_range_def signed_take_bit_int_eq_self_iff)
  finally show ?thesis .
qed

section \<open>Reading at an offset\<close>

definition bytes_at :: "string \<Rightarrow> nat \<Rightarrow> nat \<Rightarrow> string" where
  "bytes_at str offset n = take n (drop offset str)"

definition AppendInt32 :: "string \<Rightarrow> int \<Rightarrow> string" where
  "AppendInt32 out value = out @ int32_bytes value"

definition AppendUint64 :: "string \<Rightarrow> nat \<Rightarrow> string" where
  "AppendUint64 out value = out @ le_bytes 8 value"

definition ReadInt32 :: "string \<Rightarrow> nat \<Rightarrow> (int \<times> nat) option" where
  "ReadInt32 str offset =
     (if offset + 4 > length str then None else Some (int32_val (bytes_at str offset 4), offset + 4))"

definition ReadUint64 :: "string \<Rightarrow> nat \<Rightarrow> (nat \<times> nat) option" where
  "ReadUint64 str offset =
     (if offset + 8 > length str then None else Some (le_val (bytes_at str offset 8), offset + 8))"

definition ReadBytes32 :: "string \<Rightarrow> nat \<Rightarrow> (string \<times> nat) option" where
  "ReadBytes32 str offset =
     (if offset + 4 > length str then None
      else let len = le_val (bytes_at str offset 4); offset = offset + 4 in
           if offset + len > length str then None else Some (bytes_at str offset len, offset + len))"

definition AppendBytes32 :: "string \<Rightarrow> string \<Rightarrow> string" where
  "AppendBytes32 out field = out @ le_bytes 4 (length field mod 2 ^ 32) @ field"

lemma bytes_at_append [simp]: "bytes_at (a @ b) (length a) n = take n b"
  by (simp add: bytes_at_def)

text \<open>Reading just behind a prefix, the form in which the round trips use the readers.\<close>

lemma ReadInt32_append [simp]:
  "int32_range v \<Longrightarrow> ReadInt32 (a @ int32_bytes v @ b) (length a) = Some (v, length a + 4)"
  by (simp add: ReadInt32_def)

lemma ReadUint64_append [simp]:
  "v < 2 ^ 64 \<Longrightarrow> ReadUint64 (a @ le_bytes 8 v @ b) (length a) = Some (v, length a + 8)"
  by (simp add: ReadUint64_def)

lemma ReadBytes32_append [simp]:
  assumes "length f < 2 ^ 32"
  shows "ReadBytes32 (a @ le_bytes 4 (length f) @ f @ b) (length a) = Some (f, length a + 4 + length f)"
proof -
  have "bytes_at (a @ le_bytes 4 (length f) @ f @ b) (length a + 4) (length f) = f"
    using bytes_at_append [of "a @ le_bytes 4 (length f)" "f @ b" "length f"] by simp
  then show ?thesis using assms by (simp add: ReadBytes32_def Let_def)
qed

section \<open>Command envelopes\<close>

record Op =
  op_Operation :: string
  op_Key :: string
  op_Value :: string
  op_ClientId :: string
  op_RequestId :: int
  op_Status :: string

definition Op_asString :: "Op \<Rightarrow> string" where
  "Op_asString op =
     (let out = AppendBytes32 [] (op_Operation op);
          out = AppendBytes32 out (op_Key op);
          out = AppendBytes32 out (op_Value op);
          out = AppendBytes32 out (op_ClientId op);
          out = AppendInt32 out (op_RequestId op)
      in AppendBytes32 out (op_Status op))"

text \<open>The fields read before a failure stay assigned.\<close>

definition Op_parseFromString :: "string \<Rightarrow> Op \<Rightarrow> bool \<times> Op" where
  "Op_parseFromString str op =
     (case ReadBytes32 str 0 of None \<Rightarrow> (False, op) | Some (v, offset) \<Rightarrow> let op = op \<lparr> op_Operation := v \<rparr> in
      case ReadBytes32 str offset of None \<Rightarrow> (False, op) | Some (v, offset) \<Rightarrow> let op = op \<lparr> op_Key := v \<rparr> in
      case ReadBytes32 str offset of None \<Rightarrow> (False, op) | Some (v, offset) \<Rightarrow> let op = op \<lparr> op_Value := v \<rparr> in
      case ReadBytes32 str offset of None \<Rightarrow> (False, op) | Some (v, offset) \<Rightarrow> let op = op \<lparr> op_ClientId := v \<rparr> in
      case ReadInt32 str offset of None \<Rightarrow> (False, op) | Some (v, offset) \<Rightarrow> let op = op \<lparr> op_RequestId := v \<rparr> in
      case ReadBytes32 str offset of None \<Rightarrow> (False, op) | Some (v, offset) \<Rightarrow> (True, op \<lparr> op_Status := v \<rparr>))"

record TxnOpPayload =
  tp_value :: string
  tp_primaryKey :: string
  tp_startTs :: u64
  tp_commitTs :: u64
  tp_ttlMs :: u64
  tp_isDelete :: bool

definition TxnOpPayload_asString :: "TxnOpPayload \<Rightarrow> string" where
  "TxnOpPayload_asString p =
     (let out = AppendBytes32 [] (tp_value p);
          out = AppendBytes32 out (tp_primaryKey p);
          out = AppendUint64 out (unat (tp_startTs p));
          out = AppendUint64 out (unat (tp_commitTs p));
          out = AppendUint64 out (unat (tp_ttlMs p))
      in out @ le_bytes 1 (of_bool (tp_isDelete p)))"

definition TxnOpPayload_parseFromString :: "string \<Rightarrow> TxnOpPayload \<Rightarrow> bool \<times> TxnOpPayload" where
  "TxnOpPayload_parseFromString str p =
     (case ReadBytes32 str 0 of None \<Rightarrow> (False, p) | Some (v, offset) \<Rightarrow> let p = p \<lparr> tp_value := v \<rparr> in
      case ReadBytes32 str offset of None \<Rightarrow> (False, p) | Some (v, offset) \<Rightarrow> let p = p \<lparr> tp_primaryKey := v \<rparr> in
      case ReadUint64 str offset of None \<Rightarrow> (False, p) | Some (v, offset) \<Rightarrow> let p = p \<lparr> tp_startTs := of_nat v \<rparr> in
      case ReadUint64 str offset of None \<Rightarrow> (False, p) | Some (v, offset) \<Rightarrow> let p = p \<lparr> tp_commitTs := of_nat v \<rparr> in
      case ReadUint64 str offset of None \<Rightarrow> (False, p) | Some (v, offset) \<Rightarrow> let p = p \<lparr> tp_ttlMs := of_nat v \<rparr> in
      if offset + 1 > length str then (False, p)
      else (True, p \<lparr> tp_isDelete := (le_val (bytes_at str offset 1) \<noteq> 0) \<rparr>))"

text \<open>What the length fields of 32 bits can carry.\<close>

definition Op_ok :: "Op \<Rightarrow> bool" where
  "Op_ok op \<longleftrightarrow> length (op_Operation op) < 2 ^ 32 \<and> length (op_Key op) < 2 ^ 32 \<and> length (op_Value op) < 2 ^ 32 \<and>
     length (op_ClientId op) < 2 ^ 32 \<and> int32_range (op_RequestId op) \<and> length (op_Status op) < 2 ^ 32"

definition TxnOpPayload_ok :: "TxnOpPayload \<Rightarrow> bool" where
  "TxnOpPayload_ok p \<longleftrightarrow> length (tp_value p) < 2 ^ 32 \<and> length (tp_primaryKey p) < 2 ^ 32"

text \<open>Reading behind a prefix given by its length.\<close>

lemma ReadBytes32_at:
  "\<lbrakk> str = a @ le_bytes 4 (length f) @ f @ b; n = length a; length f < 2 ^ 32 \<rbrakk> \<Longrightarrow>
   ReadBytes32 str n = Some (f, n + 4 + length f)"
  by simp

lemma ReadInt32_at:
  "\<lbrakk> str = a @ int32_bytes v @ b; n = length a; int32_range v \<rbrakk> \<Longrightarrow> ReadInt32 str n = Some (v, n + 4)"
  by simp

lemma ReadUint64_at:
  "\<lbrakk> str = a @ le_bytes 8 v @ b; n = length a; v < 2 ^ 64 \<rbrakk> \<Longrightarrow> ReadUint64 str n = Some (v, n + 8)"
  by simp

lemmas append_defs = AppendBytes32_def AppendInt32_def AppendUint64_def

lemma Op_parse_asString:
  assumes "Op_ok op"
  shows "Op_parseFromString (Op_asString op @ rest) op0 = (True, op)"
proof -
  define a b c d e where "a = op_Operation op" and "b = op_Key op" and "c = op_Value op" and "d = op_ClientId op" and "e = op_Status op"
  let ?f = "\<lambda>x. le_bytes 4 (length x) @ x"
  let ?s = "Op_asString op @ rest"
  have lens: "length a < 2 ^ 32" "length b < 2 ^ 32" "length c < 2 ^ 32" "length d < 2 ^ 32" "length e < 2 ^ 32"
    and rng: "int32_range (op_RequestId op)"
    using assms by (simp_all add: Op_ok_def a_def b_def c_def d_def e_def)
  have s: "?s = ?f a @ ?f b @ ?f c @ ?f d @ int32_bytes (op_RequestId op) @ ?f e @ rest"
    using lens by (simp add: Op_asString_def Let_def append_defs a_def b_def c_def d_def e_def)
  have 1: "ReadBytes32 ?s 0 = Some (a, 4 + length a)"
    using ReadBytes32_at [of ?s "[]" a "?f b @ ?f c @ ?f d @ int32_bytes (op_RequestId op) @ ?f e @ rest" 0] lens s by simp
  have 2: "ReadBytes32 ?s (4 + length a) = Some (b, 4 + length a + 4 + length b)"
    by (rule ReadBytes32_at [of ?s "?f a"]) (simp_all add: s lens [simplified])
  have 3: "ReadBytes32 ?s (4 + length a + 4 + length b) = Some (c, 4 + length a + 4 + length b + 4 + length c)"
    by (rule ReadBytes32_at [of ?s "?f a @ ?f b"]) (simp_all add: s lens [simplified])
  have 4: "ReadBytes32 ?s (4 + length a + 4 + length b + 4 + length c) =
      Some (d, 4 + length a + 4 + length b + 4 + length c + 4 + length d)"
    by (rule ReadBytes32_at [of ?s "?f a @ ?f b @ ?f c"]) (simp_all add: s lens [simplified])
  have 5: "ReadInt32 ?s (4 + length a + 4 + length b + 4 + length c + 4 + length d) =
      Some (op_RequestId op, 4 + length a + 4 + length b + 4 + length c + 4 + length d + 4)"
    by (rule ReadInt32_at [of ?s "?f a @ ?f b @ ?f c @ ?f d"]) (simp_all add: s rng)
  have 6: "ReadBytes32 ?s (4 + length a + 4 + length b + 4 + length c + 4 + length d + 4) =
      Some (e, 4 + length a + 4 + length b + 4 + length c + 4 + length d + 4 + 4 + length e)"
    by (rule ReadBytes32_at [of ?s "?f a @ ?f b @ ?f c @ ?f d @ int32_bytes (op_RequestId op)"]) (simp_all add: s lens [simplified])
  show ?thesis
    unfolding Op_parseFromString_def 1 2 3 4 5 6 Let_def option.case prod.case
    by (simp add: a_def b_def c_def d_def e_def)
qed

lemma TxnOpPayload_parse_asString:
  assumes "TxnOpPayload_ok p"
  shows "TxnOpPayload_parseFromString (TxnOpPayload_asString p @ rest) p0 = (True, p)"
proof -
  define a b where "a = tp_value p" and "b = tp_primaryKey p"
  define x y z where "x = unat (tp_startTs p)" and "y = unat (tp_commitTs p)" and "z = unat (tp_ttlMs p)"
  let ?f = "\<lambda>x. le_bytes 4 (length x) @ x"
  let ?d = "le_bytes 1 (of_bool (tp_isDelete p))"
  let ?s = "TxnOpPayload_asString p @ rest"
  have lens: "length a < 2 ^ 32" "length b < 2 ^ 32"
    using assms by (simp_all add: TxnOpPayload_ok_def a_def b_def)
  have nums: "x < 2 ^ 64" "y < 2 ^ 64" "z < 2 ^ 64"
    using unsigned_less [where ?'a = nat and w = "tp_startTs p"] unsigned_less [where ?'a = nat and w = "tp_commitTs p"]
      unsigned_less [where ?'a = nat and w = "tp_ttlMs p"] by (simp_all add: x_def y_def z_def)
  have s: "?s = ?f a @ ?f b @ le_bytes 8 x @ le_bytes 8 y @ le_bytes 8 z @ ?d @ rest"
    using lens by (simp add: TxnOpPayload_asString_def Let_def append_defs a_def b_def x_def y_def z_def)
  have 1: "ReadBytes32 ?s 0 = Some (a, 4 + length a)"
    using ReadBytes32_at [of ?s "[]" a "?f b @ le_bytes 8 x @ le_bytes 8 y @ le_bytes 8 z @ ?d @ rest" 0] lens s by simp
  have 2: "ReadBytes32 ?s (4 + length a) = Some (b, 4 + length a + 4 + length b)"
    by (rule ReadBytes32_at [of ?s "?f a"]) (simp_all add: s lens [simplified])
  have 3: "ReadUint64 ?s (4 + length a + 4 + length b) = Some (x, 4 + length a + 4 + length b + 8)"
    by (rule ReadUint64_at [of ?s "?f a @ ?f b"]) (simp_all add: s nums [simplified])
  have 4: "ReadUint64 ?s (4 + length a + 4 + length b + 8) = Some (y, 4 + length a + 4 + length b + 8 + 8)"
    by (rule ReadUint64_at [of ?s "?f a @ ?f b @ le_bytes 8 x"]) (simp_all add: s nums [simplified])
  have 5: "ReadUint64 ?s (4 + length a + 4 + length b + 8 + 8) = Some (z, 4 + length a + 4 + length b + 8 + 8 + 8)"
    by (rule ReadUint64_at [of ?s "?f a @ ?f b @ le_bytes 8 x @ le_bytes 8 y"]) (simp_all add: s nums [simplified])
  have 6: "bytes_at ?s (4 + length a + 4 + length b + 8 + 8 + 8) 1 = ?d"
    using bytes_at_append [of "?f a @ ?f b @ le_bytes 8 x @ le_bytes 8 y @ le_bytes 8 z" "?d @ rest" 1] by (simp add: s)
  have 7: "\<not> 4 + length a + 4 + length b + 8 + 8 + 8 + 1 > length ?s" by (simp add: s)
  show ?thesis
    unfolding TxnOpPayload_parseFromString_def 1 2 3 4 5 6 Let_def option.case prod.case if_not_P [OF 7]
    by (simp add: a_def b_def x_def y_def z_def)
qed

section \<open>The durable Raft state\<close>

record LogEntry =
  le_command :: string
  le_logTerm :: int
  le_logIndex :: int

text \<open>The five fields that \<open>persistData\<close> writes.\<close>

record RaftState =
  rs_currentTerm :: int
  rs_votedFor :: int
  rs_lastSnapshotIncludeIndex :: int
  rs_lastSnapshotIncludeTerm :: int
  rs_logs :: "LogEntry list"

definition kRaftPersistMagic :: string where
  "kRaftPersistMagic = ''TTRF2''"

definition kRaftPersistHeaderSize :: nat where
  "kRaftPersistHeaderSize = 5 + 4 * 4 + 8"

definition HasBinaryPersistMagic :: "string \<Rightarrow> bool" where
  "HasBinaryPersistMagic str \<longleftrightarrow> length str \<ge> 5 \<and> take 5 str = kRaftPersistMagic"

definition EncodeEntry :: "string \<Rightarrow> LogEntry \<Rightarrow> string" where
  "EncodeEntry out item =
     AppendUint64 (AppendInt32 (AppendInt32 out (le_logTerm item)) (le_logIndex item)) (length (le_command item)) @ le_command item"

definition EncodePersistHeader :: "int \<Rightarrow> int \<Rightarrow> int \<Rightarrow> int \<Rightarrow> nat \<Rightarrow> string" where
  "EncodePersistHeader currentTerm votedFor snapshotIndex snapshotTerm logCount =
     AppendUint64 (AppendInt32 (AppendInt32 (AppendInt32 (AppendInt32 kRaftPersistMagic currentTerm) votedFor)
       snapshotIndex) snapshotTerm) logCount"

definition EncodePersistData :: "int \<Rightarrow> int \<Rightarrow> int \<Rightarrow> int \<Rightarrow> LogEntry list \<Rightarrow> string" where
  "EncodePersistData currentTerm votedFor snapshotIndex snapshotTerm logs =
     foldl EncodeEntry (EncodePersistHeader currentTerm votedFor snapshotIndex snapshotTerm (length logs)) logs"

definition EncodePersistTail :: "LogEntry list \<Rightarrow> nat \<Rightarrow> string" where
  "EncodePersistTail logs startOffset = foldl EncodeEntry [] (drop startOffset logs)"

definition persistData :: "RaftState \<Rightarrow> string" where
  "persistData s = EncodePersistData (rs_currentTerm s) (rs_votedFor s) (rs_lastSnapshotIncludeIndex s)
     (rs_lastSnapshotIncludeTerm s) (rs_logs s)"

datatype read_logs = LogsRead "LogEntry list" | LogsInvalid | LogsThrow

fun ReadLogs :: "nat \<Rightarrow> string \<Rightarrow> nat \<Rightarrow> LogEntry list \<Rightarrow> read_logs" where
  "ReadLogs 0 str offset logs = LogsRead logs"
| "ReadLogs (Suc n) str offset logs =
     (case ReadInt32 str offset of None \<Rightarrow> LogsInvalid | Some (logTerm, offset) \<Rightarrow>
      case ReadInt32 str offset of None \<Rightarrow> LogsInvalid | Some (logIndex, offset) \<Rightarrow>
      case ReadUint64 str offset of None \<Rightarrow> LogsInvalid | Some (commandSize, offset) \<Rightarrow>
      if (offset + commandSize) mod 2 ^ 64 > length str then LogsInvalid
      else if offset + commandSize \<ge> 2 ^ 64 then LogsThrow
      else ReadLogs n str (offset + commandSize)
        (logs @ [\<lparr> le_command = bytes_at str offset commandSize, le_logTerm = logTerm, le_logIndex = logIndex \<rparr>]))"

text \<open>
  Reading updates the fields of the node as it goes: a header that ends early leaves the fields read so far, a
  damaged log keeps the header. \<open>legacy\<close> stands for the Boost archive of the old text format, \<open>None\<close> for its
  exception. The result is \<open>None\<close> when building a command throws.
\<close>

definition readPersist :: "(string \<Rightarrow> RaftState option) \<Rightarrow> string \<Rightarrow> RaftState \<Rightarrow> RaftState option" where
  "readPersist legacy str s =
     (if str = [] then Some s
      else if HasBinaryPersistMagic str then
        (case ReadInt32 str 5 of None \<Rightarrow> Some s | Some (v, offset) \<Rightarrow> let s = s \<lparr> rs_currentTerm := v \<rparr> in
         case ReadInt32 str offset of None \<Rightarrow> Some s | Some (v, offset) \<Rightarrow> let s = s \<lparr> rs_votedFor := v \<rparr> in
         case ReadInt32 str offset of None \<Rightarrow> Some s | Some (v, offset) \<Rightarrow> let s = s \<lparr> rs_lastSnapshotIncludeIndex := v \<rparr> in
         case ReadInt32 str offset of None \<Rightarrow> Some s | Some (v, offset) \<Rightarrow> let s = s \<lparr> rs_lastSnapshotIncludeTerm := v \<rparr> in
         case ReadUint64 str offset of None \<Rightarrow> Some s | Some (logCount, offset) \<Rightarrow>
         case ReadLogs logCount str offset [] of
           LogsInvalid \<Rightarrow> Some s | LogsThrow \<Rightarrow> None | LogsRead logs \<Rightarrow> Some (s \<lparr> rs_logs := logs \<rparr>))
      else case legacy str of None \<Rightarrow> Some s | Some s' \<Rightarrow> Some s')"

subsection \<open>Round trip\<close>

definition entry_bytes :: "LogEntry \<Rightarrow> string" where
  "entry_bytes e = int32_bytes (le_logTerm e) @ int32_bytes (le_logIndex e) @ le_bytes 8 (length (le_command e)) @ le_command e"

definition header_bytes :: "RaftState \<Rightarrow> string" where
  "header_bytes s = EncodePersistHeader (rs_currentTerm s) (rs_votedFor s) (rs_lastSnapshotIncludeIndex s)
     (rs_lastSnapshotIncludeTerm s) (length (rs_logs s))"

definition entry_ok :: "LogEntry \<Rightarrow> bool" where
  "entry_ok e \<longleftrightarrow> int32_range (le_logTerm e) \<and> int32_range (le_logIndex e)"

definition log_bytes :: "LogEntry list \<Rightarrow> string" where
  "log_bytes es = concat (map entry_bytes es)"

text \<open>The state fits its encoding, and so does the file.\<close>

definition state_ok :: "RaftState \<Rightarrow> bool" where
  "state_ok s \<longleftrightarrow> int32_range (rs_currentTerm s) \<and> int32_range (rs_votedFor s) \<and> int32_range (rs_lastSnapshotIncludeIndex s) \<and>
     int32_range (rs_lastSnapshotIncludeTerm s) \<and> list_all entry_ok (rs_logs s)"

lemma log_bytes_simps [simp]:
  "log_bytes [] = []" "log_bytes (e # es) = entry_bytes e @ log_bytes es" "log_bytes (es @ fs) = log_bytes es @ log_bytes fs"
  by (simp_all add: log_bytes_def)

lemma EncodeEntry_eq: "EncodeEntry out e = out @ entry_bytes e"
  by (simp add: EncodeEntry_def entry_bytes_def append_defs)

lemma foldl_EncodeEntry: "foldl EncodeEntry out es = out @ log_bytes es"
  by (induction es arbitrary: out) (simp_all add: EncodeEntry_eq)

lemma EncodePersistTail_eq: "EncodePersistTail logs n = log_bytes (drop n logs)"
  by (simp add: EncodePersistTail_def foldl_EncodeEntry)

lemma persistData_eq: "persistData s = header_bytes s @ log_bytes (rs_logs s)"
  by (simp add: persistData_def EncodePersistData_def foldl_EncodeEntry header_bytes_def)

lemma header_bytes_eq:
  "header_bytes s = kRaftPersistMagic @ int32_bytes (rs_currentTerm s) @ int32_bytes (rs_votedFor s) @
     int32_bytes (rs_lastSnapshotIncludeIndex s) @ int32_bytes (rs_lastSnapshotIncludeTerm s) @ le_bytes 8 (length (rs_logs s))"
  by (simp add: header_bytes_def EncodePersistHeader_def append_defs)

lemma length_magic [simp]: "length kRaftPersistMagic = 5"
  by (simp add: kRaftPersistMagic_def)

lemma length_header [simp]: "length (header_bytes s) = kRaftPersistHeaderSize"
  by (simp add: header_bytes_eq kRaftPersistHeaderSize_def)

lemma ReadLogs_bytes:
  assumes "list_all entry_ok es" "length (a @ log_bytes es @ rest) < 2 ^ 64"
  shows "ReadLogs (length es) (a @ log_bytes es @ rest) (length a) acc = LogsRead (acc @ es)"
  using assms
proof (induction es arbitrary: a acc)
  case Nil
  then show ?case by simp
next
  case (Cons e es)
  let ?t = "int32_bytes (le_logTerm e)" and ?i = "int32_bytes (le_logIndex e)" and ?n = "le_bytes 8 (length (le_command e))"
  let ?tl = "log_bytes es @ rest"
  let ?s = "a @ log_bytes (e # es) @ rest"
  have s: "?s = a @ ?t @ ?i @ ?n @ le_command e @ ?tl" by (simp add: entry_bytes_def)
  have small: "length a + 16 + length (le_command e) + length ?tl < 2 ^ 64"
    using Cons.prems(2) unfolding s by simp
  have 1: "ReadInt32 ?s (length a) = Some (le_logTerm e, length a + 4)"
    by (rule ReadInt32_at [of _ a]) (use Cons.prems(1) in \<open>simp_all add: entry_bytes_def entry_ok_def\<close>)
  have 2: "ReadInt32 ?s (length a + 4) = Some (le_logIndex e, length a + 4 + 4)"
    by (rule ReadInt32_at [of _ "a @ ?t"]) (use Cons.prems(1) in \<open>simp_all add: entry_bytes_def entry_ok_def\<close>)
  have 3: "ReadUint64 ?s (length a + 4 + 4) = Some (length (le_command e), length a + 4 + 4 + 8)"
    by (rule ReadUint64_at [of _ "a @ ?t @ ?i"]) (use small in \<open>simp_all add: entry_bytes_def\<close>)
  have 4: "bytes_at ?s (length a + 4 + 4 + 8) (length (le_command e)) = le_command e"
    using bytes_at_append [of "a @ ?t @ ?i @ ?n" "le_command e @ ?tl" "length (le_command e)"]
    by (simp add: entry_bytes_def ac_simps)
  have 5: "\<not> (length a + 4 + 4 + 8 + length (le_command e)) mod 2 ^ 64 > length ?s"
    "\<not> length a + 4 + 4 + 8 + length (le_command e) \<ge> 2 ^ 64"
    using small by (simp_all add: entry_bytes_def)
  have whole: "\<lparr> le_command = le_command e, le_logTerm = le_logTerm e, le_logIndex = le_logIndex e \<rparr> = e" by simp
  have "ReadLogs (length (e # es)) ?s (length a) acc =
      ReadLogs (length es) ?s (length (a @ entry_bytes e)) (acc @ [e])"
    unfolding list.size(4) add_Suc_right add_0_right ReadLogs.simps 1 2 3 option.case prod.case if_not_P [OF 5(1)] if_not_P [OF 5(2)] 4
    by (simp add: entry_bytes_def add.assoc whole)
  also have "\<dots> = LogsRead ((acc @ [e]) @ es)"
    using Cons.IH [of "a @ entry_bytes e" "acc @ [e]"] Cons.prems by simp
  finally show ?case by simp
qed

text \<open>Bytes behind the encoded state are ignored.\<close>

lemma readPersist_persistData:
  assumes ok: "state_ok s" and small: "length (persistData s @ rest) < 2 ^ 64"
  shows "readPersist legacy (persistData s @ rest) s0 = Some s"
proof -
  let ?m = kRaftPersistMagic
  let ?a = "int32_bytes (rs_currentTerm s)" and ?b = "int32_bytes (rs_votedFor s)"
    and ?c = "int32_bytes (rs_lastSnapshotIncludeIndex s)" and ?d = "int32_bytes (rs_lastSnapshotIncludeTerm s)"
    and ?n = "le_bytes 8 (length (rs_logs s))"
  let ?tl = "log_bytes (rs_logs s) @ rest"
  let ?s = "persistData s @ rest"
  have s: "?s = ?m @ ?a @ ?b @ ?c @ ?d @ ?n @ ?tl" by (simp add: persistData_eq header_bytes_eq)
  have "length (log_bytes es) \<ge> length es" for es by (induction es) (simp_all add: entry_bytes_def)
  from this [of "rs_logs s"] have cnt: "length (rs_logs s) < 2 ^ 64" using small unfolding s by simp
  have magic: "HasBinaryPersistMagic ?s" "?s \<noteq> []"
    by (simp_all add: s HasBinaryPersistMagic_def) (simp add: kRaftPersistMagic_def)
  have 1: "ReadInt32 ?s 5 = Some (rs_currentTerm s, 9)"
    using ReadInt32_at [of ?s ?m "rs_currentTerm s" "?b @ ?c @ ?d @ ?n @ ?tl" 5] ok by (simp add: s state_ok_def)
  have 2: "ReadInt32 ?s 9 = Some (rs_votedFor s, 13)"
    using ReadInt32_at [of ?s "?m @ ?a" "rs_votedFor s" "?c @ ?d @ ?n @ ?tl" 9] ok by (simp add: s state_ok_def)
  have 3: "ReadInt32 ?s 13 = Some (rs_lastSnapshotIncludeIndex s, 17)"
    using ReadInt32_at [of ?s "?m @ ?a @ ?b" "rs_lastSnapshotIncludeIndex s" "?d @ ?n @ ?tl" 13] ok by (simp add: s state_ok_def)
  have 4: "ReadInt32 ?s 17 = Some (rs_lastSnapshotIncludeTerm s, 21)"
    using ReadInt32_at [of ?s "?m @ ?a @ ?b @ ?c" "rs_lastSnapshotIncludeTerm s" "?n @ ?tl" 17] ok by (simp add: s state_ok_def)
  have 5: "ReadUint64 ?s 21 = Some (length (rs_logs s), 29)"
    using ReadUint64_at [of ?s "?m @ ?a @ ?b @ ?c @ ?d" "length (rs_logs s)" ?tl 21] cnt by (simp add: s)
  have 6: "ReadLogs (length (rs_logs s)) ?s 29 [] = LogsRead (rs_logs s)"
    using ReadLogs_bytes [of "rs_logs s" "?m @ ?a @ ?b @ ?c @ ?d @ ?n" rest "[]"] ok small by (simp add: s state_ok_def)
  show ?thesis
    unfolding readPersist_def if_not_P [OF magic(2)] if_P [OF magic(1)] 1 2 3 4 5 Let_def option.case prod.case 6 read_logs.case
    by simp
qed

end
