(* ===== verification/RaftPersister.thy ===== *)
theory RaftPersister
  imports RaftCodec
begin

text \<open>
  The durable store of a Raft node (\<open>raft/persister.cpp\<close>): the state file, the snapshot file and the copy of
  the state file that the process keeps. A write reaches the file in part when the disk fails or the process
  stops, so every operation takes as arguments how far its writes get: the number of bytes of an appended tail or of
  a file that is written in place, and whether a header, a staged file or a rename goes through. The header of 29
  bytes is taken to be written whole or not at all.
\<close>

record Persister =
  pr_raftState :: string
  pr_raftStateSize :: nat
  pr_raftStateFile :: string
  pr_snapshotFile :: string

definition HasBinaryHeader :: "string \<Rightarrow> bool" where
  "HasBinaryHeader str \<longleftrightarrow> length str \<ge> kRaftPersistHeaderSize \<and> take 5 str = kRaftPersistMagic"

definition OpenPersister :: "string \<Rightarrow> string \<Rightarrow> Persister" where
  "OpenPersister stateFile snapshotFile =
     \<lparr> pr_raftState = stateFile, pr_raftStateSize = length stateFile,
       pr_raftStateFile = stateFile, pr_snapshotFile = snapshotFile \<rparr>"

text \<open>Overwriting the head of a file in place, and the process view after a successful write.\<close>

definition overwrite_head :: "string \<Rightarrow> string \<Rightarrow> string" where
  "overwrite_head header file = header @ drop (length header) file"

definition holds_state :: "string \<Rightarrow> Persister \<Rightarrow> Persister" where
  "holds_state str p = p \<lparr> pr_raftState := str, pr_raftStateSize := length str \<rparr>"

text \<open>
  \<open>Save\<close> truncates the state file, then the snapshot file, and writes both with no check. \<open>snapshot_written\<close> is
  \<open>None\<close> when the process stops before the second truncation; otherwise so many bytes of each reach the files.
\<close>

definition clearRaftState :: "Persister \<Rightarrow> Persister" where
  "clearRaftState p = p \<lparr> pr_raftState := [], pr_raftStateSize := 0, pr_raftStateFile := [] \<rparr>"

definition clearSnapshot :: "Persister \<Rightarrow> Persister" where
  "clearSnapshot p = p \<lparr> pr_snapshotFile := [] \<rparr>"

definition Save :: "nat \<Rightarrow> nat option \<Rightarrow> string \<Rightarrow> string \<Rightarrow> Persister \<Rightarrow> Persister" where
  "Save state_written snapshot_written raftstate snapshot p =
     (let p1 = clearRaftState p in
      case snapshot_written of
        None \<Rightarrow> p1
      | Some written \<Rightarrow>
          (let p2 = clearSnapshot p1 in
           holds_state raftstate
             (p2 \<lparr> pr_raftStateFile := pr_raftStateFile p2 @ take state_written raftstate,
                   pr_snapshotFile := pr_snapshotFile p2 @ take written snapshot \<rparr>)))"

definition append_only :: "string \<Rightarrow> string \<Rightarrow> bool" where
  "append_only old new \<longleftrightarrow> HasBinaryHeader old \<and> HasBinaryHeader new \<and> length new \<ge> length old \<and>
     take (length old - kRaftPersistHeaderSize) (drop kRaftPersistHeaderSize new) = drop kRaftPersistHeaderSize old"

text \<open>\<open>tail_written\<close>: bytes of the tail that reach the file; \<open>last_ok\<close>: the header write, or the staged file and its rename.\<close>

definition SaveRaftState :: "nat \<Rightarrow> bool \<Rightarrow> string \<Rightarrow> Persister \<Rightarrow> Persister" where
  "SaveRaftState tail_written last_ok new p =
     (if append_only (pr_raftState p) new then
        (let tail = drop (length (pr_raftState p)) new;
             p1 = p \<lparr> pr_raftStateFile := pr_raftStateFile p @ take tail_written tail \<rparr>
         in if tail_written < length tail then p1
            else if \<not> last_ok then p1
            else holds_state new (p1 \<lparr> pr_raftStateFile := overwrite_head (take kRaftPersistHeaderSize new) (pr_raftStateFile p1) \<rparr>))
      else if \<not> last_ok then p
      else holds_state new (p \<lparr> pr_raftStateFile := new \<rparr>))"

definition AppendRaftState :: "nat \<Rightarrow> bool \<Rightarrow> nat \<Rightarrow> string \<Rightarrow> string \<Rightarrow> Persister \<Rightarrow> bool \<times> Persister" where
  "AppendRaftState tail_written last_ok expectedOldLogCount headerBytes tailBytes p =
     (if \<not> HasBinaryHeader (pr_raftState p) \<or> length headerBytes \<noteq> kRaftPersistHeaderSize then (False, p)
      else if int32_val (bytes_at (pr_raftState p) 13 4) \<noteq> int32_val (bytes_at headerBytes 13 4) \<or>
              le_val (bytes_at (pr_raftState p) 21 8) \<noteq> expectedOldLogCount then (False, p)
      else
        (let p1 = p \<lparr> pr_raftStateFile := pr_raftStateFile p @ take tail_written tailBytes \<rparr>
         in if tail_written < length tailBytes then (False, p1)
            else if \<not> last_ok then (False, p1)
            else (True, holds_state (overwrite_head headerBytes (pr_raftState p) @ tailBytes)
                   (p1 \<lparr> pr_raftStateFile := overwrite_head headerBytes (pr_raftStateFile p1) \<rparr>))))"

text \<open>\<open>StageSnapshot\<close> leaves the staged bytes; publishing them renames the snapshot first, then the state.\<close>

definition StageSnapshot :: "bool \<Rightarrow> string \<Rightarrow> string option" where
  "StageSnapshot write_ok snapshot = (if write_ok then Some snapshot else None)"

definition CommitStagedSnapshot :: "bool \<Rightarrow> bool \<Rightarrow> bool \<Rightarrow> string \<Rightarrow> string \<Rightarrow> Persister \<Rightarrow> bool \<times> Persister" where
  "CommitStagedSnapshot write_ok snapshot_renamed state_renamed raftstate staged p =
     (if \<not> write_ok then (False, p)
      else if \<not> snapshot_renamed then (False, p)
      else let p1 = p \<lparr> pr_snapshotFile := staged \<rparr> in
           if \<not> state_renamed then (False, p1)
           else (True, holds_state raftstate (p1 \<lparr> pr_raftStateFile := raftstate \<rparr>)))"

definition ReadSnapshot :: "Persister \<Rightarrow> string" where
  "ReadSnapshot p = pr_snapshotFile p"

definition RaftStateSize :: "Persister \<Rightarrow> nat" where
  "RaftStateSize p = pr_raftStateSize p"

definition ReadRaftState :: "Persister \<Rightarrow> string" where
  "ReadRaftState p = pr_raftState p"

text \<open>\<open>Raft::persist\<close> and \<open>Raft::persistAppended\<close> with writes that go through as given.\<close>

definition persist_state :: "nat \<Rightarrow> bool \<Rightarrow> RaftState \<Rightarrow> Persister \<Rightarrow> Persister" where
  "persist_state tail_written last_ok s p = SaveRaftState tail_written last_ok (persistData s) p"

definition persistAppended_state :: "nat \<Rightarrow> bool \<Rightarrow> nat \<Rightarrow> RaftState \<Rightarrow> Persister \<Rightarrow> Persister" where
  "persistAppended_state tail_written last_ok oldLogSize s p =
     (if oldLogSize \<le> length (rs_logs s) then
        (case AppendRaftState tail_written last_ok oldLogSize (header_bytes s) (EncodePersistTail (rs_logs s) oldLogSize) p of
           (True, p') \<Rightarrow> p'
         | (False, p') \<Rightarrow> persist_state tail_written last_ok s p')
      else persist_state tail_written last_ok s p)"

section \<open>What the files hold\<close>

text \<open>The process copy is the file, which holds exactly a state.\<close>

definition stores :: "RaftState \<Rightarrow> Persister \<Rightarrow> bool" where
  "stores s p \<longleftrightarrow> pr_raftState p = persistData s \<and> pr_raftStateFile p = persistData s \<and> pr_raftStateSize p = length (persistData s)"

lemma HasBinaryHeader_persistData [simp]: "HasBinaryHeader (persistData s @ rest)"
  by (simp add: HasBinaryHeader_def persistData_eq header_bytes_eq kRaftPersistHeaderSize_def)

lemma HasBinaryHeader_persistData' [simp]: "HasBinaryHeader (persistData s)"
  using HasBinaryHeader_persistData [of s "[]"] by simp

lemma overwrite_whole:
  assumes "append_only old new"
  shows "overwrite_head (take kRaftPersistHeaderSize new) (old @ drop (length old) new) = new"
proof -
  let ?h = kRaftPersistHeaderSize
  have h: "?h \<le> length old" "length old \<le> length new" and
    body: "take (length old - ?h) (drop ?h new) = drop ?h old"
    using assms by (simp_all add: append_only_def HasBinaryHeader_def)
  have "drop ?h (old @ drop (length old) new) = take (length old - ?h) (drop ?h new) @ drop (length old - ?h) (drop ?h new)"
    using h by (simp add: body)
  also have "\<dots> = drop ?h new" by (rule append_take_drop_id)
  finally show ?thesis using h by (simp add: overwrite_head_def)
qed

lemma SaveRaftState_stores:
  assumes "pr_raftStateFile p = pr_raftState p" "length (persistData s) \<le> n"
  shows "stores s (SaveRaftState n True (persistData s) p)"
  using assms overwrite_whole [of "pr_raftState p" "persistData s"]
  by (auto simp: SaveRaftState_def stores_def holds_state_def Let_def)

text \<open>The append trusts the header of the process copy; bytes \<open>x\<close> behind the counted entries stay in the way.\<close>

lemma AppendRaftState_behind:
  assumes st: "pr_raftState p = persistData s @ x" "pr_raftStateFile p = persistData s @ x"
    and same: "rs_lastSnapshotIncludeIndex s' = rs_lastSnapshotIncludeIndex s"
    and logs: "rs_logs s' = rs_logs s @ es"
    and small: "length (persistData s) < 2 ^ 64" and n: "length (log_bytes es) \<le> n"
  defines "file \<equiv> header_bytes s' @ log_bytes (rs_logs s) @ x @ log_bytes es"
  shows "AppendRaftState n True (length (rs_logs s)) (header_bytes s') (EncodePersistTail (rs_logs s') (length (rs_logs s))) p =
           (True, p \<lparr> pr_raftState := file, pr_raftStateFile := file, pr_raftStateSize := length file \<rparr>)"
proof -
  let ?m = kRaftPersistMagic
  let ?pre = "\<lambda>s. ?m @ int32_bytes (rs_currentTerm s) @ int32_bytes (rs_votedFor s)"
  let ?post = "\<lambda>s. int32_bytes (rs_lastSnapshotIncludeTerm s) @ le_bytes 8 (length (rs_logs s))"
  have "length (log_bytes xs) \<ge> length xs" for xs by (induction xs) (simp_all add: entry_bytes_def)
  from this [of "rs_logs s"] have cnt: "length (rs_logs s) < 2 ^ 64" using small by (simp add: persistData_eq)
  have hi: "bytes_at (header_bytes s @ y) 13 4 = int32_bytes (rs_lastSnapshotIncludeIndex s)" for s y
    using bytes_at_append [of "?pre s" "int32_bytes (rs_lastSnapshotIncludeIndex s) @ ?post s @ y" 4] by (simp add: header_bytes_eq)
  have c: "bytes_at (header_bytes s @ y) 21 8 = le_bytes 8 (length (rs_logs s))" for y
    using bytes_at_append [of "?pre s @ int32_bytes (rs_lastSnapshotIncludeIndex s) @ int32_bytes (rs_lastSnapshotIncludeTerm s)"
        "le_bytes 8 (length (rs_logs s)) @ y" 8] by (simp add: header_bytes_eq)
  have i: "bytes_at (persistData s @ x) 13 4 = int32_bytes (rs_lastSnapshotIncludeIndex s)"
    using hi [of s "log_bytes (rs_logs s) @ x"] by (simp add: persistData_eq)
  have hi': "bytes_at (header_bytes s') 13 4 = int32_bytes (rs_lastSnapshotIncludeIndex s')" using hi [of s' "[]"] by simp
  have c': "le_val (bytes_at (persistData s @ x) 21 8) = length (rs_logs s)"
    using c [of "log_bytes (rs_logs s) @ x"] cnt by (simp add: persistData_eq)
  have over: "overwrite_head (header_bytes s') (persistData s @ y) = header_bytes s' @ log_bytes (rs_logs s) @ y" for y
    by (simp add: overwrite_head_def persistData_eq)
  have tail: "EncodePersistTail (rs_logs s') (length (rs_logs s)) = log_bytes es" by (simp add: EncodePersistTail_eq logs)
  show ?thesis
    unfolding tail using st n over [of x] over [of "x @ log_bytes es"]
    by (simp add: AppendRaftState_def i hi' c' same holds_state_def Let_def file_def)
qed

lemma AppendRaftState_stores:
  assumes st: "stores s p" and same: "rs_lastSnapshotIncludeIndex s' = rs_lastSnapshotIncludeIndex s"
    and logs: "rs_logs s' = rs_logs s @ es"
    and small: "length (persistData s) < 2 ^ 64" and n: "length (log_bytes es) \<le> n"
  shows "\<exists>p'. AppendRaftState n True (length (rs_logs s)) (header_bytes s') (EncodePersistTail (rs_logs s') (length (rs_logs s))) p = (True, p') \<and>
           stores s' p' \<and> pr_snapshotFile p' = pr_snapshotFile p"
proof -
  have "persistData s' = header_bytes s' @ log_bytes (rs_logs s) @ log_bytes es" by (simp add: persistData_eq logs)
  then show ?thesis
    using AppendRaftState_behind [of p s "[]" s' es n, OF _ _ same logs small n] st by (simp add: stores_def)
qed

lemma stores_recovers:
  "\<lbrakk> stores s p; state_ok s; length (persistData s) < 2 ^ 64 \<rbrakk> \<Longrightarrow> readPersist legacy (ReadRaftState p) s0 = Some s"
  using readPersist_persistData [of s "[]" legacy s0] by (simp add: stores_def ReadRaftState_def)

text \<open>Interrupted writes leave extra bytes behind the stored state.\<close>

lemma interrupted_file:
  assumes "stores s p"
  shows "\<exists>x. pr_raftStateFile (SaveRaftState n False new p) = persistData s @ x \<and> length x \<le> length new"
    and "\<exists>x. pr_raftStateFile (snd (AppendRaftState n False c h t p)) = persistData s @ x \<and> length x \<le> length t"
  using assms by (auto simp: SaveRaftState_def AppendRaftState_def stores_def Let_def)

lemma interrupted_tail:
  assumes "stores s p"
  shows "n < length new - length (persistData s) \<Longrightarrow> append_only (persistData s) new \<Longrightarrow>
      SaveRaftState n ok new p = SaveRaftState n False new p"
    and "n < length t \<Longrightarrow> AppendRaftState n ok c h t p = AppendRaftState n False c h t p"
  using assms by (auto simp: SaveRaftState_def AppendRaftState_def stores_def Let_def)

lemma SaveRaftState_complete:
  assumes "stores s p" "\<not> (append_only (persistData s) (persistData s') \<and> n < length (persistData s') - length (persistData s))"
  shows "stores s' (SaveRaftState n True (persistData s') p)"
  using assms overwrite_whole [of "persistData s" "persistData s'"]
  by (auto simp: SaveRaftState_def stores_def holds_state_def Let_def)

text \<open>What a process finds when it starts on the files that another one left.\<close>

definition recovered :: "(string \<Rightarrow> RaftState option) \<Rightarrow> RaftState \<Rightarrow> Persister \<Rightarrow> RaftState option" where
  "recovered legacy s0 p = readPersist legacy (ReadRaftState (OpenPersister (pr_raftStateFile p) (pr_snapshotFile p))) s0"

lemma recovered_eq: "recovered legacy s0 p = readPersist legacy (pr_raftStateFile p) s0"
  by (simp add: recovered_def OpenPersister_def ReadRaftState_def)

lemma recovered_stores:
  "\<lbrakk> stores s p; state_ok s; length (persistData s) < 2 ^ 64 \<rbrakk> \<Longrightarrow> recovered legacy s0 p = Some s"
  using readPersist_persistData [of s "[]"] by (simp add: recovered_eq stores_def)

lemma recovered_behind:
  "\<lbrakk> pr_raftStateFile p = persistData s @ x; state_ok s; length (persistData s) + length x < 2 ^ 64 \<rbrakk> \<Longrightarrow>
   recovered legacy s0 p = Some s"
  using readPersist_persistData [of s x] by (simp add: recovered_eq)

section \<open>Properties\<close>


definition sample_entry :: "int \<Rightarrow> string \<Rightarrow> LogEntry" where
  "sample_entry t c = \<lparr> le_command = c, le_logTerm = t, le_logIndex = 1 \<rparr>"

definition sample_state :: "LogEntry list \<Rightarrow> RaftState" where
  "sample_state es = \<lparr> rs_currentTerm = 2, rs_votedFor = -1, rs_lastSnapshotIncludeIndex = 0, rs_lastSnapshotIncludeTerm = 0, rs_logs = es \<rparr>"

lemma sample_state_ok: "state_ok (sample_state [])" "state_ok (sample_state [sample_entry t c])" if "t = 1 \<or> t = 2"
  using that by (auto simp: state_ok_def sample_state_def sample_entry_def entry_ok_def int32_range_def)

lemma sample_state_size:
  "length (persistData (sample_state [])) = 29" "length (persistData (sample_state [sample_entry t c])) = 45 + length c"
  by (simp_all add: persistData_eq kRaftPersistHeaderSize_def sample_state_def sample_entry_def entry_bytes_def)




text \<open>
  A tail left by an interrupted append is ignored once, but not removed: the next append goes behind it and counts
  it, so that the process after that reads the abandoned entries in place of the stored ones.
\<close>

lemma abandoned_tail_replaces_stored_entries:
  assumes st: "stores s p" and ok: "state_ok (s' \<lparr> rs_logs := rs_logs s @ lost \<rparr>)"
    and same: "rs_lastSnapshotIncludeIndex s' = rs_lastSnapshotIncludeIndex s"
    and logs: "rs_logs s' = rs_logs s @ kept" "length kept = length lost"
    and small: "length (persistData s') + length (log_bytes lost) < 2 ^ 64" "length (persistData s) < 2 ^ 64"
  defines "stopped \<equiv> p \<lparr> pr_raftStateFile := pr_raftStateFile p @ log_bytes lost \<rparr>"
  defines "reopened \<equiv> OpenPersister (pr_raftStateFile stopped) (pr_snapshotFile stopped)"
  shows "recovered legacy s0 (persistAppended_state (length (log_bytes kept)) True (length (rs_logs s)) s' reopened) =
           Some (s' \<lparr> rs_logs := rs_logs s @ lost \<rparr>)"
proof -
  let ?got = "s' \<lparr> rs_logs := rs_logs s @ lost \<rparr>"
  let ?file = "header_bytes s' @ log_bytes (rs_logs s) @ log_bytes lost @ log_bytes kept"
  have hdr: "header_bytes ?got = header_bytes s'" by (simp add: header_bytes_def logs)
  have whole: "?file = persistData ?got @ log_bytes kept" by (simp add: persistData_eq hdr)
  have re: "pr_raftState reopened = persistData s @ log_bytes lost" "pr_raftStateFile reopened = persistData s @ log_bytes lost"
    using st by (simp_all add: reopened_def stopped_def OpenPersister_def stores_def)
  have "pr_raftStateFile (persistAppended_state (length (log_bytes kept)) True (length (rs_logs s)) s' reopened) = ?file"
    using AppendRaftState_behind [OF re same logs(1) small(2) order_refl] by (simp add: persistAppended_state_def logs)
  moreover have "length (persistData ?got) + length (log_bytes kept) < 2 ^ 64"
    using small(1) by (simp add: persistData_eq hdr logs)
  ultimately show ?thesis using whole ok by (intro recovered_behind [of _ _ "log_bytes kept"]) auto
qed

text \<open>
  \<open>Save\<close> has no state to fall back on: a process that stops after the truncation leaves an empty state file, and the
  next one starts with the term, vote and log it was built with. When all bytes reach the files both are stored.
\<close>

lemma interrupted_Save_forgets:
  "recovered legacy s0 (Save 0 snapshot_written raftstate snapshot p) = Some s0"
  by (simp add: recovered_eq Save_def clearRaftState_def clearSnapshot_def holds_state_def readPersist_def Let_def split: option.split)

lemma completed_Save_stores:
  assumes "length (persistData s) \<le> n" "length snapshot \<le> m"
  shows "stores s (Save n (Some m) (persistData s) snapshot p) \<and> ReadSnapshot (Save n (Some m) (persistData s) snapshot p) = snapshot"
  using assms by (simp add: Save_def clearRaftState_def clearSnapshot_def holds_state_def stores_def ReadSnapshot_def Let_def)

end
