(* ===== verification/RaftNode.thy ===== *)
theory RaftNode
  imports RaftPersister MetadataTypes
begin

text \<open>
  One Raft node (\<open>raft/raft.cpp\<close>, \<open>raft/include/raft.h\<close>): its state, and one definition per handler, each the whole
  critical section that the code runs under \<open>m_mtx\<close>. A handler that can fail an assertion or index outside a vector
  gives \<open>None\<close> there (\<open>myAssert\<close> ends the process). Indexes and terms are mathematical integers: signed overflow is
  undefined in the source. Times are milliseconds of the monotonic clock and arguments. What the node has made
  durable is a field of its state, a typed view of the files of \<open>RaftPersister\<close> whose writes succeed; the statistics
  counters, the debug output and the loops of the timer threads are left out.
\<close>

section \<open>Messages\<close>

record AppendEntriesArgs =
  ae_term :: int
  ae_leaderId :: int
  ae_prevLogIndex :: int
  ae_prevLogTerm :: int
  ae_entries :: "LogEntry list"
  ae_leaderCommit :: int
  ae_readContext :: u64

record AppendEntriesReply =
  ar_term :: int
  ar_success :: bool
  ar_updateNextIndex :: int
  ar_appState :: int
  ar_readContextAck :: u64
  ar_readContextAccepted :: bool

record RequestVoteArgs =
  va_term :: int
  va_candidateId :: int
  va_lastLogIndex :: int
  va_lastLogTerm :: int

record RequestVoteReply =
  vr_term :: int
  vr_voteGranted :: bool
  vr_voteState :: int

record InstallSnapshotRequest =
  is_leaderId :: int
  is_term :: int
  is_lastSnapshotIncludeIndex :: int
  is_lastSnapshotIncludeTerm :: int
  is_data :: string
  is_chunkOffset :: nat
  is_chunkDone :: bool

record ApplyMsg =
  am_CommandValid :: bool
  am_Command :: string
  am_CommandIndex :: int
  am_ProposalRejected :: bool
  am_SnapshotValid :: bool
  am_Snapshot :: string
  am_SnapshotTerm :: int
  am_SnapshotIndex :: int

definition Disconnected :: int where "Disconnected = 0"

definition AppNormal :: int where "AppNormal = 1"

definition Voted :: int where "Voted = 1"

definition Expire :: int where "Expire = 2"

definition Normal :: int where "Normal = 3"

definition minRandomizedElectionTime :: int where "minRandomizedElectionTime = 2000"

definition new_reply :: AppendEntriesReply where
  "new_reply = \<lparr> ar_term = 0, ar_success = False, ar_updateNextIndex = 0, ar_appState = 0, ar_readContextAck = 0,
     ar_readContextAccepted = False \<rparr>"

definition NewApplyMsg :: ApplyMsg where
  "NewApplyMsg = \<lparr> am_CommandValid = False, am_Command = [], am_CommandIndex = -1, am_ProposalRejected = False,
     am_SnapshotValid = False, am_Snapshot = [], am_SnapshotTerm = -1, am_SnapshotIndex = -1 \<rparr>"

section \<open>State\<close>

datatype Status = Follower | Candidate | Leader

datatype PeerRole = Voter | Learner | Removed

datatype ReadIndexStatus = ReadOk | ReadNotLeader | ReadTimeout

record ReadIndexResult =
  rr_status :: ReadIndexStatus
  rr_term :: int
  rr_readIndex :: int
  rr_context :: u64

record ReadWaiter =
  rw_deadline :: int
  rw_completed :: bool
  rw_result :: ReadIndexResult

record ReadRound =
  rd_context :: u64
  rd_term :: int
  rd_readIndex :: int
  rd_acknowledgedPeers :: "int list"
  rd_waiters :: "nat list"

text \<open>
  A \<open>ReadWaiter\<close> is shared between the thread that waits and the queues of the node, so the queues hold its number in
  \<open>rf_waiters\<close>. \<open>rf_votedNum\<close> is the counter that the vote requests of one election share, by the term of the
  election: a process starts at most one election in a term. \<open>rf_peers\<close> tells for which peers there is an RPC stub.
\<close>

record Raft =
  rf_initialized :: bool
  rf_backgroundWorkersStarted :: bool
  rf_shutdown :: bool
  rf_peers :: "bool list"
  rf_me :: int
  rf_currentTerm :: int
  rf_votedFor :: int
  rf_logs :: "LogEntry list"
  rf_commitIndex :: int
  rf_lastApplied :: int
  rf_nextIndex :: "int list"
  rf_matchIndex :: "int list"
  rf_status :: Status
  rf_applyChan :: "ApplyMsg list"
  rf_lastResetElectionTime :: int
  rf_lastLeaderContactTime :: "int option"
  rf_lastSnapshotIncludeIndex :: int
  rf_lastSnapshotIncludeTerm :: int
  rf_proposeQueue :: "Op list"
  rf_nextReadContext :: u64
  rf_pendingReadWaiters :: "nat list"
  rf_activeReadRound :: "ReadRound option"
  rf_waiters :: "ReadWaiter list"
  rf_votedNum :: "int \<Rightarrow> int"
  rf_peerIds :: "u64 list"
  rf_peerRoles :: "PeerRole list"
  rf_localPeerId :: u64
  rf_removed :: bool
  rf_confChangePendingInQueue :: bool
  rf_snapshotReceiveBuffer :: string
  rf_disk :: "RaftState option"
  rf_snapshot :: string

section \<open>Durable state\<close>

definition raft_state :: "Raft \<Rightarrow> RaftState" where
  "raft_state s = \<lparr> rs_currentTerm = rf_currentTerm s, rs_votedFor = rf_votedFor s,
     rs_lastSnapshotIncludeIndex = rf_lastSnapshotIncludeIndex s, rs_lastSnapshotIncludeTerm = rf_lastSnapshotIncludeTerm s,
     rs_logs = rf_logs s \<rparr>"

definition persist :: "Raft \<Rightarrow> Raft" where
  "persist s = s \<lparr> rf_disk := Some (raft_state s) \<rparr>"

text \<open>The append of new entries trusts the number of entries on disk, as \<open>Persister::AppendRaftState\<close> does.\<close>

definition persistAppended :: "nat \<Rightarrow> Raft \<Rightarrow> Raft" where
  "persistAppended oldLogSize s =
     (case rf_disk s of
        None \<Rightarrow> persist s
      | Some d \<Rightarrow>
          if oldLogSize \<le> length (rf_logs s) \<and> rs_lastSnapshotIncludeIndex d = rf_lastSnapshotIncludeIndex s \<and>
             length (rs_logs d) = oldLogSize
          then s \<lparr> rf_disk := Some ((raft_state s) \<lparr> rs_logs := rs_logs d @ drop oldLogSize (rf_logs s) \<rparr>) \<rparr>
          else persist s)"

section \<open>The log\<close>

definition getLastLogIndexAndTerm :: "Raft \<Rightarrow> int \<times> int" where
  "getLastLogIndexAndTerm s =
     (if rf_logs s = [] then (rf_lastSnapshotIncludeIndex s, rf_lastSnapshotIncludeTerm s)
      else (le_logIndex (last (rf_logs s)), le_logTerm (last (rf_logs s))))"

definition getLastLogIndex :: "Raft \<Rightarrow> int" where
  "getLastLogIndex s = fst (getLastLogIndexAndTerm s)"

definition getLastLogTerm :: "Raft \<Rightarrow> int" where
  "getLastLogTerm s = snd (getLastLogIndexAndTerm s)"

definition getNewCommandIndex :: "Raft \<Rightarrow> int" where
  "getNewCommandIndex s = getLastLogIndex s + 1"

definition getSlicesIndexFromLogIndex :: "int \<Rightarrow> Raft \<Rightarrow> nat option" where
  "getSlicesIndexFromLogIndex logIndex s =
     (if logIndex > rf_lastSnapshotIncludeIndex s \<and> logIndex \<le> getLastLogIndex s
      then Some (nat (logIndex - rf_lastSnapshotIncludeIndex s - 1)) else None)"

definition log_at :: "int \<Rightarrow> Raft \<Rightarrow> LogEntry option" where
  "log_at logIndex s =
     (case getSlicesIndexFromLogIndex logIndex s of
        None \<Rightarrow> None
      | Some i \<Rightarrow> if i < length (rf_logs s) then Some (rf_logs s ! i) else None)"

definition getLogTermFromLogIndex :: "int \<Rightarrow> Raft \<Rightarrow> int option" where
  "getLogTermFromLogIndex logIndex s =
     (if logIndex < rf_lastSnapshotIncludeIndex s \<or> logIndex > getLastLogIndex s then None
      else if logIndex = rf_lastSnapshotIncludeIndex s then Some (rf_lastSnapshotIncludeTerm s)
      else map_option le_logTerm (log_at logIndex s))"

definition matchLog :: "int \<Rightarrow> int \<Rightarrow> Raft \<Rightarrow> bool option" where
  "matchLog logIndex logTerm s =
     (if logIndex < rf_lastSnapshotIncludeIndex s \<or> logIndex > getLastLogIndex s then None
      else map_option (\<lambda>t. logTerm = t) (getLogTermFromLogIndex logIndex s))"

definition UpToDate :: "int \<Rightarrow> int \<Rightarrow> Raft \<Rightarrow> bool" where
  "UpToDate index term s =
     (case getLastLogIndexAndTerm s of (lastIndex, lastTerm) \<Rightarrow>
        term > lastTerm \<or> term = lastTerm \<and> index \<ge> lastIndex)"

section \<open>Membership\<close>

definition getVoterCountLocked :: "Raft \<Rightarrow> int" where
  "getVoterCountLocked s =
     (if rf_peerRoles s = [] then int (length (rf_peers s))
      else int (length (filter (\<lambda>role. role = Voter) (rf_peerRoles s))))"

definition getQuorumLocked :: "Raft \<Rightarrow> int" where
  "getQuorumLocked s = getVoterCountLocked s div 2 + 1"

definition role_is :: "bool \<Rightarrow> PeerRole \<Rightarrow> int \<Rightarrow> Raft \<Rightarrow> bool" where
  "role_is outside role server s =
     (if server < 0 \<or> server \<ge> int (length (rf_peerRoles s)) then outside else rf_peerRoles s ! nat server = role)"

definition isVoterLocked :: "int \<Rightarrow> Raft \<Rightarrow> bool" where
  "isVoterLocked server s = role_is True Voter server s"

definition isLearnerLocked :: "int \<Rightarrow> Raft \<Rightarrow> bool" where
  "isLearnerLocked server s = role_is False Learner server s"

definition isRemovedLocked :: "int \<Rightarrow> Raft \<Rightarrow> bool" where
  "isRemovedLocked server s = role_is False Removed server s"

section \<open>Linearizable reads\<close>

definition finish_waiter :: "(ReadWaiter \<Rightarrow> ReadIndexResult) \<Rightarrow> nat \<Rightarrow> ReadWaiter list \<Rightarrow> ReadWaiter list" where
  "finish_waiter f w ws =
     (if w < length ws then ws[w := (ws ! w) \<lparr> rw_result := f (ws ! w), rw_completed := True \<rparr>] else ws)"

definition hasCommittedEntryInCurrentTermLocked :: "Raft \<Rightarrow> bool option" where
  "hasCommittedEntryInCurrentTermLocked s =
     (if rf_commitIndex s < rf_lastSnapshotIncludeIndex s \<or> rf_commitIndex s > getLastLogIndex s then Some False
      else map_option (\<lambda>t. t = rf_currentTerm s) (getLogTermFromLogIndex (rf_commitIndex s) s))"

definition abortReadIndexLocked :: "ReadIndexStatus \<Rightarrow> Raft \<Rightarrow> Raft" where
  "abortReadIndexLocked status s =
     (let result = (\<lambda>context. \<lparr> rr_status = status, rr_term = rf_currentTerm s, rr_readIndex = -1, rr_context = context \<rparr>);
          ws = fold (finish_waiter (\<lambda>_. result 0)) (rf_pendingReadWaiters s) (rf_waiters s)
      in s \<lparr> rf_pendingReadWaiters := [], rf_activeReadRound := None,
             rf_waiters := (case rf_activeReadRound s of None \<Rightarrow> ws
               | Some round \<Rightarrow> fold (finish_waiter (\<lambda>_. result (rd_context round))) (rd_waiters round) ws) \<rparr>)"

definition completeReadRoundIfQuorumLocked :: "int \<Rightarrow> Raft \<Rightarrow> Raft" where
  "completeReadRoundIfQuorumLocked now s =
     (case rf_activeReadRound s of
        None \<Rightarrow> s
      | Some round \<Rightarrow>
          if rd_term round \<noteq> rf_currentTerm s \<or> rf_status s \<noteq> Leader then s
          else if int (length (filter (\<lambda>p. isVoterLocked p s) (rd_acknowledgedPeers round))) < getQuorumLocked s then s
          else s \<lparr> rf_activeReadRound := None,
                 rf_waiters := fold (finish_waiter (\<lambda>w. \<lparr> rr_status = (if rw_deadline w \<le> now then ReadTimeout else ReadOk),
                   rr_term = rd_term round, rr_readIndex = rd_readIndex round, rr_context = rd_context round \<rparr>))
                   (rd_waiters round) (rf_waiters s) \<rparr>)"

definition removeReadWaiterLocked :: "nat \<Rightarrow> Raft \<Rightarrow> Raft" where
  "removeReadWaiterLocked waiter s =
     s \<lparr> rf_pendingReadWaiters := removeAll waiter (rf_pendingReadWaiters s),
        rf_activeReadRound := (case rf_activeReadRound s of None \<Rightarrow> None
          | Some round \<Rightarrow> let ws = removeAll waiter (rd_waiters round) in
              if ws = [] then None else Some (round \<lparr> rd_waiters := ws \<rparr>)) \<rparr>"

text \<open>The start of a read round, which the heartbeat and every replication worker attempt.\<close>

definition StartReadRound :: "int \<Rightarrow> Raft \<Rightarrow> Raft option" where
  "StartReadRound now s =
     (if rf_activeReadRound s = None \<and> rf_pendingReadWaiters s \<noteq> [] then
        (case hasCommittedEntryInCurrentTermLocked s of
           None \<Rightarrow> None
         | Some False \<Rightarrow> Some s
         | Some True \<Rightarrow>
             (let c = rf_nextReadContext s + 1; context = (if c = 0 then c + 1 else c);
                  round = \<lparr> rd_context = context, rd_term = rf_currentTerm s, rd_readIndex = rf_commitIndex s,
                            rd_acknowledgedPeers = [rf_me s], rd_waiters = rf_pendingReadWaiters s \<rparr>
              in Some (completeReadRoundIfQuorumLocked now (s \<lparr> rf_nextReadContext := context,
                   rf_pendingReadWaiters := [], rf_activeReadRound := Some round \<rparr>))))
      else Some s)"

section \<open>Steps of a role\<close>

text \<open>Stepping down into a higher term: role, term and vote change together.\<close>

definition step_down :: "int \<Rightarrow> Raft \<Rightarrow> Raft" where
  "step_down term s =
     (abortReadIndexLocked ReadNotLeader s) \<lparr> rf_status := Follower, rf_currentTerm := term, rf_votedFor := -1 \<rparr>"

text \<open>A request of the leader that is not from an older term makes the receiver a follower.\<close>

definition follow :: "int \<Rightarrow> Raft \<Rightarrow> Raft" where
  "follow now s =
     (if rf_status s = Leader then abortReadIndexLocked ReadNotLeader s else s)
       \<lparr> rf_status := Follower, rf_lastResetElectionTime := now, rf_lastLeaderContactTime := Some now \<rparr>"

text \<open>
  The replicas that hold an index, for the voters among the peers. \<open>rf_matchIndex\<close> is as long as \<open>rf_peers\<close> in every
  state of \<open>node_ok\<close>; a peer without an entry is not counted.
\<close>

definition replicas :: "int \<Rightarrow> Raft \<Rightarrow> nat list" where
  "replicas index s = filter (\<lambda>i. isVoterLocked (int i) s \<and>
     (int i = rf_me s \<or> i < length (rf_matchIndex s) \<and> rf_matchIndex s ! i \<ge> index)) [0..<length (rf_peers s)]"

fun CommitScan :: "int list \<Rightarrow> Raft \<Rightarrow> Raft option" where
  "CommitScan [] s = Some s"
| "CommitScan (index # indexes) s =
     (if int (length (replicas index s)) \<ge> getQuorumLocked s then
        (case getLogTermFromLogIndex index s of
           None \<Rightarrow> None
         | Some t \<Rightarrow> if t = rf_currentTerm s then Some (s \<lparr> rf_commitIndex := index \<rparr>) else CommitScan indexes s)
      else CommitScan indexes s)"

definition leaderUpdateCommitIndex :: "Raft \<Rightarrow> Raft option" where
  "leaderUpdateCommitIndex s = CommitScan (rev [rf_commitIndex s + 1..getLastLogIndex s]) s"

definition noop_entry :: "int \<Rightarrow> int \<Rightarrow> LogEntry" where
  "noop_entry term index = \<lparr> le_command = Op_asString \<lparr> op_Operation = ''RaftNoop'', op_Key = [], op_Value = [],
       op_ClientId = ''raft-internal'', op_RequestId = term, op_Status = [] \<rparr>,
     le_logTerm = term, le_logIndex = index \<rparr>"

text \<open>Taking over as leader: reset the progress of the peers and append an entry of the own term.\<close>

definition become_leader :: "Raft \<Rightarrow> Raft" where
  "become_leader s =
     (let lastLogIndex = getLastLogIndex s
      in s \<lparr> rf_status := Leader,
             rf_nextIndex := map (\<lambda>_. lastLogIndex + 1) (rf_nextIndex s),
             rf_matchIndex := map (\<lambda>_. 0) (rf_nextIndex s) @ drop (length (rf_nextIndex s)) (rf_matchIndex s),
             rf_logs := rf_logs s @ [noop_entry (rf_currentTerm s) (lastLogIndex + 1)] \<rparr>)"

section \<open>Elections\<close>

definition vote_args :: "Raft \<Rightarrow> RequestVoteArgs" where
  "vote_args s = \<lparr> va_term = rf_currentTerm s, va_candidateId = rf_me s,
     va_lastLogIndex = getLastLogIndex s, va_lastLogTerm = getLastLogTerm s \<rparr>"

text \<open>The second component lists the peers to which \<open>doElection\<close> sends its vote request.\<close>

definition doElection :: "int \<Rightarrow> Raft \<Rightarrow> (Raft \<times> (int \<times> RequestVoteArgs) list) option" where
  "doElection now s =
     (if rf_removed s \<or> isLearnerLocked (rf_me s) s then Some (s, [])
      else if rf_status s = Leader then Some (s, [])
      else
        (let s1 = abortReadIndexLocked ReadNotLeader s;
             s2 = persist (s1 \<lparr> rf_status := Candidate, rf_currentTerm := rf_currentTerm s1 + 1, rf_votedFor := rf_me s1 \<rparr>);
             s3 = s2 \<lparr> rf_votedNum := (rf_votedNum s2)(rf_currentTerm s2 := 1), rf_lastResetElectionTime := now \<rparr>
         in if 1 \<ge> getQuorumLocked s3 then
              (case leaderUpdateCommitIndex (become_leader (s3 \<lparr> rf_votedNum := (rf_votedNum s3)(rf_currentTerm s3 := 0) \<rparr>)) of
                 None \<Rightarrow> None
               | Some s4 \<Rightarrow> Some (persist s4, []))
            else Some (s3, map (\<lambda>i. (int i, vote_args s3))
                   (filter (\<lambda>i. int i \<noteq> rf_me s3 \<and> isVoterLocked (int i) s3) [0..<length (rf_peers s3)]))))"

definition refuse_vote :: "int \<Rightarrow> Raft \<Rightarrow> RequestVoteReply" where
  "refuse_vote state s = \<lparr> vr_term = rf_currentTerm s, vr_voteGranted = False, vr_voteState = state \<rparr>"

definition RequestVote :: "int \<Rightarrow> RequestVoteArgs \<Rightarrow> Raft \<Rightarrow> RequestVoteReply \<times> Raft" where
  "RequestVote now args s =
     (if rf_removed s \<or> isLearnerLocked (rf_me s) s \<or> \<not> isVoterLocked (va_candidateId args) s
      then (refuse_vote Expire s, persist s)
      else if va_term args < rf_currentTerm s then (refuse_vote Expire s, persist s)
      else if va_term args > rf_currentTerm s \<and>
              (case rf_lastLeaderContactTime s of None \<Rightarrow> False | Some t \<Rightarrow> now - t < minRandomizedElectionTime)
      then (refuse_vote Expire s, persist s)
      else
        (let s1 = (if va_term args > rf_currentTerm s then step_down (va_term args) s else s)
         in if \<not> UpToDate (va_lastLogIndex args) (va_lastLogTerm args) s1 then (refuse_vote Voted s1, persist s1)
            else if rf_votedFor s1 \<noteq> -1 \<and> rf_votedFor s1 \<noteq> va_candidateId args then (refuse_vote Voted s1, persist s1)
            else (\<lparr> vr_term = rf_currentTerm s1, vr_voteGranted = True, vr_voteState = Normal \<rparr>,
                  persist (s1 \<lparr> rf_votedFor := va_candidateId args, rf_lastResetElectionTime := now \<rparr>))))"

text \<open>\<open>sendRequestVote\<close> after the reply has arrived. \<open>None\<close> is the assertion against a second leadership.\<close>

definition HandleVoteReply :: "RequestVoteArgs \<Rightarrow> RequestVoteReply \<Rightarrow> Raft \<Rightarrow> Raft option" where
  "HandleVoteReply args reply s =
     (if vr_term reply > rf_currentTerm s then Some (persist (step_down (vr_term reply) s))
      else if vr_term reply < rf_currentTerm s then Some s
      else if \<not> vr_voteGranted reply then Some s
      else
        (let votes = rf_votedNum s (va_term args) + 1
         in if votes \<ge> getQuorumLocked s then
              (if rf_status s = Leader then None
               else Some (persist (become_leader (s \<lparr> rf_votedNum := (rf_votedNum s)(va_term args := 0) \<rparr>))))
            else Some (s \<lparr> rf_votedNum := (rf_votedNum s)(va_term args := votes) \<rparr>)))"

section \<open>Replication\<close>

text \<open>The loop of \<open>AppendEntries1\<close> over the entries, with its flags \<open>persistentStateChanged\<close> and \<open>logTruncated\<close>.\<close>

fun AppendLoop :: "LogEntry list \<Rightarrow> Raft \<times> bool \<times> bool \<Rightarrow> (Raft \<times> bool \<times> bool) option" where
  "AppendLoop [] r = Some r"
| "AppendLoop (log # entries) (s, changed, truncated) =
     (if le_logIndex log > getLastLogIndex s then AppendLoop entries (s \<lparr> rf_logs := rf_logs s @ [log] \<rparr>, True, truncated)
      else case getSlicesIndexFromLogIndex (le_logIndex log) s of
             None \<Rightarrow> None
           | Some i \<Rightarrow>
               if i \<ge> length (rf_logs s) then None
               else if le_logTerm (rf_logs s ! i) = le_logTerm log then
                 (if le_command (rf_logs s ! i) \<noteq> le_command log then None else AppendLoop entries (s, changed, truncated))
               else AppendLoop entries (s \<lparr> rf_logs := take i (rf_logs s) @ [log] \<rparr>, True, True))"

text \<open>The index that a rejection suggests: behind the last entry of another term than the one that did not match.\<close>

definition BacktrackIndex :: "int \<Rightarrow> Raft \<Rightarrow> int" where
  "BacktrackIndex prevLogIndex s =
     (case find (\<lambda>index. getLogTermFromLogIndex index s \<noteq> getLogTermFromLogIndex prevLogIndex s)
             (rev [rf_lastSnapshotIncludeIndex s..prevLogIndex]) of
        None \<Rightarrow> prevLogIndex
      | Some index \<Rightarrow> index + 1)"

text \<open>The deferred write on the way out.\<close>

definition persist_changes :: "bool \<Rightarrow> bool \<Rightarrow> nat \<Rightarrow> Raft \<Rightarrow> Raft" where
  "persist_changes changed truncated oldLogSize s =
     (if \<not> changed then s else if \<not> truncated then persistAppended oldLogSize s else persist s)"

definition AppendEntries1 :: "int \<Rightarrow> AppendEntriesArgs \<Rightarrow> Raft \<Rightarrow> (AppendEntriesReply \<times> Raft) option" where
  "AppendEntries1 now args s =
     (if rf_removed s then Some (new_reply \<lparr> ar_term := rf_currentTerm s, ar_appState := Disconnected \<rparr>, s)
      else if ae_term args < rf_currentTerm s then
        Some (new_reply \<lparr> ar_appState := AppNormal, ar_term := rf_currentTerm s, ar_updateNextIndex := -100 \<rparr>, s)
      else
        (let oldLogSize = length (rf_logs s);
             higher = ae_term args > rf_currentTerm s;
             s3 = follow now (if higher then step_down (ae_term args) s else s);
             reply = new_reply \<lparr> ar_appState := AppNormal, ar_term := rf_currentTerm s3,
               ar_readContextAck := ae_readContext args, ar_readContextAccepted := ae_readContext args \<noteq> 0 \<rparr>
         in if ae_prevLogIndex args > getLastLogIndex s3 then
              Some (reply \<lparr> ar_updateNextIndex := getLastLogIndex s3 + 1 \<rparr>, persist_changes higher False oldLogSize s3)
            else if ae_prevLogIndex args < rf_lastSnapshotIncludeIndex s3 then
              Some (reply \<lparr> ar_updateNextIndex := rf_lastSnapshotIncludeIndex s3 + 1 \<rparr>, persist_changes higher False oldLogSize s3)
            else
              (case matchLog (ae_prevLogIndex args) (ae_prevLogTerm args) s3 of
                 None \<Rightarrow> None
               | Some False \<Rightarrow>
                   Some (reply \<lparr> ar_updateNextIndex := BacktrackIndex (ae_prevLogIndex args) s3 \<rparr>,
                         persist_changes higher False oldLogSize s3)
               | Some True \<Rightarrow>
                   (case AppendLoop (ae_entries args) (s3, higher, False) of
                      None \<Rightarrow> None
                    | Some (s4, changed, truncated) \<Rightarrow>
                        if getLastLogIndex s4 < ae_prevLogIndex args + int (length (ae_entries args)) then None
                        else
                          (let s5 = (if ae_leaderCommit args > rf_commitIndex s4
                                     then s4 \<lparr> rf_commitIndex := max (rf_commitIndex s4) (min (ae_leaderCommit args) (getLastLogIndex s4)) \<rparr>
                                     else s4)
                           in if getLastLogIndex s5 < rf_commitIndex s5 then None
                              else Some (reply \<lparr> ar_success := True \<rparr>, persist_changes changed truncated oldLogSize s5))))))"

definition getPrevLogInfo :: "nat \<Rightarrow> Raft \<Rightarrow> (int \<times> int) option" where
  "getPrevLogInfo server s =
     (if server \<ge> length (rf_nextIndex s) then None
      else if rf_nextIndex s ! server = rf_lastSnapshotIncludeIndex s + 1
      then Some (rf_lastSnapshotIncludeIndex s, rf_lastSnapshotIncludeTerm s)
      else let preIndex = rf_nextIndex s ! server - 1 in map_option (\<lambda>e. (preIndex, le_logTerm e)) (log_at preIndex s))"

datatype replication = NothingToSend | SendSnapshot | SendEntries AppendEntriesArgs

text \<open>One round of \<open>replicationWorker\<close> up to the RPC.\<close>

definition PrepareReplication :: "int \<Rightarrow> nat \<Rightarrow> Raft \<Rightarrow> (replication \<times> Raft) option" where
  "PrepareReplication now server s =
     (if rf_removed s \<or> rf_shutdown s \<or> isRemovedLocked (int server) s \<or> rf_status s \<noteq> Leader then Some (NothingToSend, s)
      else case StartReadRound now s of
             None \<Rightarrow> None
           | Some s1 \<Rightarrow>
               if server \<ge> length (rf_nextIndex s1) \<or> rf_nextIndex s1 ! server < 1 then None
               else if rf_nextIndex s1 ! server \<le> rf_lastSnapshotIncludeIndex s1 then Some (SendSnapshot, s1)
               else
                 (case getPrevLogInfo server s1 of
                    None \<Rightarrow> None
                  | Some (preLogIndex, prevLogTerm) \<Rightarrow>
                      (let context = (case rf_activeReadRound s1 of None \<Rightarrow> 0
                             | Some round \<Rightarrow> if rd_term round = rf_currentTerm s1 then rd_context round else 0);
                           entries = (if preLogIndex \<noteq> rf_lastSnapshotIncludeIndex s1
                             then map_option (\<lambda>i. drop (i + 1) (rf_logs s1)) (getSlicesIndexFromLogIndex preLogIndex s1)
                             else Some (rf_logs s1))
                       in case entries of
                            None \<Rightarrow> None
                          | Some es \<Rightarrow>
                              if preLogIndex + int (length es) \<noteq> getLastLogIndex s1 then None
                              else Some (SendEntries \<lparr> ae_term = rf_currentTerm s1, ae_leaderId = rf_me s1,
                                     ae_prevLogIndex = preLogIndex, ae_prevLogTerm = prevLogTerm, ae_entries = es,
                                     ae_leaderCommit = rf_commitIndex s1, ae_readContext = context \<rparr>, s1))))"

definition HandleAppendEntriesReply :: "int \<Rightarrow> nat \<Rightarrow> AppendEntriesArgs \<Rightarrow> AppendEntriesReply \<Rightarrow> Raft \<Rightarrow> Raft option" where
  "HandleAppendEntriesReply now server args reply s =
     (if ar_appState reply = Disconnected then Some s
      else if ar_term reply > rf_currentTerm s then Some (step_down (ar_term reply) s)
      else if ar_term reply < rf_currentTerm s then Some s
      else if rf_status s \<noteq> Leader then Some s
      else
        (let s1 = (case rf_activeReadRound s of
                     None \<Rightarrow> s
                   | Some round \<Rightarrow>
                       if ar_readContextAccepted reply \<and> ar_readContextAck reply = rd_context round \<and> ae_term args = rd_term round
                       then completeReadRoundIfQuorumLocked now (s \<lparr> rf_activeReadRound :=
                              Some (round \<lparr> rd_acknowledgedPeers := List.insert (int server) (rd_acknowledgedPeers round) \<rparr>) \<rparr>)
                       else s)
         in if \<not> ar_success reply then
              (if ar_updateNextIndex reply = -100 then Some s1
               else if server \<ge> length (rf_nextIndex s1) then None
               else Some (s1 \<lparr> rf_nextIndex := (rf_nextIndex s1)[server := ar_updateNextIndex reply] \<rparr>))
            else if server \<ge> length (rf_matchIndex s1) \<or> server \<ge> length (rf_nextIndex s1) then None
            else
              (let m = max (rf_matchIndex s1 ! server) (ae_prevLogIndex args + int (length (ae_entries args)));
                   s2 = s1 \<lparr> rf_matchIndex := (rf_matchIndex s1)[server := m], rf_nextIndex := (rf_nextIndex s1)[server := m + 1] \<rparr>
               in if m + 1 > getLastLogIndex s2 + 1 then None
                  else case leaderUpdateCommitIndex s2 of
                         None \<Rightarrow> None
                       | Some s3 \<Rightarrow> if rf_commitIndex s3 > getLastLogIndex s3 then None else Some s3)))"

text \<open>The heartbeat starts a read round and triggers the replication worker of every peer it lists.\<close>

definition doHeartBeat :: "int \<Rightarrow> Raft \<Rightarrow> (Raft \<times> nat list) option" where
  "doHeartBeat now s =
     (if rf_removed s \<or> rf_status s \<noteq> Leader then Some (s, [])
      else case StartReadRound now s of
             None \<Rightarrow> None
           | Some s1 \<Rightarrow>
               (let servers = filter (\<lambda>i. int i \<noteq> rf_me s1 \<and> \<not> isRemovedLocked (int i) s1) [0..<length (rf_peers s1)]
                in if list_ex (\<lambda>i. i \<ge> length (rf_nextIndex s1) \<or> rf_nextIndex s1 ! i < 1) servers then None
                   else Some (s1, servers)))"

section \<open>Proposals\<close>

definition Start :: "Op \<Rightarrow> Raft \<Rightarrow> (int \<times> int \<times> bool) \<times> Raft" where
  "Start command s =
     (if rf_removed s \<or> rf_status s \<noteq> Leader then ((-1, -1, False), s)
      else ((-1, rf_currentTerm s, True),
            s \<lparr> rf_confChangePendingInQueue := (op_Operation command = ''ConfChange'' \<or> rf_confChangePendingInQueue s),
               rf_proposeQueue := rf_proposeQueue s @ [command] \<rparr>))"

definition rejection :: "Op \<Rightarrow> ApplyMsg" where
  "rejection command = NewApplyMsg \<lparr> am_ProposalRejected := True, am_Command := Op_asString command \<rparr>"

fun new_entries :: "int \<Rightarrow> int \<Rightarrow> Op list \<Rightarrow> LogEntry list" where
  "new_entries term lastLogIndex [] = []"
| "new_entries term lastLogIndex (command # batch) =
     \<lparr> le_command = Op_asString command, le_logTerm = term, le_logIndex = lastLogIndex + 1 \<rparr> #
     new_entries term (lastLogIndex + 1) batch"

text \<open>The critical section of \<open>raftPollerTicker\<close> on a batch that it popped.\<close>

definition PollBatch :: "Op list \<Rightarrow> Raft \<Rightarrow> Raft option" where
  "PollBatch batch s =
     (let s1 = (if list_ex (\<lambda>c. op_Operation c = ''ConfChange'') batch then s \<lparr> rf_confChangePendingInQueue := False \<rparr> else s)
      in if rf_status s \<noteq> Leader then Some (s1 \<lparr> rf_applyChan := rf_applyChan s1 @ map rejection batch \<rparr>)
         else case leaderUpdateCommitIndex (s1 \<lparr> rf_logs := rf_logs s1 @ new_entries (rf_currentTerm s1) (getLastLogIndex s1) batch \<rparr>) of
                None \<Rightarrow> None
              | Some s2 \<Rightarrow> Some (persistAppended (length (rf_logs s)) s2))"

definition PopProposals :: "nat \<Rightarrow> Raft \<Rightarrow> Op list \<times> Raft" where
  "PopProposals n s = (take n (rf_proposeQueue s), s \<lparr> rf_proposeQueue := drop n (rf_proposeQueue s) \<rparr>)"

section \<open>Delivery to the state machine\<close>

definition apply_msg :: "LogEntry \<Rightarrow> int \<Rightarrow> ApplyMsg" where
  "apply_msg e index = NewApplyMsg \<lparr> am_CommandValid := True, am_Command := le_command e, am_CommandIndex := index \<rparr>"

fun ApplyScan :: "int list \<Rightarrow> Raft \<Rightarrow> (ApplyMsg list \<times> Raft) option" where
  "ApplyScan [] s = Some ([], s)"
| "ApplyScan (index # indexes) s =
     (case log_at index s of
        None \<Rightarrow> None
      | Some e \<Rightarrow>
          if le_logIndex e \<noteq> index then None
          else case ApplyScan indexes (s \<lparr> rf_lastApplied := index \<rparr>) of
                 None \<Rightarrow> None
               | Some (msgs, s') \<Rightarrow> Some (apply_msg e index # msgs, s'))"

definition getApplyLogs :: "Raft \<Rightarrow> (ApplyMsg list \<times> Raft) option" where
  "getApplyLogs s =
     (if rf_commitIndex s > getLastLogIndex s then None
      else ApplyScan [rf_lastApplied s + 1..rf_commitIndex s] s)"

text \<open>One round of \<open>applierTicker\<close>.\<close>

definition DeliverCommitted :: "Raft \<Rightarrow> Raft option" where
  "DeliverCommitted s =
     (case getApplyLogs s of None \<Rightarrow> None | Some (msgs, s') \<Rightarrow> Some (s' \<lparr> rf_applyChan := rf_applyChan s' @ msgs \<rparr>))"

section \<open>Snapshots\<close>

definition CondInstallSnapshot :: "int \<Rightarrow> int \<Rightarrow> string \<Rightarrow> Raft \<Rightarrow> (bool \<times> Raft) option" where
  "CondInstallSnapshot lastIncludedTerm lastIncludedIndex snapshot s =
     (if lastIncludedIndex \<le> rf_commitIndex s then Some (False, s)
      else
        (case (if lastIncludedIndex > getLastLogIndex s then Some []
               else map_option (\<lambda>i. drop (i + 1) (rf_logs s)) (getSlicesIndexFromLogIndex lastIncludedIndex s)) of
           None \<Rightarrow> None
         | Some logs \<Rightarrow>
             Some (True, (persist (s \<lparr> rf_logs := logs, rf_commitIndex := lastIncludedIndex, rf_lastApplied := lastIncludedIndex,
               rf_lastSnapshotIncludeIndex := lastIncludedIndex, rf_lastSnapshotIncludeTerm := lastIncludedTerm \<rparr>))
               \<lparr> rf_snapshot := snapshot \<rparr>)))"

text \<open>The state of a leader's chunks at the receiver: more to come, or the assembled snapshot.\<close>

definition ReceiveChunk :: "InstallSnapshotRequest \<Rightarrow> string \<Rightarrow> string option \<times> string" where
  "ReceiveChunk args buffer =
     (if is_chunkOffset args = 0 \<and> is_chunkDone args then (Some (is_data args), [])
      else
        (let buffer' = (if is_chunkOffset args = 0 then is_data args
               else (if is_chunkOffset args \<le> length buffer then take (is_chunkOffset args) buffer else buffer) @ is_data args)
         in if \<not> is_chunkDone args then (None, buffer') else (Some buffer', [])))"

definition snapshot_msg :: "string \<Rightarrow> int \<Rightarrow> int \<Rightarrow> ApplyMsg" where
  "snapshot_msg snapshot term index = NewApplyMsg \<lparr> am_SnapshotValid := True, am_Snapshot := snapshot,
     am_SnapshotTerm := term, am_SnapshotIndex := index \<rparr>"

definition InstallSnapshot :: "int \<Rightarrow> InstallSnapshotRequest \<Rightarrow> Raft \<Rightarrow> (int \<times> Raft) option" where
  "InstallSnapshot now args s =
     (if is_term args < rf_currentTerm s then Some (rf_currentTerm s, s)
      else
        (let s3 = follow now (if is_term args > rf_currentTerm s then persist (step_down (is_term args) s) else s);
             index = is_lastSnapshotIncludeIndex args
         in if index \<le> rf_lastSnapshotIncludeIndex s3 then Some (rf_currentTerm s3, s3)
            else
              (case ReceiveChunk args (rf_snapshotReceiveBuffer s3) of
                 (None, buffer) \<Rightarrow> Some (rf_currentTerm s3, s3 \<lparr> rf_snapshotReceiveBuffer := buffer \<rparr>)
               | (Some snapshot, buffer) \<Rightarrow>
                   (case (if getLastLogIndex s3 > index
                          then map_option (\<lambda>i. drop (i + 1) (rf_logs s3)) (getSlicesIndexFromLogIndex index s3)
                          else Some []) of
                      None \<Rightarrow> None
                    | Some logs \<Rightarrow>
                        (let s4 = s3 \<lparr> rf_snapshotReceiveBuffer := buffer, rf_logs := logs,
                               rf_commitIndex := max (rf_commitIndex s3) index, rf_lastApplied := max (rf_lastApplied s3) index,
                               rf_lastSnapshotIncludeIndex := index,
                               rf_lastSnapshotIncludeTerm := is_lastSnapshotIncludeTerm args,
                               rf_applyChan := rf_applyChan s3 @ [snapshot_msg snapshot (is_lastSnapshotIncludeTerm args) index] \<rparr>
                         in Some (rf_currentTerm s4, (persist s4) \<lparr> rf_snapshot := snapshot \<rparr>))))))"

text \<open>The chunks of \<open>leaderSendSnapShot\<close> from an offset on: offset, bytes and whether it is the last one.\<close>

definition snapshotChunkSize :: nat where
  "snapshotChunkSize = 256 * 1024"

function SnapshotChunks :: "nat \<Rightarrow> string \<Rightarrow> nat \<Rightarrow> (nat \<times> string \<times> bool) list" where
  "SnapshotChunks chunkSize snapshot offset =
     (if offset \<ge> length snapshot \<or> chunkSize = 0 then []
      else let chunkLen = min chunkSize (length snapshot - offset) in
           (offset, take chunkLen (drop offset snapshot), offset + chunkLen \<ge> length snapshot) #
           SnapshotChunks chunkSize snapshot (offset + chunkLen))"
  by auto
termination
  by (relation "measure (\<lambda>(c, snapshot, offset). length snapshot - offset)") auto

declare SnapshotChunks.simps [simp del]

definition SnapshotRequests :: "Raft \<Rightarrow> InstallSnapshotRequest list" where
  "SnapshotRequests s = map (\<lambda>(offset, bytes, final). \<lparr> is_leaderId = rf_me s, is_term = rf_currentTerm s,
       is_lastSnapshotIncludeIndex = rf_lastSnapshotIncludeIndex s, is_lastSnapshotIncludeTerm = rf_lastSnapshotIncludeTerm s,
       is_data = bytes, is_chunkOffset = offset, is_chunkDone = final \<rparr>)
     (SnapshotChunks snapshotChunkSize (rf_snapshot s) 0)"

text \<open>After the reply to a chunk: whether to go on. After the last chunk the progress of the peer is recorded.\<close>

definition HandleSnapshotReply :: "int \<Rightarrow> int \<Rightarrow> int \<Rightarrow> Raft \<Rightarrow> bool \<times> Raft" where
  "HandleSnapshotReply now leaderTerm replyTerm s =
     (if rf_status s \<noteq> Leader \<or> rf_currentTerm s \<noteq> leaderTerm then (False, s)
      else if replyTerm > rf_currentTerm s then (False, (persist (step_down replyTerm s)) \<lparr> rf_lastResetElectionTime := now \<rparr>)
      else (True, s))"

definition FinishSnapshot :: "nat \<Rightarrow> int \<Rightarrow> int \<Rightarrow> Raft \<Rightarrow> Raft option" where
  "FinishSnapshot server leaderTerm snapshotIndex s =
     (if rf_status s \<noteq> Leader \<or> rf_currentTerm s \<noteq> leaderTerm then Some s
      else if server \<ge> length (rf_matchIndex s) \<or> server \<ge> length (rf_nextIndex s) then None
      else Some (s \<lparr> rf_matchIndex := (rf_matchIndex s)[server := snapshotIndex],
                    rf_nextIndex := (rf_nextIndex s)[server := snapshotIndex + 1] \<rparr>))"

text \<open>Compaction through the applied index; \<open>staged\<close> and \<open>published\<close> are the outcomes of the two file operations.\<close>

definition Snapshot :: "bool \<Rightarrow> bool \<Rightarrow> int \<Rightarrow> string \<Rightarrow> Raft \<Rightarrow> (bool \<times> Raft) option" where
  "Snapshot staged published index snapshot s =
     (if \<not> staged then Some (False, s)
      else if rf_lastSnapshotIncludeIndex s \<ge> index \<or> index > rf_commitIndex s then Some (False, s)
      else
        (case getSlicesIndexFromLogIndex index s of
           None \<Rightarrow> None
         | Some i \<Rightarrow>
             if i \<ge> length (rf_logs s) then None
             else if \<not> published then Some (False, s)
             else
               (let s1 = s \<lparr> rf_lastSnapshotIncludeIndex := index, rf_lastSnapshotIncludeTerm := le_logTerm (rf_logs s ! i),
                           rf_logs := drop (i + 1) (rf_logs s), rf_commitIndex := max (rf_commitIndex s) index,
                           rf_lastApplied := max (rf_lastApplied s) index \<rparr>
                in if int (length (rf_logs s1)) + rf_lastSnapshotIncludeIndex s1 \<noteq> getLastLogIndex s then None
                   else Some (True, (persist s1) \<lparr> rf_snapshot := snapshot \<rparr>))))"

record RaftLogGcConfig =
  gc_threshold :: nat
  gc_countLimit :: nat
  gc_sizeLimitBytes :: nat

record RaftLogGcState =
  gs_truncatedIndex :: int
  gs_appliedIndex :: int
  gs_replicatedIndex :: int
  gs_logCount :: nat
  gs_approximateSizeBytes :: nat

record RaftLogGcDecision =
  gd_compactIndex :: int
  gd_reclaimableCount :: nat
  gd_softThreshold :: bool
  gd_countLimit :: bool
  gd_sizeLimit :: bool

definition no_gc :: RaftLogGcDecision where
  "no_gc = \<lparr> gd_compactIndex = 0, gd_reclaimableCount = 0, gd_softThreshold = False, gd_countLimit = False, gd_sizeLimit = False \<rparr>"

definition Forced :: "RaftLogGcDecision \<Rightarrow> bool" where
  "Forced d \<longleftrightarrow> gd_countLimit d \<or> gd_sizeLimit d"

definition EvaluateRaftLogGc :: "RaftLogGcConfig \<Rightarrow> RaftLogGcState \<Rightarrow> RaftLogGcDecision" where
  "EvaluateRaftLogGc config state =
     (let appliedIndex = max (gs_truncatedIndex state) (gs_appliedIndex state)
      in if appliedIndex \<le> gs_truncatedIndex state then no_gc
         else
           (let decision = no_gc \<lparr> gd_countLimit := gc_countLimit config > 0 \<and> gs_logCount state \<ge> gc_countLimit config,
                  gd_sizeLimit := gc_sizeLimitBytes config > 0 \<and> gs_approximateSizeBytes state \<ge> gc_sizeLimitBytes config \<rparr>;
                chosen = decision \<lparr> gd_compactIndex := appliedIndex,
                  gd_reclaimableCount := nat (appliedIndex - gs_truncatedIndex state) \<rparr>
            in if Forced decision then chosen
               else
                 (let replicatedIndex = max (gs_truncatedIndex state) (min (gs_replicatedIndex state) appliedIndex);
                      reclaimable = nat (replicatedIndex - gs_truncatedIndex state)
                  in if gc_threshold config > 0 \<and> reclaimable \<ge> gc_threshold config
                     then chosen \<lparr> gd_softThreshold := True \<rparr> else decision)))"

definition EvaluateLogGc :: "int \<Rightarrow> RaftLogGcConfig \<Rightarrow> Raft \<Rightarrow> RaftLogGcDecision" where
  "EvaluateLogGc stateMachineAppliedIndex config s =
     (if stateMachineAppliedIndex < rf_lastSnapshotIncludeIndex s then no_gc
      else
        (let appliedIndex = min (min stateMachineAppliedIndex (rf_lastApplied s)) (min (rf_commitIndex s) (getLastLogIndex s));
             replicatedIndex = (if rf_status s = Leader
               then fold (\<lambda>peer m. if int peer = rf_me s then m else min m (rf_matchIndex s ! peer)) [0..<length (rf_matchIndex s)] appliedIndex
               else appliedIndex)
         in EvaluateRaftLogGc config \<lparr> gs_truncatedIndex = rf_lastSnapshotIncludeIndex s, gs_appliedIndex = appliedIndex,
              gs_replicatedIndex = replicatedIndex, gs_logCount = length (rf_logs s),
              gs_approximateSizeBytes = (case rf_disk s of None \<Rightarrow> 0 | Some d \<Rightarrow> length (persistData d)) \<rparr>))"

section \<open>Reads and queries\<close>

text \<open>\<open>ReadIndex\<close> registers a waiter, lets the heartbeat run, and then looks at the waiter until it is completed.\<close>

definition ReadIndexBegin :: "int \<Rightarrow> Raft \<Rightarrow> (ReadIndexResult + nat) \<times> Raft" where
  "ReadIndexBegin deadline s =
     (if rf_status s \<noteq> Leader then
        (Inl \<lparr> rr_status = ReadNotLeader, rr_term = rf_currentTerm s, rr_readIndex = -1, rr_context = 0 \<rparr>, s)
      else
        (Inr (length (rf_waiters s)),
         s \<lparr> rf_waiters := rf_waiters s @ [\<lparr> rw_deadline = deadline, rw_completed = False,
                rw_result = \<lparr> rr_status = ReadNotLeader, rr_term = -1, rr_readIndex = -1, rr_context = 0 \<rparr> \<rparr>],
            rf_pendingReadWaiters := rf_pendingReadWaiters s @ [length (rf_waiters s)] \<rparr>))"

definition ReadIndexWait :: "int \<Rightarrow> nat \<Rightarrow> Raft \<Rightarrow> ReadIndexResult option \<times> Raft" where
  "ReadIndexWait now waiter s =
     (if waiter \<ge> length (rf_waiters s) then (None, s)
      else if rw_completed (rf_waiters s ! waiter) then (Some (rw_result (rf_waiters s ! waiter)), s)
      else if rf_status s \<noteq> Leader then
        (Some \<lparr> rr_status = ReadNotLeader, rr_term = rf_currentTerm s, rr_readIndex = -1, rr_context = 0 \<rparr>, removeReadWaiterLocked waiter s)
      else if rw_deadline (rf_waiters s ! waiter) \<le> now then
        (Some \<lparr> rr_status = ReadTimeout, rr_term = rf_currentTerm s, rr_readIndex = -1, rr_context = 0 \<rparr>, removeReadWaiterLocked waiter s)
      else (None, s))"

definition IsLeaderInTerm :: "int \<Rightarrow> Raft \<Rightarrow> bool" where
  "IsLeaderInTerm term s \<longleftrightarrow> rf_status s = Leader \<and> rf_currentTerm s = term"

definition GetState :: "Raft \<Rightarrow> int \<times> bool" where
  "GetState s = (rf_currentTerm s, rf_status s = Leader)"

definition GetLogEntries :: "nat \<Rightarrow> Raft \<Rightarrow> LogEntry list" where
  "GetLogEntries maxEntries s =
     drop (if length (rf_logs s) > maxEntries then length (rf_logs s) - maxEntries else 0) (rf_logs s)"

definition find_peer :: "u64 \<Rightarrow> Raft \<Rightarrow> nat option" where
  "find_peer peerId s = (let i = length (takeWhile (\<lambda>p. p \<noteq> peerId) (rf_peerIds s)) in
     if i < length (rf_peerIds s) then Some i else None)"

definition GetPeerMatchIndex :: "u64 \<Rightarrow> Raft \<Rightarrow> int" where
  "GetPeerMatchIndex peerId s =
     (case find_peer peerId s of None \<Rightarrow> -1
      | Some i \<Rightarrow> if i \<ge> length (rf_matchIndex s) then -1 else rf_matchIndex s ! i)"

definition IsPeerCaughtUp :: "u64 \<Rightarrow> int \<Rightarrow> Raft \<Rightarrow> bool" where
  "IsPeerCaughtUp peerId maxLag s =
     (if rf_status s \<noteq> Leader then False
      else case find_peer peerId s of None \<Rightarrow> False
           | Some i \<Rightarrow> if i \<ge> length (rf_matchIndex s) then False else rf_matchIndex s ! i \<ge> rf_commitIndex s - maxLag)"

definition GetPeerLag :: "u64 \<Rightarrow> Raft \<Rightarrow> int" where
  "GetPeerLag peerId s =
     (if rf_status s \<noteq> Leader then -1
      else case find_peer peerId s of None \<Rightarrow> -1
           | Some i \<Rightarrow> if i \<ge> length (rf_matchIndex s) then -1 else max 0 (rf_commitIndex s - rf_matchIndex s ! i))"

section \<open>Membership changes\<close>

datatype ConfChangeType = AddPeer | RemovePeer | AddLearner | PromoteLearner

text \<open>An entry that the state machine has not applied yet, or a proposal still queued, blocks another change.\<close>

definition HasConfChangeInFlight :: "Raft \<Rightarrow> bool" where
  "HasConfChangeInFlight s \<longleftrightarrow> rf_confChangePendingInQueue s \<or>
     list_ex (\<lambda>index. index > rf_lastSnapshotIncludeIndex s \<and>
         (let slice = nat (index - rf_lastSnapshotIncludeIndex s - 1) in slice < length (rf_logs s) \<and>
            op_Operation (snd (Op_parseFromString (le_command (rf_logs s ! slice))
              \<lparr> op_Operation = [], op_Key = [], op_Value = [], op_ClientId = [], op_RequestId = 0, op_Status = [] \<rparr>)) = ''ConfChange''))
       [rf_lastApplied s + 1..getLastLogIndex s]"

definition ApplyConfChange :: "ConfChangeType \<Rightarrow> PeerDescriptor \<Rightarrow> Raft \<Rightarrow> Raft" where
  "ApplyConfChange changeType peer s =
     (let targetPeerId = pd_peerId peer; target = find_peer targetPeerId s
      in case changeType of
           AddPeer \<Rightarrow> s
         | AddLearner \<Rightarrow>
             (case target of
                Some i \<Rightarrow> s \<lparr> rf_peerRoles := (rf_peerRoles s)[i := Learner] \<rparr>
              | None \<Rightarrow>
                  (let s1 = s \<lparr> rf_peerIds := rf_peerIds s @ [targetPeerId], rf_peerRoles := rf_peerRoles s @ [Learner],
                           rf_matchIndex := rf_matchIndex s @ [0], rf_nextIndex := rf_nextIndex s @ [getLastLogIndex s + 1] \<rparr>
                   in if length (rf_peers s1) < length (rf_peerIds s1)
                      then s1 \<lparr> rf_peers := rf_peers s1 @ [\<not> (pd_host peer = [] \<or> pd_port peer = 0)] \<rparr> else s1))
         | PromoteLearner \<Rightarrow>
             (case target of Some i \<Rightarrow> s \<lparr> rf_peerRoles := (rf_peerRoles s)[i := Voter] \<rparr> | None \<Rightarrow> s)
         | RemovePeer \<Rightarrow>
             (case target of
                None \<Rightarrow> s
              | Some i \<Rightarrow>
                  (let s1 = s \<lparr> rf_peerRoles := (rf_peerRoles s)[i := Removed] \<rparr>
                   in if targetPeerId = rf_localPeerId s1 \<or> int i = rf_me s1 then
                        (let s2 = s1 \<lparr> rf_removed := True \<rparr>
                         in if rf_status s2 = Leader then (abortReadIndexLocked ReadNotLeader s2) \<lparr> rf_status := Follower \<rparr> else s2)
                      else s1)))"

section \<open>Start, stop and RPC entry points\<close>

definition init_roles :: "nat \<Rightarrow> u64 list \<Rightarrow> bool list \<Rightarrow> u64 list \<times> PeerRole list" where
  "init_roles peers peerIds learners =
     (if peerIds = [] then (map of_nat [0..<peers], replicate peers Voter)
      else (peerIds, map (\<lambda>i. if i < length learners \<and> learners ! i then Learner else Voter) [0..<length peerIds]))"

definition init :: "bool list \<Rightarrow> int \<Rightarrow> RaftState option \<Rightarrow> string \<Rightarrow> u64 \<Rightarrow> u64 list \<Rightarrow> bool list \<Rightarrow> int \<Rightarrow> Raft" where
  "init peers me disk snapshot localPeerId peerIds learners now =
     (let (ids, roles) = init_roles (length peers) peerIds learners;
          d = (case disk of Some d \<Rightarrow> d | None \<Rightarrow> \<lparr> rs_currentTerm = 0, rs_votedFor = -1, rs_lastSnapshotIncludeIndex = 0,
                 rs_lastSnapshotIncludeTerm = 0, rs_logs = [] \<rparr>)
      in \<lparr> rf_initialized = False, rf_backgroundWorkersStarted = False, rf_shutdown = False, rf_peers = peers, rf_me = me,
           rf_currentTerm = rs_currentTerm d, rf_votedFor = rs_votedFor d, rf_logs = rs_logs d, rf_commitIndex = 0,
           rf_lastApplied = (if rs_lastSnapshotIncludeIndex d > 0 then rs_lastSnapshotIncludeIndex d else 0),
           rf_nextIndex = replicate (length peers) 0, rf_matchIndex = replicate (length peers) 0, rf_status = Follower,
           rf_applyChan = [], rf_lastResetElectionTime = now,
           rf_lastLeaderContactTime = (if disk = None then None else Some now),
           rf_lastSnapshotIncludeIndex = rs_lastSnapshotIncludeIndex d, rf_lastSnapshotIncludeTerm = rs_lastSnapshotIncludeTerm d,
           rf_proposeQueue = [], rf_nextReadContext = 0, rf_pendingReadWaiters = [], rf_activeReadRound = None, rf_waiters = [],
           rf_votedNum = (\<lambda>_. 0), rf_peerIds = ids, rf_peerRoles = roles, rf_localPeerId = localPeerId, rf_removed = False,
           rf_confChangePendingInQueue = False, rf_snapshotReceiveBuffer = [], rf_disk = disk, rf_snapshot = snapshot \<rparr>)"

definition Activate :: "Raft \<Rightarrow> Raft" where
  "Activate s = (if rf_backgroundWorkersStarted s then s else s \<lparr> rf_backgroundWorkersStarted := True, rf_initialized := True \<rparr>)"

definition Stop :: "Raft \<Rightarrow> Raft" where
  "Stop s = (if rf_shutdown s then s else s \<lparr> rf_shutdown := True, rf_initialized := False \<rparr>)"

definition AppendEntriesRpc :: "int \<Rightarrow> AppendEntriesArgs \<Rightarrow> Raft \<Rightarrow> (AppendEntriesReply \<times> Raft) option" where
  "AppendEntriesRpc now args s =
     (if \<not> rf_initialized s then Some (new_reply \<lparr> ar_updateNextIndex := 1, ar_appState := Disconnected \<rparr>, s)
      else AppendEntries1 now args s)"

definition InstallSnapshotRpc :: "int \<Rightarrow> InstallSnapshotRequest \<Rightarrow> Raft \<Rightarrow> (int \<times> Raft) option" where
  "InstallSnapshotRpc now args s = (if \<not> rf_initialized s then Some (0, s) else InstallSnapshot now args s)"

definition RequestVoteRpc :: "int \<Rightarrow> RequestVoteArgs \<Rightarrow> Raft \<Rightarrow> RequestVoteReply \<times> Raft" where
  "RequestVoteRpc now args s =
     (if \<not> rf_initialized s then (\<lparr> vr_term = 0, vr_voteGranted = False, vr_voteState = Expire \<rparr>, s)
      else RequestVote now args s)"

end
