(* ===== verification/RaftProtocol.thy ===== *)
theory RaftProtocol
  imports RaftCodec
begin

text \<open>
  The protocol that the nodes of \<open>RaftNode\<close> follow, as an abstract specification: what each voter has made durable
  (its term and vote), the complete log of every node without compaction, the prefix each node regards as committed,
  and the history of the run, that is the votes cast, the log of every candidate, the log of the leader of every term
  and the positions that nodes acknowledged to the leader of a term. The steps say what a node may do; \<open>RaftCluster\<close>
  shows that the handlers of the code only take these steps. The safety argument is here: a position that a quorum
  has acknowledged to the leader of its term is in the log of every later leader.
\<close>

section \<open>Logs\<close>

text \<open>Positions count from 1; position 0 is the empty log, with term 0.\<close>

definition termAt :: "LogEntry list \<Rightarrow> nat \<Rightarrow> int" where
  "termAt L i = (if i = 0 then 0 else le_logTerm (L ! (i - 1)))"

abbreviation lastTerm :: "LogEntry list \<Rightarrow> int" where
  "lastTerm L \<equiv> termAt L (length L)"

definition atLeastAsUpToDate :: "LogEntry list \<Rightarrow> LogEntry list \<Rightarrow> bool" where
  "atLeastAsUpToDate L M \<longleftrightarrow> lastTerm L > lastTerm M \<or> lastTerm L = lastTerm M \<and> length L \<ge> length M"

text \<open>What a follower's log becomes when it accepts the first \<open>m\<close> entries of a leader's log.\<close>

definition adopt :: "nat \<Rightarrow> LogEntry list \<Rightarrow> LogEntry list \<Rightarrow> LogEntry list" where
  "adopt m L M = (if take m M = take m L \<and> m \<le> length M then M else take m L)"

lemma termAt_0 [simp]: "termAt L 0 = 0"
  by (simp add: termAt_def)

lemma termAt_take [simp]: "i \<le> m \<Longrightarrow> termAt (take m L) i = termAt L i"
  by (simp add: termAt_def)

lemma termAt_append [simp]: "i \<le> length L \<Longrightarrow> termAt (L @ M) i = termAt L i"
  by (auto simp: termAt_def nth_append)

lemma termAt_snoc [simp]: "termAt (L @ [e]) (Suc (length L)) = le_logTerm e"
  by (simp add: termAt_def)

lemma termAt_last: "es \<noteq> [] \<Longrightarrow> termAt (L @ es) (length L + length es) = le_logTerm (last es)"
  using termAt_snoc [of "L @ butlast es" "last es"] by (cases es rule: rev_cases) simp_all

lemma termAt_eqI: "take m L = take m M \<Longrightarrow> i \<le> m \<Longrightarrow> termAt L i = termAt M i"
  by (metis termAt_take)

lemma take_le_eq: "take m L = take m M \<Longrightarrow> i \<le> m \<Longrightarrow> take i L = take i M"
  by (metis min.absorb1 take_take)

lemma length_from_take: "take m L = take m M \<Longrightarrow> m \<le> length M \<Longrightarrow> m \<le> length L"
  by (metis length_take min.absorb2 min.cobounded1)

lemma take_adopt: "m \<le> length L \<Longrightarrow> take m (adopt m L M) = take m L"
  by (auto simp: adopt_def)

section \<open>State and steps\<close>

record proto =
  p_term :: "nat \<Rightarrow> int"
  p_vote :: "nat \<Rightarrow> nat option"
  p_log :: "nat \<Rightarrow> LogEntry list"
  p_commit :: "nat \<Rightarrow> nat"
  p_votes :: "(nat \<times> int \<times> nat) set"
  p_clog :: "nat \<Rightarrow> int \<Rightarrow> LogEntry list"
  p_elected :: "int \<Rightarrow> nat option"
  p_tlog :: "int \<Rightarrow> LogEntry list"
  p_acks :: "(nat \<times> int \<times> nat) set"

text \<open>A position of the leader's log of a term that carries this term.\<close>

definition own :: "proto \<Rightarrow> int \<Rightarrow> nat \<Rightarrow> bool" where
  "own p T m \<longleftrightarrow> p_elected p T \<noteq> None \<and> 0 < m \<and> m \<le> length (p_tlog p T) \<and> termAt (p_tlog p T) m = T"

definition acked :: "proto \<Rightarrow> nat \<Rightarrow> int \<Rightarrow> nat \<Rightarrow> bool" where
  "acked p v T m \<longleftrightarrow> (\<exists>m'\<ge>m. (v, T, m') \<in> p_acks p)"

definition chosen :: "nat set set \<Rightarrow> proto \<Rightarrow> int \<Rightarrow> nat \<Rightarrow> bool" where
  "chosen Qs p T m \<longleftrightarrow> own p T m \<and> (\<exists>Q\<in>Qs. \<forall>v\<in>Q. acked p v T m)"

text \<open>A prefix of a log that is part of a chosen position of a term up to \<open>T\<close>.\<close>

definition settled_prefix :: "nat set set \<Rightarrow> proto \<Rightarrow> int \<Rightarrow> LogEntry list \<Rightarrow> nat \<Rightarrow> bool" where
  "settled_prefix Qs p T L n \<longleftrightarrow> n = 0 \<or>
     (\<exists>T0 m. T0 \<le> T \<and> chosen Qs p T0 m \<and> n \<le> m \<and> n \<le> length L \<and> take n L = take n (p_tlog p T0))"

definition raise_term :: "nat \<Rightarrow> int \<Rightarrow> proto \<Rightarrow> proto" where
  "raise_term v T p = p \<lparr> p_term := (p_term p)(v := T), p_vote := (p_vote p)(v := if T = p_term p v then p_vote p v else None) \<rparr>"

inductive pstep :: "nat set set \<Rightarrow> proto \<Rightarrow> proto \<Rightarrow> bool" for Qs :: "nat set set" where
  Campaign: "p_term p c < T \<Longrightarrow>
    pstep Qs p (p \<lparr> p_term := (p_term p)(c := T), p_vote := (p_vote p)(c := Some c), p_votes := insert (c, T, c) (p_votes p),
      p_clog := (p_clog p)(c := (p_clog p c)(T := p_log p c)) \<rparr>)"
| Grant: "\<lbrakk> (c, T, c) \<in> p_votes p; p_term p v \<le> T; p_term p v = T \<Longrightarrow> p_vote p v = None \<or> p_vote p v = Some c;
      atLeastAsUpToDate (p_clog p c T) (p_log p v) \<rbrakk> \<Longrightarrow>
    pstep Qs p (p \<lparr> p_term := (p_term p)(v := T), p_vote := (p_vote p)(v := Some c), p_votes := insert (v, T, c) (p_votes p) \<rparr>)"
| Raise: "p_term p v \<le> T \<Longrightarrow> pstep Qs p (raise_term v T p)"
| Elect: "\<lbrakk> p_elected p T = None; p_term p c = T; Q \<in> Qs; \<forall>v\<in>Q. (v, T, c) \<in> p_votes p;
      (c, T, c) \<in> p_votes p; le_logTerm e = T; L = p_log p c @ [e] \<rbrakk> \<Longrightarrow>
    pstep Qs p (p \<lparr> p_elected := (p_elected p)(T := Some c), p_tlog := (p_tlog p)(T := L), p_log := (p_log p)(c := L),
      p_acks := insert (c, T, length L) (p_acks p) \<rparr>)"
| Accept: "\<lbrakk> own p T m; p_term p v \<le> T \<rbrakk> \<Longrightarrow>
    pstep Qs p ((raise_term v T p) \<lparr> p_log := (p_log p)(v := adopt m (p_tlog p T) (p_log p v)), p_acks := insert (v, T, m) (p_acks p) \<rparr>)"
| Install: "\<lbrakk> settled_prefix Qs p T M k; p_term p v \<le> T \<rbrakk> \<Longrightarrow>
    pstep Qs p ((raise_term v T p) \<lparr> p_log := (p_log p)(v := adopt k M (p_log p v)) \<rparr>)"
| Propose: "\<lbrakk> p_elected p T = Some l; p_log p l = p_tlog p T; p_term p l = T; es \<noteq> []; list_all (\<lambda>e. le_logTerm e = T) es;
      L = p_log p l @ es \<rbrakk> \<Longrightarrow>
    pstep Qs p (p \<lparr> p_tlog := (p_tlog p)(T := L), p_log := (p_log p)(l := L), p_acks := insert (l, T, length L) (p_acks p) \<rparr>)"
| Commit: "settled_prefix Qs p (p_term p v) (p_log p v) n \<Longrightarrow> pstep Qs p (p \<lparr> p_commit := (p_commit p)(v := n) \<rparr>)"

definition proto_init :: proto where
  "proto_init = \<lparr> p_term = (\<lambda>_. 0), p_vote = (\<lambda>_. None), p_log = (\<lambda>_. []), p_commit = (\<lambda>_. 0), p_votes = {},
     p_clog = (\<lambda>_ _. []), p_elected = (\<lambda>_. None), p_tlog = (\<lambda>_. []), p_acks = {} \<rparr>"

section \<open>Invariant\<close>

text \<open>A log in which every entry stands where the leader of its term put it, behind the same entries.\<close>

definition good_log :: "proto \<Rightarrow> LogEntry list \<Rightarrow> bool" where
  "good_log p L \<longleftrightarrow> (\<forall>i. 0 < i \<and> i \<le> length L \<longrightarrow>
     p_elected p (termAt L i) \<noteq> None \<and> i \<le> length (p_tlog p (termAt L i)) \<and> take i L = take i (p_tlog p (termAt L i)))"

definition terms_upto :: "int \<Rightarrow> LogEntry list \<Rightarrow> bool" where
  "terms_upto T L \<longleftrightarrow> (\<forall>i. 0 < i \<and> i \<le> length L \<longrightarrow> termAt L i \<le> T)"

definition refused :: "proto \<Rightarrow> nat \<Rightarrow> int \<Rightarrow> nat \<Rightarrow> bool" where
  "refused p v T m \<longleftrightarrow> \<not> acked p v T m \<and> p_term p v > T"

text \<open>A position that a quorum may still acknowledge, or already has.\<close>

definition choosable :: "nat set set \<Rightarrow> proto \<Rightarrow> int \<Rightarrow> nat \<Rightarrow> bool" where
  "choosable Qs p T m \<longleftrightarrow> \<not> (\<exists>Q\<in>Qs. \<forall>v\<in>Q. refused p v T m)"

text \<open>\<open>L\<close> holds the leader's log of \<open>T\<close> up to position \<open>m\<close>.\<close>

definition holds_prefix :: "proto \<Rightarrow> int \<Rightarrow> nat \<Rightarrow> LogEntry list \<Rightarrow> bool" where
  "holds_prefix p T m L \<longleftrightarrow> m \<le> length L \<and> take m L = take m (p_tlog p T)"

definition votes_ok :: "proto \<Rightarrow> bool" where
  "votes_ok p \<longleftrightarrow> (\<forall>v. 0 \<le> p_term p v) \<and>
     (\<forall>v T c. (v, T, c) \<in> p_votes p \<longrightarrow> 0 < T \<and> (c, T, c) \<in> p_votes p \<and> (p_term p v > T \<or> p_term p v = T \<and> p_vote p v = Some c)) \<and>
     (\<forall>v T c c'. (v, T, c) \<in> p_votes p \<and> (v, T, c') \<in> p_votes p \<longrightarrow> c = c')"

definition elections_ok :: "nat set set \<Rightarrow> proto \<Rightarrow> bool" where
  "elections_ok Qs p \<longleftrightarrow> (\<forall>T c. p_elected p T = Some c \<longrightarrow> own p T (length (p_tlog p T)) \<and> (\<exists>Q\<in>Qs. \<forall>v\<in>Q. (v, T, c) \<in> p_votes p))"

definition logs_ok :: "proto \<Rightarrow> bool" where
  "logs_ok p \<longleftrightarrow>
     (\<forall>v. good_log p (p_log p v) \<and> terms_upto (p_term p v) (p_log p v)) \<and>
     (\<forall>T. p_elected p T \<noteq> None \<longrightarrow> good_log p (p_tlog p T) \<and> terms_upto T (p_tlog p T)) \<and>
     (\<forall>c T. (c, T, c) \<in> p_votes p \<longrightarrow> good_log p (p_clog p c T) \<and> terms_upto (T - 1) (p_clog p c T) \<and>
        (p_term p c = T \<and> p_elected p T = None \<longrightarrow> terms_upto (T - 1) (p_log p c)))"

definition acks_ok :: "proto \<Rightarrow> bool" where
  "acks_ok p \<longleftrightarrow> (\<forall>v T m. (v, T, m) \<in> p_acks p \<longrightarrow> own p T m \<and> T \<le> p_term p v)"

text \<open>
  The heart: a position that can still be chosen is in the log of everyone who acknowledged it, in the log of every
  later candidate that got the vote of someone who acknowledged it, and in the log of every later leader. A candidate
  whose log changes before it is elected keeps such positions.
\<close>

definition kept_ok :: "nat set set \<Rightarrow> proto \<Rightarrow> bool" where
  "kept_ok Qs p \<longleftrightarrow> (\<forall>T m. own p T m \<and> choosable Qs p T m \<longrightarrow>
     (\<forall>v. acked p v T m \<longrightarrow> holds_prefix p T m (p_log p v)) \<and>
     (\<forall>v T' c. (v, T', c) \<in> p_votes p \<and> T < T' \<and> acked p v T m \<longrightarrow> holds_prefix p T m (p_clog p c T')) \<and>
     (\<forall>c T'. (c, T', c) \<in> p_votes p \<and> p_term p c = T' \<and> p_elected p T' = None \<and> T < T' \<and> holds_prefix p T m (p_clog p c T') \<longrightarrow>
        holds_prefix p T m (p_log p c)) \<and>
     (\<forall>T'. p_elected p T' \<noteq> None \<and> T < T' \<longrightarrow> holds_prefix p T m (p_tlog p T')))"

definition commits_ok :: "nat set set \<Rightarrow> proto \<Rightarrow> bool" where
  "commits_ok Qs p \<longleftrightarrow> (\<forall>v. settled_prefix Qs p (p_term p v) (p_log p v) (p_commit p v))"

definition proto_ok :: "nat set set \<Rightarrow> proto \<Rightarrow> bool" where
  "proto_ok Qs p \<longleftrightarrow> votes_ok p \<and> elections_ok Qs p \<and> logs_ok p \<and> acks_ok p \<and> kept_ok Qs p \<and> commits_ok Qs p"

section \<open>History only grows\<close>

definition grows :: "proto \<Rightarrow> proto \<Rightarrow> bool" where
  "grows p p' \<longleftrightarrow> (\<forall>v. p_term p v \<le> p_term p' v) \<and> p_votes p \<subseteq> p_votes p' \<and> p_acks p \<subseteq> p_acks p' \<and>
     (\<forall>T. p_elected p T \<noteq> None \<longrightarrow> p_elected p' T = p_elected p T \<and> (\<exists>es. p_tlog p' T = p_tlog p T @ es)) \<and>
     (\<forall>v T m. (v, T, m) \<in> p_acks p' - p_acks p \<longrightarrow> p_term p v \<le> T)"

lemma pstep_grows: "pstep Qs p p' \<Longrightarrow> grows p p'"
  by (induction rule: pstep.induct) (auto simp: grows_def raise_term_def)

lemma grows_tlog_take: "\<lbrakk> grows p p'; p_elected p T \<noteq> None; m \<le> length (p_tlog p T) \<rbrakk> \<Longrightarrow> take m (p_tlog p' T) = take m (p_tlog p T)"
  by (auto simp: grows_def)

lemma grows_tlog_length: "\<lbrakk> grows p p'; p_elected p T \<noteq> None \<rbrakk> \<Longrightarrow> length (p_tlog p T) \<le> length (p_tlog p' T)"
  by (auto simp: grows_def)

lemma grows_elected: "grows p p' \<Longrightarrow> p_elected p T = Some c \<Longrightarrow> p_elected p' T = Some c"
  by (auto simp: grows_def)

lemma grows_own: "\<lbrakk> grows p p'; own p T m \<rbrakk> \<Longrightarrow> own p' T m"
  using grows_tlog_take [of p p' T m] grows_tlog_length [of p p' T]
  by (auto simp: own_def grows_elected dest: termAt_eqI [where i = m])

lemma grows_sets: "grows p p' \<Longrightarrow> p_votes p \<subseteq> p_votes p'" "grows p p' \<Longrightarrow> p_acks p \<subseteq> p_acks p'"
    "grows p p' \<Longrightarrow> p_term p v \<le> p_term p' v"
  by (simp_all add: grows_def)

lemma grows_refl: "grows p p"
  by (simp add: grows_def)

lemma grows_trans: "grows p q \<Longrightarrow> grows q r \<Longrightarrow> grows p r"
proof -
  assume pq: "grows p q" and qr: "grows q r"
  have "p_elected r T = p_elected p T \<and> (\<exists>es. p_tlog r T = p_tlog p T @ es)" if "p_elected p T \<noteq> None" for T
    using pq qr that unfolding grows_def by (metis append.assoc)
  moreover have "p_term p v \<le> T" if "(v, T, m) \<in> p_acks r - p_acks p" for v T m
  proof (cases "(v, T, m) \<in> p_acks q")
    case True
    then show ?thesis using pq that unfolding grows_def by blast
  next
    case False
    then have "p_term q v \<le> T" using qr that unfolding grows_def by blast
    then show ?thesis using grows_sets(3) [OF pq, of v] by simp
  qed
  moreover have "p_term p v \<le> p_term r v" for v using grows_sets(3) [OF pq, of v] grows_sets(3) [OF qr, of v] by simp
  moreover have "p_votes p \<subseteq> p_votes r" "p_acks p \<subseteq> p_acks r" using grows_sets(1,2) [OF pq] grows_sets(1,2) [OF qr] by auto
  ultimately show ?thesis unfolding grows_def by blast
qed

lemma grows_acked: "grows p p' \<Longrightarrow> acked p v T m \<Longrightarrow> acked p' v T m"
  unfolding acked_def using grows_sets(2) by blast

lemma grows_chosen: "grows p p' \<Longrightarrow> chosen Qs p T m \<Longrightarrow> chosen Qs p' T m"
  by (meson chosen_def grows_own grows_acked)

lemma grows_refused: "grows p p' \<Longrightarrow> refused p v T m \<Longrightarrow> refused p' v T m"
proof -
  assume g: "grows p p'" and r: "refused p v T m"
  have "(v, T, m') \<notin> p_acks p'" if "m \<le> m'" for m'
  proof
    assume a: "(v, T, m') \<in> p_acks p'"
    have "(v, T, m') \<notin> p_acks p" using r that by (auto simp: refused_def acked_def)
    then have "p_term p v \<le> T" using g a unfolding grows_def by blast
    then show False using r by (simp add: refused_def)
  qed
  moreover have "p_term p v \<le> p_term p' v" using g by (simp add: grows_def)
  ultimately show ?thesis using r by (auto simp: refused_def acked_def)
qed

lemma grows_choosable: "grows p p' \<Longrightarrow> choosable Qs p' T m \<Longrightarrow> choosable Qs p T m"
  by (meson choosable_def grows_refused)

lemma grows_good_log: "grows p p' \<Longrightarrow> good_log p L \<Longrightarrow> good_log p' L"
  unfolding good_log_def
proof (intro allI impI)
  fix i assume g: "grows p p'" and L: "\<forall>i. 0 < i \<and> i \<le> length L \<longrightarrow>
      p_elected p (termAt L i) \<noteq> None \<and> i \<le> length (p_tlog p (termAt L i)) \<and> take i L = take i (p_tlog p (termAt L i))"
    and i: "0 < i \<and> i \<le> length L"
  let ?t = "termAt L i"
  have e: "p_elected p ?t \<noteq> None" "i \<le> length (p_tlog p ?t)" "take i L = take i (p_tlog p ?t)" using L i by blast+
  then show "p_elected p' ?t \<noteq> None \<and> i \<le> length (p_tlog p' ?t) \<and> take i L = take i (p_tlog p' ?t)"
    using grows_tlog_take [OF g e(1,2)] grows_tlog_length [OF g e(1)] grows_elected [OF g, of ?t] by fastforce
qed

lemma grows_holds: "\<lbrakk> grows p p'; own p T m; holds_prefix p T m L \<rbrakk> \<Longrightarrow> holds_prefix p' T m L"
  using grows_tlog_take [of p p' T m] by (auto simp: holds_prefix_def own_def)

lemma grows_settled:
  assumes "grows p p'" "settled_prefix Qs p T L n" "T \<le> T'" "take n L' = take n L"
  shows "settled_prefix Qs p' T' L' n"
proof (cases "n = 0")
  case False
  then obtain T0 m where "T0 \<le> T" "chosen Qs p T0 m" "n \<le> m" "n \<le> length L" "take n L = take n (p_tlog p T0)"
    using assms(2) by (auto simp: settled_prefix_def)
  moreover from this have "take n (p_tlog p' T0) = take n (p_tlog p T0)"
    using grows_tlog_take [OF assms(1)] by (auto simp: chosen_def own_def)
  moreover have "n \<le> length L'" using assms(4) \<open>n \<le> length L\<close> by (rule length_from_take)
  ultimately show ?thesis
    using assms(3,4) grows_chosen [OF assms(1)] by (auto simp: settled_prefix_def intro!: exI [of _ T0] exI [of _ m])
qed (simp add: settled_prefix_def)

section \<open>Consequences of the invariant\<close>

lemma terms_upto_mono: "terms_upto T L \<Longrightarrow> T \<le> T' \<Longrightarrow> terms_upto T' L"
  by (force simp: terms_upto_def)

lemma good_log_take: "good_log p L \<Longrightarrow> good_log p (take m L)"
  by (auto simp: good_log_def)

lemma terms_upto_take: "terms_upto T L \<Longrightarrow> terms_upto T (take m L)"
  by (auto simp: terms_upto_def)

lemma terms_upto_append: "terms_upto T (L @ es) \<longleftrightarrow> terms_upto T L \<and> list_all (\<lambda>e. le_logTerm e \<le> T) es"
proof -
  have eq: "terms_upto T L \<longleftrightarrow> list_all (\<lambda>e. le_logTerm e \<le> T) L" for L
  proof
    assume "terms_upto T L"
    then have "le_logTerm (L ! n) \<le> T" if "n < length L" for n
      using that by (auto simp: terms_upto_def termAt_def dest: spec [of _ "Suc n"])
    then show "list_all (\<lambda>e. le_logTerm e \<le> T) L" by (simp add: list_all_length)
  qed (auto simp: terms_upto_def termAt_def list_all_length)
  show ?thesis by (simp add: eq)
qed

text \<open>Terms do not fall along a log.\<close>

lemma good_log_sorted:
  assumes "logs_ok p" "good_log p L" "i \<le> j" "j \<le> length L" "0 < i"
  shows "termAt L i \<le> termAt L j"
proof -
  let ?t = "termAt L j"
  have "p_elected p ?t \<noteq> None" "j \<le> length (p_tlog p ?t)" "take j L = take j (p_tlog p ?t)"
    using assms(2-5) by (auto simp: good_log_def)
  moreover from this have "terms_upto ?t (p_tlog p ?t)" using assms(1) by (simp add: logs_ok_def)
  ultimately show ?thesis
    using termAt_eqI [of j L "p_tlog p ?t" i] assms(3,5) by (auto simp: terms_upto_def)
qed

lemma votes_okD:
  assumes "votes_ok p" "(v, T, c) \<in> p_votes p"
  shows "0 < T" "(c, T, c) \<in> p_votes p" "T \<le> p_term p v" "p_term p v = T \<Longrightarrow> p_vote p v = Some c"
    "(v, T, c') \<in> p_votes p \<Longrightarrow> c' = c"
proof -
  have "0 < T \<and> (c, T, c) \<in> p_votes p \<and> (p_term p v > T \<or> p_term p v = T \<and> p_vote p v = Some c)"
    using assms unfolding votes_ok_def by blast
  then show "0 < T" "(c, T, c) \<in> p_votes p" "T \<le> p_term p v" "p_term p v = T \<Longrightarrow> p_vote p v = Some c" by auto
  show "(v, T, c') \<in> p_votes p \<Longrightarrow> c' = c" using assms unfolding votes_ok_def by blast
qed

lemma elections_okD:
  assumes "elections_ok Qs p" "p_elected p T = Some c"
  shows "own p T (length (p_tlog p T))" "\<exists>Q\<in>Qs. \<forall>v\<in>Q. (v, T, c) \<in> p_votes p"
  using assms by (simp_all add: elections_ok_def)

lemma acks_okD:
  assumes "acks_ok p" "acked p v T m"
  shows "T \<le> p_term p v" "m \<le> length (p_tlog p T)" "p_elected p T \<noteq> None"
proof -
  obtain m' where "m \<le> m'" "(v, T, m') \<in> p_acks p" using assms(2) by (auto simp: acked_def)
  moreover from this have "own p T m' \<and> T \<le> p_term p v" using assms(1) unfolding acks_ok_def by blast
  ultimately show "T \<le> p_term p v" "m \<le> length (p_tlog p T)" "p_elected p T \<noteq> None" by (auto simp: own_def)
qed

lemma kept_okD:
  assumes "kept_ok Qs p" "own p T m" "choosable Qs p T m"
  shows "acked p v T m \<Longrightarrow> holds_prefix p T m (p_log p v)"
    "(v, T', c) \<in> p_votes p \<Longrightarrow> T < T' \<Longrightarrow> acked p v T m \<Longrightarrow> holds_prefix p T m (p_clog p c T')"
    "p_elected p T' \<noteq> None \<Longrightarrow> T < T' \<Longrightarrow> holds_prefix p T m (p_tlog p T')"
    "\<lbrakk> (c, T', c) \<in> p_votes p; p_term p c = T'; p_elected p T' = None; T < T'; holds_prefix p T m (p_clog p c T') \<rbrakk> \<Longrightarrow>
       holds_prefix p T m (p_log p c)"
  using assms unfolding kept_ok_def by blast+

lemma holds_take: "holds_prefix p T m L \<Longrightarrow> n \<le> m \<Longrightarrow> take n L = take n (p_tlog p T)"
  by (auto simp: holds_prefix_def intro: take_le_eq)

locale quorum_system =
  fixes Qs :: "nat set set"
  assumes qintersect: "Q \<in> Qs \<Longrightarrow> Q' \<in> Qs \<Longrightarrow> Q \<inter> Q' \<noteq> {}"
begin

lemma chosen_choosable: "chosen Qs p T m \<Longrightarrow> choosable Qs p T m"
proof -
  assume "chosen Qs p T m"
  then obtain Q where Q: "Q \<in> Qs" "\<forall>v\<in>Q. acked p v T m" by (auto simp: chosen_def)
  have "\<exists>v\<in>Q'. \<not> refused p v T m" if "Q' \<in> Qs" for Q'
    using qintersect [OF Q(1) that] Q(2) by (auto simp: refused_def)
  then show ?thesis by (auto simp: choosable_def)
qed

text \<open>At most one candidate can be elected in a term.\<close>

lemma quorum_vote_unique:
  assumes "votes_ok p" "Q \<in> Qs" "\<forall>v\<in>Q. (v, T, c) \<in> p_votes p" "Q' \<in> Qs" "\<forall>v\<in>Q'. (v, T, c') \<in> p_votes p"
  shows "c = c'"
proof -
  obtain v where "v \<in> Q" "v \<in> Q'" using qintersect [OF assms(2,4)] by blast
  then show ?thesis using votes_okD(5) [OF assms(1), of v T c' c] assms(3,5) by auto
qed

text \<open>A leader of a later term closes the positions it does not hold: its voters do not acknowledge them any more.\<close>

lemma later_election_closes:
  assumes "votes_ok p" "elections_ok Qs p" "p_elected p T' = Some c" "T < T'"
    and only: "\<And>v. acked p v T m \<Longrightarrow> p_term p v \<le> T"
  shows "\<not> choosable Qs p T m"
proof -
  obtain Q where Q: "Q \<in> Qs" "\<forall>v\<in>Q. (v, T', c) \<in> p_votes p" using elections_okD(2) [OF assms(2,3)] by blast
  have "refused p v T m" if "v \<in> Q" for v
    using votes_okD(3) [OF assms(1), of v T' c] Q(2) that assms(4) only [of v] by (auto simp: refused_def)
  then show ?thesis using Q(1) by (auto simp: choosable_def)
qed

text \<open>A position that can be chosen agrees with one that is.\<close>

lemma chosen_compatible:
  assumes kept: "kept_ok Qs p" and m: "own p T m" "choosable Qs p T m" and c: "chosen Qs p T' m'" and n: "n \<le> m" "n \<le> m'"
  shows "take n (p_tlog p T) = take n (p_tlog p T')"
proof (cases T T' rule: linorder_cases)
  case less
  moreover have "p_elected p T' \<noteq> None" using c by (simp add: chosen_def own_def)
  ultimately show ?thesis using holds_take [OF kept_okD(3) [OF kept m] n(1)] by simp
next
  case greater
  moreover have "p_elected p T \<noteq> None" "own p T' m'" using m c by (simp_all add: chosen_def own_def)
  ultimately show ?thesis using holds_take [OF kept_okD(3) [OF kept _ chosen_choosable [OF c]] n(2)] by simp
qed simp

lemma chosen_agree:
  assumes "kept_ok Qs p" "chosen Qs p T1 m1" "chosen Qs p T2 m2" "n \<le> m1" "n \<le> m2"
  shows "take n (p_tlog p T1) = take n (p_tlog p T2)"
  using chosen_compatible [OF assms(1) _ chosen_choosable [OF assms(2)] assms(3-5)] assms(2) by (simp add: chosen_def)

lemma committed_agree:
  assumes "kept_ok Qs p" "settled_prefix Qs p T1 L1 n1" "settled_prefix Qs p T2 L2 n2" "i < n1" "i < n2"
  shows "L1 ! i = L2 ! i"
proof -
  obtain A m where A: "chosen Qs p A m" "n1 \<le> m" "n1 \<le> length L1" "take n1 L1 = take n1 (p_tlog p A)"
    using assms(2,4) by (auto simp: settled_prefix_def)
  obtain B k where B: "chosen Qs p B k" "n2 \<le> k" "n2 \<le> length L2" "take n2 L2 = take n2 (p_tlog p B)"
    using assms(3,5) by (auto simp: settled_prefix_def)
  have "take (Suc i) L1 = take (Suc i) L2"
    using chosen_agree [OF assms(1) A(1) B(1), of "Suc i"] A(2) B(2) assms(4,5)
    take_le_eq [OF A(4), of "Suc i"] take_le_eq [OF B(4), of "Suc i"] by simp
  then have "take (Suc i) L1 ! i = take (Suc i) L2 ! i" by simp
  then show ?thesis by simp
qed

end

section \<open>The steps keep the invariant\<close>

lemma votes_ok_intro:
  assumes "\<And>v. 0 \<le> p_term p v" "\<And>v T c. (v, T, c) \<in> p_votes p \<Longrightarrow> 0 < T \<and> (c, T, c) \<in> p_votes p"
    "\<And>v T c. (v, T, c) \<in> p_votes p \<Longrightarrow> T \<le> p_term p v" "\<And>v T c. (v, T, c) \<in> p_votes p \<Longrightarrow> p_term p v = T \<Longrightarrow> p_vote p v = Some c"
    "\<And>v T c c'. (v, T, c) \<in> p_votes p \<Longrightarrow> (v, T, c') \<in> p_votes p \<Longrightarrow> c = c'"
  shows "votes_ok p"
proof -
  have "p_term p v > T \<or> p_term p v = T \<and> p_vote p v = Some c" if "(v, T, c) \<in> p_votes p" for v T c
    using assms(3,4) [OF that] by linarith
  then show ?thesis unfolding votes_ok_def using assms(1,2,5) by blast
qed

lemma votes_ok_raise:
  assumes ok: "votes_ok p" and T: "p_term p v \<le> T"
  shows "votes_ok (raise_term v T p)"
proof (rule votes_ok_intro)
  have nn: "\<And>v. 0 \<le> p_term p v" using ok by (simp add: votes_ok_def)
  show "0 \<le> p_term (raise_term v T p) w" for w using nn [of w] nn [of v] T by (simp add: raise_term_def)
  fix w T' c assume "(w, T', c) \<in> p_votes (raise_term v T p)"
  then have vote: "(w, T', c) \<in> p_votes p" by (simp add: raise_term_def)
  show "0 < T' \<and> (c, T', c) \<in> p_votes (raise_term v T p)" using votes_okD(1,2) [OF ok vote] by (simp add: raise_term_def)
  show "T' \<le> p_term (raise_term v T p) w" using votes_okD(3) [OF ok vote] T by (auto simp: raise_term_def)
  show "p_vote (raise_term v T p) w = Some c" if "p_term (raise_term v T p) w = T'"
    using votes_okD(3,4) [OF ok vote] T that by (cases "w = v") (auto simp: raise_term_def)
  show "c = c'" if "(w, T', c') \<in> p_votes (raise_term v T p)" for c'
    using votes_okD(5) [OF ok vote, of c'] that by (simp add: raise_term_def)
qed

lemma votes_ok_same:
  "\<lbrakk> votes_ok p; p_term p' = p_term p; p_vote p' = p_vote p; p_votes p' = p_votes p \<rbrakk> \<Longrightarrow> votes_ok p'"
  by (simp add: votes_ok_def)

lemma votes_ok_vote:
  assumes ok: "votes_ok p" and new: "p_term p v \<le> T" "p_term p v = T \<Longrightarrow> p_vote p v = None \<or> p_vote p v = Some c" "0 < T"
    and self: "v = c \<or> (c, T, c) \<in> p_votes p"
    and p': "p_term p' = (p_term p)(v := T)" "p_vote p' = (p_vote p)(v := Some c)" "p_votes p' = insert (v, T, c) (p_votes p)"
  shows "votes_ok p'"
proof (rule votes_ok_intro)
  have nn: "\<And>v. 0 \<le> p_term p v" using ok by (simp add: votes_ok_def)
  have same: "c' = c" if "(v, T, c') \<in> p_votes p" for c'
    using votes_okD(3,4) [OF ok that] new(1,2) by auto
  show "0 \<le> p_term p' w" for w using nn [of w] new(3) by (simp add: p')
  fix w T' c' assume "(w, T', c') \<in> p_votes p'"
  then consider (new) "w = v" "T' = T" "c' = c" | (old) "(w, T', c') \<in> p_votes p" by (auto simp: p')
  note cases = this
  show "0 < T' \<and> (c', T', c') \<in> p_votes p'"
    using cases new(3) self votes_okD(1,2) [OF ok] by cases (auto simp: p')
  show "T' \<le> p_term p' w"
    using cases new(1) votes_okD(3) [OF ok] by cases (force simp: p')+
  show "p_vote p' w = Some c'" if "p_term p' w = T'"
    using cases that same votes_okD(4) [OF ok] by cases (auto simp: p' split: if_splits)
  show "c' = c2" if "(w, T', c2) \<in> p_votes p'" for c2
    using cases that same votes_okD(5) [OF ok] by cases (auto simp: p')
qed

lemma votes_ok_step:
  assumes "pstep Qs p p'" "votes_ok p"
  shows "votes_ok p'"
  using assms
proof (induction rule: pstep.induct)
  case (Campaign p c T)
  have "0 \<le> p_term p c" using Campaign(2) by (simp add: votes_ok_def)
  then show ?case using Campaign by (intro votes_ok_vote [OF Campaign(2), of c T c]) auto
next
  case (Grant c T p v)
  then show ?case using votes_okD(1) [OF Grant(5,1)] by (intro votes_ok_vote [OF Grant(5), of v T c]) auto
next
  case (Raise p v T)
  then show ?case by (simp add: votes_ok_raise)
next
  case (Accept p T m v)
  then show ?case by (auto intro: votes_ok_same [OF votes_ok_raise])
next
  case (Install p T M k v)
  then show ?case by (auto intro: votes_ok_same [OF votes_ok_raise])
qed (auto intro: votes_ok_same)

lemma acks_ok_step:
  assumes step: "pstep Qs p p'" and ok: "acks_ok p"
  shows "acks_ok p'"
proof -
  have g: "grows p p'" by (rule pstep_grows [OF step])
  have old: "own p' T m \<and> T \<le> p_term p' v" if "(v, T, m) \<in> p_acks p" for v T m
  proof -
    have "own p T m" "T \<le> p_term p v" using ok that unfolding acks_ok_def by blast+
    then show ?thesis using grows_own [OF g] grows_sets(3) [OF g, of v] by auto
  qed
  have new: "own p' T m \<and> T \<le> p_term p' v" if "(v, T, m) \<in> p_acks p'" "(v, T, m) \<notin> p_acks p" for v T m
    using step that
  proof cases
    case (Accept T' m' v')
    then have "v = v'" "T = T'" "m = m'" using that by auto
    then show ?thesis using grows_own [OF g] Accept by (simp add: raise_term_def)
  next
    case (Propose T' l es L)
    then have *: "v = l" "T = T'" "m = length L" using that by auto
    have "last es \<in> set es" using Propose by simp
    then have "le_logTerm (last es) = T'" using Propose by (simp add: list_all_iff)
    then have "termAt L (length L) = T'" using Propose termAt_last [of es "p_log p l"] by simp
    then show ?thesis using Propose * by (auto simp: own_def)
  qed (use that in \<open>auto simp: own_def raise_term_def\<close>)
  show ?thesis using old new unfolding acks_ok_def by blast
qed

lemma elections_ok_step:
  assumes step: "pstep Qs p p'" and ok: "elections_ok Qs p"
  shows "elections_ok Qs p'"
proof -
  have g: "grows p p'" by (rule pstep_grows [OF step])
  have "own p' T (length (p_tlog p' T)) \<and> (\<exists>Q\<in>Qs. \<forall>v\<in>Q. (v, T, c) \<in> p_votes p')" if el: "p_elected p' T = Some c" for T c
  proof (cases "p_elected p T")
    case None
    from step el None show ?thesis
      by cases (auto simp: own_def raise_term_def split: if_splits)
  next
    case (Some c')
    then have c': "p_elected p T = Some c" using grows_elected [OF g Some] el by simp
    have "\<exists>Q\<in>Qs. \<forall>v\<in>Q. (v, T, c) \<in> p_votes p'"
      using elections_okD(2) [OF ok c'] grows_sets(1) [OF g] by blast
    moreover have "own p' T (length (p_tlog p' T))"
    proof (cases "p_tlog p' T = p_tlog p T")
      case True
      then show ?thesis using grows_own [OF g elections_okD(1) [OF ok c']] by simp
    next
      case False
      from step False c' show ?thesis
      proof cases
        case (Propose T' l es L)
        have "le_logTerm (last es) = T'" using Propose by (simp add: list_all_iff)
        then show ?thesis
          using Propose False c' termAt_last [of es "p_log p l"] by (auto simp: own_def split: if_splits)
      qed (auto simp: raise_term_def split: if_splits)
    qed
    ultimately show ?thesis by blast
  qed
  then show ?thesis by (simp add: elections_ok_def)
qed

lemma good_log_append:
  assumes "good_log p L" "p_elected p T \<noteq> None" "p_tlog p T = L @ es" "list_all (\<lambda>e. le_logTerm e = T) es"
  shows "good_log p (L @ es)"
  unfolding good_log_def
proof (intro allI impI)
  fix i assume i: "0 < i \<and> i \<le> length (L @ es)"
  show "p_elected p (termAt (L @ es) i) \<noteq> None \<and> i \<le> length (p_tlog p (termAt (L @ es) i)) \<and>
      take i (L @ es) = take i (p_tlog p (termAt (L @ es) i))"
  proof (cases "i \<le> length L")
    case True
    then show ?thesis using assms(1) i by (auto simp: good_log_def)
  next
    case False
    then have "termAt (L @ es) i = T"
      using i assms(4) by (auto simp: termAt_def nth_append list_all_length)
    then show ?thesis using assms(2,3) i by simp
  qed
qed

lemma good_log_adopt: "\<lbrakk> good_log p L; good_log p M \<rbrakk> \<Longrightarrow> good_log p (adopt m L M)"
  by (simp add: adopt_def good_log_take)

lemma terms_upto_adopt: "\<lbrakk> terms_upto T L; terms_upto T M \<rbrakk> \<Longrightarrow> terms_upto T (adopt m L M)"
  by (simp add: adopt_def terms_upto_take)

lemma logs_okD:
  assumes "logs_ok p"
  shows "good_log p (p_log p v)" "terms_upto (p_term p v) (p_log p v)"
    "p_elected p T \<noteq> None \<Longrightarrow> good_log p (p_tlog p T)" "p_elected p T \<noteq> None \<Longrightarrow> terms_upto T (p_tlog p T)"
    "(c, T, c) \<in> p_votes p \<Longrightarrow> good_log p (p_clog p c T)" "(c, T, c) \<in> p_votes p \<Longrightarrow> terms_upto (T - 1) (p_clog p c T)"
    "(c, T, c) \<in> p_votes p \<Longrightarrow> p_term p c = T \<Longrightarrow> p_elected p T = None \<Longrightarrow> terms_upto (T - 1) (p_log p c)"
  using assms by (auto simp: logs_ok_def)

lemma settled_log:
  assumes "logs_ok p" "settled_prefix Qs p T M k"
  shows "good_log p (take k M)" "terms_upto T (take k M)" "p_elected p T = None \<Longrightarrow> terms_upto (T - 1) (take k M)"
proof -
  have "good_log p (take k M) \<and> terms_upto T (take k M) \<and> (p_elected p T = None \<longrightarrow> terms_upto (T - 1) (take k M))"
  proof (cases "k = 0")
    case False
    then obtain T0 m where c: "T0 \<le> T" "chosen Qs p T0 m" "take k M = take k (p_tlog p T0)"
      using assms(2) by (auto simp: settled_prefix_def)
    have el: "p_elected p T0 \<noteq> None" using c(2) by (simp add: chosen_def own_def)
    have "terms_upto T0 (take k M)" using logs_okD(4) [OF assms(1) el] c(3) by (simp add: terms_upto_take)
    moreover have "T0 \<le> T - 1" if "p_elected p T = None" using that el c(1) by (cases "T0 = T") auto
    ultimately show ?thesis
      using logs_okD(3) [OF assms(1) el] c(1,3) by (auto simp: good_log_take intro: terms_upto_mono)
  qed (simp add: good_log_def terms_upto_def)
  then show "good_log p (take k M)" "terms_upto T (take k M)" "p_elected p T = None \<Longrightarrow> terms_upto (T - 1) (take k M)" by auto
qed

text \<open>What a step does to the logs, besides what the history keeps.\<close>

lemma step_log_ok:
  assumes step: "pstep Qs p p'" and ok: "logs_ok p"
  shows "good_log p' (p_log p' v) \<and> terms_upto (p_term p' v) (p_log p' v)"
proof (cases "p_log p' v = p_log p v")
  case True
  have g: "grows p p'" by (rule pstep_grows [OF step])
  then show ?thesis
    using True grows_good_log [OF g logs_okD(1) [OF ok]] terms_upto_mono [OF logs_okD(2) [OF ok] grows_sets(3) [OF g]] by simp
next
  case False
  have g: "grows p p'" by (rule pstep_grows [OF step])
  have good: "good_log p' (p_log p v)" by (rule grows_good_log [OF g logs_okD(1) [OF ok]])
  from step False show ?thesis
  proof cases
    case (Elect T c Q e L)
    then have v: "v = c" using False by (auto split: if_splits)
    have "good_log p' L" using good Elect v good_log_append [of p' "p_log p c" T "[e]"] by simp
    moreover have "terms_upto T L" using Elect logs_okD(2) [OF ok, of c] by (simp add: terms_upto_append)
    ultimately show ?thesis using Elect v by simp
  next
    case (Accept T m w)
    then have v: "v = w" using False by (auto split: if_splits)
    have el: "p_elected p T \<noteq> None" using Accept by (simp add: own_def)
    have "good_log p' (adopt m (p_tlog p T) (p_log p w))"
      using good v grows_good_log [OF g logs_okD(3) [OF ok el]] by (simp add: good_log_adopt)
    moreover have "terms_upto T (adopt m (p_tlog p T) (p_log p w))"
      using logs_okD(4) [OF ok el] terms_upto_mono [OF logs_okD(2) [OF ok, of w]] Accept by (simp add: terms_upto_adopt)
    ultimately show ?thesis using Accept v by (simp add: raise_term_def)
  next
    case (Install T M k w)
    then have v: "v = w" using False by (auto split: if_splits)
    have "good_log p' (adopt k M (p_log p w))"
      using good v grows_good_log [OF g settled_log(1) [OF ok Install(2)]] by (simp add: adopt_def)
    moreover have "terms_upto T (adopt k M (p_log p w))"
      using settled_log(2) [OF ok Install(2)] terms_upto_mono [OF logs_okD(2) [OF ok, of w]] Install by (simp add: adopt_def)
    ultimately show ?thesis using Install v by (simp add: raise_term_def)
  next
    case (Propose T l es L)
    then have v: "v = l" using False by (auto split: if_splits)
    have "good_log p' L" using good Propose v good_log_append [of p' "p_log p l" T es] by simp
    moreover have "terms_upto T L"
      using Propose logs_okD(2) [OF ok, of l] by (auto simp: terms_upto_append list_all_iff)
    ultimately show ?thesis using Propose v by simp
  qed (auto simp: raise_term_def)
qed

lemma step_tlog_ok:
  assumes step: "pstep Qs p p'" and ok: "logs_ok p" and el: "p_elected p' T \<noteq> None"
  shows "good_log p' (p_tlog p' T) \<and> terms_upto T (p_tlog p' T)"
proof (cases "p_elected p T \<noteq> None \<and> p_tlog p' T = p_tlog p T")
  case True
  then show ?thesis
    using grows_good_log [OF pstep_grows [OF step] logs_okD(3) [OF ok, of T]] logs_okD(4) [OF ok, of T] by simp
next
  case False
  have "\<exists>c. p_tlog p' T = p_log p' c \<and> p_term p' c = T"
    using step el False by cases (auto simp: raise_term_def split: if_splits)
  then show ?thesis using step_log_ok [OF step ok] by metis
qed

lemma step_clog:
  assumes step: "pstep Qs p p'" and votes: "votes_ok p" and v: "(c, T, c) \<in> p_votes p"
  shows "p_clog p' c T = p_clog p c T"
  using step votes_okD(3) [OF votes v] by cases (auto simp: raise_term_def)

lemma step_clog_new:
  assumes step: "pstep Qs p p'" and votes: "votes_ok p" and v: "(c, T, c) \<in> p_votes p'" "(c, T, c) \<notin> p_votes p"
  shows "p_clog p' c T = p_log p c \<and> p_log p' c = p_log p c \<and> p_term p c < T"
  using step v by cases (auto simp: raise_term_def)

lemma logs_ok_step:
  assumes step: "pstep Qs p p'" and ok: "logs_ok p" and votes: "votes_ok p"
  shows "logs_ok p'"
proof -
  have g: "grows p p'" by (rule pstep_grows [OF step])
  have "good_log p' (p_clog p' c T) \<and> terms_upto (T - 1) (p_clog p' c T) \<and>
      (p_term p' c = T \<and> p_elected p' T = None \<longrightarrow> terms_upto (T - 1) (p_log p' c))" if v: "(c, T, c) \<in> p_votes p'" for c T
  proof (cases "(c, T, c) \<in> p_votes p")
    case True
    have clog: "p_clog p' c T = p_clog p c T" by (rule step_clog [OF step votes True])
    have "terms_upto (T - 1) (p_log p' c)" if cond: "p_term p' c = T" "p_elected p' T = None"
    proof -
      have Tc: "p_term p c = T" using votes_okD(3) [OF votes True] grows_sets(3) [OF g, of c] cond(1) by simp
      have none: "p_elected p T = None" using grows_elected [OF g, of T] cond(2) by (cases "p_elected p T") auto
      have old: "terms_upto (T - 1) (p_log p c)" by (rule logs_okD(7) [OF ok True Tc none])
      from step show ?thesis
      proof cases
        case (Install T' M k w)
        then show ?thesis
          using old none cond settled_log(3) [OF ok Install(2)] by (cases "c = w") (auto simp: raise_term_def adopt_def)
      qed (use old cond none in \<open>auto simp: raise_term_def own_def split: if_splits\<close>)
    qed
    then show ?thesis using clog grows_good_log [OF g logs_okD(5) [OF ok True]] logs_okD(6) [OF ok True] by simp
  next
    case False
    have new: "p_clog p' c T = p_log p c" "p_log p' c = p_log p c" "p_term p c < T"
      using step_clog_new [OF step votes v False] by auto
    then show ?thesis
      using grows_good_log [OF g logs_okD(1) [OF ok, of c]] terms_upto_mono [OF logs_okD(2) [OF ok, of c], of "T - 1"] by simp
  qed
  then show ?thesis
    unfolding logs_ok_def using step_log_ok [OF step ok] step_tlog_ok [OF step ok] by simp
qed

subsection \<open>Positions that can be chosen are kept\<close>

text \<open>An up-to-date candidate holds what a voter holds.\<close>

lemma grant_keeps:
  assumes logs: "logs_ok p" and kept: "kept_ok Qs p" and m: "own p T m" "choosable Qs p T m" and pos: "0 < T"
    and voter: "holds_prefix p T m (p_log p v)"
    and cand: "(c, T', c) \<in> p_votes p" "atLeastAsUpToDate (p_clog p c T') (p_log p v)"
  shows "holds_prefix p T m (p_clog p c T')"
proof -
  let ?C = "p_clog p c T'" and ?L = "p_log p v"
  have own: "0 < m" "m \<le> length (p_tlog p T)" "termAt (p_tlog p T) m = T" "p_elected p T \<noteq> None"
    using m(1) by (simp_all add: own_def)
  have mL: "m \<le> length ?L" "take m ?L = take m (p_tlog p T)" using voter by (simp_all add: holds_prefix_def)
  have "termAt ?L m = T" using termAt_eqI [OF mL(2), of m] own(3) by simp
  then have lv: "T \<le> lastTerm ?L" using good_log_sorted [OF logs logs_okD(1) [OF logs, of v] mL(1) order_refl own(1)] by simp
  then have lc: "T \<le> lastTerm ?C" using cand(2) by (auto simp: atLeastAsUpToDate_def)
  then have ne: "0 < length ?C" using pos by (auto simp: termAt_def)
  let ?t = "lastTerm ?C"
  have C: "p_elected p ?t \<noteq> None" "length ?C \<le> length (p_tlog p ?t)" "?C = take (length ?C) (p_tlog p ?t)"
    using logs_okD(5) [OF logs cand(1)] ne by (auto simp: good_log_def)
  show ?thesis
  proof (cases "?t = T")
    case True
    then have "length ?L \<le> length ?C" using cand(2) lv by (auto simp: atLeastAsUpToDate_def)
    then have "m \<le> length ?C" using mL(1) by simp
    then show ?thesis using C(3) True by (simp add: holds_prefix_def) (metis take_take min.absorb1)
  next
    case False
    then have less: "T < ?t" using lc by simp
    have E: "m \<le> length (p_tlog p ?t)" "take m (p_tlog p ?t) = take m (p_tlog p T)"
      using kept_okD(3) [OF kept m C(1) less] by (simp_all add: holds_prefix_def)
    have "m \<le> length ?C"
    proof (rule ccontr)
      assume "\<not> m \<le> length ?C"
      then have short: "length ?C \<le> m" by simp
      have "?t = termAt (p_tlog p ?t) (length ?C)" using C(3) by (metis order_refl termAt_take)
      also have "\<dots> = termAt (p_tlog p T) (length ?C)" by (rule termAt_eqI [OF E(2) short])
      also have "\<dots> \<le> T" using logs_okD(4) [OF logs own(4)] ne short own(2) by (simp add: terms_upto_def)
      finally show False using less by simp
    qed
    then show ?thesis using C(3) E(2) by (simp add: holds_prefix_def) (metis take_take min.absorb1)
  qed
qed

text \<open>A position that becomes the leader's own in this step has been acknowledged by the leader alone.\<close>

lemma new_own:
  assumes step: "pstep Qs p p'" and acks: "acks_ok p" and own: "own p' T m" "\<not> own p T m"
  shows "\<exists>c. p_log p' c = p_tlog p' T \<and> p_term p' c = T \<and> (\<forall>v. acked p' v T m \<longrightarrow> v = c)"
proof -
  have old: "m' < m" if "(v, T, m') \<in> p_acks p" for v m'
  proof (rule ccontr)
    assume "\<not> m' < m"
    then have "acked p v T m" using that by (auto simp: acked_def intro!: exI [of _ m'])
    then have "m \<le> length (p_tlog p T)" "p_elected p T \<noteq> None" using acks_okD [OF acks] by auto
    moreover have "take m (p_tlog p' T) = take m (p_tlog p T)" using grows_tlog_take [OF pstep_grows [OF step]] calculation by blast
    ultimately have "own p T m" using own(1) termAt_eqI [of m "p_tlog p' T" "p_tlog p T" m] by (auto simp: own_def)
    then show False using own(2) by simp
  qed
  from step show ?thesis
  proof cases
    case (Elect T' c Q e L)
    then have "T = T'" using own by (auto simp: own_def split: if_splits)
    then show ?thesis using Elect old by (fastforce simp: acked_def)
  next
    case (Propose T' l es L)
    then have "T = T'" using own by (auto simp: own_def split: if_splits)
    then show ?thesis using Propose old by (fastforce simp: acked_def)
  qed (use own in \<open>auto simp: own_def raise_term_def\<close>)
qed

lemma acked_old_or_new:
  assumes step: "pstep Qs p p'" and a: "acked p' v T m" "\<not> acked p v T m" and own: "own p' T m"
  shows "p_term p v \<le> T \<and> p_votes p' = p_votes p \<and> holds_prefix p' T m (p_log p' v)"
proof -
  obtain m' where m': "m \<le> m'" "(v, T, m') \<in> p_acks p'" "(v, T, m') \<notin> p_acks p" using a by (auto simp: acked_def)
  from step m' show ?thesis
  proof cases
    case (Accept T' k w)
    then have *: "v = w" "T = T'" "m' = k" using m' by auto
    have "k \<le> length (p_tlog p T)" using Accept * by (simp add: own_def)
    then have "take m (adopt k (p_tlog p T) (p_log p w)) = take m (p_tlog p T)"
      using take_adopt [of k "p_tlog p T" "p_log p w"] m'(1) * by (auto intro: take_le_eq)
    moreover from this have "m \<le> length (adopt k (p_tlog p T) (p_log p w))"
      using \<open>k \<le> length (p_tlog p T)\<close> m'(1) * length_from_take by force
    ultimately show ?thesis using Accept * by (simp add: raise_term_def holds_prefix_def)
  qed (use own in \<open>auto simp: holds_prefix_def own_def raise_term_def\<close>)
qed

lemma holds_append: "holds_prefix p T m L \<Longrightarrow> holds_prefix p T m (L @ es)"
  by (simp add: holds_prefix_def)

text \<open>Taking over a prefix that holds a position, into a log that holds it.\<close>

lemma adopt_holds:
  assumes M: "holds_prefix p T m M" and L: "\<And>n. n \<le> m \<Longrightarrow> n \<le> k \<Longrightarrow> take n L = take n (p_tlog p T)" and k: "m \<le> k \<Longrightarrow> k \<le> length L"
  shows "holds_prefix p T m (adopt k L M)"
proof (cases "m \<le> k")
  case True
  then have "take m L = take m (p_tlog p T)" "m \<le> length L" using L [of m] k by simp_all
  then show ?thesis using M True by (auto simp: adopt_def holds_prefix_def)
next
  case False
  then have "take k M = take k L" "k \<le> length M" using M L [of k] holds_take [OF M, of k] by (simp_all add: holds_prefix_def)
  then show ?thesis using M by (simp add: adopt_def)
qed

context quorum_system
begin

lemma adopt_settled_holds:
  assumes kept: "kept_ok Qs p" and m: "own p T m" "choosable Qs p T m" and M: "holds_prefix p T m M"
    and L: "settled_prefix Qs p U L k"
  shows "holds_prefix p T m (adopt k L M)"
proof (cases "k = 0")
  case False
  then obtain T0 m0 where c: "chosen Qs p T0 m0" "k \<le> m0" "k \<le> length L" "take k L = take k (p_tlog p T0)"
    using L by (auto simp: settled_prefix_def)
  show ?thesis
  proof (rule adopt_holds [OF M])
    fix n assume n: "n \<le> m" "n \<le> k"
    then show "take n L = take n (p_tlog p T)"
      using take_le_eq [OF c(4) n(2)] chosen_compatible [OF kept m c(1) n(1)] c(2) by simp
  qed (rule c(3))
qed (use M in \<open>simp add: adopt_def\<close>)

lemma kept_logs:
  assumes step: "pstep Qs p p'" and kept: "kept_ok Qs p"
    and m: "own p T m" "choosable Qs p T m" and a: "acked p v T m" and bound: "T \<le> p_term p v"
  shows "holds_prefix p' T m (p_log p' v)"
proof -
  have g: "grows p p'" by (rule pstep_grows [OF step])
  have v: "holds_prefix p T m (p_log p v)" by (rule kept_okD(1) [OF kept m a])
  have "holds_prefix p T m (p_log p' v)"
    using step
  proof cases
    case (Accept T' k w)
    have "holds_prefix p T m (p_tlog p T')" if "v = w"
      using kept_okD(3) [OF kept m, of T'] bound that Accept m(1) by (cases "T = T'") (auto simp: own_def holds_prefix_def)
    then have "holds_prefix p T m (adopt k (p_tlog p T') (p_log p v))" if "v = w"
      using that Accept by (intro adopt_holds [OF v]) (auto simp: own_def intro: holds_take)
    then show ?thesis using v Accept by (cases "v = w") (auto simp: raise_term_def)
  next
    case (Install T' M k w)
    then show ?thesis using v adopt_settled_holds [OF kept m v] by (cases "v = w") (auto simp: raise_term_def)
  qed (use v holds_append in \<open>auto simp: raise_term_def\<close>)
  then show ?thesis by (rule grows_holds [OF g m(1)])
qed

lemma kept_candidate:
  assumes step: "pstep Qs p p'" and ok: "votes_ok p" "kept_ok Qs p" and m: "own p T m" "choosable Qs p T m"
    and c: "(c, T', c) \<in> p_votes p'" "p_term p' c = T'" "p_elected p' T' = None" "T < T'" "holds_prefix p' T m (p_clog p' c T')"
  shows "holds_prefix p' T m (p_log p' c)"
proof -
  have g: "grows p p'" by (rule pstep_grows [OF step])
  have down: "holds_prefix p T m L" if "holds_prefix p' T m L" for L
    using that grows_tlog_take [OF g, of T m] m(1) by (simp add: holds_prefix_def own_def)
  have "holds_prefix p T m (p_log p' c)"
  proof (cases "(c, T', c) \<in> p_votes p")
    case True
    have Tc: "p_term p c = T'" using votes_okD(3) [OF ok(1) True] grows_sets(3) [OF g, of c] c(2) by simp
    have none: "p_elected p T' = None" using grows_elected [OF g, of T'] c(3) by (cases "p_elected p T'") auto
    have "holds_prefix p T m (p_clog p c T')" using down [OF c(5)] step_clog [OF step ok(1) True] by simp
    then have old: "holds_prefix p T m (p_log p c)" by (rule kept_okD(4) [OF ok(2) m True Tc none c(4)])
    from step show ?thesis
    proof cases
      case (Install U M k w)
      then show ?thesis using old adopt_settled_holds [OF ok(2) m old] by (cases "c = w") (auto simp: raise_term_def)
    qed (use old c none in \<open>auto simp: raise_term_def own_def split: if_splits\<close>)
  next
    case False
    then show ?thesis using step_clog_new [OF step ok(1) c(1) False] down [OF c(5)] by simp
  qed
  then show ?thesis by (rule grows_holds [OF g m(1)])
qed

lemma elected_pos:
  assumes "votes_ok p" "elections_ok Qs p" "own p T m"
  shows "0 < T"
proof -
  obtain c where "p_elected p T = Some c" using assms(3) by (auto simp: own_def)
  then obtain Q where Q: "Q \<in> Qs" "\<forall>v\<in>Q. (v, T, c) \<in> p_votes p" using elections_okD(2) [OF assms(2)] by blast
  obtain v where "v \<in> Q" using qintersect [OF Q(1) Q(1)] by blast
  then show ?thesis using votes_okD(1) [OF assms(1), of v T c] Q(2) by blast
qed

lemma kept_votes:
  assumes step: "pstep Qs p p'" and ok: "proto_ok Qs p"
    and m: "own p T m" "choosable Qs p T m" and a: "acked p v T m" and vote: "(v, T', c) \<in> p_votes p'" "T < T'"
  shows "holds_prefix p' T m (p_clog p' c T')"
proof -
  have g: "grows p p'" by (rule pstep_grows [OF step])
  have votes: "votes_ok p" and logs: "logs_ok p" and kept: "kept_ok Qs p" and el: "elections_ok Qs p"
    using ok by (simp_all add: proto_ok_def)
  have "holds_prefix p T m (p_clog p' c T')"
  proof (cases "(v, T', c) \<in> p_votes p")
    case True
    then show ?thesis
      using step_clog [OF step votes votes_okD(2) [OF votes True]] kept_okD(2) [OF kept m True vote(2) a] by simp
  next
    case False
    from step vote False show ?thesis
    proof cases
      case (Campaign c' T'')
      then have "v = c" "c' = c" "T'' = T'" using vote False by auto
      then show ?thesis using Campaign kept_okD(1) [OF kept m a] by simp
    next
      case (Grant c' T'' v')
      then have "v' = v" "c' = c" "T'' = T'" using vote False by auto
      then show ?thesis
        using Grant grant_keeps [OF logs kept m elected_pos [OF votes el m(1)] kept_okD(1) [OF kept m a]] by simp
    qed (auto simp: raise_term_def)
  qed
  then show ?thesis by (rule grows_holds [OF g m(1)])
qed

lemma kept_elected:
  assumes step: "pstep Qs p p'" and ok: "proto_ok Qs p"
    and m: "own p T m" "choosable Qs p T m" and el: "p_elected p' T' \<noteq> None" "T < T'"
  shows "holds_prefix p' T m (p_tlog p' T')"
proof -
  have g: "grows p p'" by (rule pstep_grows [OF step])
  have votes: "votes_ok p" and kept: "kept_ok Qs p" using ok by (simp_all add: proto_ok_def)
  have "holds_prefix p T m (p_tlog p' T')"
  proof (cases "p_elected p T' = None")
    case False
    then obtain es where "p_tlog p' T' = p_tlog p T' @ es" using g by (auto simp: grows_def)
    then show ?thesis using kept_okD(3) [OF kept m False el(2)] by (simp add: holds_append)
  next
    case True
    from step el True show ?thesis
    proof cases
      case (Elect T'' c Q e L)
      then have T: "T'' = T'" using el True by (auto split: if_splits)
      obtain v where v: "v \<in> Q" "\<not> refused p v T m" using m(2) Elect by (auto simp: choosable_def)
      have vote: "(v, T', c) \<in> p_votes p" using Elect T v(1) by auto
      then have "T < p_term p v" using votes_okD(3) [OF votes vote] el(2) by simp
      then have "acked p v T m" using v(2) by (simp add: refused_def)
      then have "holds_prefix p T m (p_clog p c T')" by (rule kept_okD(2) [OF kept m vote el(2)])
      then have "holds_prefix p T m (p_log p c)" using kept_okD(4) [OF kept m] Elect T el(2) by simp
      then show ?thesis using Elect T by (simp add: holds_append)
    qed (auto simp: raise_term_def)
  qed
  then show ?thesis by (rule grows_holds [OF g m(1)])
qed

text \<open>The log of a candidate was complete before the position existed.\<close>

lemma new_not_in_candidate_log:
  assumes step: "pstep Qs p p'" and logs: "logs_ok p" and votes: "votes_ok p" and own: "own p' T m" "\<not> own p T m"
    and c: "(c, T', c) \<in> p_votes p'"
  shows "\<not> holds_prefix p' T m (p_clog p' c T')"
proof
  assume h: "holds_prefix p' T m (p_clog p' c T')"
  let ?C = "p_clog p' c T'"
  have m: "0 < m" "m \<le> length ?C" "take m ?C = take m (p_tlog p' T)" using own(1) h by (simp_all add: own_def holds_prefix_def)
  have t: "termAt ?C m = T" using termAt_eqI [OF m(3), of m] own(1) by (simp add: own_def)
  have "good_log p ?C"
    using step_clog [OF step votes, of c T'] step_clog_new [OF step votes c] logs_okD(1,5) [OF logs] by (cases "(c, T', c) \<in> p_votes p") auto
  then have "p_elected p T \<noteq> None" "m \<le> length (p_tlog p T)" "take m ?C = take m (p_tlog p T)"
    using m t unfolding good_log_def by auto
  moreover from this have "termAt (p_tlog p T) m = T" using termAt_eqI [of m ?C "p_tlog p T" m] t by simp
  ultimately have "own p T m" using m(1) by (simp add: own_def)
  then show False using own(2) by simp
qed

lemma kept_ok_step:
  assumes step: "pstep Qs p p'" and ok: "proto_ok Qs p"
  shows "kept_ok Qs p'"
proof -
  have g: "grows p p'" by (rule pstep_grows [OF step])
  have votes: "votes_ok p" and logs: "logs_ok p" and kept: "kept_ok Qs p" and el: "elections_ok Qs p" and acks: "acks_ok p"
    using ok by (simp_all add: proto_ok_def)
  have votes': "votes_ok p'" by (rule votes_ok_step [OF step votes])
  have el': "elections_ok Qs p'" by (rule elections_ok_step [OF step el])
  have "(\<forall>v. acked p' v T m \<longrightarrow> holds_prefix p' T m (p_log p' v)) \<and>
     (\<forall>v T' c. (v, T', c) \<in> p_votes p' \<and> T < T' \<and> acked p' v T m \<longrightarrow> holds_prefix p' T m (p_clog p' c T')) \<and>
     (\<forall>c T'. (c, T', c) \<in> p_votes p' \<and> p_term p' c = T' \<and> p_elected p' T' = None \<and> T < T' \<and> holds_prefix p' T m (p_clog p' c T') \<longrightarrow>
        holds_prefix p' T m (p_log p' c)) \<and>
     (\<forall>T'. p_elected p' T' \<noteq> None \<and> T < T' \<longrightarrow> holds_prefix p' T m (p_tlog p' T'))"
    if own': "own p' T m" and ch': "choosable Qs p' T m" for T m
  proof (cases "own p T m")
    case True
    have ch: "choosable Qs p T m" by (rule grows_choosable [OF g ch'])
    have A: "holds_prefix p' T m (p_log p' v)" if a: "acked p' v T m" for v
      using kept_logs [OF step kept True ch _ acks_okD(1) [OF acks]] acked_old_or_new [OF step a _ own']
      by (cases "acked p v T m") auto
    have W: "holds_prefix p' T m (p_clog p' c T')" if vote: "(v, T', c) \<in> p_votes p'" "T < T'" and a: "acked p' v T m" for v T' c
    proof (cases "acked p v T m")
      case False
      then have "p_term p v \<le> T" "(v, T', c) \<in> p_votes p" using acked_old_or_new [OF step a _ own'] vote(1) by auto
      then show ?thesis using votes_okD(3) [OF votes] vote(2) by fastforce
    qed (rule kept_votes [OF step ok True ch _ vote])
    show ?thesis using A W kept_elected [OF step ok True ch] kept_candidate [OF step votes kept True ch] by blast
  next
    case False
    obtain c where c: "p_log p' c = p_tlog p' T" "p_term p' c = T" "\<And>v. acked p' v T m \<Longrightarrow> v = c"
      using new_own [OF step acks own' False] by blast
    have A: "holds_prefix p' T m (p_log p' v)" if "acked p' v T m" for v
      using c(1) c(3) [OF that] own' by (simp add: holds_prefix_def own_def)
    have "\<not> (p_elected p' T' \<noteq> None \<and> T < T')" for T'
      using later_election_closes [OF votes' el', of T' _ T m] c ch' by blast
    moreover have "\<not> ((v, T', d) \<in> p_votes p' \<and> T < T' \<and> acked p' v T m)" for v T' d
      using votes_okD(3) [OF votes', of v T' d] c by fastforce
    moreover have "\<not> holds_prefix p' T m (p_clog p' d T')" if d: "(d, T', d) \<in> p_votes p'" for d T'
      using new_not_in_candidate_log [OF step logs votes own' False d] by blast
    ultimately show ?thesis using A by blast
  qed
  then show ?thesis unfolding kept_ok_def by blast
qed

text \<open>What a node has committed is not overwritten.\<close>

lemma adopt_keeps_settled:
  assumes kept: "kept_ok Qs p" and n: "settled_prefix Qs p U M n"
    and L: "\<And>T0 m j. \<lbrakk> T0 \<le> U; chosen Qs p T0 m; j \<le> m; j \<le> k \<rbrakk> \<Longrightarrow> take j L = take j (p_tlog p T0)" and k: "k \<le> length L"
  shows "take n (adopt k L M) = take n M"
proof (cases "n = 0")
  case False
  then obtain T0 m where c: "T0 \<le> U" "chosen Qs p T0 m" "n \<le> m" "n \<le> length M" "take n M = take n (p_tlog p T0)"
    using n by (auto simp: settled_prefix_def)
  then have "holds_prefix p T0 n (adopt k L M)"
    using L [OF c(1,2)] k by (intro adopt_holds) (auto simp: holds_prefix_def)
  then show ?thesis using c(5) by (simp add: holds_prefix_def)
qed simp

lemma accept_keeps_settled:
  assumes kept: "kept_ok Qs p" and n: "settled_prefix Qs p U M n" and T: "U \<le> T" "own p T k"
  shows "take n (adopt k (p_tlog p T) M) = take n M"
proof (rule adopt_keeps_settled [OF kept n])
  fix T0 m j assume c: "T0 \<le> U" "chosen Qs p T0 m" "j \<le> m" "j \<le> k"
  show "take j (p_tlog p T) = take j (p_tlog p T0)"
    using holds_take [OF kept_okD(3) [OF kept _ chosen_choosable [OF c(2)]] c(3), of T] T c(1,2)
    by (cases "T0 = T") (auto simp: chosen_def own_def)
qed (use T in \<open>simp add: own_def\<close>)

lemma install_keeps_settled:
  assumes kept: "kept_ok Qs p" and n: "settled_prefix Qs p U M n" and L: "settled_prefix Qs p T L k"
  shows "take n (adopt k L M) = take n M"
proof (cases "k = 0")
  case False
  then obtain T1 k1 where c: "chosen Qs p T1 k1" "k \<le> k1" "k \<le> length L" "take k L = take k (p_tlog p T1)"
    using L by (auto simp: settled_prefix_def)
  show ?thesis
  proof (rule adopt_keeps_settled [OF kept n])
    fix T0 m j assume c0: "chosen Qs p T0 m" "j \<le> m" "j \<le> k"
    show "take j L = take j (p_tlog p T0)"
      using take_le_eq [OF c(4) c0(3)] chosen_agree [OF kept c(1) c0(1), of j] c0(2,3) c(2) by simp
  qed (rule c(3))
qed (simp add: adopt_def)

lemma commits_ok_step:
  assumes step: "pstep Qs p p'" and ok: "proto_ok Qs p"
  shows "commits_ok Qs p'"
proof -
  have g: "grows p p'" by (rule pstep_grows [OF step])
  have com: "settled_prefix Qs p (p_term p v) (p_log p v) (p_commit p v)" for v
    using ok by (simp add: proto_ok_def commits_ok_def)
  have kept: "kept_ok Qs p" using ok by (simp add: proto_ok_def)
  have short: "p_commit p v \<le> length (p_log p v)" for v
    using com [of v] by (auto simp: settled_prefix_def)
  have "settled_prefix Qs p' (p_term p' v) (p_log p' v) (p_commit p' v)" for v
  proof -
    consider (keep) "p_commit p' v = p_commit p v" "take (p_commit p v) (p_log p' v) = take (p_commit p v) (p_log p v)"
      | (new) "settled_prefix Qs p (p_term p v) (p_log p v) (p_commit p' v)" "p_log p' v = p_log p v"
      using step
    proof cases
      case (Accept T k w)
      then show ?thesis
        using accept_keeps_settled [OF kept com [of w]] by (intro keep) (auto simp: raise_term_def)
    next
      case (Install T M k w)
      then show ?thesis
        using install_keeps_settled [OF kept com [of w]] by (intro keep) (auto simp: raise_term_def)
    next
      case (Commit w n)
      then show ?thesis using com [of v] by (intro new) auto
    qed (use short [of v] in \<open>auto intro!: keep simp: raise_term_def\<close>)
    then show ?thesis
      using grows_settled [OF g _ grows_sets(3) [OF g]] com [of v] by cases auto
  qed
  then show ?thesis by (simp add: commits_ok_def)
qed

lemma proto_ok_step: "pstep Qs p p' \<Longrightarrow> proto_ok Qs p \<Longrightarrow> proto_ok Qs p'"
  using votes_ok_step elections_ok_step logs_ok_step acks_ok_step kept_ok_step commits_ok_step
  by (simp add: proto_ok_def)

lemma proto_ok_init: "proto_ok Qs proto_init"
  by (auto simp: proto_ok_def proto_init_def votes_ok_def elections_ok_def logs_ok_def acks_ok_def kept_ok_def commits_ok_def
      good_log_def terms_upto_def own_def settled_prefix_def)

lemma proto_ok_steps: "(pstep Qs)\<^sup>*\<^sup>* p p' \<Longrightarrow> proto_ok Qs p \<Longrightarrow> proto_ok Qs p'"
  by (induction rule: rtranclp_induct) (auto intro: proto_ok_step)

end

section \<open>Majorities\<close>

text \<open>The quorums of \<open>getQuorumLocked\<close>: more than half of the voters.\<close>

definition majorities :: "nat set \<Rightarrow> nat set set" where
  "majorities V = {Q. Q \<subseteq> V \<and> card Q \<ge> card V div 2 + 1}"

lemma majorities_intersect:
  assumes "finite V" "Q \<in> majorities V" "Q' \<in> majorities V"
  shows "Q \<inter> Q' \<noteq> {}"
proof
  assume "Q \<inter> Q' = {}"
  moreover have "finite Q" "finite Q'" "Q \<union> Q' \<subseteq> V" using assms by (auto simp: majorities_def intro: finite_subset)
  ultimately have "card Q + card Q' \<le> card V" using card_mono [OF assms(1)] card_Un_disjoint by metis
  then show False using assms(2,3) by (auto simp: majorities_def)
qed

interpretation majority: quorum_system "majorities {..<N}" for N
  by unfold_locales (rule majorities_intersect [OF finite_lessThan])

end
