(* ===== verification/RaftLog.thy ===== *)
theory RaftLog
  imports RaftNode RaftProtocol
begin

text \<open>
  What the handlers of \<open>RaftNode\<close> do, in terms of the complete log: a node keeps the entries behind its last
  snapshot and the term of the entry at the snapshot. \<open>represents\<close> relates the two, and the lemmas give the effect
  of the log operations, of the loop of \<open>AppendEntries1\<close>, of the commit scan and of the writes.
\<close>

section \<open>A node and its complete log\<close>

definition indexed :: "LogEntry list \<Rightarrow> bool" where
  "indexed L \<longleftrightarrow> (\<forall>i<length L. le_logIndex (L ! i) = int i + 1)"

definition snap :: "Raft \<Rightarrow> nat" where
  "snap s = nat (rf_lastSnapshotIncludeIndex s)"

definition represents :: "LogEntry list \<Rightarrow> Raft \<Rightarrow> bool" where
  "represents L s \<longleftrightarrow> indexed L \<and> 0 \<le> rf_lastSnapshotIncludeIndex s \<and> snap s \<le> length L \<and> rf_logs s = drop (snap s) L \<and>
     rf_lastSnapshotIncludeTerm s = termAt L (snap s)"

lemma indexed_append: "indexed (L @ M) \<longleftrightarrow> indexed L \<and> (\<forall>i<length M. le_logIndex (M ! i) = int (length L) + int i + 1)"
proof -
  have "(\<forall>i<length (L @ M). le_logIndex ((L @ M) ! i) = int i + 1) \<longleftrightarrow>
      (\<forall>i<length L. le_logIndex (L ! i) = int i + 1) \<and> (\<forall>i<length M. le_logIndex (M ! i) = int (length L) + int i + 1)"
    (is "?l \<longleftrightarrow> ?r")
  proof
    assume l: ?l
    have "le_logIndex (L ! i) = int i + 1" if "i < length L" for i
      using l [rule_format, of i] that by (simp add: nth_append)
    moreover have "le_logIndex (M ! i) = int (length L) + int i + 1" if "i < length M" for i
      using l [rule_format, of "length L + i"] that by (simp add: nth_append)
    ultimately show ?r by blast
  next
    assume r: ?r
    show ?l
    proof (intro allI impI)
      fix i assume "i < length (L @ M)"
      then show "le_logIndex ((L @ M) ! i) = int i + 1"
        using r [THEN conjunct1, rule_format, of i] r [THEN conjunct2, rule_format, of "i - length L"]
        by (cases "i < length L") (auto simp: nth_append)
    qed
  qed
  then show ?thesis by (simp add: indexed_def)
qed

lemma indexed_take: "indexed L \<Longrightarrow> indexed (take n L)"
  by (simp add: indexed_def)

lemma representsD:
  assumes "represents L s"
  shows "indexed L" "rf_lastSnapshotIncludeIndex s = int (snap s)" "snap s \<le> length L" "rf_logs s = drop (snap s) L"
    "rf_lastSnapshotIncludeTerm s = termAt L (snap s)"
  using assms by (simp_all add: represents_def snap_def)

lemma represents_last:
  assumes "represents L s"
  shows "getLastLogIndex s = int (length L)" "getLastLogTerm s = lastTerm L"
proof -
  note r = representsD [OF assms]
  have "getLastLogIndex s = int (length L) \<and> getLastLogTerm s = lastTerm L"
  proof (cases "snap s = length L")
    case True
    then show ?thesis using r by (simp add: getLastLogIndex_def getLastLogTerm_def getLastLogIndexAndTerm_def)
  next
    case False
    then have ne: "drop (snap s) L \<noteq> []" "L \<noteq> []" using r(3) by auto
    have "last (drop (snap s) L) = L ! (length L - 1)" using ne by (simp add: last_drop last_conv_nth)
    moreover have "le_logIndex (L ! (length L - 1)) = int (length L)"
      using r(1) ne(2) by (simp add: indexed_def of_nat_diff Suc_leI)
    ultimately show ?thesis
      using ne r(4) by (simp add: getLastLogIndex_def getLastLogTerm_def getLastLogIndexAndTerm_def termAt_def)
  qed
  then show "getLastLogIndex s = int (length L)" "getLastLogTerm s = lastTerm L" by auto
qed

lemma represents_slices:
  "represents L s \<Longrightarrow> getSlicesIndexFromLogIndex i s =
     (if int (snap s) < i \<and> i \<le> int (length L) then Some (nat i - snap s - 1) else None)"
  using representsD(2) [of L s] by (auto simp: getSlicesIndexFromLogIndex_def represents_last nat_diff_distrib')

lemma represents_log_at:
  "represents L s \<Longrightarrow> log_at i s = (if int (snap s) < i \<and> i \<le> int (length L) then Some (L ! (nat i - 1)) else None)"
  using representsD(4) [of L s] by (auto simp: log_at_def represents_slices)

lemma represents_term:
  assumes "represents L s"
  shows "getLogTermFromLogIndex i s = (if int (snap s) \<le> i \<and> i \<le> int (length L) then Some (termAt L (nat i)) else None)"
  using representsD(2,5) [OF assms]
  by (auto simp: getLogTermFromLogIndex_def represents_last [OF assms] represents_log_at [OF assms] termAt_def)

lemma represents_match:
  assumes "represents L s"
  shows "matchLog i t s = (if int (snap s) \<le> i \<and> i \<le> int (length L) then Some (t = termAt L (nat i)) else None)"
  using representsD(2) [OF assms] by (auto simp: matchLog_def represents_last [OF assms] represents_term [OF assms])

lemma represents_UpToDate:
  "represents L s \<Longrightarrow> UpToDate i t s \<longleftrightarrow> t > lastTerm L \<or> t = lastTerm L \<and> i \<ge> int (length L)"
  using represents_last [of L s]
  by (cases "getLastLogIndexAndTerm s") (simp add: UpToDate_def getLastLogIndex_def getLastLogTerm_def)

text \<open>Only the four fields of the log matter.\<close>

lemma represents_cong:
  "\<lbrakk> rf_logs s' = rf_logs s; rf_lastSnapshotIncludeIndex s' = rf_lastSnapshotIncludeIndex s;
     rf_lastSnapshotIncludeTerm s' = rf_lastSnapshotIncludeTerm s \<rbrakk> \<Longrightarrow> represents L s' = represents L s"
  by (simp add: represents_def snap_def)

lemma represents_append:
  assumes "represents L s" "\<forall>i<length es. le_logIndex (es ! i) = int (length L) + int i + 1"
  shows "represents (L @ es) (s \<lparr> rf_logs := rf_logs s @ es \<rparr>)"
  using assms by (auto simp: represents_def snap_def indexed_append)

lemma snap_logs [simp]: "snap (s \<lparr> rf_logs := x \<rparr>) = snap s"
  by (simp add: snap_def)

section \<open>Accepting entries\<close>

text \<open>The log after the entries \<open>es\<close> behind position \<open>prev\<close> have been accepted.\<close>

definition merge_log :: "nat \<Rightarrow> LogEntry list \<Rightarrow> LogEntry list \<Rightarrow> LogEntry list" where
  "merge_log prev es L = (if take (length es) (drop prev L) = es then L else take prev L @ es)"

lemma merge_log_Nil [simp]: "merge_log prev [] L = L"
  by (simp add: merge_log_def)

lemma merge_log_end: "merge_log (length L) es L = L @ es"
  by (auto simp: merge_log_def)

lemma merge_log_same: "\<lbrakk> prev < length L; L ! prev = e \<rbrakk> \<Longrightarrow> merge_log prev (e # es) L = merge_log (Suc prev) es L"
  by (simp add: merge_log_def Cons_nth_drop_Suc [symmetric] take_Suc_conv_app_nth)

lemma merge_log_differs: "\<lbrakk> prev < length L; L ! prev \<noteq> e \<rbrakk> \<Longrightarrow> merge_log prev (e # es) L = take prev L @ e # es"
  by (simp add: merge_log_def Cons_nth_drop_Suc [symmetric])

lemma AppendLoop_truncated: "AppendLoop es (s, ch, True) = Some (s', ch', tr') \<Longrightarrow> tr'"
  by (induction es "(s, ch, True)" arbitrary: s ch rule: AppendLoop.induct) (auto split: if_splits option.splits)

lemma AppendLoop_effect:
  assumes "represents L s" "snap s \<le> prev" "prev \<le> length L" "\<forall>j<length es. le_logIndex (es ! j) = int prev + int j + 1"
    "\<forall>j<length es. prev + j < length L \<and> le_logTerm (L ! (prev + j)) = le_logTerm (es ! j) \<longrightarrow> L ! (prev + j) = es ! j"
  defines "L' \<equiv> merge_log prev es L"
  shows "\<exists>ch' tr'. AppendLoop es (s, ch, tr) = Some (s \<lparr> rf_logs := drop (snap s) L' \<rparr>, ch', tr') \<and>
     represents L' (s \<lparr> rf_logs := drop (snap s) L' \<rparr>) \<and> (ch' \<longleftrightarrow> ch \<or> L' \<noteq> L) \<and> (\<not> tr' \<longrightarrow> (\<exists>x. L' = L @ x))"
  using assms(1-5) unfolding L'_def
proof (induction es arbitrary: prev L s ch tr)
  case Nil
  have "s \<lparr> rf_logs := drop (snap s) L \<rparr> = s" using representsD(4) [OF Nil(1)] by simp
  then show ?case using Nil(1) by simp
next
  case (Cons e es)
  note r = representsD [OF Cons.prems(1)]
  have idx: "le_logIndex e = int prev + 1" using Cons.prems(4) by (auto dest: spec [of _ 0])
  have idxs: "\<forall>j<length es. le_logIndex (es ! j) = int (Suc prev) + int j + 1"
    using Cons.prems(4) by (auto dest: spec [of _ "Suc _"])
  have add: ?case if s1: "s1 = s \<lparr> rf_logs := drop (snap s) (take prev L @ [e]) \<rparr>"
    and eq: "AppendLoop (e # es) (s, ch, tr) = AppendLoop es (s1, True, tr1)"
    and m: "merge_log prev (e # es) L = take prev L @ e # es" "take prev L @ e # es \<noteq> L" and tr1: "tr1 \<or> prev = length L" for s1 tr1
  proof -
    let ?L1 = "take prev L @ [e]"
    have ix: "indexed ?L1" using r(1) Cons.prems(3) idx by (simp add: indexed_append indexed_take)
    have "termAt ?L1 (snap s) = termAt L (snap s)" using Cons.prems(2,3) by simp
    then have rep: "represents ?L1 s1"
      using r ix Cons.prems(1-3) by (simp add: represents_def s1)
    have "\<exists>ch' tr'. AppendLoop es (s1, True, tr1) = Some (s1 \<lparr> rf_logs := drop (snap s1) (merge_log (Suc prev) es ?L1) \<rparr>, ch', tr') \<and>
       represents (merge_log (Suc prev) es ?L1) (s1 \<lparr> rf_logs := drop (snap s1) (merge_log (Suc prev) es ?L1) \<rparr>) \<and>
       (ch' \<longleftrightarrow> True \<or> merge_log (Suc prev) es ?L1 \<noteq> ?L1) \<and> (\<not> tr' \<longrightarrow> (\<exists>x. merge_log (Suc prev) es ?L1 = ?L1 @ x))"
      by (rule Cons.IH [OF rep]) (use Cons.prems idxs in \<open>auto simp: s1\<close>)
    moreover have "merge_log (Suc prev) es ?L1 = take prev L @ e # es"
      using merge_log_end [of ?L1 es] Cons.prems(3) by simp
    ultimately obtain ch' tr' where IH: "AppendLoop es (s1, True, tr1) = Some (s1 \<lparr> rf_logs := drop (snap s) (take prev L @ e # es) \<rparr>, ch', tr')"
      "represents (take prev L @ e # es) (s1 \<lparr> rf_logs := drop (snap s) (take prev L @ e # es) \<rparr>)" "ch'" 
      by (auto simp: s1)
    have "\<exists>x. take prev L @ e # es = L @ x" if "\<not> tr'"
    proof -
      have "\<not> tr1" using AppendLoop_truncated [of es s1 True _ ch' tr'] IH(1) that by auto
      then show ?thesis using tr1 by auto
    qed
    then show ?thesis using IH m eq by (auto simp: s1)
  qed
  show ?case
  proof (cases "prev < length L")
    case False
    then have "prev = length L" using Cons.prems(3) by simp
    moreover from this have "le_logIndex e > getLastLogIndex s" using idx represents_last [OF Cons.prems(1)] by simp
    ultimately show ?thesis
      using r merge_log_end [of L "e # es"] by (intro add [of _ tr]) auto
  next
    case True
    have old: "\<not> le_logIndex e > getLastLogIndex s" "getSlicesIndexFromLogIndex (le_logIndex e) s = Some (prev - snap s)"
      using True idx represents_last [OF Cons.prems(1)] represents_slices [OF Cons.prems(1)] Cons.prems(2) by (auto simp: nat_add_distrib)
    have at: "prev - snap s < length (rf_logs s)" "rf_logs s ! (prev - snap s) = L ! prev"
      using True Cons.prems(2) r(4) by auto
    show ?thesis
    proof (cases "le_logTerm (L ! prev) = le_logTerm e")
      case same: True
      then have e: "L ! prev = e" using Cons.prems(5) True by (auto dest: spec [of _ 0])
      have "\<forall>j<length es. Suc prev + j < length L \<and> le_logTerm (L ! (Suc prev + j)) = le_logTerm (es ! j) \<longrightarrow> L ! (Suc prev + j) = es ! j"
        using Cons.prems(5) by (auto dest: spec [of _ "Suc _"])
      then show ?thesis
        using Cons.IH [OF Cons.prems(1), of "Suc prev" ch tr] Cons.prems(2) True idxs old at e merge_log_same [OF True e] by simp
    next
      case False
      then have "L ! prev \<noteq> e" by auto
      moreover have "take (prev - snap s) (drop (snap s) L) @ [e] = drop (snap s) (take prev L @ [e])"
        using True Cons.prems(2) by (simp add: drop_take)
      ultimately show ?thesis
        using old at False r(4) True merge_log_differs [OF True, of e es] nth_append_length [of "take prev L" e es]
        by (intro add [of _ True]) (auto simp del: nth_append_length)
    qed
  qed
qed

section \<open>The part of a node that consensus depends on\<close>

text \<open>Everything but the read rounds, the queues, the timers, the delivery progress and the snapshot bytes.\<close>

definition core :: "Raft \<Rightarrow> Raft" where
  "core s = s \<lparr> rf_initialized := False, rf_backgroundWorkersStarted := False, rf_shutdown := False, rf_lastApplied := 0,
     rf_nextIndex := map (\<lambda>_. 0) (rf_nextIndex s), rf_applyChan := [], rf_lastResetElectionTime := 0,
     rf_lastLeaderContactTime := None, rf_proposeQueue := [], rf_nextReadContext := 0, rf_pendingReadWaiters := [],
     rf_activeReadRound := None, rf_waiters := [], rf_peerIds := [], rf_localPeerId := 0, rf_confChangePendingInQueue := False,
     rf_snapshotReceiveBuffer := [], rf_snapshot := [] \<rparr>"

lemma core_fields:
  assumes "core s' = core s"
  shows "rf_peers s' = rf_peers s" "rf_me s' = rf_me s" "rf_currentTerm s' = rf_currentTerm s" "rf_votedFor s' = rf_votedFor s"
    "rf_logs s' = rf_logs s" "rf_commitIndex s' = rf_commitIndex s" "rf_matchIndex s' = rf_matchIndex s"
    "length (rf_nextIndex s') = length (rf_nextIndex s)" "rf_status s' = rf_status s"
    "rf_lastSnapshotIncludeIndex s' = rf_lastSnapshotIncludeIndex s" "rf_lastSnapshotIncludeTerm s' = rf_lastSnapshotIncludeTerm s"
    "rf_votedNum s' = rf_votedNum s" "rf_peerRoles s' = rf_peerRoles s" "rf_removed s' = rf_removed s" "rf_disk s' = rf_disk s"
proof -
  show "rf_peers s' = rf_peers s" "rf_me s' = rf_me s" "rf_currentTerm s' = rf_currentTerm s" "rf_votedFor s' = rf_votedFor s"
    "rf_logs s' = rf_logs s" "rf_commitIndex s' = rf_commitIndex s" "rf_matchIndex s' = rf_matchIndex s" "rf_status s' = rf_status s"
    "rf_lastSnapshotIncludeIndex s' = rf_lastSnapshotIncludeIndex s" "rf_lastSnapshotIncludeTerm s' = rf_lastSnapshotIncludeTerm s"
    "rf_votedNum s' = rf_votedNum s" "rf_peerRoles s' = rf_peerRoles s" "rf_removed s' = rf_removed s" "rf_disk s' = rf_disk s"
    using assms [THEN arg_cong, of rf_peers] assms [THEN arg_cong, of rf_me] assms [THEN arg_cong, of rf_currentTerm]
      assms [THEN arg_cong, of rf_votedFor] assms [THEN arg_cong, of rf_logs] assms [THEN arg_cong, of rf_commitIndex]
      assms [THEN arg_cong, of rf_matchIndex] assms [THEN arg_cong, of rf_status] assms [THEN arg_cong, of rf_lastSnapshotIncludeIndex]
      assms [THEN arg_cong, of rf_lastSnapshotIncludeTerm] assms [THEN arg_cong, of rf_votedNum] assms [THEN arg_cong, of rf_peerRoles]
      assms [THEN arg_cong, of rf_removed] assms [THEN arg_cong, of rf_disk]
    by (simp_all add: core_def)
  show "length (rf_nextIndex s') = length (rf_nextIndex s)"
    using assms [THEN arg_cong, of "length \<circ> rf_nextIndex"] by (simp add: core_def)
qed

named_theorems core_same \<open>operations that leave the core of a node alone\<close>

lemma core_abort [core_same]: "core (abortReadIndexLocked status s) = core s"
  by (simp add: abortReadIndexLocked_def core_def Let_def)

lemma core_complete [core_same]: "core (completeReadRoundIfQuorumLocked now s) = core s"
  by (simp add: completeReadRoundIfQuorumLocked_def core_def split: option.splits)

lemma core_remove [core_same]: "core (removeReadWaiterLocked w s) = core s"
  by (simp add: removeReadWaiterLocked_def core_def)

lemma core_StartReadRound: "StartReadRound now s = Some s' \<Longrightarrow> core s' = core s"
  by (auto simp: StartReadRound_def Let_def core_same split: if_splits option.splits bool.splits) (simp_all add: core_def)

lemma core_heartbeat: "doHeartBeat now s = Some (s', srv) \<Longrightarrow> core s' = core s"
  by (auto simp: doHeartBeat_def Let_def dest!: core_StartReadRound split: if_splits option.splits)

lemma core_prepare: "PrepareReplication now v s = Some (r, s') \<Longrightarrow> core s' = core s"
  by (auto simp: PrepareReplication_def Let_def dest!: core_StartReadRound split: if_splits option.splits)

lemma core_start [core_same]: "core (snd (Start command s)) = core s"
  by (simp add: Start_def core_def)

lemma core_pop [core_same]: "core (snd (PopProposals n s)) = core s"
  by (simp add: PopProposals_def core_def)

lemma core_read_begin [core_same]: "core (snd (ReadIndexBegin deadline s)) = core s"
  by (simp add: ReadIndexBegin_def core_def)

lemma core_read_wait [core_same]: "core (snd (ReadIndexWait now w s)) = core s"
  by (simp add: ReadIndexWait_def core_same)

lemma core_activate [core_same]: "core (Activate s) = core s" "core (Stop s) = core s"
  by (simp_all add: Activate_def Stop_def core_def)

lemma core_step_down: "core (step_down T s) = core (s \<lparr> rf_status := Follower, rf_currentTerm := T, rf_votedFor := -1 \<rparr>)"
  by (simp add: step_down_def abortReadIndexLocked_def core_def Let_def)

lemma core_ApplyScan: "ApplyScan is s = Some (msgs, s') \<Longrightarrow> core s' = core s"
proof (induction "is" arbitrary: s msgs)
  case (Cons i "is")
  then show ?case by (force simp: core_def split: option.splits if_splits prod.splits)
qed simp

lemma core_deliver: "DeliverCommitted s = Some s' \<Longrightarrow> core s' = core s"
  by (auto simp: DeliverCommitted_def getApplyLogs_def split: if_splits option.splits prod.splits dest!: core_ApplyScan) (simp add: core_def)

section \<open>Commit, election and writes\<close>

lemma CommitScan_effect:
  "CommitScan is s = Some s' \<Longrightarrow> s' = s \<or> (\<exists>i\<in>set is. s' = s \<lparr> rf_commitIndex := i \<rparr> \<and>
     int (length (replicas i s)) \<ge> getQuorumLocked s \<and> getLogTermFromLogIndex i s = Some (rf_currentTerm s))"
  by (induction "is") (auto split: if_splits option.splits)

lemma leaderUpdateCommitIndex_effect:
  assumes "leaderUpdateCommitIndex s = Some s'" "represents L s"
  shows "s' = s \<or> (\<exists>i. rf_commitIndex s < i \<and> int (snap s) \<le> i \<and> i \<le> int (length L) \<and> termAt L (nat i) = rf_currentTerm s \<and>
     int (length (replicas i s)) \<ge> getQuorumLocked s \<and> s' = s \<lparr> rf_commitIndex := i \<rparr>)"
proof (cases "s' = s")
  case False
  then obtain i where i: "i \<in> set (rev [rf_commitIndex s + 1..getLastLogIndex s])" "s' = s \<lparr> rf_commitIndex := i \<rparr>"
    "int (length (replicas i s)) \<ge> getQuorumLocked s" "getLogTermFromLogIndex i s = Some (rf_currentTerm s)"
    using CommitScan_effect [OF assms(1) [unfolded leaderUpdateCommitIndex_def]] by blast
  moreover from i(1) have "rf_commitIndex s < i" by simp
  moreover from i(4) have "int (snap s) \<le> i" "i \<le> int (length L)" "termAt L (nat i) = rf_currentTerm s"
    by (auto simp: represents_term [OF assms(2)] split: if_splits)
  ultimately show ?thesis by blast
qed simp

lemma length_new_entries [simp]: "length (new_entries T i batch) = length batch"
  by (induction T i batch rule: new_entries.induct) simp_all

lemma new_entries_props:
  "j < length batch \<Longrightarrow> le_logIndex (new_entries T i batch ! j) = i + int j + 1"
  "list_all (\<lambda>e. le_logTerm e = T) (new_entries T i batch)"
  "new_entries T i batch = [] \<longleftrightarrow> batch = []"
  by (induction T i batch arbitrary: j rule: new_entries.induct) (auto simp: nth_Cons split: nat.splits)

text \<open>What a restart would find; an empty file is the state of a new node.\<close>

definition durable :: "Raft \<Rightarrow> RaftState" where
  "durable s = (case rf_disk s of Some d \<Rightarrow> d | None \<Rightarrow> \<lparr> rs_currentTerm = 0, rs_votedFor = -1, rs_lastSnapshotIncludeIndex = 0,
     rs_lastSnapshotIncludeTerm = 0, rs_logs = [] \<rparr>)"

text \<open>Log and snapshot position are always on disk when a handler ends.\<close>

definition log_durable :: "Raft \<Rightarrow> bool" where
  "log_durable s \<longleftrightarrow> rs_logs (durable s) = rf_logs s \<and> rs_lastSnapshotIncludeIndex (durable s) = rf_lastSnapshotIncludeIndex s \<and>
     rs_lastSnapshotIncludeTerm (durable s) = rf_lastSnapshotIncludeTerm s"

lemma durable_persist [simp]: "durable (persist s) = raft_state s"
  by (simp add: durable_def persist_def)

lemma log_durable_persist [simp]: "log_durable (persist s)"
  by (simp add: log_durable_def) (simp add: raft_state_def persist_def)

lemma persist_fields [simp]:
  "rf_peers (persist s) = rf_peers s" "rf_me (persist s) = rf_me s" "rf_currentTerm (persist s) = rf_currentTerm s"
  "rf_votedFor (persist s) = rf_votedFor s" "rf_logs (persist s) = rf_logs s" "rf_commitIndex (persist s) = rf_commitIndex s"
  "rf_matchIndex (persist s) = rf_matchIndex s" "rf_nextIndex (persist s) = rf_nextIndex s" "rf_status (persist s) = rf_status s"
  "rf_lastSnapshotIncludeIndex (persist s) = rf_lastSnapshotIncludeIndex s"
  "rf_lastSnapshotIncludeTerm (persist s) = rf_lastSnapshotIncludeTerm s" "rf_votedNum (persist s) = rf_votedNum s"
  "rf_peerRoles (persist s) = rf_peerRoles s" "rf_removed (persist s) = rf_removed s" "snap (persist s) = snap s"
  by (simp_all add: persist_def snap_def)

lemma persistAppended_eq:
  assumes "rs_logs (durable s) = take n (rf_logs s)" "n \<le> length (rf_logs s)"
  shows "persistAppended n s = persist s"
proof (cases "rf_disk s")
  case (Some d)
  then have "rs_logs d = take n (rf_logs s)" using assms(1) by (simp add: durable_def)
  moreover have "(raft_state s) \<lparr> rs_logs := rf_logs s \<rparr> = raft_state s" by (simp add: raft_state_def)
  ultimately show ?thesis using Some assms(2) by (simp add: persistAppended_def persist_def)
qed (simp add: persistAppended_def)

lemma persist_changes_eq:
  assumes "\<not> tr \<Longrightarrow> rs_logs (durable s) = take n (rf_logs s) \<and> n \<le> length (rf_logs s)"
  shows "persist_changes ch tr n s = (if ch then persist s else s)"
  using assms persistAppended_eq [of s n] by (simp add: persist_changes_def)

end
