(* ===== verification/RaftCluster.thy ===== *)
theory RaftCluster
  imports RaftLog
begin

text \<open>
  A cluster of \<open>N\<close> voters that run the handlers of \<open>RaftNode\<close>. Messages that have been sent stay available: they may
  arrive late, more than once, in any order or never. Vote requests are calls, each of which sees at most one reply.
  Nodes may stop at any moment and start again from what they made durable. The membership is fixed: configuration
  changes are not among the steps. A snapshot is installed on a node whose log ends before it or agrees with it.
  Every step refines steps of \<open>RaftProtocol\<close>, from which election safety and agreement on the delivered commands follow.
\<close>

section \<open>Steps\<close>

record cluster =
  cl_node :: "nat \<Rightarrow> Raft"
  cl_voteReqs :: "(nat \<times> nat \<times> RequestVoteArgs) set"
  cl_voteReps :: "(nat \<times> nat \<times> RequestVoteArgs \<times> RequestVoteReply) set"
  cl_waiting :: "(nat \<times> nat \<times> RequestVoteArgs) set"
  cl_appendReqs :: "(nat \<times> nat \<times> AppendEntriesArgs) set"
  cl_appendReps :: "(nat \<times> nat \<times> AppendEntriesArgs \<times> AppendEntriesReply) set"
  cl_snapshotReqs :: "(nat \<times> nat \<times> InstallSnapshotRequest) set"
  cl_snapshotReps :: "(nat \<times> nat \<times> InstallSnapshotRequest \<times> int) set"
  cl_transfers :: "(nat \<times> nat \<times> int \<times> int) set"
  cl_delivered :: "(nat \<times> int \<times> string) set"

definition set_node :: "nat \<Rightarrow> Raft \<Rightarrow> cluster \<Rightarrow> cluster" where
  "set_node n s c = c \<lparr> cl_node := (cl_node c)(n := s) \<rparr>"

definition boot :: "nat \<Rightarrow> nat \<Rightarrow> RaftState option \<Rightarrow> string \<Rightarrow> int \<Rightarrow> Raft" where
  "boot N n disk snapshot now = init (replicate N True) (int n) disk snapshot (of_nat n) (map of_nat [0..<N]) [] now"

definition cluster_init :: "nat \<Rightarrow> int \<Rightarrow> cluster" where
  "cluster_init N now = \<lparr> cl_node = (\<lambda>n. boot N n None [] now), cl_voteReqs = {}, cl_voteReps = {}, cl_waiting = {}, cl_appendReqs = {},
     cl_appendReps = {}, cl_snapshotReqs = {}, cl_snapshotReps = {}, cl_transfers = {}, cl_delivered = {} \<rparr>"

text \<open>The calls that do not touch the consensus state.\<close>

definition local_call :: "int \<Rightarrow> Raft \<Rightarrow> Raft \<Rightarrow> bool" where
  "local_call now s s' \<longleftrightarrow> (\<exists>command. s' = snd (Start command s)) \<or> (\<exists>k. s' = snd (PopProposals k s)) \<or>
     (\<exists>deadline. s' = snd (ReadIndexBegin deadline s)) \<or> (\<exists>w. s' = snd (ReadIndexWait now w s)) \<or>
     (\<exists>srv. doHeartBeat now s = Some (s', srv)) \<or> s' = Activate s \<or> s' = Stop s"

text \<open>The log of the receiver ends before the snapshot or has the same term at its position.\<close>

definition agrees_with_snapshot :: "InstallSnapshotRequest \<Rightarrow> Raft \<Rightarrow> bool" where
  "agrees_with_snapshot r s \<longleftrightarrow> getLastLogIndex s \<le> is_lastSnapshotIncludeIndex r \<or>
     is_lastSnapshotIncludeIndex r \<le> rf_lastSnapshotIncludeIndex s \<or>
     getLogTermFromLogIndex (is_lastSnapshotIncludeIndex r) s = Some (is_lastSnapshotIncludeTerm r)"

inductive cstep :: "nat \<Rightarrow> cluster \<Rightarrow> cluster \<Rightarrow> bool" for N :: nat where
  Timeout: "\<lbrakk> n < N; doElection now (cl_node c n) = Some (s, reqs); R = (\<lambda>(i, a). (n, nat i, a)) ` set reqs \<rbrakk> \<Longrightarrow>
    cstep N c ((set_node n s c) \<lparr> cl_voteReqs := cl_voteReqs c \<union> R, cl_waiting := cl_waiting c \<union> R \<rparr>)"
| Vote: "\<lbrakk> (m, n, a) \<in> cl_voteReqs c; RequestVoteRpc now a (cl_node c n) = (r, s) \<rbrakk> \<Longrightarrow>
    cstep N c ((set_node n s c) \<lparr> cl_voteReps := insert (m, n, a, r) (cl_voteReps c) \<rparr>)"
| VoteReply: "\<lbrakk> (n, v, a) \<in> cl_waiting c; (n, v, a, r) \<in> cl_voteReps c; HandleVoteReply a r (cl_node c n) = Some s \<rbrakk> \<Longrightarrow>
    cstep N c ((set_node n s c) \<lparr> cl_waiting := cl_waiting c - {(n, v, a)} \<rparr>)"
| VoteLost: "cstep N c (c \<lparr> cl_waiting := cl_waiting c - {(n, v, a)} \<rparr>)"
| Replicate: "\<lbrakk> n < N; v < N; PrepareReplication now v (cl_node c n) = Some (out, s);
      R = (case out of SendEntries a \<Rightarrow> {(n, v, a)} | _ \<Rightarrow> {}) \<rbrakk> \<Longrightarrow>
    cstep N c ((set_node n s c) \<lparr> cl_appendReqs := cl_appendReqs c \<union> R \<rparr>)"
| Append: "\<lbrakk> (m, n, a) \<in> cl_appendReqs c; AppendEntriesRpc now a (cl_node c n) = Some (r, s) \<rbrakk> \<Longrightarrow>
    cstep N c ((set_node n s c) \<lparr> cl_appendReps := insert (m, n, a, r) (cl_appendReps c) \<rparr>)"
| AppendReply: "\<lbrakk> (n, v, a, r) \<in> cl_appendReps c; HandleAppendEntriesReply now v a r (cl_node c n) = Some s \<rbrakk> \<Longrightarrow>
    cstep N c (set_node n s c)"
| Poll: "\<lbrakk> n < N; batch \<noteq> []; PollBatch batch (cl_node c n) = Some s \<rbrakk> \<Longrightarrow> cstep N c (set_node n s c)"
| Local: "\<lbrakk> n < N; local_call now (cl_node c n) s \<rbrakk> \<Longrightarrow> cstep N c (set_node n s c)"
| Deliver: "\<lbrakk> n < N; getApplyLogs (cl_node c n) = Some (msgs, s0); DeliverCommitted (cl_node c n) = Some s \<rbrakk> \<Longrightarrow>
    cstep N c ((set_node n s c) \<lparr> cl_delivered := cl_delivered c \<union> (\<lambda>m. (n, am_CommandIndex m, am_Command m)) ` set msgs \<rparr>)"
| Compact: "\<lbrakk> n < N; Snapshot staged published index bytes (cl_node c n) = Some (done, s) \<rbrakk> \<Longrightarrow> cstep N c (set_node n s c)"
| Transfer: "\<lbrakk> n < N; v < N \<rbrakk> \<Longrightarrow>
    cstep N c (c \<lparr> cl_snapshotReqs := cl_snapshotReqs c \<union> (\<lambda>r. (n, v, r)) ` set (SnapshotRequests (cl_node c n)),
      cl_transfers := insert (n, v, rf_currentTerm (cl_node c n), rf_lastSnapshotIncludeIndex (cl_node c n)) (cl_transfers c) \<rparr>)"
| Install: "\<lbrakk> (m, n, r) \<in> cl_snapshotReqs c; agrees_with_snapshot r (cl_node c n); InstallSnapshotRpc now r (cl_node c n) = Some (t, s) \<rbrakk> \<Longrightarrow>
    cstep N c ((set_node n s c) \<lparr> cl_snapshotReps := insert (m, n, r, t) (cl_snapshotReps c) \<rparr>)"
| SnapshotReply: "\<lbrakk> (n, v, r, t) \<in> cl_snapshotReps c; HandleSnapshotReply now (is_term r) t (cl_node c n) = (go, s) \<rbrakk> \<Longrightarrow>
    cstep N c (set_node n s c)"
| Transferred: "\<lbrakk> (n, v, T, i) \<in> cl_transfers c; FinishSnapshot v T i (cl_node c n) = Some s \<rbrakk> \<Longrightarrow> cstep N c (set_node n s c)"
| Restart: "\<lbrakk> n < N; s = boot N n (rf_disk (cl_node c n)) (rf_snapshot (cl_node c n)) now \<rbrakk> \<Longrightarrow>
    cstep N c ((set_node n s c) \<lparr> cl_waiting := {w \<in> cl_waiting c. fst w \<noteq> n} \<rparr>)"

definition cluster_run :: "nat \<Rightarrow> cluster \<Rightarrow> bool" where
  "cluster_run N c \<longleftrightarrow> (\<exists>now. (cstep N)\<^sup>*\<^sup>* (cluster_init N now) c)"

section \<open>Relation to the protocol\<close>

definition vote_of :: "int \<Rightarrow> nat option" where
  "vote_of v = (if v = -1 then None else Some (nat v))"

definition voters_ok :: "nat \<Rightarrow> nat \<Rightarrow> Raft \<Rightarrow> bool" where
  "voters_ok N n s \<longleftrightarrow> n < N \<and> rf_me s = int n \<and> length (rf_peers s) = N \<and> rf_peerRoles s = replicate N Voter \<and> \<not> rf_removed s \<and>
     length (rf_matchIndex s) = N \<and> length (rf_nextIndex s) = N"

definition term_rel :: "proto \<Rightarrow> nat \<Rightarrow> Raft \<Rightarrow> bool" where
  "term_rel p n s \<longleftrightarrow> rs_currentTerm (durable s) = p_term p n \<and> vote_of (rs_votedFor (durable s)) = p_vote p n \<and>
     (rf_currentTerm s = p_term p n \<and> rf_votedFor s = rs_votedFor (durable s) \<or> rf_currentTerm s > p_term p n \<and> rf_votedFor s = -1)"

definition leader_rel :: "nat \<Rightarrow> proto \<Rightarrow> nat \<Rightarrow> Raft \<Rightarrow> bool" where
  "leader_rel N p n s \<longleftrightarrow> (rf_status s = Leader \<longrightarrow>
     p_elected p (rf_currentTerm s) = Some n \<and> p_log p n = p_tlog p (rf_currentTerm s) \<and> p_term p n = rf_currentTerm s \<and>
     acked p n (rf_currentTerm s) (length (p_tlog p (rf_currentTerm s))) \<and>
     (\<forall>v<N. v \<noteq> n \<longrightarrow> (\<forall>i. snap s < i \<and> int i \<le> rf_matchIndex s ! v \<longrightarrow> acked p v (rf_currentTerm s) i)))"

definition node_rel :: "nat \<Rightarrow> proto \<Rightarrow> nat \<Rightarrow> Raft \<Rightarrow> bool" where
  "node_rel N p n s \<longleftrightarrow> voters_ok N n s \<and> represents (p_log p n) s \<and> log_durable s \<and> term_rel p n s \<and> leader_rel N p n s \<and>
     0 \<le> rf_commitIndex s \<and> p_commit p n = max (nat (rf_commitIndex s)) (snap s)"

definition quorum :: "nat \<Rightarrow> nat" where
  "quorum N = N div 2 + 1"

text \<open>The vote calls of node \<open>n\<close> for an election in term \<open>T\<close> that have not been answered, and the count of the answers.\<close>

definition waiting_for :: "cluster \<Rightarrow> nat \<Rightarrow> int \<Rightarrow> nat set" where
  "waiting_for c n T = {v. \<exists>a. (n, v, a) \<in> cl_waiting c \<and> va_term a = T}"

definition count_rel :: "nat \<Rightarrow> proto \<Rightarrow> nat \<Rightarrow> Raft \<Rightarrow> nat set \<Rightarrow> int \<Rightarrow> bool" where
  "count_rel N p n s W T \<longleftrightarrow> W = {} \<or> W \<subseteq> {..<N} - {n} \<and> (n, T, n) \<in> p_votes p \<and> T \<le> rf_currentTerm s \<and>
     (if p_elected p T = Some n then rf_votedNum s T + int (card W) < int (quorum N)
      else (\<exists>V. V \<subseteq> {..<N} \<and> n \<in> V \<and> V \<inter> W = {} \<and> (\<forall>v\<in>V. (v, T, n) \<in> p_votes p) \<and> int (card V) = rf_votedNum s T))"

definition vote_req_rel :: "nat \<Rightarrow> proto \<Rightarrow> nat \<times> nat \<times> RequestVoteArgs \<Rightarrow> bool" where
  "vote_req_rel N p = (\<lambda>(c, v, a). c < N \<and> v < N \<and> va_candidateId a = int c \<and> (c, va_term a, c) \<in> p_votes p \<and>
     va_lastLogIndex a = int (length (p_clog p c (va_term a))) \<and> va_lastLogTerm a = lastTerm (p_clog p c (va_term a)))"

definition vote_rep_rel :: "nat \<Rightarrow> proto \<Rightarrow> nat \<times> nat \<times> RequestVoteArgs \<times> RequestVoteReply \<Rightarrow> bool" where
  "vote_rep_rel N p = (\<lambda>(c, v, a, r). c < N \<and> v < N \<and> (vr_voteGranted r \<longrightarrow> vr_term r = va_term a \<and> (v, va_term a, c) \<in> p_votes p))"

text \<open>An append request carries a piece of the leader's log up to a position of its own term.\<close>

definition append_end :: "AppendEntriesArgs \<Rightarrow> nat" where
  "append_end a = nat (ae_prevLogIndex a) + length (ae_entries a)"

definition append_req_rel :: "nat \<Rightarrow> proto \<Rightarrow> nat \<times> nat \<times> AppendEntriesArgs \<Rightarrow> bool" where
  "append_req_rel N p = (\<lambda>(l, v, a). l < N \<and> v < N \<and> 0 \<le> ae_prevLogIndex a \<and> own p (ae_term a) (append_end a) \<and>
     ae_entries a = drop (nat (ae_prevLogIndex a)) (take (append_end a) (p_tlog p (ae_term a))) \<and>
     ae_prevLogTerm a = termAt (p_tlog p (ae_term a)) (nat (ae_prevLogIndex a)) \<and>
     ae_leaderCommit a \<le> int (append_end a) \<and>
     settled_prefix (majorities {..<N}) p (ae_term a) (p_tlog p (ae_term a)) (nat (ae_leaderCommit a)))"

definition append_rep_rel :: "nat \<Rightarrow> proto \<Rightarrow> nat \<times> nat \<times> AppendEntriesArgs \<times> AppendEntriesReply \<Rightarrow> bool" where
  "append_rep_rel N p = (\<lambda>(l, v, a, r). l < N \<and> v < N \<and> 0 \<le> ae_prevLogIndex a \<and>
     (ar_success r \<longrightarrow> ar_term r = ae_term a \<and> acked p v (ae_term a) (append_end a)))"

definition snapshot_req_rel :: "nat \<Rightarrow> proto \<Rightarrow> nat \<times> nat \<times> InstallSnapshotRequest \<Rightarrow> bool" where
  "snapshot_req_rel N p = (\<lambda>(l, v, r). l < N \<and> v < N \<and> 0 \<le> is_lastSnapshotIncludeIndex r \<and> (\<exists>M. indexed M \<and>
     settled_prefix (majorities {..<N}) p (is_term r) M (nat (is_lastSnapshotIncludeIndex r)) \<and>
     is_lastSnapshotIncludeTerm r = termAt M (nat (is_lastSnapshotIncludeIndex r))))"

definition delivered_rel :: "nat \<Rightarrow> proto \<Rightarrow> nat \<times> int \<times> string \<Rightarrow> bool" where
  "delivered_rel N p = (\<lambda>(n, i, command). \<exists>T m. chosen (majorities {..<N}) p T m \<and> 0 < i \<and> nat i \<le> m \<and>
     le_command (p_tlog p T ! (nat i - 1)) = command)"

definition messages_rel :: "nat \<Rightarrow> proto \<Rightarrow> cluster \<Rightarrow> bool" where
  "messages_rel N p c \<longleftrightarrow> (\<forall>x\<in>cl_voteReqs c. vote_req_rel N p x) \<and> (\<forall>x\<in>cl_voteReps c. vote_rep_rel N p x) \<and>
     (\<forall>x\<in>cl_appendReqs c. append_req_rel N p x) \<and> (\<forall>x\<in>cl_appendReps c. append_rep_rel N p x) \<and>
     (\<forall>x\<in>cl_snapshotReqs c. snapshot_req_rel N p x) \<and> (\<forall>x\<in>cl_snapshotReps c. fst x < N) \<and>
     (\<forall>x\<in>cl_delivered c. delivered_rel N p x) \<and> cl_waiting c \<subseteq> cl_voteReqs c \<and>
     (\<forall>(l, v, T, i)\<in>cl_transfers c. l < N \<and> v < N \<and> i \<le> int (snap (cl_node c l))) \<and>
     (\<forall>T. p_elected p T \<noteq> None \<longrightarrow> indexed (p_tlog p T))"

definition cluster_rel :: "nat \<Rightarrow> proto \<Rightarrow> cluster \<Rightarrow> bool" where
  "cluster_rel N p c \<longleftrightarrow> proto_ok (majorities {..<N}) p \<and> (\<forall>n<N. node_rel N p n (cl_node c n)) \<and>
     (\<forall>n<N. \<forall>T. count_rel N p n (cl_node c n) (waiting_for c n T) T) \<and> messages_rel N p c"

section \<open>Steps of one node leave the rest alone\<close>

definition evolves :: "nat \<Rightarrow> proto \<Rightarrow> proto \<Rightarrow> bool" where
  "evolves n p p' \<longleftrightarrow> grows p p' \<and> (\<forall>c T. (c, T, c) \<in> p_votes p \<longrightarrow> p_clog p' c T = p_clog p c T) \<and>
     (\<forall>m. m \<noteq> n \<longrightarrow> p_term p' m = p_term p m \<and> p_vote p' m = p_vote p m \<and> p_log p' m = p_log p m \<and> p_commit p' m = p_commit p m \<and>
        (\<forall>T. (p_elected p' T = Some m) = (p_elected p T = Some m)) \<and> (\<forall>T. p_elected p T = Some m \<longrightarrow> p_tlog p' T = p_tlog p T))"

lemma evolvesD:
  assumes "evolves n p p'"
  shows "grows p p'" "(c, T, c) \<in> p_votes p \<Longrightarrow> p_clog p' c T = p_clog p c T"
    "m \<noteq> n \<Longrightarrow> p_term p' m = p_term p m" "m \<noteq> n \<Longrightarrow> p_vote p' m = p_vote p m" "m \<noteq> n \<Longrightarrow> p_log p' m = p_log p m"
    "m \<noteq> n \<Longrightarrow> p_commit p' m = p_commit p m" "m \<noteq> n \<Longrightarrow> p_elected p' T = Some m \<longleftrightarrow> p_elected p T = Some m"
    "m \<noteq> n \<Longrightarrow> p_elected p T = Some m \<Longrightarrow> p_tlog p' T = p_tlog p T"
  using assms by (auto simp: evolves_def)

lemma evolves_refl: "evolves n p p"
  by (simp add: evolves_def grows_refl)

lemma evolves_trans: "evolves n p q \<Longrightarrow> evolves n q r \<Longrightarrow> evolves n p r"
proof -
  assume pq: "evolves n p q" and qr: "evolves n q r"
  have g: "grows p r" by (rule grows_trans [OF evolvesD(1) [OF pq] evolvesD(1) [OF qr]])
  have "p_clog r c T = p_clog p c T" if "(c, T, c) \<in> p_votes p" for c T
    using evolvesD(2) [OF pq that] evolvesD(2) [OF qr, of c T] grows_sets(1) [OF evolvesD(1) [OF pq]] that by auto
  moreover have "p_term r m = p_term p m \<and> p_vote r m = p_vote p m \<and> p_log r m = p_log p m \<and> p_commit r m = p_commit p m"
    if "m \<noteq> n" for m
    using evolvesD(3-6) [OF pq that] evolvesD(3-6) [OF qr that] by simp
  moreover have "(p_elected r T = Some m) = (p_elected p T = Some m)" if "m \<noteq> n" for m T
    using evolvesD(7) [OF pq that] evolvesD(7) [OF qr that] by simp
  moreover have "p_tlog r T = p_tlog p T" if "m \<noteq> n" "p_elected p T = Some m" for m T
    using evolvesD(8) [OF pq that] evolvesD(8) [OF qr that(1), of T] evolvesD(7) [OF pq that(1), of T] that(2) by simp
  ultimately show ?thesis using g unfolding evolves_def by blast
qed

text \<open>Each kind of step, by the node that takes it.\<close>

lemma evolves_step:
  assumes "pstep Qs p p'" and votes: "votes_ok p"
    and n: "\<And>m. m \<noteq> n \<Longrightarrow> p_term p' m = p_term p m \<and> p_vote p' m = p_vote p m \<and> p_log p' m = p_log p m \<and> p_commit p' m = p_commit p m"
      "\<And>m T. m \<noteq> n \<Longrightarrow> p_elected p' T = Some m \<longleftrightarrow> p_elected p T = Some m"
      "\<And>m T. m \<noteq> n \<Longrightarrow> p_elected p T = Some m \<Longrightarrow> p_tlog p' T = p_tlog p T"
  shows "evolves n p p'"
  unfolding evolves_def using pstep_grows [OF assms(1)] step_clog [OF assms(1) votes] n by blast

lemma settled_le: "settled_prefix Qs p T L n \<Longrightarrow> k \<le> n \<Longrightarrow> settled_prefix Qs p T L k"
  unfolding settled_prefix_def by (metis le_trans le_zero_eq take_le_eq)

lemma grows_settled': "\<lbrakk> grows p p'; settled_prefix Qs p T L n \<rbrakk> \<Longrightarrow> settled_prefix Qs p' T L n"
  using grows_settled by blast

lemma own_take_eq: "\<lbrakk> grows p p'; own p T m; k \<le> m \<rbrakk> \<Longrightarrow> take k (p_tlog p' T) = take k (p_tlog p T)"
  using grows_tlog_take [of p p' T k] by (simp add: own_def)

lemma append_req_mono:
  assumes g: "grows p p'" and x: "append_req_rel N p x"
  shows "append_req_rel N p' x"
proof -
  obtain l v a where x': "x = (l, v, a)" by (cases x)
  let ?T = "ae_term a" and ?i = "nat (ae_prevLogIndex a)" and ?m = "append_end a"
  note r = x [unfolded append_req_rel_def x' prod.case]
  have own: "own p ?T ?m" and own': "own p' ?T ?m" using r grows_own [OF g] by auto
  have le: "?i \<le> ?m" by (simp add: append_end_def)
  have t: "take ?m (p_tlog p' ?T) = take ?m (p_tlog p ?T)" by (rule own_take_eq [OF g own order_refl])
  have "settled_prefix (majorities {..<N}) p' ?T (p_tlog p' ?T) (nat (ae_leaderCommit a))"
    using grows_settled [OF g, of _ ?T "p_tlog p ?T" "nat (ae_leaderCommit a)" ?T "p_tlog p' ?T"] r
      own_take_eq [OF g own, of "nat (ae_leaderCommit a)"] by auto
  then show ?thesis using r own' t termAt_eqI [OF t le] by (simp add: append_req_rel_def x')
qed

lemma messages_mono:
  assumes ev: "evolves n p p'"
  shows "vote_req_rel N p x1 \<Longrightarrow> vote_req_rel N p' x1" "vote_rep_rel N p x2 \<Longrightarrow> vote_rep_rel N p' x2"
    "append_req_rel N p x3 \<Longrightarrow> append_req_rel N p' x3" "append_rep_rel N p x4 \<Longrightarrow> append_rep_rel N p' x4"
    "snapshot_req_rel N p x5 \<Longrightarrow> snapshot_req_rel N p' x5" "delivered_rel N p x6 \<Longrightarrow> delivered_rel N p' x6"
proof -
  have g: "grows p p'" by (rule evolvesD(1) [OF ev])
  show "vote_req_rel N p x1 \<Longrightarrow> vote_req_rel N p' x1"
    using grows_sets(1) [OF g] evolvesD(2) [OF ev] by (auto simp: vote_req_rel_def split: prod.splits)
  show "vote_rep_rel N p x2 \<Longrightarrow> vote_rep_rel N p' x2"
    using grows_sets(1) [OF g] by (auto simp: vote_rep_rel_def split: prod.splits)
  show "append_req_rel N p x3 \<Longrightarrow> append_req_rel N p' x3" by (rule append_req_mono [OF g])
  show "append_rep_rel N p x4 \<Longrightarrow> append_rep_rel N p' x4"
    using grows_acked [OF g] by (auto simp: append_rep_rel_def split: prod.splits)
  show "snapshot_req_rel N p x5 \<Longrightarrow> snapshot_req_rel N p' x5"
    using grows_settled' [OF g] by (fastforce simp: snapshot_req_rel_def split: prod.splits)
  show "delivered_rel N p' x6" if d: "delivered_rel N p x6"
  proof -
    obtain m i command where x: "x6 = (m, i, command)" by (cases x6)
    obtain T k where k: "chosen (majorities {..<N}) p T k" "0 < i" "nat i \<le> k" "le_command (p_tlog p T ! (nat i - 1)) = command"
      using d by (auto simp: delivered_rel_def x)
    have "take k (p_tlog p' T) = take k (p_tlog p T)" using own_take_eq [OF g, of T k k] k(1) by (simp add: chosen_def)
    then have "p_tlog p' T ! (nat i - 1) = p_tlog p T ! (nat i - 1)"
      using nth_take [of "nat i - 1" k "p_tlog p' T"] nth_take [of "nat i - 1" k "p_tlog p T"] k(2,3) by simp
    then show ?thesis using grows_chosen [OF g k(1)] k(2-4) by (auto simp: delivered_rel_def x intro!: exI [of _ T] exI [of _ k])
  qed
qed

lemma snap_core: "core s' = core s \<Longrightarrow> snap s' = snap s"
  using core_fields [of s' s] by (simp add: snap_def)

lemma node_rel_core:
  assumes "core s' = core s"
  shows "node_rel N p n s' = node_rel N p n s"
proof -
  note f = core_fields [OF assms] snap_core [OF assms]
  have d: "durable s' = durable s" by (simp add: durable_def f)
  show ?thesis
    by (simp add: node_rel_def voters_ok_def represents_cong [of s' s] log_durable_def term_rel_def leader_rel_def d f)
qed

lemma count_rel_core: "core s' = core s \<Longrightarrow> count_rel N p n s' W T = count_rel N p n s W T"
  using core_fields [of s' s] by (simp add: count_rel_def)

lemma node_rel_other:
  assumes ev: "evolves n p p'" and m: "m \<noteq> n" and rel: "node_rel N p m s"
  shows "node_rel N p' m s"
proof -
  have "leader_rel N p' m s"
    using rel evolvesD(3,5,7,8) [OF ev m] grows_acked [OF evolvesD(1) [OF ev]] by (simp add: node_rel_def leader_rel_def)
  then show ?thesis using rel evolvesD(3-6) [OF ev m] by (simp add: node_rel_def term_rel_def)
qed

lemma count_rel_subset:
  assumes "count_rel N p n s W T" "W' \<subseteq> W"
  shows "count_rel N p n s W' T"
proof (cases "W' = {}")
  case False
  then have ne: "W \<noteq> {}" using assms(2) by auto
  then have W: "W \<subseteq> {..<N} - {n}" using assms(1) by (simp add: count_rel_def)
  then have "card W' \<le> card W" using assms(2) by (meson card_mono finite_Diff finite_lessThan finite_subset)
  then show ?thesis
    using assms ne W unfolding count_rel_def by (smt (verit, ccfv_SIG) disjoint_iff of_nat_mono subset_eq)
qed (simp add: count_rel_def)

lemma count_rel_other:
  assumes ev: "evolves n p p'" and m: "m \<noteq> n" and rel: "count_rel N p m s W T"
  shows "count_rel N p' m s W T"
  using rel evolvesD(7) [OF ev m, of T] grows_sets(1) [OF evolvesD(1) [OF ev]]
  unfolding count_rel_def by (smt (verit) subset_eq)

lemma cluster_step:
  assumes rel: "cluster_rel N p c" and steps: "(pstep (majorities {..<N}))\<^sup>*\<^sup>* p p'" and ev: "evolves n p p'"
    and c': "cl_node c' = (cl_node c)(n := s)" and node: "n < N \<Longrightarrow> node_rel N p' n s" and sn: "snap (cl_node c n) \<le> snap s"
    and count: "\<And>T. n < N \<Longrightarrow> count_rel N p' n s (waiting_for c' n T) T"
    and waiting: "\<And>m T. m \<noteq> n \<Longrightarrow> waiting_for c' m T \<subseteq> waiting_for c m T" "cl_waiting c' \<subseteq> cl_voteReqs c'"
    and voteReqs: "\<And>x. x \<in> cl_voteReqs c' \<Longrightarrow> x \<in> cl_voteReqs c \<or> vote_req_rel N p' x"
    and voteReps: "\<And>x. x \<in> cl_voteReps c' \<Longrightarrow> x \<in> cl_voteReps c \<or> vote_rep_rel N p' x"
    and appendReqs: "\<And>x. x \<in> cl_appendReqs c' \<Longrightarrow> x \<in> cl_appendReqs c \<or> append_req_rel N p' x"
    and appendReps: "\<And>x. x \<in> cl_appendReps c' \<Longrightarrow> x \<in> cl_appendReps c \<or> append_rep_rel N p' x"
    and snapshotReqs: "\<And>x. x \<in> cl_snapshotReqs c' \<Longrightarrow> x \<in> cl_snapshotReqs c \<or> snapshot_req_rel N p' x"
    and snapshotReps: "\<And>x. x \<in> cl_snapshotReps c' \<Longrightarrow> x \<in> cl_snapshotReps c \<or> fst x < N"
    and delivered: "\<And>x. x \<in> cl_delivered c' \<Longrightarrow> x \<in> cl_delivered c \<or> delivered_rel N p' x"
    and transfers: "\<And>l v T i. (l, v, T, i) \<in> cl_transfers c' \<Longrightarrow> (l, v, T, i) \<in> cl_transfers c \<or> l < N \<and> v < N \<and> i \<le> int (snap (cl_node c' l))"
    and indexed: "\<And>T. p_elected p' T \<noteq> None \<Longrightarrow> indexed (p_tlog p' T) \<or> p_elected p T \<noteq> None \<and> p_tlog p' T = p_tlog p T"
  shows "cluster_rel N p' c'"
proof -
  note old = rel [unfolded cluster_rel_def messages_rel_def]
  note mono = messages_mono [OF ev]
  have "proto_ok (majorities {..<N}) p'" using majority.proto_ok_steps [OF steps] old by blast
  moreover have "node_rel N p' m (cl_node c' m)" if "m < N" for m
    using node_rel_other [OF ev, of m N "cl_node c m"] node old that by (cases "m = n") (auto simp: c')
  moreover have "count_rel N p' m (cl_node c' m) (waiting_for c' m T) T" if m: "m < N" for m T
  proof (cases "m = n")
    case True
    then show ?thesis using count [of T] m by (simp add: c')
  next
    case False
    have "count_rel N p m (cl_node c m) (waiting_for c m T) T" using old m by blast
    then show ?thesis
      using count_rel_other [OF ev False] count_rel_subset [OF _ waiting(1) [OF False]] False by (simp add: c')
  qed
  moreover have "messages_rel N p' c'"
    unfolding messages_rel_def
  proof (intro conjI ballI allI impI)
    fix x show "vote_req_rel N p' x" if "x \<in> cl_voteReqs c'" using voteReqs [OF that] mono(1) [of N x] old by blast
    next fix x show "vote_rep_rel N p' x" if "x \<in> cl_voteReps c'" using voteReps [OF that] mono(2) [of N x] old by blast
    next fix x show "append_req_rel N p' x" if "x \<in> cl_appendReqs c'" using appendReqs [OF that] mono(3) [of N x] old by blast
    next fix x show "append_rep_rel N p' x" if "x \<in> cl_appendReps c'" using appendReps [OF that] mono(4) [of N x] old by blast
    next fix x show "snapshot_req_rel N p' x" if "x \<in> cl_snapshotReqs c'" using snapshotReqs [OF that] mono(5) [of N x] old by blast
    next fix x show "fst x < N" if "x \<in> cl_snapshotReps c'" using snapshotReps [OF that] old by blast
    next fix x show "delivered_rel N p' x" if "x \<in> cl_delivered c'" using delivered [OF that] mono(6) [of N x] old by blast
    next show "cl_waiting c' \<subseteq> cl_voteReqs c'" by (rule waiting(2))
    next fix x show "case x of (l, v, T, i) \<Rightarrow> l < N \<and> v < N \<and> i \<le> int (snap (cl_node c' l))" if x: "x \<in> cl_transfers c'"
    proof -
      obtain l v T i where x': "x = (l, v, T, i)" by (cases x)
      have "l < N \<and> v < N \<and> i \<le> int (snap (cl_node c l))" if "(l, v, T, i) \<in> cl_transfers c" using old that by blast
      then show ?thesis using transfers [OF x [unfolded x']] sn by (auto simp: x' c')
    qed
    next fix T show "indexed (p_tlog p' T)" if "p_elected p' T \<noteq> None" using indexed [OF that] old by metis
  qed
  ultimately show ?thesis unfolding cluster_rel_def by blast
qed

end
