(* ===== verification/RaftSimulation.thy ===== *)
theory RaftSimulation
  imports RaftCluster
begin

text \<open>
  Every handler of a node takes steps of \<open>RaftProtocol\<close>. Most of them are quiet: they elect no one and leave the count
  of the votes alone. \<open>quiet\<close> collects what such a handler guarantees, and composes.
\<close>

section \<open>Steps of the protocol by one node\<close>

abbreviation steps :: "nat \<Rightarrow> proto \<Rightarrow> proto \<Rightarrow> bool" where
  "steps N \<equiv> (pstep (majorities {..<N}))\<^sup>*\<^sup>*"

lemma evolves_kinds:
  assumes "votes_ok p"
  shows "p_term p v \<le> T \<Longrightarrow> evolves v p (raise_term v T p)"
    "settled_prefix Qs p (p_term p v) (p_log p v) k \<Longrightarrow> evolves v p (p \<lparr> p_commit := (p_commit p)(v := k) \<rparr>)"
proof -
  show "evolves v p (raise_term v T p)" if "p_term p v \<le> T"
    by (rule evolves_step [OF pstep.Raise [OF that] assms]) (simp_all add: raise_term_def)
  show "evolves v p (p \<lparr> p_commit := (p_commit p)(v := k) \<rparr>)" if "settled_prefix Qs p (p_term p v) (p_log p v) k"
    by (rule evolves_step [OF pstep.Commit [OF that] assms]) simp_all
qed

definition quiet :: "nat \<Rightarrow> nat \<Rightarrow> proto \<Rightarrow> Raft \<Rightarrow> proto \<Rightarrow> Raft \<Rightarrow> bool" where
  "quiet N n p s p' s' \<longleftrightarrow> steps N p p' \<and> evolves n p p' \<and> node_rel N p' n s' \<and> p_elected p' = p_elected p \<and>
     (\<forall>T. p_tlog p' T = p_tlog p T \<or> indexed (p_tlog p' T)) \<and>
     rf_votedNum s' = rf_votedNum s \<and> rf_currentTerm s \<le> rf_currentTerm s' \<and> snap s \<le> snap s'"

lemma quiet_trans: "quiet N n p s q t \<Longrightarrow> quiet N n q t r u \<Longrightarrow> quiet N n p s r u"
proof -
  assume 1: "quiet N n p s q t" and 2: "quiet N n q t r u"
  have "p_tlog r T = p_tlog p T \<or> indexed (p_tlog r T)" for T
    using 1 2 unfolding quiet_def by metis
  then show ?thesis
    using 1 2 evolves_trans [of n p q r] rtranclp_trans [of "pstep (majorities {..<N})" p q r] unfolding quiet_def by (metis order_trans)
qed

lemma quietD:
  assumes "quiet N n p s p' s'" "proto_ok (majorities {..<N}) p"
  shows "proto_ok (majorities {..<N}) p'" "node_rel N p' n s'" "grows p p'" "evolves n p p'"
  using assms majority.proto_ok_steps [of N p p'] evolvesD(1) [of n p p'] unfolding quiet_def by blast+

text \<open>A change outside the core.\<close>

lemma quiet_core: "\<lbrakk> node_rel N p n s; core s' = core s \<rbrakk> \<Longrightarrow> quiet N n p s p s'"
  using node_rel_core [of s' s N p n] core_fields [of s' s] snap_core [of s' s] by (simp add: quiet_def evolves_refl)

lemma quiet_core_left: "quiet N n p s p' s' \<Longrightarrow> core t = core s \<Longrightarrow> quiet N n p t p' s'"
  using core_fields [of t s] snap_core [of t s] by (simp add: quiet_def)

lemma quiet_core_right: "quiet N n p s p' s' \<Longrightarrow> core t = core s' \<Longrightarrow> quiet N n p s p' t"
  using core_fields [of t s'] snap_core [of t s'] node_rel_core [of t s' N p' n] by (simp add: quiet_def)

lemma durable_update [simp]:
  "durable (s \<lparr> rf_status := x \<rparr>) = durable s" "durable (s \<lparr> rf_currentTerm := t \<rparr>) = durable s"
  "durable (s \<lparr> rf_votedFor := v \<rparr>) = durable s" "durable (s \<lparr> rf_logs := l \<rparr>) = durable s"
  "durable (s \<lparr> rf_commitIndex := i \<rparr>) = durable s" "durable (s \<lparr> rf_matchIndex := m \<rparr>) = durable s"
  "durable (s \<lparr> rf_nextIndex := k \<rparr>) = durable s"
  by (simp_all add: durable_def)

lemma snap_update [simp]:
  "snap (s \<lparr> rf_status := x \<rparr>) = snap s" "snap (s \<lparr> rf_currentTerm := t \<rparr>) = snap s"
  "snap (s \<lparr> rf_votedFor := v \<rparr>) = snap s" "snap (s \<lparr> rf_commitIndex := i \<rparr>) = snap s"
  "snap (s \<lparr> rf_matchIndex := m \<rparr>) = snap s" "snap (s \<lparr> rf_nextIndex := k \<rparr>) = snap s"
  by (simp_all add: snap_def)

lemma quiet_follower: "node_rel N p n s \<Longrightarrow> quiet N n p s p (s \<lparr> rf_status := Follower \<rparr>)"
  by (simp add: quiet_def evolves_refl node_rel_def voters_ok_def log_durable_def term_rel_def leader_rel_def
      represents_cong [of "s \<lparr> rf_status := Follower \<rparr>" s])

lemma quiet_step_down:
  assumes "node_rel N p n s" "rf_currentTerm s < T"
  shows "quiet N n p s p (step_down T s)"
proof -
  let ?s = "s \<lparr> rf_status := Follower, rf_currentTerm := T, rf_votedFor := -1 \<rparr>"
  have t: "term_rel p n ?s" using assms by (auto simp: node_rel_def term_rel_def)
  have r: "represents L ?s = represents L s" for L by (rule represents_cong) simp_all
  have "node_rel N p n ?s" using assms t by (simp add: node_rel_def voters_ok_def log_durable_def leader_rel_def r)
  then have "quiet N n p s p ?s" using assms(2) by (simp add: quiet_def evolves_refl)
  then show ?thesis by (rule quiet_core_right) (rule core_step_down)
qed

text \<open>A complete write makes the term and the vote durable.\<close>

lemma raise_fields [simp]:
  "p_log (raise_term v T p) = p_log p" "p_commit (raise_term v T p) = p_commit p" "p_votes (raise_term v T p) = p_votes p"
  "p_clog (raise_term v T p) = p_clog p" "p_elected (raise_term v T p) = p_elected p" "p_tlog (raise_term v T p) = p_tlog p"
  "p_acks (raise_term v T p) = p_acks p" "p_term (raise_term v T p) = (p_term p)(v := T)"
  "p_vote (raise_term v T p) = (p_vote p)(v := if T = p_term p v then p_vote p v else None)"
  by (simp_all add: raise_term_def)

lemma acked_raise [simp]: "acked (raise_term v T p) = acked p"
  by (simp add: acked_def fun_eq_iff)

lemma term_rel_le: "term_rel p n s \<Longrightarrow> p_term p n \<le> rf_currentTerm s"
  by (auto simp: term_rel_def)

lemma term_rel_persist: "term_rel p n s \<Longrightarrow> term_rel (raise_term n (rf_currentTerm s) p) n (persist s)"
  by (auto simp: term_rel_def raft_state_def vote_of_def)

lemma leader_rel_persist: "leader_rel N p n s \<Longrightarrow> leader_rel N (raise_term n (rf_currentTerm s) p) n (persist s)"
  by (simp add: leader_rel_def)

lemma quiet_persist:
  assumes "proto_ok (majorities {..<N}) p" "node_rel N p n s"
  shows "quiet N n p s (raise_term n (rf_currentTerm s) p) (persist s)"
proof -
  have le: "p_term p n \<le> rf_currentTerm s" using assms(2) by (auto simp: node_rel_def dest: term_rel_le)
  have "node_rel N (raise_term n (rf_currentTerm s) p) n (persist s)"
    using assms(2) term_rel_persist leader_rel_persist
    by (simp add: node_rel_def voters_ok_def represents_cong [of "persist s" s])
  then show ?thesis
    using assms(1) pstep.Raise [OF le] evolves_kinds(1) [OF _ le] by (simp add: quiet_def proto_ok_def r_into_rtranclp)
qed

section \<open>Votes\<close>

definition granted :: "nat \<Rightarrow> int \<Rightarrow> nat \<Rightarrow> proto \<Rightarrow> proto" where
  "granted v T c p = p \<lparr> p_term := (p_term p)(v := T), p_vote := (p_vote p)(v := Some c), p_votes := insert (v, T, c) (p_votes p) \<rparr>"

lemma quiet_grant:
  assumes ok: "proto_ok (majorities {..<N}) p" and rel: "node_rel N p n s" and c: "(c, rf_currentTerm s, c) \<in> p_votes p"
    and free: "rf_votedFor s = -1 \<or> rf_votedFor s = int c" and upto: "atLeastAsUpToDate (p_clog p c (rf_currentTerm s)) (p_log p n)"
  shows "quiet N n p s (granted n (rf_currentTerm s) c p) (persist (s \<lparr> rf_votedFor := int c \<rparr>))"
proof -
  let ?T = "rf_currentTerm s" and ?s = "s \<lparr> rf_votedFor := int c \<rparr>"
  have t: "term_rel p n s" using rel by (simp add: node_rel_def)
  have v: "p_vote p n = None \<or> p_vote p n = Some c" if "p_term p n = ?T"
    using t free that by (auto simp: term_rel_def vote_of_def)
  have step: "pstep Qs p (granted n ?T c p)" for Qs
    unfolding granted_def by (rule pstep.Grant [OF c term_rel_le [OF t] v upto])
  have "term_rel (granted n ?T c p) n (persist ?s)"
    by (simp add: term_rel_def granted_def raft_state_def vote_of_def)
  moreover have "leader_rel N (granted n ?T c p) n (persist ?s)"
    using rel by (simp add: node_rel_def leader_rel_def granted_def acked_def)
  moreover have "represents L (persist ?s) = represents L s" for L by (rule represents_cong) simp_all
  ultimately have "node_rel N (granted n ?T c p) n (persist ?s)"
    using rel by (simp add: node_rel_def voters_ok_def) (simp add: granted_def)
  moreover have "evolves n p (granted n ?T c p)"
    using ok by (intro evolves_step [OF step]) (auto simp: proto_ok_def granted_def)
  ultimately show ?thesis using step by (simp add: quiet_def r_into_rtranclp) (simp add: granted_def)
qed

lemma RequestVote_sim:
  assumes ok: "proto_ok (majorities {..<N}) p" and rel: "node_rel N p n s" and req: "vote_req_rel N p (m, n, a)"
    and call: "RequestVoteRpc now a s = (r, s')"
  shows "\<exists>p'. quiet N n p s p' s' \<and> vote_rep_rel N p' (m, n, a, r)"
proof (cases "r = refuse_vote Expire s \<and> (s' = persist s \<or> s' = s) \<or> \<not> rf_initialized s")
  case True
  then have "s' = persist s \<or> s' = s" "\<not> vr_voteGranted r" using call by (auto simp: RequestVoteRpc_def refuse_vote_def)
  moreover from this have "vote_rep_rel N p' (m, n, a, r)" for p' using req by (simp add: vote_rep_rel_def vote_req_rel_def)
  ultimately show ?thesis using quiet_persist [OF ok rel] quiet_core [OF rel refl] by blast
next
  case False
  define s1 where "s1 = (if va_term a > rf_currentTerm s then step_down (va_term a) s else s)"
  have r: "\<not> va_term a < rf_currentTerm s" "(r, s') = (if \<not> UpToDate (va_lastLogIndex a) (va_lastLogTerm a) s1 then (refuse_vote Voted s1, persist s1)
      else if rf_votedFor s1 \<noteq> -1 \<and> rf_votedFor s1 \<noteq> va_candidateId a then (refuse_vote Voted s1, persist s1)
      else (\<lparr> vr_term = rf_currentTerm s1, vr_voteGranted = True, vr_voteState = Normal \<rparr>,
        persist (s1 \<lparr> rf_votedFor := va_candidateId a, rf_lastResetElectionTime := now \<rparr>)))"
    using call False unfolding RequestVoteRpc_def RequestVote_def Let_def s1_def by (auto split: if_splits)
  have q1: "quiet N n p s p s1"
    using quiet_step_down [OF rel, of "va_term a"] quiet_core [OF rel refl] by (simp add: s1_def)
  note rel1 = quietD(2) [OF q1 ok]
  have T: "rf_currentTerm s1 = va_term a" using r(1) by (simp add: s1_def step_down_def)
  show ?thesis
  proof (cases "vr_voteGranted r")
    case False
    then have "s' = persist s1" using r(2) by (auto split: if_splits)
    moreover have "vote_rep_rel N p' (m, n, a, r)" for p' using False req by (simp add: vote_rep_rel_def vote_req_rel_def)
    ultimately show ?thesis using quiet_trans [OF q1 quiet_persist [OF ok rel1]] by blast
  next
    case True
    then have u: "UpToDate (va_lastLogIndex a) (va_lastLogTerm a) s1" "rf_votedFor s1 = -1 \<or> rf_votedFor s1 = int m"
      "s' = persist (s1 \<lparr> rf_votedFor := int m, rf_lastResetElectionTime := now \<rparr>)" "vr_term r = va_term a"
      using r(2) req T by (auto simp: vote_req_rel_def refuse_vote_def split: if_splits)
    have up: "atLeastAsUpToDate (p_clog p m (va_term a)) (p_log p n)"
      using u(1) rel1 req by (auto simp: node_rel_def represents_UpToDate atLeastAsUpToDate_def vote_req_rel_def)
    have "core s' = core (persist (s1 \<lparr> rf_votedFor := int m \<rparr>))" by (simp add: u(3) core_def persist_def raft_state_def)
    then have "quiet N n p s (granted n (va_term a) m p) s'"
      using quiet_trans [OF q1 quiet_core_right [OF quiet_grant [OF ok rel1 _ u(2)]]] up req T by (simp add: vote_req_rel_def)
    moreover have "vote_rep_rel N (granted n (va_term a) m p) (m, n, a, r)"
      using req u(4) by (simp add: vote_rep_rel_def vote_req_rel_def granted_def)
    ultimately show ?thesis by blast
  qed
qed

section \<open>Commit\<close>

lemma quorum_eq: "voters_ok N n s \<Longrightarrow> getQuorumLocked s = int (quorum N)"
  by (auto simp: voters_ok_def getQuorumLocked_def getVoterCountLocked_def quorum_def)

lemma all_voters: "voters_ok N n s \<Longrightarrow> isVoterLocked i s" "voters_ok N n s \<Longrightarrow> \<not> isLearnerLocked i s"
  "voters_ok N n s \<Longrightarrow> \<not> isRemovedLocked i s"
  by (auto simp: voters_ok_def isVoterLocked_def isLearnerLocked_def isRemovedLocked_def role_is_def)

lemma replicas_majority:
  assumes "voters_ok N n s" "int (length (replicas i s)) \<ge> getQuorumLocked s"
  shows "set (replicas i s) \<in> majorities {..<N}"
proof -
  have "distinct (replicas i s)" by (simp add: replicas_def)
  then have "card (set (replicas i s)) = length (replicas i s)" by (rule distinct_card)
  moreover have "set (replicas i s) \<subseteq> {..<N}" using assms(1) by (auto simp: replicas_def voters_ok_def)
  ultimately show ?thesis using assms by (simp add: quorum_eq majorities_def quorum_def)
qed

lemma acked_le: "acked p v T m \<Longrightarrow> k \<le> m \<Longrightarrow> acked p v T k"
  unfolding acked_def by (meson le_trans)

lemma chosen_settled: "chosen Qs p T m \<Longrightarrow> settled_prefix Qs p T (p_tlog p T) m"
  unfolding settled_prefix_def chosen_def own_def by blast

lemma replicas_acked:
  assumes "node_rel N p n s" "rf_status s = Leader" "v \<in> set (replicas i s)" "int (snap s) < i" "i \<le> int (length (p_log p n))"
  shows "acked p v (rf_currentTerm s) (nat i)"
proof (cases "v = n")
  case True
  moreover have "acked p n (rf_currentTerm s) (length (p_log p n))" using assms(1,2) by (simp add: node_rel_def leader_rel_def)
  ultimately show ?thesis using acked_le assms(5) by (simp add: nat_le_iff)
next
  case False
  then have "v < N" "i \<le> rf_matchIndex s ! v" using assms(1,3) by (auto simp: replicas_def node_rel_def voters_ok_def)
  moreover have "v < N \<Longrightarrow> int (nat i) \<le> rf_matchIndex s ! v \<Longrightarrow> acked p v (rf_currentTerm s) (nat i)"
    using assms(1,2,4) False by (auto simp: node_rel_def leader_rel_def zless_nat_eq_int_zless)
  ultimately show ?thesis using assms(4) by simp
qed

text \<open>The position a node regards as committed, for a new commit index.\<close>

lemma quiet_commit_to:
  assumes ok: "proto_ok (majorities {..<N}) p" and rel: "node_rel N p n s" and i: "rf_commitIndex s \<le> i"
    and settled: "settled_prefix (majorities {..<N}) p (p_term p n) (p_log p n) (max (nat i) (snap s))"
  shows "quiet N n p s (p \<lparr> p_commit := (p_commit p)(n := max (nat i) (snap s)) \<rparr>) (s \<lparr> rf_commitIndex := i \<rparr>)"
proof -
  let ?p = "p \<lparr> p_commit := (p_commit p)(n := max (nat i) (snap s)) \<rparr>" and ?s = "s \<lparr> rf_commitIndex := i \<rparr>"
  have "represents L ?s = represents L s" for L by (rule represents_cong) simp_all
  then have "node_rel N ?p n ?s"
    using rel i by (simp add: node_rel_def voters_ok_def log_durable_def term_rel_def leader_rel_def acked_def)
  then show ?thesis
    using pstep.Commit [OF settled] evolves_kinds(2) [OF _ settled] ok by (simp add: quiet_def r_into_rtranclp proto_ok_def)
qed

lemma node_committed:
  assumes "proto_ok Qs p" "node_rel N p n s"
  shows "settled_prefix Qs p (p_term p n) (p_log p n) (p_commit p n)" "p_commit p n \<le> length (p_log p n)"
    "snap s \<le> p_commit p n" "nat (rf_commitIndex s) \<le> p_commit p n"
proof -
  show "settled_prefix Qs p (p_term p n) (p_log p n) (p_commit p n)" using assms(1) by (simp add: proto_ok_def commits_ok_def)
  then show "p_commit p n \<le> length (p_log p n)" by (auto simp: settled_prefix_def)
  show "snap s \<le> p_commit p n" "nat (rf_commitIndex s) \<le> p_commit p n" using assms(2) by (simp_all add: node_rel_def)
qed

lemma quiet_leader_commit:
  assumes ok: "proto_ok (majorities {..<N}) p" and rel: "node_rel N p n s" and leader: "rf_status s = Leader"
    and call: "leaderUpdateCommitIndex s = Some s'"
  shows "\<exists>p'. quiet N n p s p' s'"
proof (cases "s' = s")
  case True
  then show ?thesis using quiet_core [OF rel refl] by blast
next
  case False
  have rep: "represents (p_log p n) s" and vok: "voters_ok N n s" and l: "leader_rel N p n s" using rel by (simp_all add: node_rel_def)
  obtain i where i: "rf_commitIndex s < i" "int (snap s) \<le> i" "i \<le> int (length (p_log p n))" "termAt (p_log p n) (nat i) = rf_currentTerm s"
    "int (length (replicas i s)) \<ge> getQuorumLocked s" "s' = s \<lparr> rf_commitIndex := i \<rparr>"
    using leaderUpdateCommitIndex_effect [OF call rep] False by blast
  note com = node_committed [OF ok rel]
  have "settled_prefix (majorities {..<N}) p (p_term p n) (p_log p n) (max (nat i) (snap s))"
  proof (cases "i = int (snap s)")
    case True
    then show ?thesis using settled_le [OF com(1) com(3)] by simp
  next
    case False
    have "own p (rf_currentTerm s) (nat i)" using l leader i(2-4) False by (auto simp: leader_rel_def own_def)
    moreover have "\<forall>v\<in>set (replicas i s). acked p v (rf_currentTerm s) (nat i)"
      using replicas_acked [OF rel leader] i(2,3) False by simp
    ultimately have "chosen (majorities {..<N}) p (rf_currentTerm s) (nat i)"
      using replicas_majority [OF vok i(5)] unfolding chosen_def by blast
    moreover have "max (nat i) (snap s) = nat i" using i(2) by (simp add: max_def nat_le_iff)
    ultimately show ?thesis using l leader chosen_settled by (simp add: leader_rel_def)
  qed
  then show ?thesis using quiet_commit_to [OF ok rel, of i] i(1,6) by auto
qed

lemma leaderUpdateCommitIndex_persist:
  "leaderUpdateCommitIndex (persist s) = map_option persist (leaderUpdateCommitIndex s)"
proof -
  have f: "getLastLogIndex (persist s) = getLastLogIndex s" "getLogTermFromLogIndex i (persist s) = getLogTermFromLogIndex i s"
    "replicas i (persist s) = replicas i s" "getQuorumLocked (persist s) = getQuorumLocked s" for i
    by (simp_all add: persist_def getLastLogIndex_def getLastLogIndexAndTerm_def getLogTermFromLogIndex_def log_at_def
        getSlicesIndexFromLogIndex_def replicas_def isVoterLocked_def role_is_def getQuorumLocked_def getVoterCountLocked_def)
  have c: "(persist s) \<lparr> rf_commitIndex := i \<rparr> = persist (s \<lparr> rf_commitIndex := i \<rparr>)" for i
    by (simp add: persist_def raft_state_def)
  have "CommitScan is (persist s) = map_option persist (CommitScan is s)" for "is"
    by (induction "is") (simp_all add: f c split: option.splits)
  then show ?thesis by (simp add: leaderUpdateCommitIndex_def f)
qed

section \<open>Proposals\<close>

definition proposed :: "nat \<Rightarrow> int \<Rightarrow> LogEntry list \<Rightarrow> proto \<Rightarrow> proto" where
  "proposed l T L p = p \<lparr> p_tlog := (p_tlog p)(T := L), p_log := (p_log p)(l := L), p_acks := insert (l, T, length L) (p_acks p) \<rparr>"

lemma quiet_propose:
  assumes ok: "proto_ok (majorities {..<N}) p" and rel: "node_rel N p n s" and leader: "rf_status s = Leader"
    and es: "es \<noteq> []" "list_all (\<lambda>e. le_logTerm e = rf_currentTerm s) es"
      "\<forall>i<length es. le_logIndex (es ! i) = int (length (p_log p n)) + int i + 1"
  shows "quiet N n p s (proposed n (rf_currentTerm s) (p_log p n @ es) p) (persist (s \<lparr> rf_logs := rf_logs s @ es \<rparr>))"
proof -
  let ?T = "rf_currentTerm s" and ?L = "p_log p n @ es" and ?s = "s \<lparr> rf_logs := rf_logs s @ es \<rparr>"
  have l: "leader_rel N p n s" and t: "term_rel p n s" and rep: "represents (p_log p n) s" using rel by (simp_all add: node_rel_def)
  have step: "pstep Qs p (proposed n ?T ?L p)" for Qs
    unfolding proposed_def by (rule pstep.Propose [OF _ _ _ es(1,2)]) (use l leader in \<open>simp_all add: leader_rel_def\<close>)
  have rep': "represents ?L ?s" by (rule represents_append [OF rep es(3)])
  have "represents M (persist ?s) = represents M ?s" for M by (rule represents_cong) simp_all
  moreover have "term_rel (proposed n ?T ?L p) n (persist ?s)"
    using t l leader by (auto simp: term_rel_def leader_rel_def raft_state_def proposed_def)
  moreover have "leader_rel N (proposed n ?T ?L p) n (persist ?s)"
    using l leader by (simp add: leader_rel_def proposed_def acked_def) blast
  ultimately have "node_rel N (proposed n ?T ?L p) n (persist ?s)"
    using rel rep' by (simp add: node_rel_def voters_ok_def) (simp add: proposed_def)
  moreover have "evolves n p (proposed n ?T ?L p)"
    using ok l leader by (intro evolves_step [OF step]) (auto simp: proto_ok_def proposed_def leader_rel_def)
  moreover have "indexed ?L" using rep' by (simp add: represents_def)
  ultimately show ?thesis using step by (simp add: quiet_def r_into_rtranclp) (simp add: proposed_def)
qed

lemma CommitScan_disk: "leaderUpdateCommitIndex s = Some s' \<Longrightarrow> rf_disk s' = rf_disk s \<and> rf_logs s' = rf_logs s"
  using CommitScan_effect [of _ s s'] unfolding leaderUpdateCommitIndex_def by fastforce

lemma PollBatch_sim:
  assumes ok: "proto_ok (majorities {..<N}) p" and rel: "node_rel N p n s" and batch: "batch \<noteq> []"
    and call: "PollBatch batch s = Some s'"
  shows "\<exists>p'. quiet N n p s p' s'"
proof -
  define s1 where "s1 = (if list_ex (\<lambda>c. op_Operation c = ''ConfChange'') batch then s \<lparr> rf_confChangePendingInQueue := False \<rparr> else s)"
  have c1: "core s1 = core s" by (simp add: s1_def core_def)
  have rel1: "node_rel N p n s1" using rel node_rel_core [OF c1] by simp
  show ?thesis
  proof (cases "rf_status s = Leader")
    case False
    then have "core s' = core s1" using call by (auto simp: PollBatch_def s1_def [symmetric] core_def)
    then show ?thesis using quiet_core [OF rel] c1 by auto
  next
    case True
    let ?es = "new_entries (rf_currentTerm s1) (getLastLogIndex s1) batch"
    let ?s2 = "s1 \<lparr> rf_logs := rf_logs s1 @ ?es \<rparr>"
    obtain s3 where s3: "leaderUpdateCommitIndex ?s2 = Some s3" "s' = persistAppended (length (rf_logs s)) s3"
      using call True by (auto simp: PollBatch_def s1_def [symmetric] split: option.splits)
    have leader: "rf_status s1 = Leader" using True core_fields [OF c1] by simp
    have rep: "represents (p_log p n) s1" "log_durable s1" using rel1 by (simp_all add: node_rel_def)
    have q: "quiet N n p s1 (proposed n (rf_currentTerm s1) (p_log p n @ ?es) p) (persist ?s2)"
      by (rule quiet_propose [OF ok rel1 leader])
        (use batch new_entries_props(1,3) new_entries_props(2) represents_last(1) [OF rep(1)] in \<open>simp_all\<close>)
    have "rs_logs (durable s3) = rf_logs s1" using CommitScan_disk [OF s3(1)] rep(2) by (simp add: durable_def log_durable_def)
    then have "s' = persist s3"
      using s3(2) CommitScan_disk [OF s3(1)] core_fields [OF c1] by (simp add: persistAppended_eq)
    then have "leaderUpdateCommitIndex (persist ?s2) = Some s'" using s3(1) by (simp add: leaderUpdateCommitIndex_persist)
    then obtain p' where "quiet N n (proposed n (rf_currentTerm s1) (p_log p n @ ?es) p) (persist ?s2) p' s'"
      using quiet_leader_commit [OF quietD(1,2) [OF q ok]] leader by auto
    then show ?thesis using quiet_core_left [OF quiet_trans [OF q] c1 [symmetric]] by blast
  qed
qed

section \<open>Entries from the leader\<close>

lemma good_log_match:
  assumes "good_log p L" "good_log p M" "termAt L i = termAt M i" "i \<le> length L" "i \<le> length M"
  shows "take i L = take i M"
proof (cases "i = 0")
  case False
  then have "take i L = take i (p_tlog p (termAt L i))" "take i M = take i (p_tlog p (termAt M i))"
    using assms unfolding good_log_def by blast+
  then show ?thesis using assms(3) by simp
qed simp

lemma merge_is_adopt:
  assumes "prev \<le> length M" "take prev M = take prev L" "m = prev + length es" "m \<le> length L" "es = drop prev (take m L)"
  shows "merge_log prev es M = adopt m L M"
proof -
  have "take prev (take m L) = take prev L" using assms(3) by simp
  then have L: "take m L = take prev L @ es" using append_take_drop_id [of prev "take m L"] assms(5) by metis
  have "take (length es) (drop prev M) = es \<longleftrightarrow> take m M = take m L \<and> m \<le> length M"
  proof
    assume a: "take (length es) (drop prev M) = es"
    then have "length es \<le> length (drop prev M)" by (metis length_take min.absorb_iff2 min.commute)
    then show "take m M = take m L \<and> m \<le> length M"
      using a L assms(1-3) by (auto simp: take_add)
  next
    assume "take m M = take m L \<and> m \<le> length M"
    then show "take (length es) (drop prev M) = es" using L assms(1-3) by (simp add: take_add)
  qed
  then show ?thesis using L assms(2) by (simp add: merge_log_def adopt_def)
qed

definition accepted :: "nat \<Rightarrow> int \<Rightarrow> nat \<Rightarrow> proto \<Rightarrow> proto" where
  "accepted v T m p = (raise_term v T p) \<lparr> p_log := (p_log p)(v := adopt m (p_tlog p T) (p_log p v)), p_acks := insert (v, T, m) (p_acks p) \<rparr>"

lemma accepted_acked: "acked (accepted v T m p) v T m"
  by (auto simp: accepted_def acked_def)

lemma quiet_accept:
  assumes ok: "proto_ok (majorities {..<N}) p" and rel: "node_rel N p n s" and m: "own p (rf_currentTerm s) m" and st: "rf_status s = Follower"
    and L': "L' = adopt m (p_tlog p (rf_currentTerm s)) (p_log p n)" and rep: "represents L' (s \<lparr> rf_logs := drop (snap s) L' \<rparr>)"
  defines "s1 \<equiv> s \<lparr> rf_logs := drop (snap s) L' \<rparr>"
  shows "quiet N n p s (accepted n (rf_currentTerm s) m p) (if L' \<noteq> p_log p n \<or> ch then persist s1 else s1)"
proof -
  let ?T = "rf_currentTerm s" and ?p = "accepted n (rf_currentTerm s) m p"
  have t: "term_rel p n s" using rel by (simp add: node_rel_def)
  have step: "pstep Qs p ?p" for Qs unfolding accepted_def by (rule pstep.Accept [OF m term_rel_le [OF t]])
  have mlen: "m \<le> length (p_tlog p ?T)" "termAt (p_tlog p ?T) m = ?T" "0 < m" using m by (simp_all add: own_def)
  have "node_rel N ?p n (persist s1)"
  proof -
    have "represents L' (persist s1)" using rep represents_cong [of "persist s1" s1] by (simp add: s1_def)
    moreover have "term_rel ?p n (persist s1)"
      using t by (auto simp: term_rel_def raft_state_def accepted_def s1_def vote_of_def)
    ultimately show ?thesis
      using rel st L' by (simp add: node_rel_def voters_ok_def leader_rel_def s1_def) (simp add: accepted_def)
  qed
  moreover have "node_rel N ?p n s1" if same: "L' = p_log p n"
  proof -
    have "represents (p_log p n) s" using rel by (simp add: node_rel_def)
    then have s1: "s1 = s" using representsD(4) [of "p_log p n" s] same by (simp add: s1_def)
    have "take m (p_log p n) = take m (p_tlog p ?T)" using take_adopt [OF mlen(1), of "p_log p n"] same L' by simp
    then have "m \<le> length (p_log p n)" "termAt (p_log p n) m = ?T"
      using length_from_take [of m "p_log p n"] termAt_eqI [of m "p_log p n"] mlen by auto
    moreover have "terms_upto (p_term p n) (p_log p n)" using ok by (simp add: proto_ok_def logs_okD)
    ultimately have "?T \<le> p_term p n" using mlen(3) by (auto simp: terms_upto_def)
    then have "p_term p n = ?T" using term_rel_le [OF t] by simp
    then show ?thesis
      using rel st same L' by (simp add: node_rel_def term_rel_def leader_rel_def s1) (simp add: accepted_def)
  qed
  moreover have "evolves n p ?p"
    using ok by (intro evolves_step [OF step]) (auto simp: proto_ok_def accepted_def)
  moreover have "p_elected ?p = p_elected p" "p_tlog ?p = p_tlog p" by (simp_all add: accepted_def)
  ultimately show ?thesis using step by (simp add: quiet_def r_into_rtranclp s1_def)
qed


lemma core_follow: "core (follow now s) = core (s \<lparr> rf_status := Follower \<rparr>)"
proof -
  have "core (x \<lparr> rf_status := Follower, rf_lastResetElectionTime := now, rf_lastLeaderContactTime := c \<rparr>) = (core x) \<lparr> rf_status := Follower \<rparr>" for x c
    by (simp add: core_def)
  moreover have "core (s \<lparr> rf_status := Follower \<rparr>) = (core s) \<lparr> rf_status := Follower \<rparr>" by (simp add: core_def)
  ultimately show ?thesis by (simp add: follow_def core_abort)
qed

lemma quiet_follow: "node_rel N p n s \<Longrightarrow> quiet N n p s p (follow now s)"
  by (rule quiet_core_right [OF quiet_follower core_follow])

text \<open>A request of a term that is not older makes the receiver a follower in this term.\<close>

definition heard :: "int \<Rightarrow> int \<Rightarrow> Raft \<Rightarrow> Raft" where
  "heard now T s = follow now (if T > rf_currentTerm s then step_down T s else s)"

lemma quiet_heard:
  assumes "node_rel N p n s" "rf_currentTerm s \<le> T"
  shows "quiet N n p s p (heard now T s)" "rf_currentTerm (heard now T s) = T" "rf_status (heard now T s) = Follower"
    "rf_logs (heard now T s) = rf_logs s"
proof -
  define s1 where "s1 = (if T > rf_currentTerm s then step_down T s else s)"
  have q: "quiet N n p s p s1" using quiet_step_down [OF assms(1), of T] quiet_core [OF assms(1) refl] by (simp add: s1_def)
  then have "node_rel N p n s1" by (simp add: quiet_def)
  then show "quiet N n p s p (heard now T s)" using quiet_trans [OF q quiet_follow] by (simp add: heard_def s1_def)
  have l: "rf_currentTerm s1 = T" "rf_logs s1 = rf_logs s"
    using assms(2) core_fields(5) [OF core_step_down, of T s] by (auto simp: s1_def step_down_def)
  then show "rf_currentTerm (heard now T s) = T" "rf_status (heard now T s) = Follower" "rf_logs (heard now T s) = rf_logs s"
    unfolding heard_def s1_def [symmetric] using core_fields [OF core_follow, of now s1] by simp_all
qed

lemma AppendEntries1_cases:
  assumes "AppendEntries1 now a s = Some (r, s')" "\<not> rf_removed s" "rf_currentTerm s \<le> ae_term a"
  defines "s3 \<equiv> heard now (ae_term a) s"
  obtains (reject) "\<not> ar_success r" "s' = persist_changes (ae_term a > rf_currentTerm s) False (length (rf_logs s)) s3"
  | (accept) s4 ch tr where "rf_lastSnapshotIncludeIndex s3 \<le> ae_prevLogIndex a" "ae_prevLogIndex a \<le> getLastLogIndex s3"
      "matchLog (ae_prevLogIndex a) (ae_prevLogTerm a) s3 = Some True"
      "AppendLoop (ae_entries a) (s3, ae_term a > rf_currentTerm s, False) = Some (s4, ch, tr)" "ar_term r = rf_currentTerm s3"
      "s' = persist_changes ch tr (length (rf_logs s)) (if ae_leaderCommit a > rf_commitIndex s4
         then s4 \<lparr> rf_commitIndex := max (rf_commitIndex s4) (min (ae_leaderCommit a) (getLastLogIndex s4)) \<rparr> else s4)"
  using assms(1-3) unfolding AppendEntries1_def Let_def heard_def [symmetric] s3_def [symmetric]
  by (auto simp: new_reply_def split: option.splits bool.splits if_splits)

text \<open>What the entries of a request are, for a receiver whose log matches at the position before them.\<close>

lemma append_req_matches:
  assumes ok: "proto_ok (majorities {..<N}) p" and req: "append_req_rel N p (l, n, a)" and prev: "ae_prevLogIndex a \<le> int (length (p_log p n))"
    and match: "ae_prevLogTerm a = termAt (p_log p n) (nat (ae_prevLogIndex a))"
  defines "T \<equiv> ae_term a" and "i \<equiv> nat (ae_prevLogIndex a)"
  shows "merge_log i (ae_entries a) (p_log p n) = adopt (append_end a) (p_tlog p T) (p_log p n)"
    "indexed (p_tlog p T) \<Longrightarrow> j < length (ae_entries a) \<Longrightarrow> le_logIndex (ae_entries a ! j) = int i + int j + 1"
    "\<lbrakk> j < length (ae_entries a); i + j < length (p_log p n); le_logTerm (p_log p n ! (i + j)) = le_logTerm (ae_entries a ! j) \<rbrakk> \<Longrightarrow>
       p_log p n ! (i + j) = ae_entries a ! j"
proof -
  let ?M = "p_log p n" and ?L = "p_tlog p T" and ?m = "append_end a"
  have own: "own p T ?m" and es: "ae_entries a = drop i (take ?m ?L)" and pt: "ae_prevLogTerm a = termAt ?L i"
    using req by (simp_all add: append_req_rel_def T_def i_def)
  have m: "?m \<le> length ?L" "?m = i + length (ae_entries a)" using own by (simp_all add: own_def append_end_def i_def)
  have good: "good_log p ?M" "good_log p ?L" using ok own by (auto simp: proto_ok_def logs_okD own_def)
  have i: "i \<le> length ?M" using prev by (simp add: i_def nat_le_iff)
  have "take i ?M = take i ?L" by (rule good_log_match [OF good]) (use match pt i m in \<open>auto simp: i_def\<close>)
  then show "merge_log i (ae_entries a) ?M = adopt ?m ?L ?M" using merge_is_adopt [OF i _ m(2,1) es] by simp
  have nth: "ae_entries a ! j = ?L ! (i + j)" if "j < length (ae_entries a)"
  proof -
    have "i + j < ?m" using that m(2) by simp
    then have "drop i (take ?m ?L) ! j = ?L ! (i + j)" using m(1) by simp
    then show ?thesis using es by simp
  qed
  then show "le_logIndex (ae_entries a ! j) = int i + int j + 1" if "indexed ?L" "j < length (ae_entries a)"
    using that m by (simp add: indexed_def)
  show "?M ! (i + j) = ae_entries a ! j" if j: "j < length (ae_entries a)" "i + j < length ?M" "le_logTerm (?M ! (i + j)) = le_logTerm (ae_entries a ! j)"
  proof -
    have "take (i + j + 1) ?M = take (i + j + 1) ?L"
      by (rule good_log_match [OF good]) (use j nth m in \<open>auto simp: termAt_def\<close>)
    then have "take (i + j + 1) ?M ! (i + j) = take (i + j + 1) ?L ! (i + j)" by simp
    then show ?thesis using nth [OF j(1)] by simp
  qed
qed

lemma persist_commit: "persist (s \<lparr> rf_commitIndex := i \<rparr>) = (persist s) \<lparr> rf_commitIndex := i \<rparr>"
  by (simp add: persist_def raft_state_def)

lemma quiet_commit_from_leader:
  assumes ok: "proto_ok (majorities {..<N}) p" and rel: "node_rel N p n s" and c: "rf_commitIndex s < c"
    and settled: "settled_prefix (majorities {..<N}) p (p_term p n) (p_log p n) (nat c)"
  shows "\<exists>p'. quiet N n p s p' (s \<lparr> rf_commitIndex := c \<rparr>)"
proof -
  have "settled_prefix (majorities {..<N}) p (p_term p n) (p_log p n) (max (nat c) (snap s))"
    using settled settled_le [OF node_committed(1,3) [OF ok rel]] by (simp add: max_def)
  then show ?thesis using quiet_commit_to [OF ok rel, of c] c by auto
qed

lemma AppendEntries_accept:
  assumes ok: "proto_ok (majorities {..<N}) p" and rel: "node_rel N p n s" and req: "append_req_rel N p (l, n, a)"
    and ix: "indexed (p_tlog p (ae_term a))" and T: "rf_currentTerm s = ae_term a" and st: "rf_status s = Follower"
    and prev: "rf_lastSnapshotIncludeIndex s \<le> ae_prevLogIndex a" "ae_prevLogIndex a \<le> getLastLogIndex s"
    and match: "matchLog (ae_prevLogIndex a) (ae_prevLogTerm a) s = Some True"
    and loop: "AppendLoop (ae_entries a) (s, h, False) = Some (s4, ch, tr)"
    and s': "s' = persist_changes ch tr (length (rf_logs s)) (if ae_leaderCommit a > rf_commitIndex s4
         then s4 \<lparr> rf_commitIndex := max (rf_commitIndex s4) (min (ae_leaderCommit a) (getLastLogIndex s4)) \<rparr> else s4)"
  shows "\<exists>p'. quiet N n p s p' s' \<and> acked p' n (ae_term a) (append_end a)"
proof -
  let ?M = "p_log p n" and ?L = "p_tlog p (ae_term a)" and ?m = "append_end a" and ?i = "nat (ae_prevLogIndex a)"
  have rep: "represents ?M s" and dur: "log_durable s" using rel by (simp_all add: node_rel_def)
  have b: "snap s \<le> ?i" "?i \<le> length ?M" "ae_prevLogIndex a \<le> int (length ?M)" "int ?i = ae_prevLogIndex a"
    using prev representsD(2) [OF rep] represents_last(1) [OF rep] by (auto simp: nat_le_iff le_nat_iff)
  have mt: "ae_prevLogTerm a = termAt ?M ?i" using match by (simp add: represents_match [OF rep] split: if_splits)
  note am = append_req_matches [OF ok req b(3) mt]
  define L' where "L' = adopt ?m ?L ?M"
  have own: "own p (ae_term a) ?m" "ae_leaderCommit a \<le> int ?m"
    "settled_prefix (majorities {..<N}) p (ae_term a) ?L (nat (ae_leaderCommit a))"
    using req by (simp_all add: append_req_rel_def)
  have idx: "\<forall>j<length (ae_entries a). le_logIndex (ae_entries a ! j) = int ?i + int j + 1" using am(2) [OF ix] by blast
  have same: "\<forall>j<length (ae_entries a). ?i + j < length ?M \<and> le_logTerm (?M ! (?i + j)) = le_logTerm (ae_entries a ! j) \<longrightarrow> ?M ! (?i + j) = ae_entries a ! j"
    using am(3) by blast
  obtain ch' tr' where e: "AppendLoop (ae_entries a) (s, h, False) = Some (s \<lparr> rf_logs := drop (snap s) L' \<rparr>, ch', tr')"
    "represents L' (s \<lparr> rf_logs := drop (snap s) L' \<rparr>)" "ch' \<longleftrightarrow> h \<or> L' \<noteq> ?M" "\<not> tr' \<Longrightarrow> \<exists>x. L' = ?M @ x"
    using AppendLoop_effect [OF rep b(1,2) idx same, of h False, unfolded am(1) L'_def [symmetric]] by blast
  have s4: "s4 = s \<lparr> rf_logs := drop (snap s) L' \<rparr>" "ch = ch'" "tr = tr'" using e(1) loop by auto
  define p1 where "p1 = accepted n (ae_term a) ?m p"
  define s5 where "s5 = (if ch then persist s4 else s4)"
  have q: "quiet N n p s p1 s5"
    using quiet_accept [OF ok rel own(1) [folded T] st L'_def [folded T] e(2), of h] e(3)
    unfolding p1_def s5_def s4 T by (simp add: disj_commute)
  have mlen: "?m \<le> length ?L" using own by (simp add: own_def)
  have len: "?m \<le> length L'" using length_from_take [OF take_adopt [OF mlen, of ?M] mlen] by (simp add: L'_def)
  have last: "getLastLogIndex s4 = int (length L')" using represents_last(1) [OF e(2)] by (simp add: s4)
  have "\<exists>x. L' = ?M @ x \<Longrightarrow> rs_logs (durable s4) = take (length (rf_logs s)) (rf_logs s4) \<and> length (rf_logs s) \<le> length (rf_logs s4)"
    using dur representsD(3,4) [OF rep] by (auto simp: s4 log_durable_def)
  then have pc: "persist_changes ch tr (length (rf_logs s)) (s4 \<lparr> rf_commitIndex := c \<rparr>) = s5 \<lparr> rf_commitIndex := c \<rparr>" for c
    using e(4) persist_changes_eq [of tr "s4 \<lparr> rf_commitIndex := c \<rparr>"] s4(3) by (auto simp: s5_def persist_commit)
  have c4: "rf_commitIndex s5 = rf_commitIndex s4" by (simp add: s5_def)
  have ack: "acked p1 n (ae_term a) ?m" by (simp add: p1_def accepted_acked)
  show ?thesis
  proof (cases "ae_leaderCommit a > rf_commitIndex s4")
    case False
    then have "s' = s5" using s' pc [of "rf_commitIndex s4"] c4 by simp
    then show ?thesis using q ack by blast
  next
    case True
    have "s' = s5 \<lparr> rf_commitIndex := ae_leaderCommit a \<rparr>"
      using s' True pc own(2) len last by simp
    moreover have "settled_prefix (majorities {..<N}) p1 (p_term p1 n) (p_log p1 n) (nat (ae_leaderCommit a))"
    proof (rule grows_settled [OF quietD(3) [OF q ok] own(3)])
      show "take (nat (ae_leaderCommit a)) (p_log p1 n) = take (nat (ae_leaderCommit a)) ?L"
        using take_le_eq [OF take_adopt [OF mlen, of ?M]] own(2) by (simp add: p1_def accepted_def nat_le_iff)
    qed (simp add: p1_def accepted_def)
    ultimately obtain p' where q': "quiet N n p1 s5 p' s'"
      using quiet_commit_from_leader [OF quietD(1,2) [OF q ok]] True c4 by auto
    then show ?thesis using quiet_trans [OF q q'] grows_acked [OF quietD(3) [OF q' quietD(1) [OF q ok]] ack] by blast
  qed
qed

lemma append_reply_failed:
  "\<lbrakk> append_req_rel N p (l, n, a); \<not> ar_success r \<rbrakk> \<Longrightarrow> append_rep_rel N p' (l, n, a, r)"
  by (simp add: append_req_rel_def append_rep_rel_def)

lemma AppendEntries_sim:
  assumes ok: "proto_ok (majorities {..<N}) p" and rel: "node_rel N p n s" and req: "append_req_rel N p (l, n, a)"
    and ix: "indexed (p_tlog p (ae_term a))" and call: "AppendEntriesRpc now a s = Some (r, s')"
  shows "\<exists>p'. quiet N n p s p' s' \<and> append_rep_rel N p' (l, n, a, r)"
proof (cases "rf_initialized s \<and> rf_currentTerm s \<le> ae_term a")
  case False
  then have "s' = s" "\<not> ar_success r"
    using call rel by (auto simp: AppendEntriesRpc_def AppendEntries1_def new_reply_def node_rel_def voters_ok_def split: if_splits)
  then show ?thesis using quiet_core [OF rel refl] append_reply_failed [OF req] by blast
next
  case True
  let ?s3 = "heard now (ae_term a) s"
  have init: "AppendEntries1 now a s = Some (r, s')" "\<not> rf_removed s"
    using call True rel by (simp_all add: AppendEntriesRpc_def node_rel_def voters_ok_def)
  note q = quiet_heard [OF rel, of "ae_term a" now] quietD(2) [OF quiet_heard(1) [OF rel] ok, of "ae_term a" now]
  from init(1,2) True [THEN conjunct2] show ?thesis
  proof (cases rule: AppendEntries1_cases)
    case reject
    have "rs_logs (durable ?s3) = rf_logs ?s3" using q(5) True by (simp add: node_rel_def log_durable_def)
    then have "s' = (if ae_term a > rf_currentTerm s then persist ?s3 else ?s3)"
      using reject(2) persist_changes_eq [of False ?s3 "length (rf_logs s)"] q(4) True by simp
    then show ?thesis
      using quiet_trans [OF q(1) quiet_persist [OF ok q(5)]] q(1) True append_reply_failed [OF req reject(1)] by metis
  next
    case (accept s4 ch tr)
    obtain p' where p': "quiet N n p ?s3 p' s'" "acked p' n (ae_term a) (append_end a)"
      using AppendEntries_accept [OF ok q(5) req ix q(2,3) accept(1-4)] accept(6) True q(4) by auto
    have "append_rep_rel N p' (l, n, a, r)"
      using p'(2) req accept(5) q(2) True by (simp add: append_rep_rel_def append_req_rel_def)
    then show ?thesis using quiet_trans [OF q(1) p'(1)] True by blast
  qed
qed

section \<open>Replies to the leader\<close>

lemma quiet_match:
  assumes rel: "node_rel N p n s"
    and m: "\<And>i. \<lbrakk> rf_status s = Leader; v \<noteq> n; snap s < i; int i \<le> m \<rbrakk> \<Longrightarrow> acked p v (rf_currentTerm s) i"
  shows "quiet N n p s p (s \<lparr> rf_matchIndex := (rf_matchIndex s)[v := m], rf_nextIndex := (rf_nextIndex s)[v := k] \<rparr>)"
proof -
  let ?s = "s \<lparr> rf_matchIndex := (rf_matchIndex s)[v := m], rf_nextIndex := (rf_nextIndex s)[v := k] \<rparr>"
  have "represents L ?s = represents L s" for L by (rule represents_cong) simp_all
  moreover have "leader_rel N p n ?s"
  proof -
    have "acked p u (rf_currentTerm s) i" if "rf_status s = Leader" "u < N" "u \<noteq> n" "snap s < i" "int i \<le> (rf_matchIndex s)[v := m] ! u" for u i
      using that rel m [of i] by (cases "u = v") (auto simp: node_rel_def leader_rel_def voters_ok_def)
    then show ?thesis using rel by (simp add: node_rel_def leader_rel_def)
  qed
  ultimately show ?thesis
    using rel by (simp add: quiet_def evolves_refl node_rel_def voters_ok_def log_durable_def term_rel_def)
qed

lemma core_next_index: "core (s \<lparr> rf_nextIndex := (rf_nextIndex s)[v := k] \<rparr>) = core s"
  by (simp add: core_def map_replicate_const)

lemma core_read_round: "core (s \<lparr> rf_activeReadRound := r \<rparr>) = core s"
  by (simp add: core_def)

lemma HandleAppendEntriesReply_sim:
  assumes ok: "proto_ok (majorities {..<N}) p" and rel: "node_rel N p n s" and rep: "append_rep_rel N p (n, v, a, r)"
    and call: "HandleAppendEntriesReply now v a r s = Some s'"
  shows "\<exists>p'. quiet N n p s p' s'"
proof (cases "ar_appState r \<noteq> Disconnected \<and> ar_term r = rf_currentTerm s \<and> rf_status s = Leader")
  case False
  have "s' = step_down (ar_term r) s" if "ar_appState r \<noteq> Disconnected" "ar_term r > rf_currentTerm s"
    using call that by (simp add: HandleAppendEntriesReply_def)
  moreover have "s' = s" if "ar_appState r = Disconnected \<or> \<not> ar_term r > rf_currentTerm s"
    using call that False by (cases "ar_appState r = Disconnected"; cases "ar_term r < rf_currentTerm s") (simp_all add: HandleAppendEntriesReply_def)
  ultimately consider "s' = s" | "rf_currentTerm s < ar_term r" "s' = step_down (ar_term r) s" by blast
  then show ?thesis using quiet_core [OF rel refl] quiet_step_down [OF rel, of "ar_term r"] by cases blast+
next
  case True
  define s1 where "s1 = (case rf_activeReadRound s of None \<Rightarrow> s
     | Some round \<Rightarrow> if ar_readContextAccepted r \<and> ar_readContextAck r = rd_context round \<and> ae_term a = rd_term round
         then completeReadRoundIfQuorumLocked now (s \<lparr> rf_activeReadRound :=
                Some (round \<lparr> rd_acknowledgedPeers := List.insert (int v) (rd_acknowledgedPeers round) \<rparr>) \<rparr>)
         else s)"
  have c1: "core s1 = core s" by (simp add: s1_def core_complete core_read_round split: option.splits)
  have q1: "quiet N n p s p s1" by (rule quiet_core [OF rel c1])
  note f1 = core_fields [OF c1]
  let ?m = "max (rf_matchIndex s1 ! v) (ae_prevLogIndex a + int (length (ae_entries a)))"
  let ?s2 = "s1 \<lparr> rf_matchIndex := (rf_matchIndex s1)[v := ?m], rf_nextIndex := (rf_nextIndex s1)[v := ?m + 1] \<rparr>"
  consider "\<not> ar_success r" "core s' = core s1" | "ar_success r" "leaderUpdateCommitIndex ?s2 = Some s'"
    using call True unfolding HandleAppendEntriesReply_def s1_def [symmetric] Let_def
    by (auto simp: core_next_index split: if_splits option.splits)
  then show ?thesis
  proof cases
    case 1
    then show ?thesis using quiet_core [OF rel] c1 by auto
  next
    case 2
    have "acked p v (rf_currentTerm s1) i" if "rf_status s1 = Leader" "v \<noteq> n" "snap s1 < i" "int i \<le> ?m" for i
    proof (cases "int i \<le> rf_matchIndex s1 ! v")
      case le: True
      then show ?thesis using quietD(2) [OF q1 ok] that rep by (simp add: node_rel_def leader_rel_def append_rep_rel_def)
    next
      case False
      then have "i \<le> append_end a" using that(4) rep by (auto simp: append_end_def append_rep_rel_def)
      then show ?thesis using acked_le [of p v "ae_term a" "append_end a"] rep 2(1) True f1 by (simp add: append_rep_rel_def)
    qed
    then have q2: "quiet N n p s p ?s2" using quiet_trans [OF q1 quiet_match [OF quietD(2) [OF q1 ok]]] by blast
    then show ?thesis
      using quiet_leader_commit [OF ok quietD(2) [OF q2 ok] _ 2(2)] True f1 quiet_trans [OF q2] by auto
  qed
qed

section \<open>Snapshots\<close>

lemma quiet_compact:
  assumes ok: "proto_ok (majorities {..<N}) p" and rel: "node_rel N p n s" and k: "snap s \<le> k" "int k \<le> rf_commitIndex s" "k \<le> length (p_log p n)"
  shows "quiet N n p s (raise_term n (rf_currentTerm s) p) (persist (s \<lparr> rf_lastSnapshotIncludeIndex := int k,
    rf_lastSnapshotIncludeTerm := termAt (p_log p n) k, rf_logs := drop k (p_log p n) \<rparr>))"
proof -
  let ?p = "raise_term n (rf_currentTerm s) p" and ?s = "s \<lparr> rf_lastSnapshotIncludeIndex := int k,
    rf_lastSnapshotIncludeTerm := termAt (p_log p n) k, rf_logs := drop k (p_log p n) \<rparr>"
  have t: "term_rel p n s" and l: "leader_rel N p n s" and rep: "represents (p_log p n) s" using rel by (simp_all add: node_rel_def)
  have sn: "snap (s \<lparr> rf_lastSnapshotIncludeIndex := int k, rf_lastSnapshotIncludeTerm := x \<rparr>) = k" for x by (simp add: snap_def)
  have "represents (p_log p n) (persist ?s)" using rep k(3) by (simp add: represents_def sn)
  moreover have "term_rel ?p n (persist ?s)" using t by (auto simp: term_rel_def raft_state_def vote_of_def)
  moreover have "leader_rel N ?p n (persist ?s)" using l k(1) by (simp add: leader_rel_def sn)
  moreover have "max (nat (rf_commitIndex s)) (snap s) = max (nat (rf_commitIndex s)) k" using k(1,2) by linarith
  ultimately have "node_rel N ?p n (persist ?s)"
    using rel by (simp add: node_rel_def voters_ok_def sn)
  then show ?thesis
    using ok pstep.Raise [OF term_rel_le [OF t]] evolves_kinds(1) [OF _ term_rel_le [OF t]] k(1)
    by (simp add: quiet_def proto_ok_def r_into_rtranclp sn)
qed

lemma core_snapshot_bytes: "core (s \<lparr> rf_snapshot := b \<rparr>) = core s"
  by (simp add: core_def)

lemma Snapshot_sim:
  assumes ok: "proto_ok (majorities {..<N}) p" and rel: "node_rel N p n s"
    and call: "Snapshot staged published index bytes s = Some (d, s')"
  shows "\<exists>p'. quiet N n p s p' s'"
proof (cases "s' = s")
  case True
  then show ?thesis using quiet_core [OF rel refl] by blast
next
  case False
  have rep: "represents (p_log p n) s" using rel by (simp add: node_rel_def)
  obtain i where i: "rf_lastSnapshotIncludeIndex s < index" "index \<le> rf_commitIndex s" "getSlicesIndexFromLogIndex index s = Some i"
    "s' = (persist (s \<lparr> rf_lastSnapshotIncludeIndex := index, rf_lastSnapshotIncludeTerm := le_logTerm (rf_logs s ! i),
        rf_logs := drop (i + 1) (rf_logs s), rf_commitIndex := max (rf_commitIndex s) index,
        rf_lastApplied := max (rf_lastApplied s) index \<rparr>)) \<lparr> rf_snapshot := bytes \<rparr>"
    using call False unfolding Snapshot_def Let_def by (auto split: if_splits option.splits)
  define k where "k = nat index"
  have k: "int (snap s) < index" "index \<le> int (length (p_log p n))" "i = k - snap s - 1" "int k = index"
    using i(1,3) representsD(2) [OF rep] by (auto simp: represents_slices [OF rep] k_def split: if_splits)
  have at: "rf_logs s ! i = p_log p n ! (k - 1)" "drop (Suc i) (rf_logs s) = drop k (p_log p n)"
    using k representsD(4) [OF rep] by auto
  have "core s' = core (persist (s \<lparr> rf_lastSnapshotIncludeIndex := int k,
      rf_lastSnapshotIncludeTerm := termAt (p_log p n) k, rf_logs := drop k (p_log p n) \<rparr>))"
    using k(1,4) i(2) by (simp add: i(4) at core_snapshot_bytes termAt_def) (simp add: core_def persist_def raft_state_def)
  then show ?thesis using quiet_core_right [OF quiet_compact [OF ok rel]] k i(2) by (metis nat_int nat_le_iff of_nat_less_iff order_less_imp_le)
qed

definition installed :: "nat \<Rightarrow> int \<Rightarrow> nat \<Rightarrow> LogEntry list \<Rightarrow> proto \<Rightarrow> proto" where
  "installed v T k M p = (raise_term v T p) \<lparr> p_log := (p_log p)(v := adopt k M (p_log p v)) \<rparr>"

lemma quiet_install:
  assumes ok: "proto_ok (majorities {..<N}) p" and rel: "node_rel N p n s" and st: "rf_status s = Follower"
    and M: "settled_prefix (majorities {..<N}) p (rf_currentTerm s) M k" "indexed M" and k: "snap s < k"
  defines "L' \<equiv> adopt k M (p_log p n)"
  shows "\<exists>p'. quiet N n p s p' (persist (s \<lparr> rf_logs := drop k L', rf_commitIndex := max (rf_commitIndex s) (int k),
    rf_lastSnapshotIncludeIndex := int k, rf_lastSnapshotIncludeTerm := termAt M k \<rparr>))"
proof -
  let ?Q = "majorities {..<N}" and ?T = "rf_currentTerm s" and ?c = "max (nat (rf_commitIndex s)) k"
  let ?s = "s \<lparr> rf_logs := drop k L', rf_commitIndex := max (rf_commitIndex s) (int k), rf_lastSnapshotIncludeIndex := int k,
    rf_lastSnapshotIncludeTerm := termAt M k \<rparr>"
  define p1 where "p1 = installed n ?T k M p"
  define p2 where "p2 = p1 \<lparr> p_commit := (p_commit p1)(n := ?c) \<rparr>"
  have t: "term_rel p n s" and rep: "represents (p_log p n) s" and com: "p_commit p n = max (nat (rf_commitIndex s)) (snap s)" "0 \<le> rf_commitIndex s"
    using rel by (simp_all add: node_rel_def)
  have kM: "k \<le> length M" using M(1) k by (simp add: settled_prefix_def) blast
  have tk: "take k L' = take k M" unfolding L'_def by (rule take_adopt [OF kM])
  have kL: "k \<le> length L'" by (rule length_from_take [OF tk kM])
  have step: "pstep ?Q p p1" unfolding p1_def installed_def by (rule pstep.Install [OF M(1) term_rel_le [OF t]])
  have ok1: "proto_ok ?Q p1" by (rule majority.proto_ok_step [OF step ok])
  have f1: "p_term p1 n = ?T" "p_log p1 n = L'" "p_commit p1 = p_commit p" "p_elected p1 = p_elected p" "p_tlog p1 = p_tlog p"
    by (simp_all add: p1_def installed_def L'_def)
  have "settled_prefix ?Q p1 (p_term p1 n) (p_log p1 n) ?c"
  proof (cases "k \<le> p_commit p n")
    case True
    then have "?c = p_commit p1 n" using com(1) k f1(3) by (simp add: max_def split: if_splits)
    then show ?thesis using ok1 by (simp add: proto_ok_def commits_ok_def)
  next
    case False
    then have c: "?c = k" using com(1) by simp
    show ?thesis unfolding c by (rule grows_settled [OF pstep_grows [OF step] M(1)]) (simp_all add: f1 tk)
  qed
  note step2 = pstep.Commit [OF this] evolves_kinds(2) [OF _ this]
  have ev1: "evolves n p p1"
    using ok by (intro evolves_step [OF step]) (auto simp: proto_ok_def p1_def installed_def)
  have ev: "evolves n p p2" using evolves_trans [OF ev1 step2(2)] ok1 by (simp add: p2_def proto_ok_def)
  have sn: "snap (s \<lparr> rf_logs := x, rf_commitIndex := c, rf_lastSnapshotIncludeIndex := int k, rf_lastSnapshotIncludeTerm := y \<rparr>) = k" for x c y
    by (simp add: snap_def)
  have "indexed L'" using M(2) representsD(1) [OF rep] by (simp add: L'_def adopt_def indexed_take)
  then have "represents L' (persist ?s)" using kL termAt_eqI [OF tk] by (simp add: represents_def sn)
  moreover have "term_rel p2 n (persist ?s)"
    using t by (auto simp: term_rel_def raft_state_def vote_of_def p2_def p1_def installed_def)
  moreover have "p_commit p2 n = ?c" "p_log p2 n = L'" by (simp_all add: p2_def f1)
  moreover have "max (nat (max (rf_commitIndex s) (int k))) k = ?c" by linarith
  ultimately have "node_rel N p2 n (persist ?s)"
    using rel st by (simp add: node_rel_def voters_ok_def leader_rel_def sn)
  moreover have "steps N p p2" using step step2(1) unfolding p2_def by (meson converse_rtranclp_into_rtranclp r_into_rtranclp)
  moreover have "p_elected p2 = p_elected p" "p_tlog p2 = p_tlog p" by (simp_all add: p2_def f1)
  ultimately have "quiet N n p s p2 (persist ?s)" using ev k by (simp add: quiet_def sn)
  then show ?thesis by blast
qed

lemma adopt_drop: "length L \<le> k \<Longrightarrow> drop k (adopt k M L) = []"
  by (metis adopt_def drop_eq_Nil length_take min.cobounded2)

lemma InstallSnapshot_log:
  assumes ok: "proto_ok (majorities {..<N}) p" and rel: "node_rel N p n s"
    and M: "settled_prefix (majorities {..<N}) p T M k" and k: "snap s < k"
    and agree: "length (p_log p n) \<le> k \<or> termAt (p_log p n) k = termAt M k"
  shows "(if getLastLogIndex s > int k then map_option (\<lambda>i. drop (i + 1) (rf_logs s)) (getSlicesIndexFromLogIndex (int k) s) else Some [])
    = Some (drop k (adopt k M (p_log p n)))"
proof -
  let ?L = "p_log p n"
  have rep: "represents ?L s" using rel by (simp add: node_rel_def)
  show ?thesis
  proof (cases "getLastLogIndex s > int k")
    case False
    then have "length ?L \<le> k" using represents_last(1) [OF rep] by simp
    then have "drop k (adopt k M ?L) = []" by (rule adopt_drop)
    then show ?thesis using False by (simp only: if_False)
  next
    case True
    then have len: "k < length ?L" using represents_last(1) [OF rep] by simp
    have kM: "k \<le> length M" using M k by (simp add: settled_prefix_def) blast
    have lok: "logs_ok p" using ok by (simp add: proto_ok_def)
    have "take k ?L = take k (take k M)"
      by (rule good_log_match [OF logs_okD(1) [OF lok] settled_log(1) [OF lok M]]) (use agree len kM in simp_all)
    then have L: "adopt k M ?L = ?L" unfolding adopt_def using len by simp
    have "getSlicesIndexFromLogIndex (int k) s = Some (k - snap s - 1)" using len k by (simp add: represents_slices [OF rep])
    moreover have "drop (k - snap s - 1 + 1) (rf_logs s) = drop k ?L" using k representsD(4) [OF rep] by simp
    ultimately show ?thesis using True unfolding L by simp
  qed
qed

lemma InstallSnapshot_cases:
  assumes "InstallSnapshot now r s = Some (t, s')" "rf_currentTerm s \<le> is_term r"
  defines "s3 \<equiv> follow now (if is_term r > rf_currentTerm s then persist (step_down (is_term r) s) else s)" and "k \<equiv> is_lastSnapshotIncludeIndex r"
  obtains (ignore) "core s' = core s3"
  | (install) logs where "rf_lastSnapshotIncludeIndex s3 < k"
      "(if getLastLogIndex s3 > k then map_option (\<lambda>i. drop (i + 1) (rf_logs s3)) (getSlicesIndexFromLogIndex k s3) else Some []) = Some logs"
      "core s' = core (persist (s3 \<lparr> rf_logs := logs, rf_commitIndex := max (rf_commitIndex s3) k,
         rf_lastSnapshotIncludeIndex := k, rf_lastSnapshotIncludeTerm := is_lastSnapshotIncludeTerm r \<rparr>))"
proof (cases "k \<le> rf_lastSnapshotIncludeIndex s3")
  case True
  then show ?thesis
    using assms(1,2) ignore unfolding InstallSnapshot_def Let_def s3_def [symmetric] k_def [symmetric] by simp
next
  case False
  obtain out buffer where rc: "ReceiveChunk r (rf_snapshotReceiveBuffer s3) = (out, buffer)" by force
  show ?thesis
  proof (cases out)
    case None
    then have "s' = s3 \<lparr> rf_snapshotReceiveBuffer := buffer \<rparr>"
      using assms(1,2) False rc unfolding InstallSnapshot_def Let_def s3_def [symmetric] k_def [symmetric] by simp
    then show ?thesis by (intro ignore) (simp add: core_def)
  next
    case (Some bytes)
    then obtain logs where "(if getLastLogIndex s3 > k then map_option (\<lambda>i. drop (i + 1) (rf_logs s3)) (getSlicesIndexFromLogIndex k s3) else Some []) = Some logs"
      "s' = (persist (s3 \<lparr> rf_snapshotReceiveBuffer := buffer, rf_logs := logs,
         rf_commitIndex := max (rf_commitIndex s3) k, rf_lastApplied := max (rf_lastApplied s3) k, rf_lastSnapshotIncludeIndex := k,
         rf_lastSnapshotIncludeTerm := is_lastSnapshotIncludeTerm r,
         rf_applyChan := rf_applyChan s3 @ [snapshot_msg bytes (is_lastSnapshotIncludeTerm r) k] \<rparr>)) \<lparr> rf_snapshot := bytes \<rparr>"
      using assms(1,2) False rc unfolding InstallSnapshot_def Let_def s3_def [symmetric] k_def [symmetric]
      by (auto split: option.splits)
    then show ?thesis using False by (intro install [of logs]) (simp_all add: core_def persist_def raft_state_def)
  qed
qed

lemma InstallSnapshot_sim:
  assumes ok: "proto_ok (majorities {..<N}) p" and rel: "node_rel N p n s" and req: "snapshot_req_rel N p (m, n, r)"
    and agree: "agrees_with_snapshot r s" and call: "InstallSnapshotRpc now r s = Some (t, s')"
  shows "\<exists>p'. quiet N n p s p' s'"
proof (cases "rf_initialized s \<and> rf_currentTerm s \<le> is_term r")
  case False
  then have "s' = s" using call by (auto simp: InstallSnapshotRpc_def InstallSnapshot_def split: if_splits)
  then show ?thesis using quiet_core [OF rel refl] by blast
next
  case True
  define s1 where "s1 = (if is_term r > rf_currentTerm s then persist (step_down (is_term r) s) else s)"
  have T: "rf_currentTerm s1 = is_term r" using True by (auto simp: s1_def step_down_def)
  obtain p1 where q1: "quiet N n p s p1 s1" "p_log p1 = p_log p"
  proof (cases "is_term r > rf_currentTerm s")
    case higher: True
    note q = quiet_step_down [OF rel higher]
    show thesis using that quiet_trans [OF q quiet_persist [OF ok quietD(2) [OF q ok]]] higher by (simp add: s1_def)
  qed (use that quiet_core [OF rel refl] in \<open>simp add: s1_def\<close>)
  have q3: "quiet N n p s p1 (follow now s1)" by (rule quiet_trans [OF q1(1) quiet_follow [OF quietD(2) [OF q1(1) ok]]])
  note ok1 = quietD(1) [OF q3 ok] and rel3 = quietD(2) [OF q3 ok]
  have st: "rf_status (follow now s1) = Follower" "rf_currentTerm (follow now s1) = is_term r"
    using core_fields [OF core_follow, of now s1] T by simp_all
  have call': "InstallSnapshot now r s = Some (t, s')" using call True by (simp add: InstallSnapshotRpc_def)
  from call' True [THEN conjunct2] show ?thesis
  proof (cases rule: InstallSnapshot_cases)
    case ignore
    then show ?thesis using quiet_core_right [OF q3] by (auto simp: s1_def)
  next
    case (install logs)
    define k where "k = nat (is_lastSnapshotIncludeIndex r)"
    have rep: "represents (p_log p n) s" "represents (p_log p n) (follow now s1)" using rel rel3 q1(2) by (simp_all add: node_rel_def)
    obtain M where M: "indexed M" "settled_prefix (majorities {..<N}) p1 (is_term r) M k" "is_lastSnapshotIncludeTerm r = termAt M k"
      "int k = is_lastSnapshotIncludeIndex r"
      using messages_mono(5) [OF quietD(4) [OF q3 ok] req] by (auto simp: snapshot_req_rel_def k_def)
    have sk: "snap (follow now s1) < k" using install(1) representsD(2) [OF rep(2)] M(4) by (simp add: s1_def [symmetric])
    have ag: "length (p_log p1 n) \<le> k \<or> termAt (p_log p1 n) k = termAt M k"
      using agree sk q3 M(3) representsD(2) [OF rep(1)] unfolding agrees_with_snapshot_def represents_last(1) [OF rep(1)] represents_term [OF rep(1)] M(4) [symmetric]
      by (auto simp: quiet_def q1(2) split: if_splits)
    have "logs = drop k (adopt k M (p_log p1 n))"
      using install(2) InstallSnapshot_log [OF ok1 rel3 M(2) sk ag] by (simp only: M(4) s1_def [symmetric]) simp
    moreover obtain p' where "quiet N n p1 (follow now s1) p' (persist ((follow now s1) \<lparr> rf_logs := drop k (adopt k M (p_log p1 n)),
        rf_commitIndex := max (rf_commitIndex (follow now s1)) (int k), rf_lastSnapshotIncludeIndex := int k, rf_lastSnapshotIncludeTerm := termAt M k \<rparr>))"
      using quiet_install [OF ok1 rel3 st(1) _ M(1) sk] M(2) st(2) by auto
    ultimately show ?thesis
      using quiet_trans [OF q3 quiet_core_right] install(3) unfolding M(3,4) s1_def [symmetric] by metis
  qed
qed

lemma HandleSnapshotReply_sim:
  assumes ok: "proto_ok (majorities {..<N}) p" and rel: "node_rel N p n s" and call: "HandleSnapshotReply now T t s = (go, s')"
  shows "\<exists>p'. quiet N n p s p' s'"
proof (cases "s' = s")
  case True
  then show ?thesis using quiet_core [OF rel refl] by blast
next
  case False
  then have s': "rf_currentTerm s < t" "s' = (persist (step_down t s)) \<lparr> rf_lastResetElectionTime := now \<rparr>"
    using call by (auto simp: HandleSnapshotReply_def split: if_splits)
  note q = quiet_step_down [OF rel s'(1)]
  have "core s' = core (persist (step_down t s))" by (simp add: s'(2) core_def)
  then show ?thesis using quiet_core_right [OF quiet_trans [OF q quiet_persist [OF ok quietD(2) [OF q ok]]]] by blast
qed

lemma FinishSnapshot_sim:
  assumes "node_rel N p n s" "i \<le> int (snap s)" "FinishSnapshot v T i s = Some s'"
  shows "quiet N n p s p s'"
  using assms quiet_core [OF assms(1) refl] quiet_match [OF assms(1), of v i "i + 1"]
  by (auto simp: FinishSnapshot_def split: if_splits)

section \<open>Elections\<close>

lemma count_rel_step:
  assumes "count_rel N p n s W T" "grows p p'" "p_elected p' T = Some n \<longleftrightarrow> p_elected p T = Some n"
    "rf_votedNum s' T = rf_votedNum s T" "rf_currentTerm s \<le> rf_currentTerm s'"
  shows "count_rel N p' n s' W T"
  using assms(1,3-5) grows_sets(1) [OF assms(2)] unfolding count_rel_def by (smt (verit) subset_eq)

lemma quiet_count: "\<lbrakk> quiet N n p s p' s'; count_rel N p n s W T; W' \<subseteq> W \<rbrakk> \<Longrightarrow> count_rel N p' n s' W' T"
  using count_rel_step [of N p n s W T p' s'] count_rel_subset [of N p' n s' W T W'] evolvesD(1) [of n p p'] by (simp add: quiet_def)

text \<open>What an election step guarantees, with the calls it still waits for.\<close>

definition electing :: "nat \<Rightarrow> nat \<Rightarrow> proto \<Rightarrow> Raft \<Rightarrow> proto \<Rightarrow> Raft \<Rightarrow> (int \<Rightarrow> nat set) \<Rightarrow> bool" where
  "electing N n p s p' s' W \<longleftrightarrow> steps N p p' \<and> evolves n p p' \<and> node_rel N p' n s' \<and> snap s \<le> snap s' \<and>
     (\<forall>T. count_rel N p' n s' (W T) T) \<and>
     (\<forall>T. p_elected p' T \<noteq> None \<longrightarrow> indexed (p_tlog p' T) \<or> p_elected p T \<noteq> None \<and> p_tlog p' T = p_tlog p T)"

lemma quiet_electing:
  assumes "quiet N n p s p' s'" "\<forall>T. count_rel N p n s (W T) T" "\<forall>T. W' T \<subseteq> W T"
  shows "electing N n p s p' s' W'"
proof -
  have "count_rel N p' n s' (W' T) T" for T using quiet_count [OF assms(1)] assms(2,3) by blast
  then show ?thesis using assms(1) by (auto simp: quiet_def electing_def)
qed

lemma electing_quiet:
  assumes 1: "electing N n p s q t W" and 2: "quiet N n q t r u"
  shows "electing N n p s r u W"
proof -
  have "count_rel N r n u (W T) T" for T using quiet_count [OF 2] 1 by (auto simp: electing_def)
  moreover have "steps N p r" using 1 2 rtranclp_trans [of "pstep (majorities {..<N})" p q r] by (simp add: electing_def quiet_def)
  moreover have "evolves n p r" using 1 2 evolves_trans [of n p q r] by (simp add: electing_def quiet_def)
  moreover have "indexed (p_tlog r T) \<or> p_elected p T \<noteq> None \<and> p_tlog r T = p_tlog p T" if "p_elected r T \<noteq> None" for T
  proof -
    have "p_elected q T \<noteq> None" "p_tlog r T = p_tlog q T \<or> indexed (p_tlog r T)" using that 2 unfolding quiet_def by auto
    then show ?thesis using 1 unfolding electing_def by metis
  qed
  ultimately show ?thesis using 1 2 by (simp add: electing_def quiet_def)
qed

definition elected :: "nat \<Rightarrow> int \<Rightarrow> LogEntry list \<Rightarrow> proto \<Rightarrow> proto" where
  "elected c T L p = p \<lparr> p_elected := (p_elected p)(T := Some c), p_tlog := (p_tlog p)(T := L), p_log := (p_log p)(c := L),
     p_acks := insert (c, T, length L) (p_acks p) \<rparr>"

lemma elected_electing:
  assumes ok: "proto_ok (majorities {..<N}) p" and rel: "node_rel N p n s" and none: "p_elected p T = None" and t: "p_term p n = T" "rf_currentTerm s = T"
    and Q: "Q \<in> majorities {..<N}" "\<forall>v\<in>Q. (v, T, n) \<in> p_votes p" and self: "(n, T, n) \<in> p_votes p"
    and counts: "\<And>U. U \<noteq> T \<Longrightarrow> count_rel N p n s (W U) U" "W T \<subseteq> {..<N} - {n}" "card (W T) < quorum N"
  shows "\<exists>p'. electing N n p s p' (persist (become_leader (s \<lparr> rf_votedNum := (rf_votedNum s)(T := 0) \<rparr>))) W"
proof -
  let ?e = "noop_entry T (getLastLogIndex s + 1)" and ?L = "p_log p n @ [noop_entry T (getLastLogIndex s + 1)]"
  let ?s = "become_leader (s \<lparr> rf_votedNum := (rf_votedNum s)(T := 0) \<rparr>)" and ?p = "elected n T ?L p"
  have rep: "represents (p_log p n) s" and tr: "term_rel p n s" and v: "voters_ok N n s" using rel by (simp_all add: node_rel_def)
  have last: "getLastLogIndex s = int (length (p_log p n))" by (rule represents_last(1) [OF rep])
  have step: "pstep (majorities {..<N}) p ?p"
    unfolding elected_def by (rule pstep.Elect [OF none t(1) Q self]) (simp_all add: noop_entry_def)
  have li: "getLastLogIndex (s \<lparr> rf_votedNum := x \<rparr>) = getLastLogIndex s" for x by (simp add: getLastLogIndex_def getLastLogIndexAndTerm_def)
  have f: "rf_logs ?s = rf_logs s @ [?e]" "rf_status ?s = Leader" "rf_currentTerm ?s = T" "rf_matchIndex ?s = replicate N 0" "length (rf_nextIndex ?s) = N"
    "rf_votedFor ?s = rf_votedFor s" "rf_commitIndex ?s = rf_commitIndex s" "rf_lastSnapshotIncludeIndex ?s = rf_lastSnapshotIncludeIndex s"
    "rf_lastSnapshotIncludeTerm ?s = rf_lastSnapshotIncludeTerm s" "rf_votedNum ?s = (rf_votedNum s)(T := 0)" "snap ?s = snap s"
    using v t(2) by (simp_all add: become_leader_def Let_def li voters_ok_def map_replicate_const snap_def)
  have "represents ?L (s \<lparr> rf_logs := rf_logs s @ [?e] \<rparr>)" by (rule represents_append [OF rep]) (simp add: last noop_entry_def)
  then have rep': "represents ?L (persist ?s)"
    using represents_cong [of "persist ?s" "s \<lparr> rf_logs := rf_logs s @ [?e] \<rparr>"] by (simp add: f)
  have "voters_ok N n (persist ?s)" using v f(4,5) by (simp add: voters_ok_def) (simp add: become_leader_def Let_def)
  moreover have "term_rel ?p n (persist ?s)" using tr t by (auto simp: term_rel_def raft_state_def f elected_def)
  moreover have "leader_rel N ?p n (persist ?s)" using t by (auto simp: leader_rel_def f elected_def acked_def)
  moreover have "p_commit ?p = p_commit p" "p_log ?p n = ?L" by (simp_all add: elected_def)
  ultimately have node: "node_rel N ?p n (persist ?s)" using rel rep' by (simp add: node_rel_def f)
  have ev: "evolves n p ?p" using ok none by (intro evolves_step [OF step]) (auto simp: proto_ok_def elected_def)
  have "count_rel N ?p n (persist ?s) (W U) U" for U
  proof (cases "U = T")
    case True
    then show ?thesis using counts(2,3) self by (simp add: count_rel_def f elected_def)
  next
    case False
    show ?thesis by (rule count_rel_step [OF counts(1) [OF False] evolvesD(1) [OF ev]]) (use False t in \<open>simp_all add: f elected_def\<close>)
  qed
  moreover have "indexed (p_tlog ?p U) \<or> p_elected p U \<noteq> None \<and> p_tlog ?p U = p_tlog p U" if "p_elected ?p U \<noteq> None" for U
    using that representsD(1) [OF rep'] by (cases "U = T") (simp_all add: elected_def)
  ultimately have "electing N n p s ?p (persist ?s) W" using step ev node by (simp add: electing_def r_into_rtranclp f)
  then show ?thesis by blast
qed

lemma count_votes_update:
  assumes rel: "node_rel N p n s" and counts: "\<And>U. U \<noteq> T \<Longrightarrow> count_rel N p n s (W U) U"
    and new: "count_rel N p n (s \<lparr> rf_votedNum := (rf_votedNum s)(T := x) \<rparr>) (W T) T"
  shows "electing N n p s p (s \<lparr> rf_votedNum := (rf_votedNum s)(T := x) \<rparr>) W"
proof -
  let ?s = "s \<lparr> rf_votedNum := (rf_votedNum s)(T := x) \<rparr>"
  have "count_rel N p n ?s (W U) U" for U
    using new count_rel_step [OF counts grows_refl, of U ?s] by (cases "U = T") simp_all
  moreover have "node_rel N p n ?s"
  proof -
    have "represents L ?s = represents L s" for L by (rule represents_cong) simp_all
    moreover have "durable ?s = durable s" "snap ?s = snap s" by (simp_all add: durable_def snap_def)
    ultimately show ?thesis using rel by (simp add: node_rel_def voters_ok_def log_durable_def term_rel_def leader_rel_def)
  qed
  ultimately show ?thesis by (simp add: electing_def evolves_refl snap_def)
qed

text \<open>A reply that grants the vote, for the calls that are still open.\<close>

lemma vote_granted_sim:
  assumes ok: "proto_ok (majorities {..<N}) p" and rel: "node_rel N p n s" and v: "(v, T, n) \<in> p_votes p" "v \<in> W T" and T: "rf_currentTerm s = T"
    and counts: "\<And>U. count_rel N p n s (W U) U" and call: "HandleVoteReply a r s = Some s'"
    and r: "vr_voteGranted r" "vr_term r = T" "va_term a = T"
  shows "\<exists>p'. electing N n p s p' s' (W(T := W T - {v}))"
proof -
  let ?W = "W(T := W T - {v})" and ?k = "rf_votedNum s T + 1" and ?Q = "majorities {..<N}"
  have vok: "votes_ok p" using ok by (simp add: proto_ok_def)
  have ne: "W T \<noteq> {}" using v(2) by blast
  have c: "W T \<subseteq> {..<N} - {n}" "(n, T, n) \<in> p_votes p"
    "p_elected p T = Some n \<Longrightarrow> rf_votedNum s T + int (card (W T)) < int (quorum N)"
    "p_elected p T \<noteq> Some n \<Longrightarrow> \<exists>V. V \<subseteq> {..<N} \<and> n \<in> V \<and> V \<inter> W T = {} \<and> (\<forall>v\<in>V. (v, T, n) \<in> p_votes p) \<and> int (card V) = rf_votedNum s T"
    using counts [of T, unfolded count_rel_def] ne by simp_all
  have fin: "finite (W T)" using c(1) by (rule finite_subset) simp
  have card: "card (W T) = Suc (card (W T - {v}))" by (rule card.remove [OF fin v(2)])
  have other: "count_rel N p n s (?W U) U" if "U \<noteq> T" for U using counts [of U] that by simp
  have q: "getQuorumLocked s = int (quorum N)" using rel quorum_eq [of N n s] by (simp add: node_rel_def)
  have s': "s' = (if ?k \<ge> int (quorum N) then persist (become_leader (s \<lparr> rf_votedNum := (rf_votedNum s)(T := 0) \<rparr>))
      else s \<lparr> rf_votedNum := (rf_votedNum s)(T := ?k) \<rparr>)"
    using call T r q unfolding HandleVoteReply_def Let_def by (simp split: if_splits)
  show ?thesis
  proof (cases "p_elected p T = Some n")
    case True
    then have lt: "?k + int (card (W T - {v})) < int (quorum N)" using c(3) [OF True] card by simp
    then have "count_rel N p n (s \<lparr> rf_votedNum := (rf_votedNum s)(T := ?k) \<rparr>) (?W T) T"
      using True c(1,2) T by (auto simp: count_rel_def)
    then have "electing N n p s p (s \<lparr> rf_votedNum := (rf_votedNum s)(T := ?k) \<rparr>) ?W" by (intro count_votes_update [OF rel] other)
    then show ?thesis using s' lt by auto
  next
    case False
    then obtain V where V: "V \<subseteq> {..<N}" "n \<in> V" "V \<inter> W T = {}" "\<forall>v\<in>V. (v, T, n) \<in> p_votes p" "int (card V) = rf_votedNum s T"
      using c(4) [OF False] by blast
    have finV: "finite V" using V(1) by (rule finite_subset) simp
    have V': "insert v V \<subseteq> {..<N}" "int (card (insert v V)) = ?k" "\<forall>u\<in>insert v V. (u, T, n) \<in> p_votes p" "insert v V \<inter> ?W T = {}"
      using V v c(1) finV by (auto simp: card_insert_if)
    show ?thesis
    proof (cases "?k \<ge> int (quorum N)")
      case less: False
      have "count_rel N p n (s \<lparr> rf_votedNum := (rf_votedNum s)(T := ?k) \<rparr>) (?W T) T"
        unfolding count_rel_def using False c(1,2) T V' V(2) by (intro disjI2 conjI) (auto intro!: exI [of _ "insert v V"])
      then have "electing N n p s p (s \<lparr> rf_votedNum := (rf_votedNum s)(T := ?k) \<rparr>) ?W" by (intro count_votes_update [OF rel] other)
      then show ?thesis using s' less by auto
    next
      case won: True
      have Q: "insert v V \<in> ?Q" using V' won by (simp add: majorities_def quorum_def)
      have "p_elected p T = None"
      proof (rule ccontr)
        assume "p_elected p T \<noteq> None"
        then obtain d where "p_elected p T = Some d" by blast
        then obtain Q' where "Q' \<in> ?Q" "\<forall>v\<in>Q'. (v, T, d) \<in> p_votes p" using elections_okD(2) [of ?Q p T d] ok by (auto simp: proto_ok_def)
        then have "n = d" using majority.quorum_vote_unique [OF vok Q V'(3)] by blast
        then show False using False \<open>p_elected p T = Some d\<close> by simp
      qed
      moreover have "p_term p n = T"
        using votes_okD(3) [OF vok c(2)] rel T by (auto simp: node_rel_def dest: term_rel_le)
      moreover have "card (?W T) < quorum N"
      proof -
        have "card (?W T) + card (insert v V) = card (?W T \<union> insert v V)"
          using fin finV V'(4) by (intro card_Un_disjoint [symmetric]) auto
        also have "\<dots> \<le> card {..<N}" using c(1) V'(1) by (intro card_mono) auto
        finally show ?thesis using V'(2) won by (simp add: quorum_def)
      qed
      moreover have "?W T \<subseteq> {..<N} - {n}" using c(1) by auto
      ultimately have "\<exists>p'. electing N n p s p' (persist (become_leader (s \<lparr> rf_votedNum := (rf_votedNum s)(T := 0) \<rparr>))) ?W"
        using T Q V'(3) c(2) other by (intro elected_electing [OF ok rel])
      then show ?thesis using s' won by simp
    qed
  qed
qed

lemma HandleVoteReply_sim:
  assumes ok: "proto_ok (majorities {..<N}) p" and rel: "node_rel N p n s" and rep: "vote_rep_rel N p (n, v, a, r)" and v: "v \<in> W (va_term a)"
    and counts: "\<And>U. count_rel N p n s (W U) U" and call: "HandleVoteReply a r s = Some s'"
  shows "\<exists>p'. electing N n p s p' s' (W(va_term a := W (va_term a) - {v}))"
proof -
  let ?W = "W(va_term a := W (va_term a) - {v})"
  have sub: "\<forall>U. ?W U \<subseteq> W U" by simp
  consider (higher) "rf_currentTerm s < vr_term r" "s' = persist (step_down (vr_term r) s)" | (same) "s' = s"
    | (granted) "vr_term r = rf_currentTerm s" "vr_voteGranted r"
    using call by (auto simp: HandleVoteReply_def Let_def split: if_splits)
  then show ?thesis
  proof cases
    case higher
    note q = quiet_step_down [OF rel higher(1)]
    have "quiet N n p s (raise_term n (rf_currentTerm (step_down (vr_term r) s)) p) s'"
      using quiet_trans [OF q quiet_persist [OF ok quietD(2) [OF q ok]]] higher(2) by simp
    then show ?thesis using quiet_electing counts sub by blast
  next
    case same
    then show ?thesis using quiet_electing [OF quiet_core [OF rel refl]] counts sub by blast
  next
    case granted
    then show ?thesis using rep vote_granted_sim [OF ok rel, of v "va_term a" W] v counts call by (simp add: vote_rep_rel_def)
  qed
qed

definition campaigned :: "nat \<Rightarrow> int \<Rightarrow> proto \<Rightarrow> proto" where
  "campaigned c T p = p \<lparr> p_term := (p_term p)(c := T), p_vote := (p_vote p)(c := Some c), p_votes := insert (c, T, c) (p_votes p),
     p_clog := (p_clog p)(c := (p_clog p c)(T := p_log p c)) \<rparr>"

text \<open>The state of a candidate before it sends its requests.\<close>

definition candidacy :: "int \<Rightarrow> Raft \<Rightarrow> Raft" where
  "candidacy now s = (let s1 = abortReadIndexLocked ReadNotLeader s;
     s2 = persist (s1 \<lparr> rf_status := Candidate, rf_currentTerm := rf_currentTerm s1 + 1, rf_votedFor := rf_me s1 \<rparr>)
   in s2 \<lparr> rf_votedNum := (rf_votedNum s2)(rf_currentTerm s2 := 1), rf_lastResetElectionTime := now \<rparr>)"

lemma candidacy_core:
  "core (candidacy now s) = core ((persist (s \<lparr> rf_status := Candidate, rf_currentTerm := rf_currentTerm s + 1, rf_votedFor := rf_me s \<rparr>))
     \<lparr> rf_votedNum := (rf_votedNum s)(rf_currentTerm s + 1 := 1) \<rparr>)"
  by (simp add: candidacy_def abortReadIndexLocked_def Let_def core_def persist_def raft_state_def)

lemma candidacy_electing:
  assumes ok: "proto_ok (majorities {..<N}) p" and rel: "node_rel N p n s" and counts: "\<And>U. count_rel N p n s (W U) U"
    and R: "R \<subseteq> {..<N} - {n}"
  defines "T \<equiv> rf_currentTerm s + 1"
  shows "electing N n p s (campaigned n T p) (candidacy now s) (W(T := R))" "W T = {}" "p_elected p T \<noteq> Some n"
proof -
  let ?p = "campaigned n T p" and ?s = "candidacy now s"
  have tr: "term_rel p n s" and rep: "represents (p_log p n) s" and v: "voters_ok N n s" using rel by (simp_all add: node_rel_def)
  have lt: "p_term p n < T" using term_rel_le [OF tr] by (simp add: T_def)
  note f = core_fields [OF candidacy_core, of now s]
  have d: "durable ?s = raft_state (s \<lparr> rf_status := Candidate, rf_currentTerm := T, rf_votedFor := rf_me s \<rparr>)"
    using f by (simp add: durable_def persist_def T_def)
  have r: "represents L ?s = represents L s" for L using f by (intro represents_cong) simp_all
  have sn: "snap ?s = snap s" using f by (simp add: snap_def)
  have step: "pstep (majorities {..<N}) p ?p" unfolding campaigned_def by (rule pstep.Campaign [OF lt])
  show none: "p_elected p T \<noteq> Some n"
  proof
    assume "p_elected p T = Some n"
    then obtain Q where "Q \<in> majorities {..<N}" "\<forall>v\<in>Q. (v, T, n) \<in> p_votes p"
      using elections_okD(2) [of "majorities {..<N}" p T n] ok by (auto simp: proto_ok_def)
    moreover from this obtain w where "w \<in> Q" using majorities_intersect [of "{..<N}" Q Q] by blast
    ultimately have "(n, T, n) \<in> p_votes p" using votes_okD(2) [of p w T n] ok by (auto simp: proto_ok_def)
    then show False using votes_okD(3) [of p n T n] ok lt by (auto simp: proto_ok_def)
  qed
  show "W T = {}" using counts [of T] by (auto simp: count_rel_def T_def)
  have ev: "evolves n p ?p" using ok by (intro evolves_step [OF step]) (auto simp: proto_ok_def campaigned_def)
  have "voters_ok N n ?s" using v f by (simp add: voters_ok_def)
  moreover have "log_durable ?s" using f by (simp add: log_durable_def d) (simp add: raft_state_def)
  moreover have "term_rel ?p n ?s" using v f by (simp add: term_rel_def d T_def campaigned_def raft_state_def vote_of_def voters_ok_def)
  moreover have "leader_rel N ?p n ?s" using f by (simp add: leader_rel_def)
  moreover have "p_commit ?p = p_commit p" "p_log ?p = p_log p" by (simp_all add: campaigned_def)
  ultimately have node: "node_rel N ?p n ?s" using rel r sn f by (simp add: node_rel_def)
  have "count_rel N ?p n ?s ((W(T := R)) U) U" for U
  proof (cases "U = T")
    case True
    have "(n, T, n) \<in> p_votes ?p" "p_elected ?p T \<noteq> Some n" "rf_votedNum ?s T = 1" "rf_currentTerm ?s = T" "n < N"
      using none f v by (simp_all add: campaigned_def T_def voters_ok_def)
    then show ?thesis using True R by (auto simp: count_rel_def intro!: exI [of _ "{n}"])
  next
    case False
    then show ?thesis
      using count_rel_step [OF counts evolvesD(1) [OF ev], of U ?s] f by (simp add: campaigned_def T_def)
  qed
  then show "electing N n p s ?p ?s (W(T := R))"
    using step ev node sn by (simp add: electing_def r_into_rtranclp) (auto simp: campaigned_def)
qed

lemma electing_trans:
  assumes 1: "electing N n p s q t W" and 2: "electing N n q t r u W'"
  shows "electing N n p s r u W'"
proof -
  have "steps N p r" using 1 2 rtranclp_trans [of "pstep (majorities {..<N})" p q r] by (simp add: electing_def)
  moreover have "evolves n p r" using 1 2 evolves_trans [of n p q r] by (simp add: electing_def)
  moreover have "indexed (p_tlog r T) \<or> p_elected p T \<noteq> None \<and> p_tlog r T = p_tlog p T" if "p_elected r T \<noteq> None" for T
  proof (cases "indexed (p_tlog r T)")
    case False
    then have "p_elected q T \<noteq> None" "p_tlog r T = p_tlog q T" using 2 that unfolding electing_def by blast+
    then show ?thesis using 1 False unfolding electing_def by metis
  qed simp
  ultimately show ?thesis using 1 2 by (simp add: electing_def)
qed

lemma electingD:
  assumes "electing N n p s p' s' W" "proto_ok (majorities {..<N}) p"
  shows "proto_ok (majorities {..<N}) p'" "node_rel N p' n s'"
  using assms majority.proto_ok_steps [of N p p'] unfolding electing_def by blast+

lemma doElection_cases:
  assumes call: "doElection now s = Some (s', reqs)" and v: "voters_ok N n s"
  obtains (stay) "s' = s" "reqs = []"
  | (alone) s4 where "N = 1" "leaderUpdateCommitIndex (become_leader ((candidacy now s) \<lparr> rf_votedNum := (rf_votedNum (candidacy now s))(rf_currentTerm s + 1 := 0) \<rparr>)) = Some s4"
      "s' = persist s4" "reqs = []"
  | (request) "s' = candidacy now s" "reqs = map (\<lambda>i. (int i, vote_args (candidacy now s))) (filter (\<lambda>i. i \<noteq> n) [0..<N])"
proof (cases "rf_status s = Leader")
  case True
  then show ?thesis using call v stay all_voters(2) [OF v] by (simp add: doElection_def voters_ok_def)
next
  case False
  let ?s3 = "candidacy now s"
  note f = core_fields [OF candidacy_core, of now s]
  have v3: "voters_ok N n ?s3" using v f by (simp add: voters_ok_def)
  have T: "rf_currentTerm ?s3 = rf_currentTerm s + 1" using f by simp
  have reqs: "filter (\<lambda>i. int i \<noteq> rf_me ?s3 \<and> isVoterLocked (int i) ?s3) [0..<length (rf_peers ?s3)] = filter (\<lambda>i. i \<noteq> n) [0..<N]"
    using v3 all_voters(1) [OF v3] by (simp add: voters_ok_def)
  have e: "(if 1 \<ge> int (quorum N) then
        (case leaderUpdateCommitIndex (become_leader (?s3 \<lparr> rf_votedNum := (rf_votedNum ?s3)(rf_currentTerm ?s3 := 0) \<rparr>)) of
           None \<Rightarrow> None | Some s4 \<Rightarrow> Some (persist s4, []))
      else Some (?s3, map (\<lambda>i. (int i, vote_args ?s3)) (filter (\<lambda>i. i \<noteq> n) [0..<N]))) = Some (s', reqs)"
    using call False v all_voters(2) [OF v] quorum_eq [OF v3] reqs
    unfolding doElection_def Let_def candidacy_def [unfolded Let_def, symmetric]
    by (auto simp: voters_ok_def split: if_splits)
  show ?thesis
  proof (cases "1 \<ge> int (quorum N)")
    case True
    moreover from True v have "N = 1" by (auto simp: quorum_def voters_ok_def)
    ultimately show ?thesis using e alone T by (auto split: option.splits)
  qed (use e request in auto)
qed

lemma doElection_sim:
  assumes ok: "proto_ok (majorities {..<N}) p" and rel: "node_rel N p n s" and counts: "\<And>U. count_rel N p n s (W U) U"
    and call: "doElection now s = Some (s', reqs)"
  shows "\<exists>p'. electing N n p s p' s' (\<lambda>U. W U \<union> {v. \<exists>i a. (i, a) \<in> set reqs \<and> v = nat i \<and> va_term a = U}) \<and>
    (\<forall>(i, a)\<in>set reqs. vote_req_rel N p' (n, nat i, a))"
proof -
  let ?T = "rf_currentTerm s + 1" and ?s3 = "candidacy now s" and ?pc = "campaigned n (rf_currentTerm s + 1) p"
  have v: "voters_ok N n s" and rep: "represents (p_log p n) s" using rel by (simp_all add: node_rel_def)
  note cand = candidacy_electing [OF ok rel counts] and f = core_fields [OF candidacy_core, of now s]
  from call v show ?thesis
  proof (cases rule: doElection_cases)
    case stay
    have "electing N n p s p s' W"
      unfolding stay(1) by (rule quiet_electing [OF quiet_core [OF rel refl], of W]) (simp_all add: counts)
    then show ?thesis using stay(2) by auto
  next
    case (alone s4)
    let ?s = "?s3 \<lparr> rf_votedNum := (rf_votedNum ?s3)(?T := 0) \<rparr>"
    have e1: "electing N n p s ?pc ?s3 (W(?T := {}))" using cand(1) [of "{}"] by simp
    note ok1 = electingD [OF e1 ok]
    have n: "n = 0" using alone(1) v by (simp add: voters_ok_def)
    have self: "(n, ?T, n) \<in> p_votes ?pc" by (simp add: campaigned_def)
    have "p_elected ?pc ?T = None"
    proof (rule ccontr)
      assume "p_elected ?pc ?T \<noteq> None"
      then obtain d where d: "p_elected ?pc ?T = Some d" by blast
      then obtain Q where Q: "Q \<in> majorities {..<N}" "\<forall>v\<in>Q. (v, ?T, d) \<in> p_votes ?pc"
        using elections_okD(2) [of "majorities {..<N}" ?pc ?T d] ok1(1) by (auto simp: proto_ok_def)
      have "{0} \<in> majorities {..<N}" by (simp add: alone(1) majorities_def)
      then have "d = n" using majority.quorum_vote_unique [of ?pc Q N ?T d "{0}" n] Q self ok1(1) n by (simp add: proto_ok_def)
      then show False using d cand(3) [of "{}"] by (simp add: campaigned_def)
    qed
    moreover have "p_term ?pc n = ?T" "rf_currentTerm ?s3 = ?T" "{0} \<in> majorities {..<N}" using f by (simp_all add: campaigned_def alone(1) majorities_def)
    moreover have "count_rel N ?pc n ?s3 (W U) U" if "U \<noteq> ?T" for U
    proof -
      have "count_rel N ?pc n ?s3 ((W(?T := {})) U) U" using e1 unfolding electing_def by blast
      then show ?thesis using that by simp
    qed
    ultimately have "\<exists>p2. electing N n ?pc ?s3 p2 (persist (become_leader ?s)) (W(?T := {}))"
      using self n by (intro elected_electing [OF ok1, where Q = "{0}"]) (simp_all add: quorum_def)
    then obtain p2 where e2: "electing N n ?pc ?s3 p2 (persist (become_leader ?s)) (W(?T := {}))" by blast
    note e12 = electing_trans [OF e1 e2]
    have "leaderUpdateCommitIndex (persist (become_leader ?s)) = Some s'"
      using alone(2,3) by (simp add: leaderUpdateCommitIndex_persist)
    then obtain p3 where q3: "quiet N n p2 (persist (become_leader ?s)) p3 s'"
      using quiet_leader_commit [OF electingD [OF e12 ok]] by (auto simp: become_leader_def Let_def)
    have "W(?T := {}) = W" using cand(2) [of "{}"] fun_upd_triv [of W ?T] by simp
    then show ?thesis using electing_quiet [OF e12 q3] alone(4) by auto
  next
    case request
    let ?a = "vote_args ?s3"
    have set: "set reqs = {(int i, ?a) | i. i < N \<and> i \<noteq> n}" using request(2) by auto
    have a: "va_term ?a = ?T" using f by (simp add: vote_args_def)
    have "(\<lambda>U. W U \<union> {v. \<exists>i a. (i, a) \<in> set reqs \<and> v = nat i \<and> va_term a = U}) = W(?T := {..<N} - {n})"
    proof
      fix U show "W U \<union> {v. \<exists>i a. (i, a) \<in> set reqs \<and> v = nat i \<and> va_term a = U} = (W(?T := {..<N} - {n})) U"
        using cand(2) [of "{}"] a by (cases "U = ?T") (force simp: set)+
    qed
    then have "electing N n p s ?pc s' (\<lambda>U. W U \<union> {v. \<exists>i a. (i, a) \<in> set reqs \<and> v = nat i \<and> va_term a = U})"
      using cand(1) [of "{..<N} - {n}" now] request(1) by simp
    moreover have "vote_req_rel N ?pc (n, nat i, a)" if "(i, a) \<in> set reqs" for i a
    proof -
      have r3: "represents (p_log p n) ?s3" using rep f by (simp add: represents_def snap_def)
      have "rf_me ?s3 = int n" using v f by (simp add: voters_ok_def)
      then show ?thesis
        using that v represents_last [OF r3] a by (auto simp: set vote_req_rel_def vote_args_def campaigned_def voters_ok_def)
    qed
    ultimately show ?thesis by blast
  qed
qed

end
