(* ===== verification/RaftSafety.thy ===== *)
theory RaftSafety
  imports RaftSimulation
begin

text \<open>
  Every step of the cluster refines steps of \<open>RaftProtocol\<close>; election safety and agreement on the delivered commands
  follow for the nodes of \<open>RaftNode\<close>.
\<close>

section \<open>Steps of the cluster\<close>

lemma cluster_relD:
  assumes "cluster_rel N p c"
  shows "proto_ok (majorities {..<N}) p" "n < N \<Longrightarrow> node_rel N p n (cl_node c n)" "n < N \<Longrightarrow> count_rel N p n (cl_node c n) (waiting_for c n T) T"
    "x1 \<in> cl_voteReqs c \<Longrightarrow> vote_req_rel N p x1" "x2 \<in> cl_voteReps c \<Longrightarrow> vote_rep_rel N p x2"
    "x3 \<in> cl_appendReqs c \<Longrightarrow> append_req_rel N p x3" "x4 \<in> cl_appendReps c \<Longrightarrow> append_rep_rel N p x4"
    "x5 \<in> cl_snapshotReqs c \<Longrightarrow> snapshot_req_rel N p x5" "x6 \<in> cl_snapshotReps c \<Longrightarrow> fst x6 < N"
    "x7 \<in> cl_delivered c \<Longrightarrow> delivered_rel N p x7" "cl_waiting c \<subseteq> cl_voteReqs c"
    "(l, v, U, i) \<in> cl_transfers c \<Longrightarrow> l < N \<and> v < N \<and> i \<le> int (snap (cl_node c l))" "p_elected p T \<noteq> None \<Longrightarrow> indexed (p_tlog p T)"
  using assms unfolding cluster_rel_def messages_rel_def by blast+

lemma cluster_quiet:
  assumes rel: "cluster_rel N p c" and n: "n < N" and q: "quiet N n p (cl_node c n) p' s"
    and c': "cl_node c' = (cl_node c)(n := s)" and w: "cl_waiting c' = cl_waiting c" "cl_voteReqs c' = cl_voteReqs c"
    and voteReps: "\<And>x. x \<in> cl_voteReps c' \<Longrightarrow> x \<in> cl_voteReps c \<or> vote_rep_rel N p' x"
    and appendReqs: "\<And>x. x \<in> cl_appendReqs c' \<Longrightarrow> x \<in> cl_appendReqs c \<or> append_req_rel N p' x"
    and appendReps: "\<And>x. x \<in> cl_appendReps c' \<Longrightarrow> x \<in> cl_appendReps c \<or> append_rep_rel N p' x"
    and snapshotReqs: "\<And>x. x \<in> cl_snapshotReqs c' \<Longrightarrow> x \<in> cl_snapshotReqs c \<or> snapshot_req_rel N p' x"
    and snapshotReps: "\<And>x. x \<in> cl_snapshotReps c' \<Longrightarrow> x \<in> cl_snapshotReps c \<or> fst x < N"
    and delivered: "\<And>x. x \<in> cl_delivered c' \<Longrightarrow> x \<in> cl_delivered c \<or> delivered_rel N p' x"
    and transfers: "\<And>l v T i. (l, v, T, i) \<in> cl_transfers c' \<Longrightarrow> (l, v, T, i) \<in> cl_transfers c \<or> l < N \<and> v < N \<and> i \<le> int (snap (cl_node c' l))"
  shows "\<exists>p'. steps N p p' \<and> cluster_rel N p' c'"
proof -
  have W: "waiting_for c' m T = waiting_for c m T" for m T by (simp add: waiting_for_def w)
  have q': "steps N p p'" "evolves n p p'" "node_rel N p' n s" "snap (cl_node c n) \<le> snap s" "p_elected p' = p_elected p"
    "\<And>T. p_tlog p' T = p_tlog p T \<or> indexed (p_tlog p' T)" using q unfolding quiet_def by blast+
  have "cluster_rel N p' c'"
  proof (rule cluster_step [OF rel q'(1,2) c' q'(3,4)])
    show "count_rel N p' n s (waiting_for c' n T) T" for T
      unfolding W by (rule quiet_count [OF q cluster_relD(3) [OF rel n] order_refl])
    show "indexed (p_tlog p' T) \<or> p_elected p T \<noteq> None \<and> p_tlog p' T = p_tlog p T" if "p_elected p' T \<noteq> None" for T
      using q'(5,6) that by auto
  qed (use assms W cluster_relD(11) [OF rel] in auto)
  then show ?thesis using q'(1) by blast
qed

lemma cluster_electing:
  assumes rel: "cluster_rel N p c" and n: "n < N" and e: "electing N n p (cl_node c n) p' s (waiting_for c' n)"
    and c': "cl_node c' = (cl_node c)(n := s)"
    and waiting: "\<And>m T. m \<noteq> n \<Longrightarrow> waiting_for c' m T \<subseteq> waiting_for c m T" "cl_waiting c' \<subseteq> cl_voteReqs c'"
    and voteReqs: "\<And>x. x \<in> cl_voteReqs c' \<Longrightarrow> x \<in> cl_voteReqs c \<or> vote_req_rel N p' x"
    and same: "cl_voteReps c' = cl_voteReps c" "cl_appendReqs c' = cl_appendReqs c" "cl_appendReps c' = cl_appendReps c"
      "cl_snapshotReqs c' = cl_snapshotReqs c" "cl_snapshotReps c' = cl_snapshotReps c" "cl_delivered c' = cl_delivered c" "cl_transfers c' = cl_transfers c"
  shows "\<exists>p'. steps N p p' \<and> cluster_rel N p' c'"
proof -
  have e': "steps N p p'" "evolves n p p'" "node_rel N p' n s" "snap (cl_node c n) \<le> snap s"
    "\<And>T. count_rel N p' n s (waiting_for c' n T) T"
    "\<And>T. p_elected p' T \<noteq> None \<Longrightarrow> indexed (p_tlog p' T) \<or> p_elected p T \<noteq> None \<and> p_tlog p' T = p_tlog p T"
    using e unfolding electing_def by blast+
  have "cluster_rel N p' c'"
    by (rule cluster_step [OF rel e'(1,2) c' e'(3,4)]) (use waiting voteReqs same e'(5,6) in auto)
  then show ?thesis using e'(1) by blast
qed

section \<open>What a node sends and delivers\<close>

lemma PrepareReplication_request:
  assumes ok: "proto_ok (majorities {..<N}) p" and rel: "node_rel N p n s" and v: "v < N"
    and call: "PrepareReplication now v s = Some (SendEntries a, s')"
  shows "append_req_rel N p (n, v, a)"
proof -
  obtain s1 i t es where s1: "StartReadRound now s = Some s1" "rf_status s = Leader" "getPrevLogInfo v s1 = Some (i, t)"
    "(if i \<noteq> rf_lastSnapshotIncludeIndex s1 then map_option (\<lambda>j. drop (j + 1) (rf_logs s1)) (getSlicesIndexFromLogIndex i s1) else Some (rf_logs s1)) = Some es"
    and a: "ae_term a = rf_currentTerm s1" "ae_prevLogIndex a = i" "ae_prevLogTerm a = t" "ae_entries a = es" "ae_leaderCommit a = rf_commitIndex s1"
    using call unfolding PrepareReplication_def by (auto simp: Let_def split: if_splits option.splits)
  have c: "core s1 = core s" by (rule core_StartReadRound [OF s1(1)])
  have rel1: "node_rel N p n s1" using rel node_rel_core [OF c] by simp
  let ?L = "p_log p n" and ?T = "rf_currentTerm s1"
  have rep: "represents ?L s1" and l: "leader_rel N p n s1" using rel1 by (simp_all add: node_rel_def)
  note r = representsD [OF rep]
  have i: "int (snap s1) \<le> i" "i \<le> int (length ?L)" "t = termAt ?L (nat i)"
    using s1(3) r by (auto simp: getPrevLogInfo_def represents_log_at [OF rep] Let_def termAt_def snap_def [symmetric] split: if_splits)
  have es: "es = drop (nat i) ?L"
    using s1(4) r(2,4) i by (auto simp: represents_slices [OF rep] split: if_splits)
  have lead: "p_elected p ?T = Some n" "?L = p_tlog p ?T" "p_term p n = ?T" using l s1(2) core_fields(9) [OF c] by (simp_all add: leader_rel_def)
  have own: "own p ?T (length ?L)" using elections_okD(1) [of "majorities {..<N}" p ?T n] ok lead by (simp add: proto_ok_def)
  have ae: "append_end a = length ?L" using i es by (simp add: append_end_def a nat_le_iff)
  note com = node_committed [OF ok rel1]
  have "settled_prefix (majorities {..<N}) p ?T (p_tlog p ?T) (nat (rf_commitIndex s1))"
    using settled_le [OF com(1) com(4)] lead by simp
  moreover have "rf_commitIndex s1 \<le> int (length ?L)" using com(2,4) by linarith
  moreover have "n < N" using rel by (simp add: node_rel_def voters_ok_def)
  ultimately show ?thesis using v own ae lead i es by (simp add: append_req_rel_def a)
qed

lemma ApplyScan_messages:
  "ApplyScan is s = Some (msgs, s') \<Longrightarrow> m \<in> set msgs \<Longrightarrow> \<exists>i\<in>set is. \<exists>e. log_at i s = Some e \<and> m = apply_msg e i"
proof (induction "is" arbitrary: s msgs s')
  case (Cons i "is")
  have f: "log_at j (s \<lparr> rf_lastApplied := k \<rparr>) = log_at j s" for j k
    by (simp add: log_at_def getSlicesIndexFromLogIndex_def getLastLogIndex_def getLastLogIndexAndTerm_def)
  obtain e msgs' where "log_at i s = Some e" "ApplyScan is (s \<lparr> rf_lastApplied := i \<rparr>) = Some (msgs', s')" "msgs = apply_msg e i # msgs'"
    using Cons.prems(1) by (auto split: option.splits if_splits)
  then show ?case using Cons.IH [of "s \<lparr> rf_lastApplied := i \<rparr>" msgs' s'] Cons.prems(2) by (auto simp: f)
qed simp

lemma getApplyLogs_delivered:
  assumes ok: "proto_ok (majorities {..<N}) p" and rel: "node_rel N p n s" and call: "getApplyLogs s = Some (msgs, s')" and m: "m \<in> set msgs"
  shows "delivered_rel N p (n, am_CommandIndex m, am_Command m)"
proof -
  have rep: "represents (p_log p n) s" using rel by (simp add: node_rel_def)
  obtain i e where i: "i \<le> rf_commitIndex s" "log_at i s = Some e" "m = apply_msg e i"
    using call ApplyScan_messages [of _ s msgs s' m] m by (fastforce simp: getApplyLogs_def split: if_splits)
  then have e: "int (snap s) < i" "e = p_log p n ! (nat i - 1)" by (auto simp: represents_log_at [OF rep] split: if_splits)
  note com = node_committed [OF ok rel]
  have k: "0 < nat i" "nat i \<le> p_commit p n" using e(1) i(1) com(4) by auto
  then obtain T0 k where c: "chosen (majorities {..<N}) p T0 k" "p_commit p n \<le> k" "take (p_commit p n) (p_log p n) = take (p_commit p n) (p_tlog p T0)"
    using com(1) by (auto simp: settled_prefix_def)
  have "take (p_commit p n) (p_log p n) ! (nat i - 1) = take (p_commit p n) (p_tlog p T0) ! (nat i - 1)" using c(3) by simp
  then have "e = p_tlog p T0 ! (nat i - 1)" using e(2) k by simp
  then show ?thesis using c(1,2) k i(3) by (auto simp: delivered_rel_def apply_msg_def intro!: exI [of _ T0] exI [of _ k])
qed

lemma SnapshotRequests_related:
  assumes ok: "proto_ok (majorities {..<N}) p" and rel: "node_rel N p n s" and v: "v < N" and r: "r \<in> set (SnapshotRequests s)"
  shows "snapshot_req_rel N p (n, v, r)"
proof -
  have rep: "represents (p_log p n) s" and n: "n < N" and t: "term_rel p n s" using rel by (simp_all add: node_rel_def voters_ok_def)
  have f: "is_term r = rf_currentTerm s" "is_lastSnapshotIncludeIndex r = int (snap s)" "is_lastSnapshotIncludeTerm r = termAt (p_log p n) (snap s)"
    using r representsD(2,5) [OF rep] by (auto simp: SnapshotRequests_def)
  note com = node_committed [OF ok rel]
  have "settled_prefix (majorities {..<N}) p (rf_currentTerm s) (p_log p n) (snap s)"
    by (rule grows_settled [OF grows_refl settled_le [OF com(1,3)] term_rel_le [OF t] refl])
  then show ?thesis using n v representsD(1) [OF rep] f by (auto simp: snapshot_req_rel_def)
qed

lemma local_call_core: "local_call now s s' \<Longrightarrow> core s' = core s"
  by (auto simp: local_call_def core_same core_heartbeat)

section \<open>Restart\<close>

lemma boot_fields:
  assumes "0 < N"
  shows "rf_peers (boot N n d b now) = replicate N True" "rf_me (boot N n d b now) = int n" "rf_peerRoles (boot N n d b now) = replicate N Voter"
    "rf_matchIndex (boot N n d b now) = replicate N 0" "rf_nextIndex (boot N n d b now) = replicate N 0" "\<not> rf_removed (boot N n d b now)"
    "rf_status (boot N n d b now) = Follower" "rf_commitIndex (boot N n d b now) = 0" "rf_disk (boot N n d b now) = d"
  using assms by (simp_all add: boot_def init_def init_roles_def Let_def map_replicate_const)

lemma boot_durable:
  "rf_currentTerm (boot N n d b now) = rs_currentTerm (durable (boot N n d b now))" "rf_votedFor (boot N n d b now) = rs_votedFor (durable (boot N n d b now))"
  "log_durable (boot N n d b now)"
  by (cases d; simp add: boot_def init_def Let_def durable_def log_durable_def split_def)+

lemma boot_rel:
  fixes now :: int
  assumes ok: "proto_ok (majorities {..<N}) p" and rel: "node_rel N p n s"
  defines "s' \<equiv> boot N n (rf_disk s) (rf_snapshot s) now" and "p' \<equiv> p \<lparr> p_commit := (p_commit p)(n := snap s) \<rparr>"
  shows "pstep (majorities {..<N}) p p'" "evolves n p p'" "node_rel N p' n s'" "snap s' = snap s"
proof -
  note com = node_committed [OF ok rel]
  have k: "settled_prefix (majorities {..<N}) p (p_term p n) (p_log p n) (snap s)" by (rule settled_le [OF com(1,3)])
  show "pstep (majorities {..<N}) p p'" unfolding p'_def by (rule pstep.Commit [OF k])
  show "evolves n p p'" unfolding p'_def using evolves_kinds(2) [OF _ k] ok by (simp add: proto_ok_def)
  have n: "n < N" "0 < N" using rel by (auto simp: node_rel_def voters_ok_def)
  have d: "durable s' = durable s" by (simp add: durable_def s'_def boot_fields [OF n(2)])
  have ld: "log_durable s" "log_durable s'" using rel by (simp_all add: node_rel_def s'_def boot_durable)
  then have l: "rf_logs s' = rf_logs s" "rf_lastSnapshotIncludeIndex s' = rf_lastSnapshotIncludeIndex s"
      "rf_lastSnapshotIncludeTerm s' = rf_lastSnapshotIncludeTerm s"
    by (simp_all add: log_durable_def d)
  show sn: "snap s' = snap s" by (simp add: snap_def l)
  have "represents L s' = represents L s" for L by (rule represents_cong) (simp_all add: l)
  moreover have "rf_currentTerm s' = rs_currentTerm (durable s)" "rf_votedFor s' = rs_votedFor (durable s)"
    using boot_durable(1,2) [of N n "rf_disk s" "rf_snapshot s" now] d by (simp_all add: s'_def)
  ultimately show "node_rel N p' n s'"
    using rel ld n by (simp add: node_rel_def voters_ok_def term_rel_def leader_rel_def d sn p'_def) (simp add: s'_def boot_fields)
qed

section \<open>The simulation\<close>

lemma set_node_node [simp]: "cl_node (set_node n s c) = (cl_node c)(n := s)"
  by (simp add: set_node_def)

lemma set_node_messages [simp]:
  "cl_voteReqs (set_node n s c) = cl_voteReqs c" "cl_voteReps (set_node n s c) = cl_voteReps c" "cl_waiting (set_node n s c) = cl_waiting c"
  "cl_appendReqs (set_node n s c) = cl_appendReqs c" "cl_appendReps (set_node n s c) = cl_appendReps c"
  "cl_snapshotReqs (set_node n s c) = cl_snapshotReqs c" "cl_snapshotReps (set_node n s c) = cl_snapshotReps c"
  "cl_transfers (set_node n s c) = cl_transfers c" "cl_delivered (set_node n s c) = cl_delivered c"
  by (simp_all add: set_node_def)

lemma vote_request_unique:
  "\<lbrakk> vote_req_rel N p (n, v, a); vote_req_rel N p (n, v, a'); va_term a = va_term a' \<rbrakk> \<Longrightarrow> a = a'"
  by (cases a; cases a') (simp add: vote_req_rel_def)

lemma Timeout_cluster:
  assumes rel: "cluster_rel N p c" and n: "n < N" and call: "doElection now (cl_node c n) = Some (s, reqs)" and R: "R = (\<lambda>(i, a). (n, nat i, a)) ` set reqs"
  shows "\<exists>p'. steps N p p' \<and> cluster_rel N p' ((set_node n s c) \<lparr> cl_voteReqs := cl_voteReqs c \<union> R, cl_waiting := cl_waiting c \<union> R \<rparr>)"
proof -
  let ?c = "(set_node n s c) \<lparr> cl_voteReqs := cl_voteReqs c \<union> R, cl_waiting := cl_waiting c \<union> R \<rparr>"
  obtain p' where p': "electing N n p (cl_node c n) p' s (\<lambda>U. waiting_for c n U \<union> {v. \<exists>i a. (i, a) \<in> set reqs \<and> v = nat i \<and> va_term a = U})"
    "\<forall>(i, a)\<in>set reqs. vote_req_rel N p' (n, nat i, a)"
    using doElection_sim [OF cluster_relD(1) [OF rel] cluster_relD(2) [OF rel n] cluster_relD(3) [OF rel n] call] by blast
  have "waiting_for ?c n = (\<lambda>U. waiting_for c n U \<union> {v. \<exists>i a. (i, a) \<in> set reqs \<and> v = nat i \<and> va_term a = U})"
    by (auto simp: waiting_for_def R fun_eq_iff)
  then have "electing N n p (cl_node c n) p' s (waiting_for ?c n)" using p'(1) by simp
  then show ?thesis
    using p'(2) cluster_relD(11) [OF rel] by (intro cluster_electing [OF rel n]) (auto simp: R waiting_for_def)
qed

lemma VoteReply_cluster:
  assumes rel: "cluster_rel N p c" and w: "(n, v, a) \<in> cl_waiting c" and rep: "(n, v, a, r) \<in> cl_voteReps c"
    and call: "HandleVoteReply a r (cl_node c n) = Some s"
  shows "\<exists>p'. steps N p p' \<and> cluster_rel N p' ((set_node n s c) \<lparr> cl_waiting := cl_waiting c - {(n, v, a)} \<rparr>)"
proof -
  let ?c = "(set_node n s c) \<lparr> cl_waiting := cl_waiting c - {(n, v, a)} \<rparr>" and ?T = "va_term a"
  note vr = cluster_relD(5) [OF rel rep]
  have n: "n < N" using vr by (simp add: vote_rep_rel_def)
  have "v \<in> waiting_for c n ?T" using w by (auto simp: waiting_for_def)
  then obtain p' where p': "electing N n p (cl_node c n) p' s ((waiting_for c n)(?T := waiting_for c n ?T - {v}))"
    using HandleVoteReply_sim [OF cluster_relD(1) [OF rel] cluster_relD(2) [OF rel n] vr _ cluster_relD(3) [OF rel n] call] by blast
  have "a' = a" if "(n, v, a') \<in> cl_waiting c" "va_term a' = ?T" for a'
    using vote_request_unique cluster_relD(4,11) [OF rel] w that by blast
  then have "waiting_for ?c n = (waiting_for c n)(?T := waiting_for c n ?T - {v})"
    by (auto simp: waiting_for_def fun_eq_iff)
  then have "electing N n p (cl_node c n) p' s (waiting_for ?c n)" using p' by simp
  then show ?thesis
    using cluster_relD(11) [OF rel] by (intro cluster_electing [OF rel n]) (auto simp: waiting_for_def)
qed

lemma VoteLost_cluster:
  assumes rel: "cluster_rel N p c"
  shows "cluster_rel N p (c \<lparr> cl_waiting := cl_waiting c - {x} \<rparr>)"
proof -
  let ?c = "c \<lparr> cl_waiting := cl_waiting c - {x} \<rparr>"
  have "count_rel N p n (cl_node c n) (waiting_for ?c n T) T" if "n < N" for n T
    by (rule count_rel_subset [OF cluster_relD(3) [OF rel that]]) (auto simp: waiting_for_def)
  then show ?thesis using rel by (auto simp: cluster_rel_def messages_rel_def)
qed

lemma Restart_cluster:
  assumes rel: "cluster_rel N p c" and n: "n < N" and s: "s = boot N n (rf_disk (cl_node c n)) (rf_snapshot (cl_node c n)) now"
  shows "\<exists>p'. steps N p p' \<and> cluster_rel N p' ((set_node n s c) \<lparr> cl_waiting := {w \<in> cl_waiting c. fst w \<noteq> n} \<rparr>)"
proof -
  let ?c = "(set_node n s c) \<lparr> cl_waiting := {w \<in> cl_waiting c. fst w \<noteq> n} \<rparr>"
  note b = boot_rel [OF cluster_relD(1) [OF rel] cluster_relD(2) [OF rel n]]
  have st: "steps N p (p \<lparr> p_commit := (p_commit p)(n := snap (cl_node c n)) \<rparr>)" using b(1) by (rule r_into_rtranclp)
  have "waiting_for ?c n T = {}" for T by (auto simp: waiting_for_def)
  then have "cluster_rel N (p \<lparr> p_commit := (p_commit p)(n := snap (cl_node c n)) \<rparr>) ?c"
    using cluster_relD(11) [OF rel] b(3) [of now] b(4) [of now]
    by (intro cluster_step [OF rel st b(2), where s = s]) (auto simp: s waiting_for_def count_rel_def)
  then show ?thesis using st by blast
qed

lemma quiet_cluster_step:
  assumes rel: "cluster_rel N p c" and n: "n < N" and q: "\<exists>p'. quiet N n p (cl_node c n) p' s"
  shows "\<exists>p'. steps N p p' \<and> cluster_rel N p' (set_node n s c)"
proof -
  obtain p' where "quiet N n p (cl_node c n) p' s" using q by blast
  then show ?thesis by (rule cluster_quiet [OF rel n]) simp_all
qed

text \<open>Every step of the cluster is matched by steps of the protocol.\<close>

lemma cluster_refines:
  assumes "cstep N c c'" "cluster_rel N p c"
  shows "\<exists>p'. steps N p p' \<and> cluster_rel N p' c'"
  using assms
proof (cases rule: cstep.cases)
  case (Timeout n now s reqs R)
  then show ?thesis using Timeout_cluster [OF assms(2)] by blast
next
  case (Vote m n a now r s)
  note req = cluster_relD(4) [OF assms(2) Vote(2)]
  have n: "n < N" using req by (simp add: vote_req_rel_def)
  obtain p' where p': "quiet N n p (cl_node c n) p' s" "vote_rep_rel N p' (m, n, a, r)"
    using RequestVote_sim [OF cluster_relD(1,2) [OF assms(2)] req Vote(3)] n by blast
  show ?thesis unfolding Vote(1) by (rule cluster_quiet [OF assms(2) n p'(1)]) (use p'(2) in auto)
next
  case (VoteReply n v a r s)
  then show ?thesis using VoteReply_cluster [OF assms(2)] by blast
next
  case (VoteLost n v a)
  then show ?thesis using VoteLost_cluster [OF assms(2)] by blast
next
  case (Replicate n v now out s R)
  note ok = cluster_relD(1) [OF assms(2)] and rel = cluster_relD(2) [OF assms(2) Replicate(2)]
  have "append_req_rel N p x" if "x \<in> R" for x
    using that Replicate(3-5) PrepareReplication_request [OF ok rel Replicate(3)] by (auto split: replication.splits)
  then show ?thesis
    unfolding Replicate(1) by (intro cluster_quiet [OF assms(2) Replicate(2) quiet_core [OF rel core_prepare [OF Replicate(4)]]]) auto
next
  case (Append m n a now r s)
  note req = cluster_relD(6) [OF assms(2) Append(2)]
  have n: "n < N" and ix: "indexed (p_tlog p (ae_term a))"
    using req cluster_relD(13) [OF assms(2)] by (auto simp: append_req_rel_def own_def)
  obtain p' where p': "quiet N n p (cl_node c n) p' s" "append_rep_rel N p' (m, n, a, r)"
    using AppendEntries_sim [OF cluster_relD(1,2) [OF assms(2)] req ix Append(3)] n by blast
  show ?thesis unfolding Append(1) by (rule cluster_quiet [OF assms(2) n p'(1)]) (use p'(2) in auto)
next
  case (AppendReply n v a r now s)
  note rep = cluster_relD(7) [OF assms(2) AppendReply(2)]
  have n: "n < N" using rep by (simp add: append_rep_rel_def)
  show ?thesis unfolding AppendReply(1)
    by (rule quiet_cluster_step [OF assms(2) n HandleAppendEntriesReply_sim [OF cluster_relD(1,2) [OF assms(2)] rep AppendReply(3)]]) (rule n)
next
  case (Poll n batch s)
  show ?thesis unfolding Poll(1)
    by (rule quiet_cluster_step [OF assms(2) Poll(2) PollBatch_sim [OF cluster_relD(1,2) [OF assms(2)] Poll(3,4)]]) (rule Poll(2))
next
  case (Local n now s)
  show ?thesis unfolding Local(1)
    using quiet_core [OF cluster_relD(2) [OF assms(2) Local(2)] local_call_core [OF Local(3)]] quiet_cluster_step [OF assms(2) Local(2)] by blast
next
  case (Deliver n msgs s0 s)
  note ok = cluster_relD(1) [OF assms(2)] and rel = cluster_relD(2) [OF assms(2) Deliver(2)]
  show ?thesis unfolding Deliver(1)
    by (rule cluster_quiet [OF assms(2) Deliver(2) quiet_core [OF rel core_deliver [OF Deliver(4)]]])
      (use getApplyLogs_delivered [OF ok rel Deliver(3)] in auto)
next
  case (Compact n staged published index bytes "done" s)
  show ?thesis unfolding Compact(1)
    by (rule quiet_cluster_step [OF assms(2) Compact(2) Snapshot_sim [OF cluster_relD(1,2) [OF assms(2)] Compact(3)]]) (rule Compact(2))
next
  case (Transfer n v)
  note ok = cluster_relD(1) [OF assms(2)] and rel = cluster_relD(2) [OF assms(2) Transfer(2)]
  have "rf_lastSnapshotIncludeIndex (cl_node c n) = int (snap (cl_node c n))" using rel representsD(2) [of "p_log p n" "cl_node c n"] by (simp add: node_rel_def)
  then show ?thesis unfolding Transfer(1)
    by (intro cluster_quiet [OF assms(2) Transfer(2) quiet_core [OF rel refl]])
      (use SnapshotRequests_related [OF ok rel Transfer(3)] Transfer in auto)
next
  case (Install m n r now t s)
  note req = cluster_relD(8) [OF assms(2) Install(2)]
  have n: "n < N" "m < N" using req by (simp_all add: snapshot_req_rel_def)
  obtain p' where "quiet N n p (cl_node c n) p' s"
    using InstallSnapshot_sim [OF cluster_relD(1,2) [OF assms(2)] req Install(3,4)] n by blast
  then show ?thesis unfolding Install(1) by (rule cluster_quiet [OF assms(2) n(1)]) (use n in auto)
next
  case (SnapshotReply n v r t now go s)
  have n: "n < N" using cluster_relD(9) [OF assms(2) SnapshotReply(2)] by simp
  show ?thesis unfolding SnapshotReply(1)
    by (rule quiet_cluster_step [OF assms(2) n HandleSnapshotReply_sim [OF cluster_relD(1,2) [OF assms(2)] SnapshotReply(3)]]) (rule n)
next
  case (Transferred n v T i s)
  have t: "n < N" "i \<le> int (snap (cl_node c n))" using cluster_relD(12) [OF assms(2) Transferred(2)] by simp_all
  show ?thesis unfolding Transferred(1)
    using FinishSnapshot_sim [OF cluster_relD(2) [OF assms(2) t(1)] t(2) Transferred(3)] quiet_cluster_step [OF assms(2) t(1)] by blast
next
  case (Restart n s now)
  then show ?thesis using Restart_cluster [OF assms(2)] by blast
qed

lemma cluster_init_rel: "cluster_rel N proto_init (cluster_init N now)"
proof -
  let ?c = "cluster_init N now"
  have node: "node_rel N proto_init n (cl_node ?c n)" if n: "n < N" for n
  proof -
    let ?s = "boot N n None [] now"
    have N: "0 < N" using n by simp
    have d: "durable ?s = \<lparr> rs_currentTerm = 0, rs_votedFor = -1, rs_lastSnapshotIncludeIndex = 0, rs_lastSnapshotIncludeTerm = 0, rs_logs = [] \<rparr>"
      by (simp add: durable_def boot_fields [OF N])
    have l: "rf_logs ?s = []" "rf_lastSnapshotIncludeIndex ?s = 0" "rf_lastSnapshotIncludeTerm ?s = 0" "snap ?s = 0"
      using boot_durable(3) [of N n None "[]" now] by (simp_all add: log_durable_def d snap_def)
    have "node_rel N proto_init n ?s"
      using n boot_durable [of N n None "[]" now]
      by (simp add: node_rel_def voters_ok_def represents_def indexed_def term_rel_def leader_rel_def vote_of_def boot_fields [OF N] d l proto_init_def)
    then show ?thesis by (simp add: cluster_init_def)
  qed
  then show ?thesis
    using majority.proto_ok_init [of N]
    by (simp add: cluster_rel_def messages_rel_def cluster_init_def count_rel_def waiting_for_def) (simp add: proto_init_def)
qed

lemma cluster_run_rel:
  assumes "cluster_run N c"
  shows "\<exists>p. cluster_rel N p c"
proof -
  obtain now where "(cstep N)\<^sup>*\<^sup>* (cluster_init N now) c" using assms by (auto simp: cluster_run_def)
  then show ?thesis
  proof (induction rule: rtranclp_induct)
    case base
    then show ?case using cluster_init_rel by blast
  next
    case (step c c')
    then show ?case using cluster_refines by blast
  qed
qed

section \<open>A run of three nodes\<close>

text \<open>
  Node 0 is elected with the vote of node 1, replicates the entry of its term to node 1, commits and delivers it;
  the next request tells node 1 about the commit, which delivers it too.
\<close>

definition ex_raft :: "bool \<Rightarrow> int \<Rightarrow> Status \<Rightarrow> LogEntry list \<Rightarrow> int \<Rightarrow> int \<Rightarrow> int list \<Rightarrow> int list \<Rightarrow> (int \<Rightarrow> int) \<Rightarrow> ApplyMsg list \<Rightarrow> int option \<Rightarrow> Raft" where
  "ex_raft initialized me status logs commitIndex lastApplied nextIndex matchIndex votedNum applyChan contact =
   \<lparr> rf_initialized = initialized, rf_backgroundWorkersStarted = initialized, rf_shutdown = False, rf_peers = [True, True, True], rf_me = me,
     rf_currentTerm = 1, rf_votedFor = 0, rf_logs = logs, rf_commitIndex = commitIndex, rf_lastApplied = lastApplied, rf_nextIndex = nextIndex,
     rf_matchIndex = matchIndex, rf_status = status, rf_applyChan = applyChan, rf_lastResetElectionTime = 0, rf_lastLeaderContactTime = contact,
     rf_lastSnapshotIncludeIndex = 0, rf_lastSnapshotIncludeTerm = 0, rf_proposeQueue = [], rf_nextReadContext = 0,
     rf_pendingReadWaiters = [], rf_activeReadRound = None, rf_waiters = [], rf_votedNum = votedNum, rf_peerIds = [0, 1, 2],
     rf_peerRoles = [Voter, Voter, Voter], rf_localPeerId = of_int me, rf_removed = False, rf_confChangePendingInQueue = False,
     rf_snapshotReceiveBuffer = [], rf_disk = Some \<lparr> rs_currentTerm = 1, rs_votedFor = 0, rs_lastSnapshotIncludeIndex = 0,
     rs_lastSnapshotIncludeTerm = 0, rs_logs = logs \<rparr>, rf_snapshot = [] \<rparr>"

abbreviation ex_vote :: RequestVoteArgs where
  "ex_vote \<equiv> \<lparr> va_term = 1, va_candidateId = 0, va_lastLogIndex = 0, va_lastLogTerm = 0 \<rparr>"

abbreviation ex_append :: "int \<Rightarrow> int \<Rightarrow> LogEntry list \<Rightarrow> int \<Rightarrow> AppendEntriesArgs" where
  "ex_append i t es c \<equiv> \<lparr> ae_term = 1, ae_leaderId = 0, ae_prevLogIndex = i, ae_prevLogTerm = t, ae_entries = es, ae_leaderCommit = c, ae_readContext = 0 \<rparr>"

abbreviation ex_ok :: AppendEntriesReply where
  "ex_ok \<equiv> \<lparr> ar_term = 1, ar_success = True, ar_updateNextIndex = 0, ar_appState = 1, ar_readContextAck = 0, ar_readContextAccepted = False \<rparr>"

abbreviation ex_entry :: LogEntry where
  "ex_entry \<equiv> noop_entry 1 1"

lemmas ex_eval = ex_raft_def Let_def isLearnerLocked_def isVoterLocked_def isRemovedLocked_def role_is_def abortReadIndexLocked_def persist_def
  raft_state_def getQuorumLocked_def getVoterCountLocked_def vote_args_def getLastLogIndex_def getLastLogTerm_def getLastLogIndexAndTerm_def upt_rec
  step_down_def log_at_def getSlicesIndexFromLogIndex_def matchLog_def getLogTermFromLogIndex_def persistAppended_def
  become_leader_def boot_def init_def init_roles_def noop_entry_def replicas_def upto_rec1 AppNormal_def Disconnected_def new_reply_def follow_def UpToDate_def

lemma ex_election: "doElection 0 (boot 3 0 None [] 0) = Some (ex_raft False 0 Candidate [] 0 0 [0, 0, 0] [0, 0, 0] ((\<lambda>_. 0)(1 := 1)) [] None,
    [(1, ex_vote), (2, ex_vote)])"
  by (simp add: ex_eval doElection_def numeral_3_eq_3)

lemma ex_request_vote: "RequestVoteRpc 0 ex_vote (Activate (boot 3 1 None [] 0)) = (\<lparr> vr_term = 1, vr_voteGranted = True, vr_voteState = Normal \<rparr>,
    ex_raft True 1 Follower [] 0 0 [0, 0, 0] [0, 0, 0] (\<lambda>_. 0) [] None)"
  by (simp add: ex_eval RequestVoteRpc_def RequestVote_def Activate_def numeral_3_eq_3)

lemma ex_elected: "HandleVoteReply ex_vote \<lparr> vr_term = 1, vr_voteGranted = True, vr_voteState = Normal \<rparr>
    (ex_raft False 0 Candidate [] 0 0 [0, 0, 0] [0, 0, 0] ((\<lambda>_. 0)(1 := 1)) [] None) =
  Some (ex_raft False 0 Leader [ex_entry] 0 0 [1, 1, 1] [0, 0, 0] (\<lambda>_. 0) [] None)"
  by (simp add: ex_eval HandleVoteReply_def fun_eq_iff)

lemma ex_replicate: "PrepareReplication 0 1 (ex_raft False 0 Leader [ex_entry] 0 0 [1, 1, 1] [0, 0, 0] (\<lambda>_. 0) [] None) =
  Some (SendEntries (ex_append 0 0 [ex_entry] 0), ex_raft False 0 Leader [ex_entry] 0 0 [1, 1, 1] [0, 0, 0] (\<lambda>_. 0) [] None)"
  by (simp add: ex_eval PrepareReplication_def StartReadRound_def getPrevLogInfo_def)

lemma ex_accept: "AppendEntriesRpc 0 (ex_append 0 0 [ex_entry] 0) (ex_raft True 1 Follower [] 0 0 [0, 0, 0] [0, 0, 0] (\<lambda>_. 0) [] None) =
  Some (ex_ok, ex_raft True 1 Follower [ex_entry] 0 0 [0, 0, 0] [0, 0, 0] (\<lambda>_. 0) [] (Some 0))"
  by (simp add: ex_eval AppendEntriesRpc_def AppendEntries1_def persist_changes_def)

lemma ex_committed: "HandleAppendEntriesReply 0 1 (ex_append 0 0 [ex_entry] 0) ex_ok
    (ex_raft False 0 Leader [ex_entry] 0 0 [1, 1, 1] [0, 0, 0] (\<lambda>_. 0) [] None) =
  Some (ex_raft False 0 Leader [ex_entry] 1 0 [1, 2, 1] [0, 1, 0] (\<lambda>_. 0) [] None)"
  by (simp add: ex_eval HandleAppendEntriesReply_def leaderUpdateCommitIndex_def)

lemma ex_deliver: "getApplyLogs (ex_raft b me st [ex_entry] 1 0 nx mt vs [] ct) = Some ([apply_msg ex_entry 1], ex_raft b me st [ex_entry] 1 1 nx mt vs [] ct)"
  "DeliverCommitted (ex_raft b me st [ex_entry] 1 0 nx mt vs [] ct) = Some (ex_raft b me st [ex_entry] 1 1 nx mt vs [apply_msg ex_entry 1] ct)"
  by (simp_all add: ex_eval getApplyLogs_def DeliverCommitted_def)

lemma ex_replicate_commit: "PrepareReplication 0 1 (ex_raft False 0 Leader [ex_entry] 1 1 [1, 2, 1] [0, 1, 0] (\<lambda>_. 0) [apply_msg ex_entry 1] None) =
  Some (SendEntries (ex_append 1 1 [] 1), ex_raft False 0 Leader [ex_entry] 1 1 [1, 2, 1] [0, 1, 0] (\<lambda>_. 0) [apply_msg ex_entry 1] None)"
  by (simp add: ex_eval PrepareReplication_def StartReadRound_def getPrevLogInfo_def)

lemma ex_accept_commit: "AppendEntriesRpc 0 (ex_append 1 1 [] 1) (ex_raft True 1 Follower [ex_entry] 0 0 [0, 0, 0] [0, 0, 0] (\<lambda>_. 0) [] (Some 0)) =
  Some (ex_ok, ex_raft True 1 Follower [ex_entry] 1 0 [0, 0, 0] [0, 0, 0] (\<lambda>_. 0) [] (Some 0))"
  by (simp add: ex_eval AppendEntriesRpc_def AppendEntries1_def persist_changes_def)


lemma ex_run:
  "\<exists>c. cluster_run 3 c \<and> rf_status (cl_node c 0) = Leader \<and> rf_currentTerm (cl_node c 0) = 1 \<and>
     {(0, 1, le_command ex_entry), (1, 1, le_command ex_entry)} \<subseteq> cl_delivered c \<and> (0, 1, ex_append 1 1 [] 1) \<in> cl_appendReqs c"
proof -
  let ?R = "{(0, 1, ex_vote), (0, 2, ex_vote)}" and ?g = "\<lparr> vr_term = 1, vr_voteGranted = True, vr_voteState = Normal \<rparr>"
  define c1 where "c1 = (set_node 0 (ex_raft False 0 Candidate [] 0 0 [0, 0, 0] [0, 0, 0] ((\<lambda>_. 0)(1 := 1)) [] None) (cluster_init 3 0)) \<lparr> cl_voteReqs := ?R, cl_waiting := ?R \<rparr>"
  define c2 where "c2 = set_node 1 (Activate (boot 3 1 None [] 0)) c1"
  define c3 where "c3 = (set_node 1 (ex_raft True 1 Follower [] 0 0 [0, 0, 0] [0, 0, 0] (\<lambda>_. 0) [] None) c2) \<lparr> cl_voteReps := {(0, 1, ex_vote, ?g)} \<rparr>"
  define c4 where "c4 = (set_node 0 (ex_raft False 0 Leader [ex_entry] 0 0 [1, 1, 1] [0, 0, 0] (\<lambda>_. 0) [] None) c3) \<lparr> cl_waiting := ?R - {(0, 1, ex_vote)} \<rparr>"
  define c5 where "c5 = (set_node 0 (cl_node c4 0) c4) \<lparr> cl_appendReqs := {(0, 1, ex_append 0 0 [ex_entry] 0)} \<rparr>"
  define c6 where "c6 = (set_node 1 (ex_raft True 1 Follower [ex_entry] 0 0 [0, 0, 0] [0, 0, 0] (\<lambda>_. 0) [] (Some 0)) c5)
    \<lparr> cl_appendReps := {(0, 1, ex_append 0 0 [ex_entry] 0, ex_ok)} \<rparr>"
  define c7 where "c7 = set_node 0 (ex_raft False 0 Leader [ex_entry] 1 0 [1, 2, 1] [0, 1, 0] (\<lambda>_. 0) [] None) c6"
  define c8 where "c8 = (set_node 0 (ex_raft False 0 Leader [ex_entry] 1 1 [1, 2, 1] [0, 1, 0] (\<lambda>_. 0) [apply_msg ex_entry 1] None) c7)
    \<lparr> cl_delivered := {(0, 1, le_command ex_entry)} \<rparr>"
  define c9 where "c9 = (set_node 0 (cl_node c8 0) c8) \<lparr> cl_appendReqs := {(0, 1, ex_append 0 0 [ex_entry] 0), (0, 1, ex_append 1 1 [] 1)} \<rparr>"
  define c10 where "c10 = (set_node 1 (ex_raft True 1 Follower [ex_entry] 1 0 [0, 0, 0] [0, 0, 0] (\<lambda>_. 0) [] (Some 0)) c9)
    \<lparr> cl_appendReps := {(0, 1, ex_append 1 1 [] 1, ex_ok), (0, 1, ex_append 0 0 [ex_entry] 0, ex_ok)} \<rparr>"
  define c11 where "c11 = (set_node 1 (ex_raft True 1 Follower [ex_entry] 1 1 [0, 0, 0] [0, 0, 0] (\<lambda>_. 0) [apply_msg ex_entry 1] (Some 0)) c10)
    \<lparr> cl_delivered := {(0, 1, le_command ex_entry), (1, 1, le_command ex_entry)} \<rparr>"
  note cs = c1_def c2_def c3_def c4_def c5_def c6_def c7_def c8_def c9_def c10_def c11_def cluster_init_def
  have "cstep 3 (cluster_init 3 0) c1"
    using cstep.Timeout [of 0 3 0 "cluster_init 3 0", OF _ _ refl] ex_election by (simp add: cs)
  moreover have "cstep 3 c1 c2"
    using cstep.Local [of 1 3 0 c1 "Activate (boot 3 1 None [] 0)"] by (simp add: cs local_call_def)
  moreover have "cstep 3 c2 c3"
    using cstep.Vote [of 0 1 ex_vote c2 0 ?g] ex_request_vote by (simp add: cs)
  moreover have "cstep 3 c3 c4"
    using cstep.VoteReply [of 0 1 ex_vote c3 ?g] ex_elected by (simp add: cs)
  moreover have "cstep 3 c4 c5"
    using cstep.Replicate [of 0 3 1 0 c4, OF _ _ _ refl] ex_replicate by (simp add: cs)
  moreover have "cstep 3 c5 c6"
    using cstep.Append [of 0 1 "ex_append 0 0 [ex_entry] 0" c5 0 ex_ok] ex_accept by (simp add: cs)
  moreover have "cstep 3 c6 c7"
    using cstep.AppendReply [of 0 1 "ex_append 0 0 [ex_entry] 0" ex_ok c6 0] ex_committed by (simp add: cs)
  moreover have "cstep 3 c7 c8"
    using cstep.Deliver [of 0 3 c7 "[apply_msg ex_entry 1]"] ex_deliver by (simp add: cs apply_msg_def NewApplyMsg_def)
  moreover have "cstep 3 c8 c9"
    using cstep.Replicate [of 0 3 1 0 c8, OF _ _ _ refl] ex_replicate_commit by (simp add: cs insert_commute)
  moreover have "cstep 3 c9 c10"
    using cstep.Append [of 0 1 "ex_append 1 1 [] 1" c9 0 ex_ok] ex_accept_commit by (simp add: cs)
  moreover have "cstep 3 c10 c11"
    using cstep.Deliver [of 1 3 c10 "[apply_msg ex_entry 1]"] ex_deliver by (simp add: cs apply_msg_def NewApplyMsg_def insert_commute)
  ultimately have "(cstep 3)\<^sup>*\<^sup>* (cluster_init 3 0) c11" by (meson rtranclp.rtrancl_refl rtranclp.rtrancl_into_rtrancl)
  moreover have "rf_status (cl_node c11 0) = Leader" "rf_currentTerm (cl_node c11 0) = 1" by (simp_all add: cs ex_raft_def)
  moreover have "(0, 1, ex_append 1 1 [] 1) \<in> cl_appendReqs c11" by (simp add: cs)
  moreover have "cl_delivered c11 = {(0, 1, le_command ex_entry), (1, 1, le_command ex_entry)}" by (simp add: c11_def)
  ultimately show ?thesis unfolding cluster_run_def by blast
qed

section \<open>Safety\<close>

text \<open>
  C2. Election safety: in every state that a cluster of \<open>N\<close> voters can reach, at most one node is leader of a term, whatever
  messages are lost, repeated or reordered and whichever nodes restart from their durable state.\<close>

theorem at_most_one_leader_per_term:
  assumes "cluster_run N c"
  shows "card {n. n < N \<and> rf_status (cl_node c n) = Leader \<and> rf_currentTerm (cl_node c n) = T} \<le> 1"
proof -
  obtain p where rel: "cluster_rel N p c" using cluster_run_rel [OF assms] by blast
  let ?S = "{n. n < N \<and> rf_status (cl_node c n) = Leader \<and> rf_currentTerm (cl_node c n) = T}"
  have "n = the (p_elected p T)" if "n \<in> ?S" for n
    using cluster_relD(2) [OF rel, of n] that by (simp add: node_rel_def leader_rel_def)
  then have "?S \<subseteq> {the (p_elected p T)}" by blast
  then show ?thesis using card_mono [of "{the (p_elected p T)}" ?S] by simp
qed

theorem at_most_one_leader_per_term_witness:
  "\<exists>c. cluster_run 3 c \<and> rf_status (cl_node c 0) = Leader \<and>
     card {n. n < 3 \<and> rf_status (cl_node c n) = Leader \<and> rf_currentTerm (cl_node c n) = 1} = 1"
proof -
  obtain c where c: "cluster_run 3 c" "rf_status (cl_node c 0) = Leader" "rf_currentTerm (cl_node c 0) = 1" using ex_run by blast
  let ?S = "{n. n < 3 \<and> rf_status (cl_node c n) = Leader \<and> rf_currentTerm (cl_node c n) = 1}"
  have "finite ?S" "0 \<in> ?S" using c by auto
  then have "card ?S \<noteq> 0" by auto
  then have "card ?S = 1" using at_most_one_leader_per_term [OF c(1), of 1] by linarith
  then show ?thesis using c by blast
qed

text \<open>
  C1. State machine safety: two nodes that deliver a command for the same log index to their state machines, at any
  time in a run, deliver the same command.\<close>

theorem delivered_commands_agree:
  assumes "cluster_run N c" "(m, i, x) \<in> cl_delivered c" "(n, i, y) \<in> cl_delivered c"
  shows "x = y"
proof -
  obtain p where rel: "cluster_rel N p c" using cluster_run_rel [OF assms(1)] by blast
  obtain T k where x: "chosen (majorities {..<N}) p T k" "0 < i" "nat i \<le> k" "le_command (p_tlog p T ! (nat i - 1)) = x"
    using cluster_relD(10) [OF rel assms(2)] by (auto simp: delivered_rel_def)
  obtain U l where y: "chosen (majorities {..<N}) p U l" "nat i \<le> l" "le_command (p_tlog p U ! (nat i - 1)) = y"
    using cluster_relD(10) [OF rel assms(3)] by (auto simp: delivered_rel_def)
  have "take (nat i) (p_tlog p T) = take (nat i) (p_tlog p U)"
    using majority.chosen_agree [OF _ x(1) y(1) x(3) y(2)] cluster_relD(1) [OF rel] by (simp add: proto_ok_def)
  then have "take (nat i) (p_tlog p T) ! (nat i - 1) = take (nat i) (p_tlog p U) ! (nat i - 1)" by simp
  then show ?thesis using x(2,4) y(3) by simp
qed

theorem delivered_commands_agree_witness:
  "\<exists>c x y. cluster_run 3 c \<and> (0, 1, x) \<in> cl_delivered c \<and> (1, 1, y) \<in> cl_delivered c \<and> x = y"
proof -
  obtain c where c: "cluster_run 3 c" "(0, 1, le_command ex_entry) \<in> cl_delivered c" "(1, 1, le_command ex_entry) \<in> cl_delivered c"
    using ex_run by blast
  then show ?thesis using delivered_commands_agree [OF c] by blast
qed

end
