(* ===== verification/RaftWellFormed.thy ===== *)
theory RaftWellFormed
  imports RaftSafety
begin

text \<open>
  Consequences of the simulation for single nodes: the fields of a node stay consistent in every reachable state, and
  the handler of append requests never runs into one of its assertions.
\<close>

section \<open>Handlers do not abort\<close>

text \<open>The loop over the entries of a request, on a log that matches at the position before them.\<close>

lemma AppendLoop_returns:
  assumes ok: "proto_ok (majorities {..<N}) p" and rel: "node_rel N p n s" and req: "append_req_rel N p (l, n, a)"
    and ix: "indexed (p_tlog p (ae_term a))" and T: "rf_currentTerm s = ae_term a"
    and prev: "rf_lastSnapshotIncludeIndex s \<le> ae_prevLogIndex a" "ae_prevLogIndex a \<le> getLastLogIndex s"
    and match: "matchLog (ae_prevLogIndex a) (ae_prevLogTerm a) s = Some True"
  shows "\<exists>s4 ch tr. AppendLoop (ae_entries a) (s, h, False) = Some (s4, ch, tr) \<and> rf_commitIndex s4 \<le> getLastLogIndex s4 \<and>
     ae_prevLogIndex a + int (length (ae_entries a)) \<le> getLastLogIndex s4"
proof -
  let ?M = "p_log p n" and ?L = "p_tlog p (ae_term a)" and ?m = "append_end a" and ?i = "nat (ae_prevLogIndex a)"
  have rep: "represents ?M s" using rel by (simp add: node_rel_def)
  have b: "snap s \<le> ?i" "?i \<le> length ?M" "ae_prevLogIndex a \<le> int (length ?M)" "int ?i = ae_prevLogIndex a"
    using prev representsD(2) [OF rep] represents_last(1) [OF rep] by (auto simp: nat_le_iff le_nat_iff)
  have mt: "ae_prevLogTerm a = termAt ?M ?i" using match by (simp add: represents_match [OF rep] split: if_splits)
  note am = append_req_matches [OF ok req b(3) mt]
  define L' where "L' = adopt ?m ?L ?M"
  have own: "own p (ae_term a) ?m" using req by (simp add: append_req_rel_def)
  have idx: "\<forall>j<length (ae_entries a). le_logIndex (ae_entries a ! j) = int ?i + int j + 1" using am(2) [OF ix] by blast
  have same: "\<forall>j<length (ae_entries a). ?i + j < length ?M \<and> le_logTerm (?M ! (?i + j)) = le_logTerm (ae_entries a ! j) \<longrightarrow> ?M ! (?i + j) = ae_entries a ! j"
    using am(3) by blast
  obtain ch tr where e: "AppendLoop (ae_entries a) (s, h, False) = Some (s \<lparr> rf_logs := drop (snap s) L' \<rparr>, ch, tr)"
    "represents L' (s \<lparr> rf_logs := drop (snap s) L' \<rparr>)"
    using AppendLoop_effect [OF rep b(1,2) idx same, of h False, unfolded am(1) L'_def [symmetric]] by blast
  have last: "getLastLogIndex (s \<lparr> rf_logs := drop (snap s) L' \<rparr>) = int (length L')" by (rule represents_last(1) [OF e(2)])
  have mlen: "?m \<le> length ?L" using own by (simp add: own_def)
  have "?m \<le> length L'" using length_from_take [OF take_adopt [OF mlen, of ?M] mlen] by (simp add: L'_def)
  then have 1: "ae_prevLogIndex a + int (length (ae_entries a)) \<le> int (length L')" using b(4) by (simp add: append_end_def)
  note com = node_committed [OF ok rel]
  have le: "p_term p n \<le> ae_term a" using rel T by (auto simp: node_rel_def dest: term_rel_le)
  have "take (p_commit p n) L' = take (p_commit p n) ?M"
    unfolding L'_def using majority.accept_keeps_settled [OF _ com(1) le own] ok by (simp add: proto_ok_def)
  then have "p_commit p n \<le> length L'" using length_from_take com(2) by blast
  then have "rf_commitIndex s \<le> int (length L')" using com(4) by linarith
  then show ?thesis using e(1) last 1 by auto
qed

lemma AppendEntries_returns:
  assumes ok: "proto_ok (majorities {..<N}) p" and rel: "node_rel N p n s" and req: "append_req_rel N p (l, n, a)"
    and ix: "indexed (p_tlog p (ae_term a))"
  shows "\<exists>r s'. AppendEntriesRpc now a s = Some (r, s')"
proof (cases "rf_initialized s \<and> rf_currentTerm s \<le> ae_term a")
  case False
  then show ?thesis using rel by (cases "rf_initialized s") (simp_all add: AppendEntriesRpc_def AppendEntries1_def node_rel_def voters_ok_def)
next
  case True
  define s3 where "s3 = heard now (ae_term a) s"
  have removed: "\<not> rf_removed s" using rel by (simp add: node_rel_def voters_ok_def)
  note q = quiet_heard [OF rel True [THEN conjunct2], of now, folded s3_def]
  note rel3 = quietD(2) [OF q(1) ok]
  have rep: "represents (p_log p n) s3" using rel3 by (simp add: node_rel_def)
  show ?thesis
  proof (cases "rf_lastSnapshotIncludeIndex s3 \<le> ae_prevLogIndex a \<and> ae_prevLogIndex a \<le> getLastLogIndex s3")
    case out: False
    then show ?thesis
      using True removed unfolding AppendEntriesRpc_def AppendEntries1_def Let_def heard_def [symmetric] s3_def [symmetric] by auto
  next
    case inside: True
    then obtain b where b: "matchLog (ae_prevLogIndex a) (ae_prevLogTerm a) s3 = Some b"
      using representsD(2) [OF rep] by (simp add: represents_match [OF rep] represents_last(1) [OF rep])
    show ?thesis
    proof (cases b)
      case False
      then show ?thesis
        using True removed inside b unfolding AppendEntriesRpc_def AppendEntries1_def Let_def heard_def [symmetric] s3_def [symmetric] by auto
    next
      case match: True
      obtain s4 ch tr where l: "AppendLoop (ae_entries a) (s3, rf_currentTerm s < ae_term a, False) = Some (s4, ch, tr)"
        "rf_commitIndex s4 \<le> getLastLogIndex s4" "ae_prevLogIndex a + int (length (ae_entries a)) \<le> getLastLogIndex s4"
        using AppendLoop_returns [OF ok rel3 req ix q(2), of "rf_currentTerm s < ae_term a"] inside b match by auto
      have "getLastLogIndex (s4 \<lparr> rf_commitIndex := x \<rparr>) = getLastLogIndex s4" for x
        by (simp add: getLastLogIndex_def getLastLogIndexAndTerm_def)
      then show ?thesis
        using True removed inside b match l unfolding AppendEntriesRpc_def AppendEntries1_def Let_def heard_def [symmetric] s3_def [symmetric]
        by auto
    qed
  qed
qed


section \<open>Well-formed nodes\<close>

text \<open>The consistency of the fields of a node, as an executable check.\<close>

definition node_wf :: "nat \<Rightarrow> Raft \<Rightarrow> bool" where
  "node_wf N s \<longleftrightarrow> length (rf_peers s) = N \<and> length (rf_peerRoles s) = N \<and> length (rf_nextIndex s) = N \<and> length (rf_matchIndex s) = N \<and>
     0 \<le> rf_lastSnapshotIncludeIndex s \<and> 0 \<le> rf_commitIndex s \<and> rf_commitIndex s \<le> getLastLogIndex s \<and>
     map le_logIndex (rf_logs s) = [rf_lastSnapshotIncludeIndex s + 1..getLastLogIndex s] \<and>
     sorted (rf_lastSnapshotIncludeTerm s # map le_logTerm (rf_logs s)) \<and> getLastLogTerm s \<le> rf_currentTerm s \<and>
     rs_logs (durable s) = rf_logs s \<and> rs_lastSnapshotIncludeIndex (durable s) = rf_lastSnapshotIncludeIndex s \<and>
     rs_currentTerm (durable s) \<le> rf_currentTerm s"

lemma log_terms:
  assumes ok: "proto_ok (majorities {..<N}) p"
  shows "sorted (map (termAt (p_log p n)) [k..<Suc (length (p_log p n))])"
proof -
  let ?L = "p_log p n"
  have lok: "logs_ok p" and good: "good_log p ?L" using ok by (simp_all add: proto_ok_def logs_okD)
  have "termAt ?L i \<le> termAt ?L j" if "i \<le> j" "j \<le> length ?L" for i j
  proof (cases "i = 0")
    case True
    have "0 \<le> termAt ?L j"
    proof (cases "j = 0")
      case False
      then have "p_elected p (termAt ?L j) \<noteq> None" using good that(2) by (simp add: good_log_def)
      then have "own p (termAt ?L j) (length (p_tlog p (termAt ?L j)))" using elections_okD(1) ok by (auto simp: proto_ok_def)
      then have "0 < termAt ?L j" using majority.elected_pos [of p N] ok by (auto simp: proto_ok_def)
      then show ?thesis by simp
    qed simp
    then show ?thesis using True by simp
  next
    case False
    then show ?thesis using good_log_sorted [OF lok good that] by simp
  qed
  then show ?thesis by (auto simp: sorted_iff_nth_mono simp del: upt_Suc)
qed

lemma node_rel_wf:
  assumes ok: "proto_ok (majorities {..<N}) p" and rel: "node_rel N p n s"
  shows "node_wf N s"
proof -
  let ?L = "p_log p n" and ?k = "snap s"
  have rep: "represents ?L s" and v: "voters_ok N n s" and t: "term_rel p n s" and d: "log_durable s" and c: "0 \<le> rf_commitIndex s"
    using rel by (simp_all add: node_rel_def)
  note r = representsD [OF rep] and last = represents_last [OF rep] and com = node_committed [OF ok rel]
  have "map le_logIndex (drop ?k ?L) = [int ?k + 1..int (length ?L)]"
    using r(1,3) by (intro nth_equalityI) (auto simp: indexed_def)
  moreover have "termAt ?L ?k # map le_logTerm (drop ?k ?L) = map (termAt ?L) [?k..<Suc (length ?L)]"
    using r(3) by (intro nth_equalityI) (auto simp: nth_Cons termAt_def simp del: upt_Suc split: nat.splits)
  moreover have "lastTerm ?L \<le> rf_currentTerm s"
  proof (cases "?L = []")
    case False
    have "terms_upto (p_term p n) ?L" using ok by (simp add: proto_ok_def logs_okD)
    then have "lastTerm ?L \<le> p_term p n" using False by (auto simp: terms_upto_def)
    then show ?thesis using term_rel_le [OF t] by simp
  next
    case True
    have "0 \<le> p_term p n" using ok by (simp add: proto_ok_def votes_ok_def)
    then show ?thesis using True term_rel_le [OF t] by simp
  qed
  moreover have "rf_commitIndex s \<le> int (length ?L)" using com(2,4) by linarith
  ultimately show ?thesis
    using r v c d t log_terms [OF ok, of n ?k] last term_rel_le [OF t]
    by (simp add: node_wf_def voters_ok_def log_durable_def term_rel_def del: upt_Suc)
qed




text \<open>
  C37. A node that receives an append request that was sent in a run, however late, answers it: none of the assertions of the
  handler fails, in particular an entry with the index and term of a stored one never carries a different command.\<close>

theorem append_request_is_answered:
  assumes "cluster_run N c" "(m, n, a) \<in> cl_appendReqs c"
  shows "\<exists>r s. AppendEntriesRpc now a (cl_node c n) = Some (r, s)"
proof -
  obtain p where rel: "cluster_rel N p c" using cluster_run_rel [OF assms(1)] by blast
  note req = cluster_relD(6) [OF rel assms(2)]
  have "n < N" "indexed (p_tlog p (ae_term a))" using req cluster_relD(13) [OF rel] by (auto simp: append_req_rel_def own_def)
  then show ?thesis using AppendEntries_returns [OF cluster_relD(1,2) [OF rel] req] by blast
qed

theorem append_request_is_answered_witness:
  "\<exists>c. cluster_run 3 c \<and> (0, 1, ex_append 1 1 [] 1) \<in> cl_appendReqs c \<and> (\<exists>r s. AppendEntriesRpc 0 (ex_append 1 1 [] 1) (cl_node c 1) = Some (r, s))"
proof -
  obtain c where c: "cluster_run 3 c" "(0, 1, ex_append 1 1 [] 1) \<in> cl_appendReqs c" using ex_run by blast
  then show ?thesis using append_request_is_answered [OF c] by blast
qed

end
