(* ===== verification/RaftSnapshots.thy ===== *)
theory RaftSnapshots
  imports RaftNode
begin

text \<open>
  The transfer of a snapshot in chunks: the loop of \<open>leaderSendSnapShot\<close> against the assembly in \<open>InstallSnapshot\<close>.
\<close>

section \<open>The loop of the sender\<close>

lemma SnapshotChunks_end: "offset \<ge> length d \<or> c = 0 \<Longrightarrow> SnapshotChunks c d offset = []"
  by (simp add: SnapshotChunks.simps)

lemma SnapshotChunks_step:
  "\<lbrakk> offset < length d; 0 < c; k = min c (length d - offset) \<rbrakk> \<Longrightarrow>
     SnapshotChunks c d offset = (offset, take k (drop offset d), offset + k \<ge> length d) # SnapshotChunks c d (offset + k)"
  by (simp add: SnapshotChunks.simps Let_def)

lemma length_SnapshotChunks: "0 < c \<Longrightarrow> length (SnapshotChunks c d offset) = (length d - offset + c - 1) div c"
proof (induction c d offset rule: SnapshotChunks.induct)
  case (1 c d offset)
  show ?case
  proof (cases "offset < length d")
    case False
    then show ?thesis using 1(2) by (simp add: SnapshotChunks_end)
  next
    case True
    let ?k = "min c (length d - offset)"
    have IH: "length (SnapshotChunks c d (offset + ?k)) = (length d - (offset + ?k) + c - 1) div c" using 1 True by simp
    have "(length d - offset + c - 1) div c = Suc ((length d - (offset + ?k) + c - 1) div c)"
    proof (cases "c \<le> length d - offset")
      case True
      then have "length d - offset + c - 1 = (length d - (offset + ?k) + c - 1) + c" using 1(2) by simp
      then show ?thesis using 1(2) by (simp only: div_add_self2)
    next
      case False
      then have e: "length d - offset + c - 1 = (length d - offset - 1) + c" "length d - offset - 1 < c" "length d - (offset + ?k) + c - 1 < c"
        using True 1(2) by auto
      show ?thesis unfolding e(1) using div_add_self2 [of c "length d - offset - 1"] div_less [OF e(2)] div_less [OF e(3)] 1(2) by simp
    qed
    then show ?thesis using IH SnapshotChunks_step [OF True 1(2) refl] by simp
  qed
qed

section \<open>The assembly at the receiver\<close>

text \<open>The buffer of the receiver over a sequence of requests, with the outcome of the last one.\<close>

definition ReceiveChunks :: "InstallSnapshotRequest list \<Rightarrow> string \<Rightarrow> string option \<times> string" where
  "ReceiveChunks rs buffer = foldl (\<lambda>(out, buffer) r. ReceiveChunk r buffer) (None, buffer) rs"

definition chunk_request :: "Raft \<Rightarrow> nat \<times> string \<times> bool \<Rightarrow> InstallSnapshotRequest" where
  "chunk_request s = (\<lambda>(offset, bytes, final). \<lparr> is_leaderId = rf_me s, is_term = rf_currentTerm s,
       is_lastSnapshotIncludeIndex = rf_lastSnapshotIncludeIndex s, is_lastSnapshotIncludeTerm = rf_lastSnapshotIncludeTerm s,
       is_data = bytes, is_chunkOffset = offset, is_chunkDone = final \<rparr>)"

lemma SnapshotRequests_eq: "SnapshotRequests s = map (chunk_request s) (SnapshotChunks snapshotChunkSize (rf_snapshot s) 0)"
  by (simp add: SnapshotRequests_def chunk_request_def)

text \<open>From any offset behind the first chunk the buffer is the prefix of the snapshot up to the offset.\<close>

lemma receive_rest:
  assumes "0 < c" "0 < offset" "offset < length d"
  shows "foldl (\<lambda>(out, buffer) r. ReceiveChunk r buffer) (x, take offset d) (map (chunk_request s) (SnapshotChunks c d offset)) = (Some d, [])"
  using assms
proof (induction c d offset arbitrary: x rule: SnapshotChunks.induct)
  case (1 c d offset)
  let ?k = "min c (length d - offset)"
  have app: "take offset d @ take ?k (drop offset d) = take (offset + ?k) d" by (simp add: take_add)
  show ?case
  proof (cases "offset + ?k \<ge> length d")
    case True
    then show ?thesis
      using 1(2-4) app SnapshotChunks_step [of offset d c ?k]
      by (simp add: SnapshotChunks_end chunk_request_def ReceiveChunk_def Let_def min_def)
  next
    case False
    then show ?thesis
      using 1(1) [of ?k None] 1(2-4) app SnapshotChunks_step [of offset d c ?k]
      by (simp add: chunk_request_def ReceiveChunk_def Let_def min_def)
  qed
qed


lemma chunk_flags:
  "list_all (\<lambda>x. \<not> snd (snd x)) (butlast (SnapshotChunks c d offset))"
proof (induction c d offset rule: SnapshotChunks.induct)
  case (1 c d offset)
  show ?case
  proof (cases "offset < length d \<and> 0 < c")
    case True
    let ?k = "min c (length d - offset)"
    note step = SnapshotChunks_step [of offset d c ?k]
    show ?thesis
    proof (cases "offset + ?k \<ge> length d")
      case True
      then show ?thesis using step \<open>offset < length d \<and> 0 < c\<close> by (simp add: SnapshotChunks_end)
    next
      case False
      then have "\<not> length d \<le> offset + c" by simp
      then show ?thesis using step 1 True by simp
    qed
  qed (auto simp: SnapshotChunks_end)
qed

lemma receive_incomplete:
  "list_all (\<lambda>x. \<not> snd (snd x)) xs \<Longrightarrow> fst (foldl (\<lambda>(out, buffer) r. ReceiveChunk r buffer) (None, buffer) (map (chunk_request s) xs)) = None"
proof (induction xs arbitrary: buffer)
  case (Cons x xs)
  obtain b where "ReceiveChunk (chunk_request s x) buffer = (None, b)"
    using Cons.prems by (cases x) (auto simp: ReceiveChunk_def chunk_request_def Let_def)
  then show ?case using Cons by simp
qed simp

lemma chunk_sizes: "list_all (\<lambda>x. 0 < length (fst (snd x)) \<and> length (fst (snd x)) \<le> c) (SnapshotChunks c d offset)"
proof (induction c d offset rule: SnapshotChunks.induct)
  case (1 c d offset)
  show ?case
  proof (cases "offset < length d \<and> 0 < c")
    case True
    then show ?thesis using SnapshotChunks_step [of offset d c "min c (length d - offset)"] 1 by auto
  qed (auto simp: SnapshotChunks_end)
qed

section \<open>Properties\<close>

text \<open>
  C39. The requests that a leader sends for its snapshot, delivered in order, give the snapshot back with the last request and
  not before, whatever an earlier transfer that broke off has left in the buffer of the receiver.\<close>

theorem snapshot_transfer_round_trip:
  assumes "rf_snapshot s \<noteq> []"
  shows "ReceiveChunks (SnapshotRequests s) buffer = (Some (rf_snapshot s), []) \<and>
    fst (ReceiveChunks (butlast (SnapshotRequests s)) buffer) = None"
proof -
  let ?d = "rf_snapshot s" and ?c = snapshotChunkSize
  let ?k = "min ?c (length ?d)" and ?f = "\<lambda>(out, buffer) r. ReceiveChunk r buffer"
  have pos: "0 < ?c" by (simp add: snapshotChunkSize_def)
  have step: "SnapshotChunks ?c ?d 0 = (0, take ?k ?d, ?k \<ge> length ?d) # SnapshotChunks ?c ?d ?k"
    using SnapshotChunks_step [of 0 ?d ?c ?k] assms pos by simp
  have "foldl ?f (None, buffer) (map (chunk_request s) (SnapshotChunks ?c ?d 0)) = (Some ?d, [])"
  proof (cases "?k \<ge> length ?d")
    case True
    then show ?thesis using step by (simp add: SnapshotChunks_end chunk_request_def ReceiveChunk_def)
  next
    case False
    then have "foldl ?f (None, buffer) (map (chunk_request s) (SnapshotChunks ?c ?d 0)) =
        foldl ?f (None, take ?k ?d) (map (chunk_request s) (SnapshotChunks ?c ?d ?k))"
      using step by (simp add: chunk_request_def ReceiveChunk_def)
    then show ?thesis using receive_rest [of ?c ?k ?d None s] False pos assms by simp
  qed
  moreover have "fst (foldl ?f (None, buffer) (map (chunk_request s) (butlast (SnapshotChunks ?c ?d 0)))) = None"
    by (rule receive_incomplete [OF chunk_flags])
  ultimately show ?thesis by (simp add: ReceiveChunks_def SnapshotRequests_eq map_butlast)
qed

theorem snapshot_transfer_round_trip_witness:
  "ReceiveChunks (SnapshotRequests ((init [True] 0 None ''snapshot'' 1 [1] [] 0))) ''stale'' = (Some ''snapshot'', [])"
proof -
  let ?s = "init [True] 0 None ''snapshot'' 1 [1] [] 0"
  have "rf_snapshot ?s = ''snapshot''" by (simp add: init_def init_roles_def Let_def)
  then show ?thesis using snapshot_transfer_round_trip [of ?s "''stale''"] by simp
qed

text \<open>
  C40. The loop that sends a snapshot ends: a snapshot of \<open>n\<close> bytes takes the quotient of \<open>n\<close> by the chunk size, rounded up,
  requests, each with at least one byte and at most a chunk.\<close>

theorem snapshot_transfer_ends:
  "length (SnapshotRequests s) = (length (rf_snapshot s) + snapshotChunkSize - 1) div snapshotChunkSize \<and>
   list_all (\<lambda>r. 0 < length (is_data r) \<and> length (is_data r) \<le> snapshotChunkSize) (SnapshotRequests s)"
  using length_SnapshotChunks [of snapshotChunkSize "rf_snapshot s" 0] chunk_sizes [of snapshotChunkSize "rf_snapshot s" 0]
  by (auto simp: SnapshotRequests_eq list.pred_map chunk_request_def snapshotChunkSize_def case_prod_unfold comp_def)

end
