(* ===== verification/Spec2Isabelle.thy ===== *)
theory Spec2Isabelle
  imports HlcOracle MvccCommands ShardRouting MetadataProperties RaftWellFormed RaftSnapshots
begin

text \<open>
  StrataKV is a distributed transactional key-value store. Keys are split into regions; every region is replicated
  by a Raft group; a replica applies committed commands to a multi-version storage over RocksDB; clients route keys
  to regions through a cache of region descriptors that a replicated metadata service publishes; a timestamp
  service orders transactions. This development models the parts below from their C++ sources under \<open>src/src\<close> and
  proves what each promises to the others. Definitions keep the names of the functions they translate.

  \<^bold>\<open>Conventions.\<close> A class is a record, a method a function from the state to its result and the next state, run
  atomically where the code holds the object's mutex. \<open>uint64_t\<close> is the type of 64-bit words where wrap-around
  matters; the \<open>int\<close> of the Raft code is a mathematical integer. \<open>std::string\<close> is a list of characters with the
  bytewise order. Exceptions are left values or \<open>None\<close>; \<open>None\<close> also stands for a failed assertion, which ends the
  process, and for a call that does not return. Clock readings, replies of other processes and the outcome of file
  operations are arguments. Code that is not in the repository (RocksDB, the serialisers that protoc generates, the
  Boost archive) is a parameter whose documented behaviour is a locale assumption or a named hypothesis.

  \<^bold>\<open>StrataPrelude.\<close> Words, ordered association lists (\<open>std::map\<close>), and the facts that the components share.

  \<^bold>\<open>Storage.\<close> \<open>KvEngine\<close> has the interface \<open>IKVEngine\<close> as a record of operations and its RocksDB implementation
  (\<open>storage/rocksdb_kv_engine.cpp\<close>) over a database parameter; the locale \<open>kv_engine\<close> is the contract the layers
  above use, and the RocksDB engine is an interpretation of it. \<open>MvccCodec\<close> has the record and key formats of
  \<open>transaction/mvcc_storage.cpp\<close> with their round trips and the inputs on which decoding does not end. \<open>MvccTypes\<close>
  and \<open>MvccStorage\<close> have the class \<open>MvccStorage\<close>: reads, scans, prewrite, pessimistic locks, commit, rollback,
  status checks, heartbeats, prepared commands and their atomic application, garbage collection, snapshots and
  recovery. \<open>MvccEffects\<close> reduces every mutation to three effects on one key, \<open>MvccRequests\<close> shows that the checks of
  the operations establish the guards of the effects, and \<open>MvccMachine\<close> turns the calls into a state machine.
  \<open>MvccInvariants\<close> has the invariant of a key and the agreement of indexes and engine rows, \<open>MvccReads\<close> relates scans
  to point reads, \<open>MvccRecovery\<close> shows that a restart or a transferred snapshot changes no answer and that no update
  is lost, \<open>MvccSnapshots\<close> shows that snapshots are stable, decisions final and garbage collection invisible, and
  \<open>MvccCommands\<close> relates commands applied in groups, one at a time, again, or directly.

  \<^bold>\<open>Timestamps.\<close> \<open>HlcOracle\<close> has the hybrid timestamps and the durable allocator (\<open>transaction/timestamp_oracle.cpp\<close>)
  with failing file replacements, crashes and clock regressions; the timestamps it hands out increase strictly.

  \<^bold>\<open>Routing.\<close> \<open>RegionMetadata\<close> has descriptors and the validated catalog (\<open>transaction/region_metadata.cpp\<close>),
  \<open>RegionCache\<close> the published route table and its refresh (\<open>transaction/region_cache.cpp\<close>), \<open>ShardRouting\<close> the router
  (\<open>transaction/shard_router.cpp\<close>) and the checks of a server on the header of a request
  (\<open>server/region_request_validator.cpp\<close>). Catalogs resolve every key to one region, an accepted topology response
  changes the routes of its interval only and never goes back to an older epoch, and servers accept what they own.

  \<^bold>\<open>Metadata service.\<close> \<open>MetadataTypes\<close> and \<open>MetadataMachine\<close> have the replicated state machine
  (\<open>metadata/metadata_state_machine.cpp\<close>): bootstrap, splits, migrations, heartbeats, balancer configuration,
  scheduling operators, identifier allocation, deduplication, publication, snapshot and restore.
  \<open>MetadataHandlers\<close> collects what all handlers keep; \<open>MetadataProperties\<close> has the reachable states and the properties.

  \<^bold>\<open>Raft.\<close> \<open>RaftCodec\<close> has the bytes of commands and of the durable state, \<open>RaftPersister\<close> the files
  (\<open>raft/persister.cpp\<close>) with writes that stop at any byte, \<open>RaftNode\<close> the handlers of \<open>raft/raft.cpp\<close>.
  \<open>RaftProtocol\<close> is an abstract specification of the protocol with the safety argument, in a locale over quorum
  systems that the majorities of the code interpret. \<open>RaftLog\<close> describes the handlers in terms of the complete log,
  \<open>RaftCluster\<close> is the step relation of a cluster that runs them, \<open>RaftSimulation\<close> matches every handler with protocol
  steps, and \<open>RaftSafety\<close> concludes that a term has one leader and that state machines receive the same commands.
  \<open>RaftWellFormed\<close> has the invariant of the fields of a node and that append requests never hit an assertion;
  \<open>RaftSnapshots\<close> has the transfer of a snapshot in chunks.

  \<^bold>\<open>Bounds and recursion.\<close> Loops over containers are structural. \<open>DecodeFieldsLoop\<close> is a partial function because the
  source may loop forever; on encoded input it is shown to return. \<open>SnapshotChunks\<close> has a measure, the bytes left.
  No definition uses fuel. Clusters have any number of nodes, runs any length.

  \<^bold>\<open>Limits of the model.\<close> The membership of a Raft cluster is fixed in the step relation: \<open>ApplyConfChange\<close> is
  modelled but is not a step. A snapshot is installed on a node whose log ends before it or agrees with it; the code
  keeps a conflicting suffix, see \<open>agrees_with_snapshot\<close>. Writes of a node succeed in \<open>RaftNode\<close>, while
  \<open>RaftPersister\<close> models their failure. Threads appear as the interleaving of their critical sections.

  \<^bold>\<open>Not modelled.\<close> Process start-up, command line tools, logging, metrics, thread pools, sockets and the RPC
  framework are I/O without state of the protocols. The region peer, the transaction scheduler and the client
  side request senders are threads, latches and retries around the operations modelled here. The auto balancer
  scores floating point observations. Reading configuration files and RocksDB checkpoints is file system I/O.
\<close>

end
